(* ===== verification/Tts_Prelude.thy ===== *)
theory Tts_Prelude
  imports Complex_Main "HOL-Library.Sublist"
begin

text \<open>
  Shared vocabulary of the development: the simplification collections that the component
  theories fill, the result convention of the C functions, and the generic list and map lemmas
  that several components use.

  Conventions of the model, used everywhere:
  \<^item> a C string is a HOL \<^typ>\<open>string\<close> (a list of bytes) without its terminating NUL; a
    \<^verbatim>\<open>char*\<close> that may be NULL is a \<^typ>\<open>string option\<close>;
  \<^item> a pointer argument that the code tests against NULL is an option, so the NULL branch of every
    function is a branch of its model;
  \<^item> \<^verbatim>\<open>g_malloc\<close> aborts the process when memory runs out, so it never returns NULL for a
    positive size and returns NULL for size 0.
\<close>

named_theorems op_defs "definitions of the operations of a component"
named_theorems inv_defs "definitions of the invariants of a component"

subsection \<open>Lists\<close>

lemma length_dropWhile_le [termination_simp, simp]: "length (dropWhile P xs) \<le> length xs"
  by (induction xs) auto

lemma length_dropWhile_less_Suc [termination_simp]: "length (dropWhile P xs) < Suc (length xs)"
  by (simp add: less_Suc_eq_le)

lemma filter_dropWhile_not: "filter P (dropWhile (\<lambda>x. \<not> P x) xs) = filter P xs"
  by (induction xs) auto

lemma hd_dropWhile_not: "dropWhile P xs \<noteq> [] \<Longrightarrow> \<not> P (hd (dropWhile P xs))"
  by (induction xs) auto

lemma set_dropWhile_subset: "set (dropWhile P xs) \<subseteq> set xs"
  by (induction xs) auto

lemma find_Some_in: "find P xs = Some x \<Longrightarrow> x \<in> set xs \<and> P x"
  by (induction xs) (auto split: if_splits)

lemma concat_filter_Nil: "concat (filter (\<lambda>xs. xs \<noteq> []) xss) = concat xss"
  by (induction xss) auto

lemma distinct_nthD: "distinct xs \<Longrightarrow> i < length xs \<Longrightarrow> j < length xs \<Longrightarrow> xs ! i = xs ! j \<Longrightarrow> i = j"
  by (simp add: nth_eq_iff_index_eq)

subsection \<open>Maps used as heaps\<close>

lemma dom_map_upd_None [simp]: "dom (m(a := None)) = dom m - {a}"
  by (auto simp: dom_def)

end
