(* ===== verification/C_Strings.thy ===== *)
theory C_Strings
  imports Tts_Prelude "HOL-Library.Word"
begin

text \<open>
  The part of the C library and of \<^verbatim>\<open>printf\<close> that the plugin uses on strings: the character
  classes of \<^verbatim>\<open>ctype.h\<close> (in a locale where no byte from 128 on has a class, such as C or any
  UTF-8 locale), \<^verbatim>\<open>strstr\<close>, \<^verbatim>\<open>strncmp\<close> against a literal prefix, \<^verbatim>\<open>strchr\<close>, the
  conversions \<^verbatim>\<open>%d\<close> and \<^verbatim>\<open>%u\<close>, and \<^verbatim>\<open>atoi\<close> as glibc computes it (\<^verbatim>\<open>strtol\<close>
  saturated to 64 bits, then converted to 32 bits).
\<close>

subsection \<open>Bytes and character classes\<close>

definition byte :: "char \<Rightarrow> nat" where
  "byte c = of_char c"

definition c_isspace :: "char \<Rightarrow> bool" where
  "c_isspace c \<longleftrightarrow> byte c = 32 \<or> (9 \<le> byte c \<and> byte c \<le> 13)"

definition c_isdigit :: "char \<Rightarrow> bool" where
  "c_isdigit c \<longleftrightarrow> 48 \<le> byte c \<and> byte c \<le> 57"

definition c_isupper :: "char \<Rightarrow> bool" where
  "c_isupper c \<longleftrightarrow> 65 \<le> byte c \<and> byte c \<le> 90"

definition c_islower :: "char \<Rightarrow> bool" where
  "c_islower c \<longleftrightarrow> 97 \<le> byte c \<and> byte c \<le> 122"

definition c_isalpha :: "char \<Rightarrow> bool" where
  "c_isalpha c \<longleftrightarrow> c_isupper c \<or> c_islower c"

lemmas ctype_defs = c_isspace_def c_isdigit_def c_isupper_def c_islower_def c_isalpha_def

lemma byte_less_256: "byte c < 256"
  by (simp add: byte_def)

lemma byte_inject: "byte c = byte d \<longleftrightarrow> c = d"
  by (simp add: byte_def)

lemma byte_char_of: "n < 256 \<Longrightarrow> byte (char_of n) = n"
  by (simp add: byte_def of_char_of)

lemma c_isspace_iff:
  "c_isspace c \<longleftrightarrow> c = CHR '' '' \<or> c = CHR 0x09 \<or> c = CHR 0x0A \<or> c = CHR 0x0B \<or> c = CHR 0x0C \<or> c = CHR 0x0D"
proof -
  have "c_isspace c \<longleftrightarrow> byte c \<in> {32, 9, 10, 11, 12, 13}"
    unfolding c_isspace_def by (simp add: le_less_Suc_eq Suc_le_eq numeral_eq_Suc) arith
  also have "\<dots> \<longleftrightarrow> byte c \<in> byte ` {CHR '' '', CHR 0x09, CHR 0x0A, CHR 0x0B, CHR 0x0C, CHR 0x0D}"
    by (simp add: byte_def)
  finally show ?thesis
    by (auto simp: byte_inject)
qed

lemma c_isspace_space [simp]: "c_isspace CHR '' ''"
  by (simp add: c_isspace_iff)

lemma c_isspace_not_digit: "c_isspace c \<Longrightarrow> \<not> c_isdigit c"
  by (auto simp: ctype_defs)

subsection \<open>Searching\<close>

text \<open>\<^verbatim>\<open>strncmp (s, p, strlen (p)) == 0\<close> is \<^term>\<open>prefix p s\<close>; \<^verbatim>\<open>strstr (s, p) != NULL\<close>:\<close>

fun strstr :: "string \<Rightarrow> string \<Rightarrow> bool" where
  "strstr [] p = (p = [])"
| "strstr (c # s) p = (prefix p (c # s) \<or> strstr s p)"

lemma strstr_iff_sublist: "strstr s p \<longleftrightarrow> sublist p s"
  by (induction s) (auto simp: sublist_Cons_right)

text \<open>\<^verbatim>\<open>g_strcmp0 (a, b) == 0\<close> on pointers that may be NULL is equality of the options.\<close>

subsection \<open>Decimal output\<close>

definition digit_char :: "nat \<Rightarrow> char" where
  "digit_char d = char_of (48 + d)"

fun fmt_nat :: "nat \<Rightarrow> string" where
  "fmt_nat n = (if n < 10 then [digit_char n] else fmt_nat (n div 10) @ [digit_char (n mod 10)])"

declare fmt_nat.simps [simp del]

definition fmt_int :: "int \<Rightarrow> string" where
  "fmt_int i = (if i < 0 then CHR ''-'' # fmt_nat (nat (- i)) else fmt_nat (nat i))"

subsection \<open>Decimal input\<close>

definition digit_val :: "char \<Rightarrow> nat" where
  "digit_val c = byte c - 48"

definition digits_value :: "string \<Rightarrow> nat" where
  "digits_value ds = foldl (\<lambda>n c. 10 * n + digit_val c) 0 ds"

definition saturate64 :: "int \<Rightarrow> int" where
  "saturate64 i = max (- (2 ^ 63)) (min (2 ^ 63 - 1) i)"

definition to_int32 :: "int \<Rightarrow> int" where
  "to_int32 i = sint (word_of_int i :: 32 word)"

fun split_sign :: "string \<Rightarrow> bool \<times> string" where
  "split_sign [] = (False, [])"
| "split_sign (c # s) = (if c = CHR ''-'' then (True, s) else if c = CHR ''+'' then (False, s) else (False, c # s))"

definition c_atoi :: "string \<Rightarrow> int" where
  "c_atoi s = (case split_sign (dropWhile c_isspace s) of (neg, r) \<Rightarrow>
     let v = int (digits_value (takeWhile c_isdigit r))
     in to_int32 (saturate64 (if neg then - v else v)))"

lemma byte_digit_char: "d < 10 \<Longrightarrow> byte (digit_char d) = 48 + d"
  by (simp add: digit_char_def byte_char_of)

lemma digit_char_isdigit: "d < 10 \<Longrightarrow> c_isdigit (digit_char d)"
  by (simp add: c_isdigit_def byte_digit_char)

lemma digit_val_digit_char: "d < 10 \<Longrightarrow> digit_val (digit_char d) = d"
  by (simp add: digit_val_def byte_digit_char)

lemma digits_value_snoc: "digits_value (ds @ [c]) = 10 * digits_value ds + digit_val c"
  by (simp add: digits_value_def)

lemma digits_value_fmt_nat: "digits_value (fmt_nat n) = n"
proof (induction n rule: fmt_nat.induct)
  case (1 n)
  show ?case
  proof (cases "n < 10")
    case True
    then show ?thesis
      by (simp add: fmt_nat.simps [of n] digits_value_def digit_val_digit_char)
  next
    case False
    with "1.IH" have "digits_value (fmt_nat n) = 10 * (n div 10) + n mod 10"
      by (simp add: fmt_nat.simps [of n] digits_value_snoc digit_val_digit_char)
    then show ?thesis by simp
  qed
qed

lemma fmt_nat_digits: "c \<in> set (fmt_nat n) \<Longrightarrow> c_isdigit c"
proof (induction n rule: fmt_nat.induct)
  case (1 n)
  then show ?case
    by (cases "n < 10") (auto simp: fmt_nat.simps [of n] digit_char_isdigit)
qed

lemma fmt_nat_not_Nil: "fmt_nat n \<noteq> []"
  by (simp add: fmt_nat.simps [of n])

lemma isdigit_not_sign: "c_isdigit c \<Longrightarrow> c \<noteq> CHR ''-'' \<and> c \<noteq> CHR ''+''"
  by (auto simp: c_isdigit_def byte_def)

lemma to_int32_id: "- (2 ^ 31) \<le> i \<Longrightarrow> i < 2 ^ 31 \<Longrightarrow> to_int32 i = i"
  by (simp add: to_int32_def sint_sbintrunc' signed_take_bit_int_eq_self)

lemma atoi_digits:
  assumes "\<forall>c \<in> set ds. c_isdigit c" and "ds \<noteq> []"
  shows "split_sign (dropWhile c_isspace ds) = (False, ds)"
proof -
  obtain c cs where ds: "ds = c # cs" using assms(2) by (cases ds) auto
  with assms(1) have "c_isdigit c" by simp
  then show ?thesis
    using c_isspace_not_digit [of c] isdigit_not_sign [of c] by (auto simp: ds)
qed

text \<open>Reading back what \<^verbatim>\<open>%d\<close> printed, for every 32-bit value.\<close>

lemma atoi_fmt_int:
  assumes "- (2 ^ 31) \<le> i" and "i < 2 ^ 31"
  shows "c_atoi (fmt_int i) = i"
proof -
  have tw: "takeWhile c_isdigit (fmt_nat n) = fmt_nat n" for n
    by (simp add: takeWhile_eq_all_conv fmt_nat_digits)
  have sat: "saturate64 i = i" using assms by (simp add: saturate64_def)
  show ?thesis
  proof (cases "i < 0")
    case True
    have "\<not> c_isspace CHR ''-''" by (simp add: c_isspace_iff)
    then have "split_sign (dropWhile c_isspace (fmt_int i)) = (True, fmt_nat (nat (- i)))"
      using True by (simp add: fmt_int_def)
    then show ?thesis
      using True assms sat by (simp add: c_atoi_def tw digits_value_fmt_nat to_int32_id)
  next
    case False
    then have "split_sign (dropWhile c_isspace (fmt_int i)) = (False, fmt_nat (nat i))"
      by (simp add: fmt_int_def atoi_digits fmt_nat_digits fmt_nat_not_Nil)
    then show ?thesis
      using False assms sat by (simp add: c_atoi_def tw digits_value_fmt_nat to_int32_id)
  qed
qed

end
