(* ===== verification/Tts_Error.thy ===== *)
theory Tts_Error
  imports C_Strings
begin

text \<open>
  \<^verbatim>\<open>tts-error.c\<close> and \<^verbatim>\<open>tts-error.h\<close>: the error codes and severities, the texts shown for them,
  error contexts, the reporting path (log line, then the registered callback) and the helpers for
  graceful degradation. The two static variables of the file and what it does to the outside (the
  lines on \<^verbatim>\<open>stderr\<close>, the callback invocations) are the record \<open>error_world\<close>. A callback is
  identified by a number; what the user interface does in it is modelled with the interface. The time
  stamp of a context and the formatted text of a variadic message are parameters.
\<close>

subsection \<open>Codes and texts\<close>

datatype tts_error =
    TTS_ERROR_OK
  | TTS_ERROR_INVALID_ARGUMENTS
  | TTS_ERROR_OUT_OF_MEMORY
  | TTS_ERROR_FILE_NOT_FOUND
  | TTS_ERROR_FILE_READ_FAILED
  | TTS_ERROR_FILE_WRITE_FAILED
  | TTS_ERROR_INVALID_CONFIG
  | TTS_ERROR_NO_ENGINE
  | TTS_ERROR_ENGINE_INIT_FAILED
  | TTS_ERROR_ENGINE_NOT_AVAILABLE
  | TTS_ERROR_ENGINE_SPEAK_FAILED
  | TTS_ERROR_ENGINE_PAUSE_FAILED
  | TTS_ERROR_ENGINE_STOP_FAILED
  | TTS_ERROR_ENGINE_CONFIG_FAILED
  | TTS_ERROR_NO_TEXT
  | TTS_ERROR_TEXT_EXTRACTION_FAILED
  | TTS_ERROR_INVALID_PAGE
  | TTS_ERROR_INVALID_SEGMENT
  | TTS_ERROR_AUDIO_FAILED
  | TTS_ERROR_STATE_INVALID
  | TTS_ERROR_SESSION_FAILED
  | TTS_ERROR_UI_FAILED
  | TTS_ERROR_SHORTCUT_FAILED
  | TTS_ERROR_COMMAND_FAILED
  | TTS_ERROR_PLUGIN_INIT_FAILED
  | TTS_ERROR_PLUGIN_CLEANUP_FAILED
  | TTS_ERROR_UNKNOWN

datatype tts_error_severity =
    TTS_ERROR_SEVERITY_INFO
  | TTS_ERROR_SEVERITY_WARNING
  | TTS_ERROR_SEVERITY_ERROR
  | TTS_ERROR_SEVERITY_CRITICAL

fun tts_error_get_string :: "tts_error \<Rightarrow> string" where
  "tts_error_get_string TTS_ERROR_OK = ''No error''"
| "tts_error_get_string TTS_ERROR_INVALID_ARGUMENTS = ''Invalid arguments''"
| "tts_error_get_string TTS_ERROR_OUT_OF_MEMORY = ''Out of memory''"
| "tts_error_get_string TTS_ERROR_FILE_NOT_FOUND = ''File not found''"
| "tts_error_get_string TTS_ERROR_FILE_READ_FAILED = ''File read failed''"
| "tts_error_get_string TTS_ERROR_FILE_WRITE_FAILED = ''File write failed''"
| "tts_error_get_string TTS_ERROR_INVALID_CONFIG = ''Invalid configuration''"
| "tts_error_get_string TTS_ERROR_NO_ENGINE = ''No TTS engine available''"
| "tts_error_get_string TTS_ERROR_ENGINE_INIT_FAILED = ''TTS engine initialization failed''"
| "tts_error_get_string TTS_ERROR_ENGINE_NOT_AVAILABLE = ''TTS engine not available''"
| "tts_error_get_string TTS_ERROR_ENGINE_SPEAK_FAILED = ''TTS engine speak failed''"
| "tts_error_get_string TTS_ERROR_ENGINE_PAUSE_FAILED = ''TTS engine pause failed''"
| "tts_error_get_string TTS_ERROR_ENGINE_STOP_FAILED = ''TTS engine stop failed''"
| "tts_error_get_string TTS_ERROR_ENGINE_CONFIG_FAILED = ''TTS engine configuration failed''"
| "tts_error_get_string TTS_ERROR_NO_TEXT = ''No text available''"
| "tts_error_get_string TTS_ERROR_TEXT_EXTRACTION_FAILED = ''Text extraction failed''"
| "tts_error_get_string TTS_ERROR_INVALID_PAGE = ''Invalid page''"
| "tts_error_get_string TTS_ERROR_INVALID_SEGMENT = ''Invalid text segment''"
| "tts_error_get_string TTS_ERROR_AUDIO_FAILED = ''Audio operation failed''"
| "tts_error_get_string TTS_ERROR_STATE_INVALID = ''Invalid state transition''"
| "tts_error_get_string TTS_ERROR_SESSION_FAILED = ''TTS session failed''"
| "tts_error_get_string TTS_ERROR_UI_FAILED = ''UI operation failed''"
| "tts_error_get_string TTS_ERROR_SHORTCUT_FAILED = ''Shortcut registration failed''"
| "tts_error_get_string TTS_ERROR_COMMAND_FAILED = ''Command execution failed''"
| "tts_error_get_string TTS_ERROR_PLUGIN_INIT_FAILED = ''Plugin initialization failed''"
| "tts_error_get_string TTS_ERROR_PLUGIN_CLEANUP_FAILED = ''Plugin cleanup failed''"
| "tts_error_get_string TTS_ERROR_UNKNOWN = ''Unknown error''"

fun tts_error_get_severity_string :: "tts_error_severity \<Rightarrow> string" where
  "tts_error_get_severity_string TTS_ERROR_SEVERITY_INFO = ''INFO''"
| "tts_error_get_severity_string TTS_ERROR_SEVERITY_WARNING = ''WARNING''"
| "tts_error_get_severity_string TTS_ERROR_SEVERITY_ERROR = ''ERROR''"
| "tts_error_get_severity_string TTS_ERROR_SEVERITY_CRITICAL = ''CRITICAL''"

fun user_base_message :: "tts_error \<Rightarrow> string" where
  "user_base_message TTS_ERROR_NO_ENGINE =
     ''No TTS engine is available. Please install Piper-TTS, Speech Dispatcher, or espeak-ng.''"
| "user_base_message TTS_ERROR_ENGINE_NOT_AVAILABLE =
     ''The requested TTS engine is not available. Trying fallback engines.''"
| "user_base_message TTS_ERROR_NO_TEXT =
     ''No readable text found on this page.''"
| "user_base_message TTS_ERROR_TEXT_EXTRACTION_FAILED =
     ''Failed to extract text from the document.''"
| "user_base_message TTS_ERROR_INVALID_PAGE =
     ''Cannot access the current page.''"
| "user_base_message TTS_ERROR_ENGINE_SPEAK_FAILED =
     ''TTS engine failed to speak. Trying alternative engine.''"
| "user_base_message TTS_ERROR_AUDIO_FAILED =
     ''Audio playback failed. Check your audio system.''"
| "user_base_message TTS_ERROR_INVALID_CONFIG =
     ''Invalid TTS configuration. Using default settings.''"
| "user_base_message TTS_ERROR_FILE_NOT_FOUND =
     ''TTS configuration file not found. Using default settings.''"
| "user_base_message TTS_ERROR_OUT_OF_MEMORY =
     ''Insufficient memory for TTS operation.''"
| "user_base_message e = tts_error_get_string e"

definition tts_error_get_user_message :: "tts_error \<Rightarrow> string option \<Rightarrow> string" where
  "tts_error_get_user_message e details =
     (case details of
        Some d \<Rightarrow> (if 0 < length d then user_base_message e @ '' ('' @ d @ '')'' else user_base_message e)
      | None \<Rightarrow> user_base_message e)"

subsection \<open>Error contexts\<close>

record tts_error_context =
  ec_error_code :: tts_error
  ec_severity :: tts_error_severity
  ec_message :: "string option"
  ec_details :: "string option"
  ec_component :: "string option"
  ec_function :: "string option"
  ec_line :: int
  ec_timestamp :: nat

definition tts_error_context_new ::
  "nat \<Rightarrow> tts_error \<Rightarrow> tts_error_severity \<Rightarrow> string option \<Rightarrow> string option \<Rightarrow> string option \<Rightarrow>
   string option \<Rightarrow> int \<Rightarrow> tts_error_context" where
  "tts_error_context_new now code severity message details component func line =
     \<lparr>ec_error_code = code, ec_severity = severity, ec_message = message, ec_details = details,
      ec_component = component, ec_function = func, ec_line = line, ec_timestamp = now\<rparr>"

definition tts_error_context_copy :: "nat \<Rightarrow> tts_error_context option \<Rightarrow> tts_error_context option" where
  "tts_error_context_copy now ctx =
     (case ctx of None \<Rightarrow> None
      | Some c \<Rightarrow> Some (tts_error_context_new now (ec_error_code c) (ec_severity c) (ec_message c)
          (ec_details c) (ec_component c) (ec_function c) (ec_line c)))"

subsection \<open>Reporting\<close>

record error_world =
  g_error_callback :: "nat option"
  g_error_callback_user_data :: "nat option"
  stderr_lines :: "string list"
  callback_calls :: "(nat \<times> tts_error_context \<times> nat option) list"

text \<open>The line \<^verbatim>\<open>tts_error_log\<close> prints; \<open>fmt_time\<close> is \<^verbatim>\<open>g_date_time_format\<close>.\<close>

definition error_log_line :: "(nat \<Rightarrow> string) \<Rightarrow> tts_error_context \<Rightarrow> string" where
  "error_log_line fmt_time c =
     ''['' @ fmt_time (ec_timestamp c) @ ''] TTS '' @ tts_error_get_severity_string (ec_severity c) @
     '': '' @ tts_error_get_string (ec_error_code c) @
     (case ec_message c of None \<Rightarrow> [] | Some m \<Rightarrow> '' - '' @ m) @
     (case ec_details c of None \<Rightarrow> [] | Some d \<Rightarrow> '' ('' @ d @ '')'') @
     (case (ec_component c, ec_function c) of
        (Some p, Some f) \<Rightarrow> '' ['' @ p @ '':'' @ f @ '':'' @ fmt_int (ec_line c) @ '']''
      | _ \<Rightarrow> [])"

definition tts_error_log :: "(nat \<Rightarrow> string) \<Rightarrow> tts_error_context option \<Rightarrow> error_world \<Rightarrow> error_world" where
  "tts_error_log fmt_time ctx w =
     (case ctx of None \<Rightarrow> w
      | Some c \<Rightarrow> w\<lparr>stderr_lines := stderr_lines w @ [error_log_line fmt_time c]\<rparr>)"

definition tts_error_log_simple ::
  "(nat \<Rightarrow> string) \<Rightarrow> nat \<Rightarrow> tts_error \<Rightarrow> string option \<Rightarrow> error_world \<Rightarrow> error_world" where
  "tts_error_log_simple fmt_time now code message w =
     tts_error_log fmt_time (Some (tts_error_context_new now code TTS_ERROR_SEVERITY_ERROR message None
       (Some ''TTS'') (Some ''unknown'') 0)) w"

definition tts_error_report_context ::
  "(nat \<Rightarrow> string) \<Rightarrow> tts_error_context option \<Rightarrow> error_world \<Rightarrow> error_world" where
  "tts_error_report_context fmt_time ctx w =
     (case ctx of None \<Rightarrow> w
      | Some c \<Rightarrow>
          let w1 = tts_error_log fmt_time ctx w
          in case g_error_callback w1 of
               None \<Rightarrow> w1
             | Some cb \<Rightarrow> w1\<lparr>callback_calls := callback_calls w1 @ [(cb, c, g_error_callback_user_data w1)]\<rparr>)"

text \<open>The format is given by its result, \<open>None\<close> for a NULL format.\<close>

definition tts_error_report ::
  "(nat \<Rightarrow> string) \<Rightarrow> nat \<Rightarrow> tts_error \<Rightarrow> tts_error_severity \<Rightarrow> string option \<Rightarrow> string option \<Rightarrow> int \<Rightarrow>
   string option \<Rightarrow> error_world \<Rightarrow> error_world" where
  "tts_error_report fmt_time now code severity component func line formatted w =
     (case formatted of None \<Rightarrow> w
      | Some m \<Rightarrow> tts_error_report_context fmt_time
          (Some (tts_error_context_new now code severity (Some m) None component func line)) w)"

definition tts_error_set_callback :: "nat option \<Rightarrow> nat option \<Rightarrow> error_world \<Rightarrow> error_world" where
  "tts_error_set_callback cb user_data w = w\<lparr>g_error_callback := cb, g_error_callback_user_data := user_data\<rparr>"

definition tts_error_clear_callback :: "error_world \<Rightarrow> error_world" where
  "tts_error_clear_callback w = w\<lparr>g_error_callback := None, g_error_callback_user_data := None\<rparr>"

subsection \<open>Graceful degradation\<close>

fun tts_error_should_retry :: "tts_error \<Rightarrow> bool" where
  "tts_error_should_retry TTS_ERROR_ENGINE_SPEAK_FAILED = True"
| "tts_error_should_retry TTS_ERROR_ENGINE_PAUSE_FAILED = True"
| "tts_error_should_retry TTS_ERROR_ENGINE_STOP_FAILED = True"
| "tts_error_should_retry TTS_ERROR_AUDIO_FAILED = True"
| "tts_error_should_retry TTS_ERROR_TEXT_EXTRACTION_FAILED = True"
| "tts_error_should_retry _ = False"

fun tts_error_is_recoverable :: "tts_error \<Rightarrow> bool" where
  "tts_error_is_recoverable TTS_ERROR_OUT_OF_MEMORY = False"
| "tts_error_is_recoverable TTS_ERROR_PLUGIN_INIT_FAILED = False"
| "tts_error_is_recoverable TTS_ERROR_PLUGIN_CLEANUP_FAILED = False"
| "tts_error_is_recoverable TTS_ERROR_INVALID_ARGUMENTS = True"
| "tts_error_is_recoverable TTS_ERROR_INVALID_CONFIG = True"
| "tts_error_is_recoverable TTS_ERROR_NO_ENGINE = True"
| "tts_error_is_recoverable TTS_ERROR_ENGINE_NOT_AVAILABLE = True"
| "tts_error_is_recoverable TTS_ERROR_NO_TEXT = True"
| "tts_error_is_recoverable TTS_ERROR_INVALID_PAGE = True"
| "tts_error_is_recoverable TTS_ERROR_INVALID_SEGMENT = True"
| "tts_error_is_recoverable e = tts_error_should_retry e"

fun tts_error_get_fallback_action :: "tts_error \<Rightarrow> tts_error" where
  "tts_error_get_fallback_action TTS_ERROR_ENGINE_NOT_AVAILABLE = TTS_ERROR_NO_ENGINE"
| "tts_error_get_fallback_action TTS_ERROR_ENGINE_INIT_FAILED = TTS_ERROR_NO_ENGINE"
| "tts_error_get_fallback_action TTS_ERROR_ENGINE_SPEAK_FAILED = TTS_ERROR_NO_ENGINE"
| "tts_error_get_fallback_action TTS_ERROR_INVALID_CONFIG = TTS_ERROR_OK"
| "tts_error_get_fallback_action TTS_ERROR_FILE_NOT_FOUND = TTS_ERROR_OK"
| "tts_error_get_fallback_action TTS_ERROR_FILE_READ_FAILED = TTS_ERROR_OK"
| "tts_error_get_fallback_action TTS_ERROR_NO_TEXT = TTS_ERROR_INVALID_PAGE"
| "tts_error_get_fallback_action TTS_ERROR_TEXT_EXTRACTION_FAILED = TTS_ERROR_INVALID_PAGE"
| "tts_error_get_fallback_action _ = TTS_ERROR_UNKNOWN"

subsection \<open>The texts identify the codes\<close>

definition all_tts_errors :: "tts_error list" where
  "all_tts_errors =
     [TTS_ERROR_OK, TTS_ERROR_INVALID_ARGUMENTS, TTS_ERROR_OUT_OF_MEMORY, TTS_ERROR_FILE_NOT_FOUND,
      TTS_ERROR_FILE_READ_FAILED, TTS_ERROR_FILE_WRITE_FAILED, TTS_ERROR_INVALID_CONFIG,
      TTS_ERROR_NO_ENGINE, TTS_ERROR_ENGINE_INIT_FAILED, TTS_ERROR_ENGINE_NOT_AVAILABLE,
      TTS_ERROR_ENGINE_SPEAK_FAILED, TTS_ERROR_ENGINE_PAUSE_FAILED, TTS_ERROR_ENGINE_STOP_FAILED,
      TTS_ERROR_ENGINE_CONFIG_FAILED, TTS_ERROR_NO_TEXT, TTS_ERROR_TEXT_EXTRACTION_FAILED,
      TTS_ERROR_INVALID_PAGE, TTS_ERROR_INVALID_SEGMENT, TTS_ERROR_AUDIO_FAILED,
      TTS_ERROR_STATE_INVALID, TTS_ERROR_SESSION_FAILED, TTS_ERROR_UI_FAILED,
      TTS_ERROR_SHORTCUT_FAILED, TTS_ERROR_COMMAND_FAILED, TTS_ERROR_PLUGIN_INIT_FAILED,
      TTS_ERROR_PLUGIN_CLEANUP_FAILED, TTS_ERROR_UNKNOWN]"

lemma all_tts_errors_complete: "e \<in> set all_tts_errors"
  by (cases e) (simp_all add: all_tts_errors_def)

lemma distinct_error_strings: "distinct (map tts_error_get_string all_tts_errors)"
  by (simp add: all_tts_errors_def)

lemma inj_error_string: "inj tts_error_get_string"
proof -
  have "inj_on tts_error_get_string (set all_tts_errors)"
    using distinct_error_strings by (simp add: distinct_map)
  then show ?thesis using all_tts_errors_complete by (auto simp: inj_def inj_on_def)
qed

lemma all_tts_errors_UNIV: "set all_tts_errors = UNIV"
  using all_tts_errors_complete by blast

text \<open>
  The log text determines the error code (no two codes share a text), and the message for the
  user is the base text, extended by the details in parentheses exactly when there are any.
\<close>

theorem error_texts_identify_codes:
  "(tts_error_get_string e = tts_error_get_string e') = (e = e') \<and>
   (tts_error_get_user_message e None = user_base_message e) \<and>
   (tts_error_get_user_message e (Some []) = user_base_message e) \<and>
   (tts_error_get_user_message e (Some (c # d)) = user_base_message e @ '' ('' @ c # d @ '')'')"
  using inj_error_string by (simp add: tts_error_get_user_message_def inj_eq)

subsection \<open>Classification of errors\<close>

text \<open>
  The three helpers for graceful degradation agree with each other up to one exception: an error
  worth a retry is always recoverable, and of the errors that have a fallback action exactly the three
  listed ones are reported as not recoverable.
\<close>

theorem degradation_helpers_agree:
  "Collect tts_error_should_retry \<subseteq> Collect tts_error_is_recoverable \<and>
   {e. tts_error_get_fallback_action e \<noteq> TTS_ERROR_UNKNOWN \<and> \<not> tts_error_is_recoverable e} =
   {TTS_ERROR_ENGINE_INIT_FAILED, TTS_ERROR_FILE_NOT_FOUND, TTS_ERROR_FILE_READ_FAILED}"
proof (rule conjI)
  show "Collect tts_error_should_retry \<subseteq> Collect tts_error_is_recoverable"
  proof
    fix e
    assume "e \<in> Collect tts_error_should_retry"
    then show "e \<in> Collect tts_error_is_recoverable" by (cases e) simp_all
  qed
  have "{e \<in> set all_tts_errors. tts_error_get_fallback_action e \<noteq> TTS_ERROR_UNKNOWN \<and>
      \<not> tts_error_is_recoverable e} =
    set (filter (\<lambda>e. tts_error_get_fallback_action e \<noteq> TTS_ERROR_UNKNOWN \<and>
      \<not> tts_error_is_recoverable e) all_tts_errors)"
    by auto
  also have "\<dots> = {TTS_ERROR_ENGINE_INIT_FAILED, TTS_ERROR_FILE_NOT_FOUND, TTS_ERROR_FILE_READ_FAILED}"
    by (auto simp: all_tts_errors_def)
  finally show "{e. tts_error_get_fallback_action e \<noteq> TTS_ERROR_UNKNOWN \<and> \<not> tts_error_is_recoverable e} =
    {TTS_ERROR_ENGINE_INIT_FAILED, TTS_ERROR_FILE_NOT_FOUND, TTS_ERROR_FILE_READ_FAILED}"
    by (simp add: all_tts_errors_UNIV)
qed

subsection \<open>Delivery of reports\<close>

datatype error_event =
    Set_Callback "nat option" "nat option"
  | Clear_Callback
  | Report nat tts_error tts_error_severity "string option" "string option" int "string option"

fun error_step :: "(nat \<Rightarrow> string) \<Rightarrow> error_world \<Rightarrow> error_event \<Rightarrow> error_world" where
  "error_step ft w (Set_Callback cb u) = tts_error_set_callback cb u w"
| "error_step ft w Clear_Callback = tts_error_clear_callback w"
| "error_step ft w (Report now e sev cpt func line m) = tts_error_report ft now e sev cpt func line m w"

definition error_run :: "(nat \<Rightarrow> string) \<Rightarrow> error_world \<Rightarrow> error_event list \<Rightarrow> error_world" where
  "error_run ft w evs = foldl (error_step ft) w evs"

text \<open>
  What a history of registrations and reports must deliver: each report with a message, in order, to
  the callback registered when it was made.
\<close>

fun expected_calls :: "nat option \<times> nat option \<Rightarrow> error_event list \<Rightarrow> (nat \<times> tts_error \<times> string option \<times> nat option) list" where
  "expected_calls reg [] = []"
| "expected_calls reg (Set_Callback cb u # evs) = expected_calls (cb, u) evs"
| "expected_calls reg (Clear_Callback # evs) = expected_calls (None, None) evs"
| "expected_calls reg (Report now e sev cpt func line m # evs) =
     (case (fst reg, m) of
        (Some cb, Some t) \<Rightarrow> [(cb, e, m, snd reg)]
      | _ \<Rightarrow> []) @ expected_calls reg evs"

definition delivered :: "error_world \<Rightarrow> (nat \<times> tts_error \<times> string option \<times> nat option) list" where
  "delivered w = map (\<lambda>(cb, c, u). (cb, ec_error_code c, ec_message c, u)) (callback_calls w)"

fun messages_reported :: "error_event list \<Rightarrow> nat" where
  "messages_reported [] = 0"
| "messages_reported (Report _ _ _ _ _ _ (Some _) # evs) = Suc (messages_reported evs)"
| "messages_reported (_ # evs) = messages_reported evs"

lemma messages_reported_Cons: "messages_reported (ev # evs) = messages_reported [ev] + messages_reported evs"
  by (cases "(ev # evs)" rule: messages_reported.cases) auto

lemmas error_op_defs =
  tts_error_set_callback_def tts_error_clear_callback_def tts_error_report_def
  tts_error_report_context_def tts_error_log_def tts_error_context_new_def

lemma error_step_delivers:
  "delivered (error_step ft w ev) =
     delivered w @ expected_calls (g_error_callback w, g_error_callback_user_data w) [ev]"
  "expected_calls (g_error_callback w, g_error_callback_user_data w) (ev # evs) =
     expected_calls (g_error_callback w, g_error_callback_user_data w) [ev] @
     expected_calls (g_error_callback (error_step ft w ev), g_error_callback_user_data (error_step ft w ev)) evs"
  "length (stderr_lines (error_step ft w ev)) = length (stderr_lines w) + messages_reported [ev]"
  by (cases ev; auto simp: delivered_def error_op_defs Let_def split: option.splits)+

text \<open>
  Whatever the order of registrations and reports: the callback invocations of a run are the
  expected ones, each once and in order, and every report with a message leaves exactly one log line.
\<close>

theorem error_reports_delivered:
  "delivered (error_run ft w evs) =
     delivered w @ expected_calls (g_error_callback w, g_error_callback_user_data w) evs \<and>
   length (stderr_lines (error_run ft w evs)) = length (stderr_lines w) + messages_reported evs"
proof (induction evs arbitrary: w)
  case Nil
  show ?case by (simp add: error_run_def)
next
  case (Cons ev evs)
  show ?case
    using Cons.IH [of "error_step ft w ev"] error_step_delivers(1,3) [of ft w ev] error_step_delivers(2) [where ft = ft and w = w and ev = ev and evs = evs]
      messages_reported_Cons [of ev evs]
    by (simp add: error_run_def)
qed

end
