(* ===== verification/C_Float.thy ===== *)
theory C_Float
  imports C_Strings "HOL-Library.Log_Nat"
begin

text \<open>
  C's floating-point numbers as the plugin uses them: a value is a rational, an infinity or not a number;
  comparisons with a value that is not a number are false; conversions round to nearest, ties to even, with
  the ranges of \<^verbatim>\<open>float\<close> and \<^verbatim>\<open>double\<close> (IEEE 754). A zero has no sign here, which no
  operation of the plugin can observe. \<^verbatim>\<open>g_ascii_strtod\<close> is \<^verbatim>\<open>strtod\<close> in the C locale,
  and \<^verbatim>\<open>%.2f\<close> prints the exact value rounded to hundredths with the decimal point of the
  locale of the process.
\<close>

datatype c_float = Fin rat | PInf | NInf | NotANumber

subsection \<open>Comparisons\<close>

fun fl_less :: "c_float \<Rightarrow> c_float \<Rightarrow> bool" where
  "fl_less (Fin a) (Fin b) = (a < b)"
| "fl_less NotANumber y = False"
| "fl_less x NotANumber = False"
| "fl_less NInf y = (y \<noteq> NInf)"
| "fl_less x PInf = (x \<noteq> PInf)"
| "fl_less PInf y = False"
| "fl_less x NInf = False"

fun fl_le :: "c_float \<Rightarrow> c_float \<Rightarrow> bool" where
  "fl_le (Fin a) (Fin b) = (a \<le> b)"
| "fl_le NotANumber y = False"
| "fl_le x NotANumber = False"
| "fl_le NInf y = True"
| "fl_le x PInf = True"
| "fl_le PInf y = False"
| "fl_le x NInf = False"

definition fl_eq :: "c_float \<Rightarrow> c_float \<Rightarrow> bool" where
  "fl_eq x y \<longleftrightarrow> x = y \<and> x \<noteq> NotANumber"

lemma fl_between_Fin: "fl_le (Fin a) x \<and> fl_le x (Fin b) \<longleftrightarrow> (\<exists>r. x = Fin r \<and> a \<le> r \<and> r \<le> b)"
  by (cases x) auto

subsection \<open>Rounding\<close>

definition pow2 :: "int \<Rightarrow> rat" where
  "pow2 e = (if e \<ge> 0 then 2 ^ nat e else 1 / 2 ^ nat (- e))"

text \<open>The exponent of a positive rational: the largest power of two that is not above it.\<close>

definition flog2 :: "rat \<Rightarrow> int" where
  "flog2 r = (case quotient_of r of (p, q) \<Rightarrow>
     let k = bitlen p - bitlen q in if pow2 k \<le> r then k else k - 1)"

definition round_half_even :: "rat \<Rightarrow> int" where
  "round_half_even r =
     (let f = \<lfloor>r\<rfloor>; d = r - of_int f
      in if d < 1 / 2 then f else if d > 1 / 2 then f + 1 else if even f then f else f + 1)"

definition round_to :: "int \<Rightarrow> int \<Rightarrow> int \<Rightarrow> rat \<Rightarrow> c_float" where
  "round_to prec emin emax r =
     (if r = 0 then Fin 0
      else let a = \<bar>r\<bar>;
               e = max (flog2 a) emin - (prec - 1);
               v = of_int (round_half_even (a / pow2 e)) * pow2 e
           in if v \<ge> pow2 (emax + 1) then (if r < 0 then NInf else PInf)
              else Fin (if r < 0 then - v else v))"

definition to_double :: "rat \<Rightarrow> c_float" where
  "to_double = round_to 53 (- 1022) 1023"

definition double_to_float :: "c_float \<Rightarrow> c_float" where
  "double_to_float x = (case x of Fin r \<Rightarrow> round_to 24 (- 126) 127 r | _ \<Rightarrow> x)"

subsection \<open>Reading\<close>

definition to_lower :: "char \<Rightarrow> char" where
  "to_lower c = (if c_isupper c then char_of (byte c + 32) else c)"

definition c_isxdigit :: "char \<Rightarrow> bool" where
  "c_isxdigit c \<longleftrightarrow> c_isdigit c \<or> (97 \<le> byte (to_lower c) \<and> byte (to_lower c) \<le> 102)"

definition xdigit_val :: "char \<Rightarrow> nat" where
  "xdigit_val c = (if c_isdigit c then byte c - 48 else byte (to_lower c) - 87)"

definition base_value :: "nat \<Rightarrow> string \<Rightarrow> nat" where
  "base_value b ds = foldl (\<lambda>n c. b * n + xdigit_val c) 0 ds"

text \<open>An exponent part is read only when its letter is followed by at least one digit.\<close>

definition read_exponent :: "char \<Rightarrow> string \<Rightarrow> int" where
  "read_exponent letter s =
     (case s of
        [] \<Rightarrow> 0
      | c # cs \<Rightarrow>
          if to_lower c \<noteq> letter then 0
          else case split_sign cs of (neg, r) \<Rightarrow>
            let v = int (digits_value (takeWhile c_isdigit r)) in if neg then - v else v)"

definition rat_power :: "nat \<Rightarrow> int \<Rightarrow> rat" where
  "rat_power b e = (if e \<ge> 0 then of_nat b ^ nat e else 1 / of_nat b ^ nat (- e))"

definition fraction_digits :: "(char \<Rightarrow> bool) \<Rightarrow> string \<Rightarrow> string" where
  "fraction_digits p s = (case s of [] \<Rightarrow> [] | c # cs \<Rightarrow> if c = CHR ''.'' then takeWhile p cs else [])"

definition after_fraction :: "(char \<Rightarrow> bool) \<Rightarrow> string \<Rightarrow> string" where
  "after_fraction p s = (case s of [] \<Rightarrow> [] | c # cs \<Rightarrow> if c = CHR ''.'' then dropWhile p cs else s)"

definition read_magnitude :: "nat \<Rightarrow> (char \<Rightarrow> bool) \<Rightarrow> char \<Rightarrow> nat \<Rightarrow> int \<Rightarrow> string \<Rightarrow> rat option" where
  "read_magnitude base p letter exp_base digit_exp s =
     (let whole = takeWhile p s;
          s1 = dropWhile p s;
          frac = fraction_digits p s1
      in if whole @ frac = [] then None
         else Some (of_nat (base_value base (whole @ frac)) *
                    rat_power exp_base (read_exponent letter (after_fraction p s1) - digit_exp * int (length frac))))"

definition g_ascii_strtod :: "string \<Rightarrow> c_float" where
  "g_ascii_strtod str =
     (case split_sign (dropWhile c_isspace str) of (neg, s) \<Rightarrow>
        let low = map to_lower s;
            hex = (if prefix ''0x'' low then read_magnitude 16 c_isxdigit CHR ''p'' 2 4 (drop 2 s) else None)
        in if prefix ''inf'' low then (if neg then NInf else PInf)
           else if prefix ''nan'' low then NotANumber
           else (case (case hex of Some m \<Rightarrow> Some m | None \<Rightarrow> read_magnitude 10 c_isdigit CHR ''e'' 10 1 s) of
                   None \<Rightarrow> Fin 0
                 | Some m \<Rightarrow> to_double (if neg then - m else m)))"

subsection \<open>Printing\<close>

definition fmt_hundredths :: "char \<Rightarrow> nat \<Rightarrow> string" where
  "fmt_hundredths point h =
     fmt_nat (h div 100) @ [point, digit_char (h div 10 mod 10), digit_char (h mod 10)]"

definition fmt_2f :: "char \<Rightarrow> c_float \<Rightarrow> string" where
  "fmt_2f point x =
     (case x of
        Fin r \<Rightarrow> (if r < 0 then ''-'' else '''') @ fmt_hundredths point (nat (round_half_even (\<bar>r\<bar> * 100)))
      | PInf \<Rightarrow> ''inf''
      | NInf \<Rightarrow> ''-inf''
      | NotANumber \<Rightarrow> ''nan'')"

subsection \<open>How close a rounded value is\<close>

lemma pow2_powi: "pow2 e = 2 powi e"
  by (simp add: pow2_def power_int_def inverse_eq_divide power_one_over)

lemma pow2_pos: "0 < pow2 e"
  by (simp add: pow2_powi)

lemma pow2_add: "pow2 (a + b) = pow2 a * pow2 b"
  by (simp add: pow2_powi power_int_add)

lemma pow2_mono: "a \<le> b \<Longrightarrow> pow2 a \<le> pow2 b"
  by (simp add: pow2_powi power_int_increasing)

lemma pow2_less_iff: "pow2 a < pow2 b \<longleftrightarrow> a < b"
proof
  show "pow2 a < pow2 b \<Longrightarrow> a < b" using pow2_mono [of b a] by linarith
  show "a < b \<Longrightarrow> pow2 a < pow2 b" unfolding pow2_powi by (rule power_int_strict_increasing) simp_all
qed

lemma pow2_nat: "pow2 (int n) = 2 ^ n"
  by (simp add: pow2_def)

lemma bitlen_pow2_bounds:
  assumes "0 < p"
  shows "pow2 (bitlen p - 1) \<le> of_int p" "of_int p < pow2 (bitlen p)"
proof -
  have b: "0 < bitlen p" using bitlen_nonneg [of p] bitlen_eq_zero_iff [of p] assms by linarith
  have "2 ^ nat (bitlen p - 1) \<le> p" "p < 2 ^ nat (bitlen p)"
    using bitlen_bounds [OF assms] by auto
  then have "of_int (2 ^ nat (bitlen p - 1)) \<le> (of_int p :: rat)" "(of_int p :: rat) < of_int (2 ^ nat (bitlen p))"
    by (simp_all only: of_int_le_iff of_int_less_iff)
  then show "pow2 (bitlen p - 1) \<le> of_int p" "of_int p < pow2 (bitlen p)"
    using b by (simp_all add: pow2_def)
qed

lemma flog2_bounds:
  assumes "0 < r"
  shows "pow2 (flog2 r) \<le> r" "r < pow2 (flog2 r + 1)"
proof -
  obtain p q where pq: "quotient_of r = (p, q)" by force
  then have q: "0 < q" and r: "r = of_int p / of_int q"
    using quotient_of_denom_pos quotient_of_div by blast+
  then have p: "0 < p" using assms by (simp add: zero_less_divide_iff)
  let ?k = "bitlen p - bitlen q"
  note bp = bitlen_pow2_bounds [OF p] and bq = bitlen_pow2_bounds [OF q]
  have "r < pow2 (bitlen p) / pow2 (bitlen q - 1)"
    unfolding r using bp(2) bq(1) p q pow2_pos by (intro frac_less) auto
  also have "\<dots> = pow2 (?k + 1)"
    using pow2_add [of "?k + 1" "bitlen q - 1"] pow2_pos [of "bitlen q - 1"] by (simp add: field_simps)
  finally have up: "r < pow2 (?k + 1)" .
  have "pow2 (bitlen p - 1) / pow2 (bitlen q) < r"
    unfolding r using bp(1) bq(2) p q pow2_pos by (intro frac_less2) auto
  moreover have "pow2 (bitlen p - 1) / pow2 (bitlen q) = pow2 (?k - 1)"
    using pow2_add [of "?k - 1" "bitlen q"] pow2_pos [of "bitlen q"] by (simp add: field_simps)
  ultimately have lo: "pow2 (?k - 1) < r" by simp
  have flog2: "flog2 r = (if pow2 ?k \<le> r then ?k else ?k - 1)" by (simp add: flog2_def pq Let_def)
  show "pow2 (flog2 r) \<le> r" "r < pow2 (flog2 r + 1)"
    using up lo by (auto simp: flog2)
qed

lemma flog2_range:
  assumes "pow2 m \<le> r" "r < pow2 n"
  shows "m \<le> flog2 r" "flog2 r < n"
proof -
  have r: "0 < r" using assms(1) pow2_pos [of m] by linarith
  have "pow2 m < pow2 (flog2 r + 1)" "pow2 (flog2 r) < pow2 n"
    using assms flog2_bounds [OF r] by linarith+
  then show "m \<le> flog2 r" "flog2 r < n" by (auto simp: pow2_less_iff)
qed

lemma round_half_even_near: "\<bar>of_int (round_half_even x) - x\<bar> \<le> (1 / 2 :: rat)"
proof -
  have "of_int \<lfloor>x\<rfloor> \<le> x" "x < of_int \<lfloor>x\<rfloor> + 1" by linarith+
  then show ?thesis by (simp add: round_half_even_def Let_def)
qed

lemma round_half_even_mono_int: "of_int n \<le> (x::rat) \<Longrightarrow> n \<le> round_half_even x" "x \<le> of_int n \<Longrightarrow> round_half_even x \<le> n"
proof -
  have d: "\<bar>of_int (round_half_even x) - x\<bar> \<le> (1 / 2 :: rat)" by (rule round_half_even_near)
  show "of_int n \<le> x \<Longrightarrow> n \<le> round_half_even x" using d by linarith
  show "x \<le> of_int n \<Longrightarrow> round_half_even x \<le> n" using d by linarith
qed

lemma round_half_even_unique: "\<bar>x - of_int n\<bar> < (1 / 2 :: rat) \<Longrightarrow> round_half_even x = n"
  using round_half_even_near [of x] by linarith

text \<open>Rounding a value in a range whose ends are multiples of the step: it stays in the range and close.\<close>

lemma round_to_range:
  assumes "pow2 m \<le> r" "r < pow2 n" "emin \<le> m" "n \<le> emax" "m \<le> n"
    and "lo = of_int l * pow2 (n - prec)" "hi = of_int h * pow2 (n - prec)" "lo \<le> r" "r \<le> hi" "hi < pow2 (emax + 1)"
  shows "\<exists>v. round_to prec emin emax r = Fin v \<and> lo \<le> v \<and> v \<le> hi \<and> \<bar>v - r\<bar> \<le> pow2 (n - prec) / 2"
proof -
  have r: "0 < r" using assms(1) pow2_pos [of m] by linarith
  define e where "e = max (flog2 r) emin - (prec - 1)"
  define v where "v = of_int (round_half_even (r / pow2 e)) * pow2 e"
  have e: "e \<le> n - prec" using flog2_range [OF assms(1,2)] assms(3,5) by (simp add: e_def)
  have p: "0 < pow2 e" by (rule pow2_pos)
  have step: "pow2 (n - prec) = of_int (2 ^ nat (n - prec - e)) * pow2 e"
    using pow2_add [of "n - prec - e" e] e by (simp add: pow2_def)
  have "of_int (l * 2 ^ nat (n - prec - e)) \<le> r / pow2 e"
    using assms(6,8) step p by (simp add: pos_le_divide_eq mult.assoc)
  then have "l * 2 ^ nat (n - prec - e) \<le> round_half_even (r / pow2 e)" by (rule round_half_even_mono_int)
  then have lo: "lo \<le> v"
    unfolding v_def assms(6) step using p
    by (metis mult.assoc mult_right_mono of_int_le_iff of_int_mult order_less_imp_le)
  have "r / pow2 e \<le> of_int (h * 2 ^ nat (n - prec - e))"
    using assms(7,9) step p by (simp add: pos_divide_le_eq mult.assoc)
  then have "round_half_even (r / pow2 e) \<le> h * 2 ^ nat (n - prec - e)" by (rule round_half_even_mono_int)
  then have hi: "v \<le> hi"
    unfolding v_def assms(7) step using p
    by (metis mult.assoc mult_right_mono of_int_le_iff of_int_mult order_less_imp_le)
  have "\<bar>of_int (round_half_even (r / pow2 e)) - r / pow2 e\<bar> * pow2 e \<le> 1 / 2 * pow2 e"
    using round_half_even_near p by (intro mult_right_mono) auto
  moreover have "\<bar>of_int (round_half_even (r / pow2 e)) - r / pow2 e\<bar> * pow2 e = \<bar>v - r\<bar>"
  proof -
    have "v - r = (of_int (round_half_even (r / pow2 e)) - r / pow2 e) * pow2 e"
      using p by (simp add: v_def left_diff_distrib)
    then show ?thesis using p by (simp only: abs_mult abs_of_pos)
  qed
  moreover have "pow2 e \<le> pow2 (n - prec)" using e by (rule pow2_mono)
  ultimately have near: "\<bar>v - r\<bar> \<le> pow2 (n - prec) / 2" by linarith
  have "round_to prec emin emax r = Fin v"
    using r hi assms(10) by (simp add: round_to_def Let_def e_def [symmetric] v_def [symmetric])
  with lo hi near show ?thesis by blast
qed

subsection \<open>Hundredths between one half and three\<close>

lemma to_double_range:
  assumes "1 / 2 \<le> r" "r \<le> 3"
  shows "\<exists>d. to_double r = Fin d \<and> 1 / 2 \<le> d \<and> d \<le> 3 \<and> \<bar>d - r\<bar> \<le> 1 / 2 ^ 52"
proof -
  have "\<exists>v. round_to 53 (- 1022) 1023 r = Fin v \<and> 1 / 2 \<le> v \<and> v \<le> 3 \<and> \<bar>v - r\<bar> \<le> pow2 (2 - 53) / 2"
    using assms pow2_mono [of 2 1024]
    by (intro round_to_range [where m = "- 1" and l = "2 ^ 50" and h = "3 * 2 ^ 51"]) (simp_all add: pow2_def)
  then show ?thesis by (simp add: to_double_def pow2_def)
qed

lemma double_to_float_range:
  assumes "1 / 2 \<le> d" "d \<le> 3"
  shows "\<exists>f. double_to_float (Fin d) = Fin f \<and> 1 / 2 \<le> f \<and> f \<le> 3 \<and> \<bar>f - d\<bar> \<le> 1 / 2 ^ 23"
proof -
  have "\<exists>v. round_to 24 (- 126) 127 d = Fin v \<and> 1 / 2 \<le> v \<and> v \<le> 3 \<and> \<bar>v - d\<bar> \<le> pow2 (2 - 24) / 2"
    using assms pow2_mono [of 2 128]
    by (intro round_to_range [where m = "- 1" and l = "2 ^ 21" and h = "3 * 2 ^ 22"]) (simp_all add: pow2_def)
  then show ?thesis by (simp add: double_to_float_def pow2_def)
qed

definition hundredths_float :: "nat \<Rightarrow> c_float" where
  "hundredths_float h = double_to_float (to_double (of_nat h / 100))"

lemma hundredths_float_range:
  assumes "50 \<le> h" "h \<le> 300"
  shows "\<exists>f. hundredths_float h = Fin f \<and> 1 / 2 \<le> f \<and> f \<le> 3 \<and> round_half_even (f * 100) = int h"
proof -
  have "1 / 2 \<le> (of_nat h / 100 :: rat)" "(of_nat h / 100 :: rat) \<le> 3"
    using assms by (simp_all add: divide_le_eq)
  then obtain d where d: "to_double (of_nat h / 100) = Fin d" "1 / 2 \<le> d" "d \<le> 3" "\<bar>d - of_nat h / 100\<bar> \<le> 1 / 2 ^ 52"
    using to_double_range by blast
  obtain f where f: "double_to_float (Fin d) = Fin f" "1 / 2 \<le> f" "f \<le> 3" "\<bar>f - d\<bar> \<le> 1 / 2 ^ 23"
    using double_to_float_range [OF d(2,3)] by blast
  have "\<bar>f - of_nat h / 100\<bar> \<le> 1 / 2 ^ 23 + 1 / 2 ^ 52" using d(4) f(4) by linarith
  then have "\<bar>f * 100 - of_int (int h)\<bar> < 1 / 2" by (simp add: abs_if split: if_splits)
  then have "round_half_even (f * 100) = int h" by (rule round_half_even_unique)
  with d f show ?thesis by (simp add: hundredths_float_def)
qed

subsection \<open>Reading back what was printed\<close>

lemma to_lower_id: "\<not> c_isupper c \<Longrightarrow> to_lower c = c"
  by (simp add: to_lower_def)

lemma isdigit_not_upper: "c_isdigit c \<Longrightarrow> \<not> c_isupper c"
  by (auto simp: ctype_defs)

lemma digit_not_letter: "c_isdigit c \<Longrightarrow> c \<noteq> CHR ''i'' \<and> c \<noteq> CHR ''n'' \<and> c \<noteq> CHR ''x''"
  by (auto simp: c_isdigit_def byte_def)

lemma base_value_digits: "\<forall>c \<in> set ds. c_isdigit c \<Longrightarrow> base_value 10 ds = digits_value ds"
proof (induction ds rule: rev_induct)
  case Nil
  then show ?case by (simp add: base_value_def digits_value_def)
next
  case (snoc d ds)
  then have "base_value 10 (ds @ [d]) = 10 * base_value 10 ds + xdigit_val d" by (simp add: base_value_def)
  then show ?case using snoc by (simp add: digits_value_snoc xdigit_val_def digit_val_def)
qed

lemma digits_value_append2: "digits_value (ds @ [a, b]) = 100 * digits_value ds + 10 * digit_val a + digit_val b"
  using digits_value_snoc [of "ds @ [a]" b] digits_value_snoc [of ds a] by simp

lemma takeWhile_digits_point:
  assumes "\<forall>c \<in> set ds. c_isdigit c" "\<not> c_isdigit p"
  shows "takeWhile c_isdigit (ds @ p # s) = ds" "dropWhile c_isdigit (ds @ p # s) = p # s"
  using assms by (simp_all add: takeWhile_append dropWhile_append)

text \<open>A string of digits followed by a point and two digits is a plain decimal number to \<^verbatim>\<open>strtod\<close>.\<close>

lemma strtod_decimal:
  assumes ds: "\<forall>c \<in> set ds. c_isdigit c" "ds \<noteq> []" and p: "p = CHR ''.'' \<or> p = CHR '',''"
  shows "g_ascii_strtod (ds @ p # s) =
    (case read_magnitude 10 c_isdigit CHR ''e'' 10 1 (ds @ p # s) of None \<Rightarrow> Fin 0 | Some m \<Rightarrow> to_double m)"
proof -
  obtain c cs where c: "ds = c # cs" "c_isdigit c" using ds by (cases ds) auto
  have sign: "split_sign (dropWhile c_isspace (ds @ p # s)) = (False, ds @ p # s)"
    using c c_isspace_not_digit [of c] isdigit_not_sign [of c] by auto
  have low: "to_lower c = c" using c(2) isdigit_not_upper to_lower_id by blast
  have no_word: "\<not> prefix ''inf'' (map to_lower (ds @ p # s))" "\<not> prefix ''nan'' (map to_lower (ds @ p # s))"
    using c low digit_not_letter [of c] by auto
  have no_hex: "\<not> prefix ''0x'' (map to_lower (ds @ p # s))"
  proof (cases cs)
    case Nil
    have "to_lower p = p" using p by (auto simp: to_lower_def c_isupper_def byte_def)
    then show ?thesis using c Nil p by auto
  next
    case (Cons d ds')
    then have "c_isdigit d" using ds(1) c(1) by simp
    then have "to_lower d \<noteq> CHR ''x''" using isdigit_not_upper [of d] to_lower_id [of d] digit_not_letter [of d] by simp
    then show ?thesis using c Cons by auto
  qed
  show ?thesis
    using no_word no_hex
    by (simp only: g_ascii_strtod_def sign prod.case Let_def if_False option.case)
qed

lemma strtod_hundredths: "g_ascii_strtod (fmt_hundredths CHR ''.'' h) = to_double (of_nat h / 100)"
proof -
  let ?ds = "fmt_nat (h div 100)" and ?a = "digit_char (h div 10 mod 10)" and ?b = "digit_char (h mod 10)"
  have dg: "\<forall>c \<in> set ?ds. c_isdigit c" "c_isdigit ?a" "c_isdigit ?b"
    by (simp_all add: fmt_nat_digits digit_char_isdigit)
  have pt: "\<not> c_isdigit CHR ''.''" by (simp add: c_isdigit_def byte_def)
  have v: "base_value 10 (?ds @ [?a, ?b]) = h"
  proof -
    have "base_value 10 (?ds @ [?a, ?b]) = 100 * (h div 100) + 10 * (h div 10 mod 10) + h mod 10"
      using dg by (subst base_value_digits)
        (auto simp: digits_value_append2 digits_value_fmt_nat digit_val_digit_char)
    moreover have "h div 100 = h div 10 div 10" by (simp flip: div_mult2_eq)
    ultimately show ?thesis
      using mult_div_mod_eq [of 10 h] mult_div_mod_eq [of 10 "h div 10"] by linarith
  qed
  have "read_magnitude 10 c_isdigit CHR ''e'' 10 1 (?ds @ [CHR ''.'', ?a, ?b]) = Some (of_nat h * rat_power 10 (- 2))"
    using dg v
    by (simp add: read_magnitude_def takeWhile_digits_point [OF dg(1) pt] fraction_digits_def after_fraction_def
        read_exponent_def)
  then show ?thesis
    using strtod_decimal [OF dg(1) fmt_nat_not_Nil, of "CHR ''.''" "[?a, ?b]"]
    by (simp add: fmt_hundredths_def rat_power_def)
qed

text \<open>With a comma as decimal point the hundredths are not read back.\<close>

lemma strtod_comma: "g_ascii_strtod (fmt_hundredths CHR '','' h) = to_double (of_nat (h div 100))"
proof -
  let ?ds = "fmt_nat (h div 100)"
  have dg: "\<forall>c \<in> set ?ds. c_isdigit c" by (simp add: fmt_nat_digits)
  have pt: "\<not> c_isdigit CHR '',''" by (simp add: c_isdigit_def byte_def)
  have "read_magnitude 10 c_isdigit CHR ''e'' 10 1 (?ds @ CHR '','' # s) = Some (of_nat (h div 100))" for s
    using fmt_nat_not_Nil
    by (simp add: read_magnitude_def takeWhile_digits_point [OF dg pt] fraction_digits_def after_fraction_def
        read_exponent_def rat_power_def base_value_digits [OF dg] digits_value_fmt_nat to_lower_def c_isupper_def byte_def)
  then show ?thesis
    using strtod_decimal [OF dg fmt_nat_not_Nil, of "CHR '',''"] by (simp add: fmt_hundredths_def)
qed

end
