(* ===== verification/Engine_Types.thy ===== *)
theory Engine_Types
  imports Tts_Prelude
begin

text \<open>
  The enumeration of the speech engines in \<^verbatim>\<open>tts-engine.h\<close>, with the number that C gives each
  constant.
\<close>

datatype tts_engine_type =
    TTS_ENGINE_PIPER
  | TTS_ENGINE_SPEECH_DISPATCHER
  | TTS_ENGINE_ESPEAK
  | TTS_ENGINE_SYSTEM
  | TTS_ENGINE_NONE

fun engine_number :: "tts_engine_type \<Rightarrow> int" where
  "engine_number TTS_ENGINE_PIPER = 0"
| "engine_number TTS_ENGINE_SPEECH_DISPATCHER = 1"
| "engine_number TTS_ENGINE_ESPEAK = 2"
| "engine_number TTS_ENGINE_SYSTEM = 3"
| "engine_number TTS_ENGINE_NONE = 4"

text \<open>C compares the constants of an enumeration by their numbers.\<close>

lemma engine_number_inject: "engine_number s = engine_number t \<longleftrightarrow> s = t"
  by (cases s; cases t) simp_all

instantiation tts_engine_type :: linorder
begin

definition less_eq_tts_engine_type :: "tts_engine_type \<Rightarrow> tts_engine_type \<Rightarrow> bool" where
  "less_eq_tts_engine_type s t \<longleftrightarrow> engine_number s \<le> engine_number t"

definition less_tts_engine_type :: "tts_engine_type \<Rightarrow> tts_engine_type \<Rightarrow> bool" where
  "less_tts_engine_type s t \<longleftrightarrow> engine_number s < engine_number t"

instance
  by intro_classes (auto simp: less_eq_tts_engine_type_def less_tts_engine_type_def engine_number_inject [symmetric])

end

lemmas engine_type_order = less_eq_tts_engine_type_def less_tts_engine_type_def

end
