(* ===== verification/Session_Machine.thy ===== *)
theory Session_Machine
  imports Tts_Prelude
begin

text \<open>
  The contracts that the stateful components share: operations that keep an invariant (all of them, or those
  that meet a condition), and one operation that brings the component back to rest from any state the
  invariant allows. What follows for sequences of calls is proved here once. The streaming engine, the audio
  controller, the configuration and the user interface provide their instances.
\<close>

locale guarded_machine =
  fixes exec :: "'op \<Rightarrow> 's \<Rightarrow> 's"
    and inv :: "'s \<Rightarrow> bool"
    and allowed :: "'op \<Rightarrow> bool"
  assumes inv_allowed: "inv s \<Longrightarrow> allowed op \<Longrightarrow> inv (exec op s)"
begin

lemma inv_fold_allowed: "inv s \<Longrightarrow> \<forall>op \<in> set ops. allowed op \<Longrightarrow> inv (fold exec ops s)"
  by (induction ops arbitrary: s) (simp_all add: inv_allowed)

end

locale op_machine =
  fixes exec :: "'op \<Rightarrow> 's \<Rightarrow> 's"
    and inv :: "'s \<Rightarrow> bool"
  assumes inv_exec: "inv s \<Longrightarrow> inv (exec op s)"
begin

definition run :: "'op list \<Rightarrow> 's \<Rightarrow> 's" where
  "run ops s = fold exec ops s"

lemma run_simps: "run [] s = s" "run (op # ops) s = run ops (exec op s)" "run (ops @ ops') s = run ops' (run ops s)"
  by (simp_all add: run_def)

end

sublocale op_machine \<subseteq> always: guarded_machine exec inv "\<lambda>op. True"
  by unfold_locales (rule inv_exec)

context op_machine
begin

lemma inv_run: "inv s \<Longrightarrow> inv (run ops s)"
  unfolding run_def by (rule always.inv_fold_allowed) simp_all

end

locale restable_machine = op_machine exec inv
  for exec :: "'op \<Rightarrow> 's \<Rightarrow> 's" and inv :: "'s \<Rightarrow> bool" +
  fixes is_stop :: "'op \<Rightarrow> bool"
    and at_rest :: "'s \<Rightarrow> bool"
  assumes stop_rests: "inv s \<Longrightarrow> is_stop op \<Longrightarrow> at_rest (exec op s)"
begin

lemma rest_after_run: "inv s \<Longrightarrow> is_stop op \<Longrightarrow> at_rest (run (ops @ [op]) s)"
  by (simp add: run_simps inv_run stop_rests)

end

text \<open>
  A machine that refines a simpler one: each allowed operation does to the abstraction of the state what the
  specification says, so a whole run does what the run of the specification does.
\<close>

locale refined_machine = guarded_machine exec inv allowed
  for exec :: "'op \<Rightarrow> 's \<Rightarrow> 's" and inv :: "'s \<Rightarrow> bool" and allowed :: "'op \<Rightarrow> bool" +
  fixes abs :: "'s \<Rightarrow> 'a"
    and spec :: "'op \<Rightarrow> 'a \<Rightarrow> 'a"
  assumes abs_exec: "inv s \<Longrightarrow> allowed op \<Longrightarrow> abs (exec op s) = spec op (abs s)"
begin

lemma abs_run: "inv s \<Longrightarrow> \<forall>op \<in> set ops. allowed op \<Longrightarrow> abs (fold exec ops s) = fold spec ops (abs s)"
  by (induction ops arbitrary: s) (simp_all add: inv_allowed abs_exec)

end

text \<open>The same with a relation between the two states, for states that hold more than the specification's.\<close>

locale simulated_machine =
  fixes exec :: "'op \<Rightarrow> 's \<Rightarrow> 's"
    and spec :: "'op \<Rightarrow> 'a \<Rightarrow> 'a"
    and rel :: "'s \<Rightarrow> 'a \<Rightarrow> bool"
  assumes rel_exec: "rel s a \<Longrightarrow> rel (exec op s) (spec op a)"
begin

lemma rel_run: "rel s a \<Longrightarrow> rel (fold exec ops s) (fold spec ops a)"
  by (induction ops arbitrary: s a) (simp_all add: rel_exec)

end

end
