(* ===== verification/Tts_Config.thy ===== *)
theory Tts_Config
  imports C_Float Engine_Types Session_Machine
begin

text \<open>
  The configuration of \<^verbatim>\<open>tts-config.c\<close>: its record, defaults, validation, setters and the
  exchange with zathura's settings (files are in \<^verbatim>\<open>Config_File\<close>). A setter takes the configuration
  pointer, which may be NULL, and the current time, and returns the result with the configuration after the
  call. The laws that the validating setters share are the locale \<open>validated_setter\<close>.
\<close>

subsection \<open>The configuration\<close>

record tts_config =
  preferred_engine :: tts_engine_type
  preferred_voice :: "string option"
  default_speed :: c_float
  default_volume :: int
  default_pitch :: int
  auto_continue_pages :: bool
  highlight_spoken_text :: bool
  announce_page_numbers :: bool
  announce_headings :: bool
  announce_links :: bool
  announce_tables :: bool
  show_status_messages :: bool
  show_progress_indicator :: bool
  status_timeout_ms :: int
  shortcut_toggle :: "string option"
  shortcut_pause_resume :: "string option"
  shortcut_stop :: "string option"
  shortcut_next_segment :: "string option"
  shortcut_prev_segment :: "string option"
  shortcut_speed_up :: "string option"
  shortcut_speed_down :: "string option"
  shortcut_volume_up :: "string option"
  shortcut_volume_down :: "string option"
  shortcut_settings :: "string option"
  use_threading :: bool
  segment_pause_ms :: int
  skip_empty_segments :: bool
  config_file_path :: "string option"
  config_is_modified :: bool
  last_modified :: "nat option"

definition tts_config_set_defaults :: "tts_config option \<Rightarrow> tts_config option" where
  "tts_config_set_defaults config =
     (case config of
        None \<Rightarrow> None
      | Some c \<Rightarrow> Some (c
          \<lparr>preferred_engine := TTS_ENGINE_PIPER, preferred_voice := Some ''default'',
           default_speed := Fin 1, default_volume := 80, default_pitch := 0,
           auto_continue_pages := True, highlight_spoken_text := True, announce_page_numbers := True,
           announce_headings := True, announce_links := True, announce_tables := True,
           show_status_messages := True, show_progress_indicator := True, status_timeout_ms := 2000,
           shortcut_toggle := Some ''Ctrl+t'', shortcut_pause_resume := Some ''Ctrl+space'',
           shortcut_stop := Some ''Ctrl+Shift+t'', shortcut_next_segment := Some ''Ctrl+Right'',
           shortcut_prev_segment := Some ''Ctrl+Left'', shortcut_speed_up := Some ''Ctrl+plus'',
           shortcut_speed_down := Some ''Ctrl+minus'', shortcut_volume_up := Some ''Ctrl+Shift+plus'',
           shortcut_volume_down := Some ''Ctrl+Shift+minus'', shortcut_settings := Some ''Ctrl+Shift+s'',
           use_threading := True, segment_pause_ms := 100, skip_empty_segments := True,
           config_is_modified := False\<rparr>))"

text \<open>A freshly allocated configuration, all bytes zero.\<close>

definition config_zero :: tts_config where
  "config_zero =
     \<lparr>preferred_engine = TTS_ENGINE_PIPER, preferred_voice = None, default_speed = Fin 0, default_volume = 0,
      default_pitch = 0, auto_continue_pages = False, highlight_spoken_text = False, announce_page_numbers = False,
      announce_headings = False, announce_links = False, announce_tables = False, show_status_messages = False,
      show_progress_indicator = False, status_timeout_ms = 0, shortcut_toggle = None, shortcut_pause_resume = None,
      shortcut_stop = None, shortcut_next_segment = None, shortcut_prev_segment = None, shortcut_speed_up = None,
      shortcut_speed_down = None, shortcut_volume_up = None, shortcut_volume_down = None, shortcut_settings = None,
      use_threading = False, segment_pause_ms = 0, skip_empty_segments = False, config_file_path = None,
      config_is_modified = False, last_modified = None\<rparr>"

definition tts_config_new :: "tts_config" where
  "tts_config_new = the (tts_config_set_defaults (Some config_zero))"

text \<open>Copying starts from a new configuration and overwrites every field.\<close>

definition tts_config_copy :: "tts_config option \<Rightarrow> tts_config option" where
  "tts_config_copy config =
     (case config of
        None \<Rightarrow> None
      | Some c \<Rightarrow> Some (tts_config_new
          \<lparr>preferred_engine := preferred_engine c, preferred_voice := preferred_voice c,
           default_speed := default_speed c, default_volume := default_volume c, default_pitch := default_pitch c,
           auto_continue_pages := auto_continue_pages c, highlight_spoken_text := highlight_spoken_text c,
           announce_page_numbers := announce_page_numbers c, announce_headings := announce_headings c,
           announce_links := announce_links c, announce_tables := announce_tables c,
           show_status_messages := show_status_messages c, show_progress_indicator := show_progress_indicator c,
           status_timeout_ms := status_timeout_ms c, shortcut_toggle := shortcut_toggle c,
           shortcut_pause_resume := shortcut_pause_resume c, shortcut_stop := shortcut_stop c,
           shortcut_next_segment := shortcut_next_segment c, shortcut_prev_segment := shortcut_prev_segment c,
           shortcut_speed_up := shortcut_speed_up c, shortcut_speed_down := shortcut_speed_down c,
           shortcut_volume_up := shortcut_volume_up c, shortcut_volume_down := shortcut_volume_down c,
           shortcut_settings := shortcut_settings c, use_threading := use_threading c,
           segment_pause_ms := segment_pause_ms c, skip_empty_segments := skip_empty_segments c,
           config_file_path := config_file_path c, config_is_modified := config_is_modified c,
           last_modified := last_modified c\<rparr>))"

subsection \<open>Change tracking\<close>

definition tts_config_mark_modified :: "nat \<Rightarrow> tts_config option \<Rightarrow> tts_config option" where
  "tts_config_mark_modified now config =
     (case config of
        None \<Rightarrow> None
      | Some c \<Rightarrow> Some (c\<lparr>config_is_modified := True, last_modified := Some now\<rparr>))"

definition tts_config_is_modified :: "tts_config option \<Rightarrow> bool" where
  "tts_config_is_modified config = (case config of None \<Rightarrow> False | Some c \<Rightarrow> config_is_modified c)"

definition tts_config_clear_modified :: "tts_config option \<Rightarrow> tts_config option" where
  "tts_config_clear_modified config =
     (case config of None \<Rightarrow> None | Some c \<Rightarrow> Some (c\<lparr>config_is_modified := False\<rparr>))"

definition tts_config_reset_to_defaults :: "nat \<Rightarrow> tts_config option \<Rightarrow> tts_config option" where
  "tts_config_reset_to_defaults now config =
     (case config of
        None \<Rightarrow> None
      | Some c \<Rightarrow> tts_config_mark_modified now (tts_config_set_defaults (Some c)))"

subsection \<open>Validation\<close>

definition tts_config_validate_speed :: "c_float \<Rightarrow> bool" where
  "tts_config_validate_speed speed \<longleftrightarrow> fl_le (Fin (1 / 2)) speed \<and> fl_le speed (Fin 3)"

definition tts_config_validate_volume :: "int \<Rightarrow> bool" where
  "tts_config_validate_volume volume \<longleftrightarrow> volume \<ge> 0 \<and> volume \<le> 100"

definition tts_config_validate_pitch :: "int \<Rightarrow> bool" where
  "tts_config_validate_pitch pitch \<longleftrightarrow> pitch \<ge> - 50 \<and> pitch \<le> 50"

definition tts_config_validate_engine_type :: "tts_engine_type \<Rightarrow> bool" where
  "tts_config_validate_engine_type engine_type \<longleftrightarrow>
     engine_type \<ge> TTS_ENGINE_PIPER \<and> engine_type < TTS_ENGINE_NONE"

lemmas validate_defs = tts_config_validate_speed_def tts_config_validate_volume_def tts_config_validate_pitch_def
  tts_config_validate_engine_type_def engine_type_order

text \<open>The result and the error message; the decimal point is the locale's.\<close>

definition tts_config_validate :: "char \<Rightarrow> tts_config option \<Rightarrow> bool \<times> string option" where
  "tts_config_validate point config =
     (case config of
        None \<Rightarrow> (False, Some ''Configuration is NULL'')
      | Some c \<Rightarrow>
          if \<not> tts_config_validate_speed (default_speed c) then
            (False, Some (''Invalid speed: '' @ fmt_2f point (default_speed c) @ '' (must be between 0'' @ [point] @
                          ''5 and 3'' @ [point] @ ''0)''))
          else if \<not> tts_config_validate_volume (default_volume c) then
            (False, Some (''Invalid volume: '' @ fmt_int (default_volume c) @ '' (must be between 0 and 100)''))
          else if \<not> tts_config_validate_pitch (default_pitch c) then
            (False, Some (''Invalid pitch: '' @ fmt_int (default_pitch c) @ '' (must be between -50 and 50)''))
          else if \<not> tts_config_validate_engine_type (preferred_engine c) then
            (False, Some (''Invalid engine type: '' @ fmt_int (engine_number (preferred_engine c))))
          else if status_timeout_ms c < 0 then
            (False, Some (''Invalid status timeout: '' @ fmt_int (status_timeout_ms c) @ '' (must be >= 0)''))
          else if segment_pause_ms c < 0 then
            (False, Some (''Invalid segment pause: '' @ fmt_int (segment_pause_ms c) @ '' (must be >= 0)''))
          else (True, None))"

subsection \<open>Setters\<close>

definition tts_config_set_preferred_engine :: "nat \<Rightarrow> tts_config option \<Rightarrow> tts_engine_type \<Rightarrow> bool \<times> tts_config option" where
  "tts_config_set_preferred_engine now config engine =
     (case config of
        None \<Rightarrow> (False, None)
      | Some c \<Rightarrow>
          if \<not> tts_config_validate_engine_type engine then (False, Some c)
          else if preferred_engine c \<noteq> engine
          then (True, tts_config_mark_modified now (Some (c\<lparr>preferred_engine := engine\<rparr>)))
          else (True, Some c))"

definition tts_config_set_preferred_voice :: "nat \<Rightarrow> tts_config option \<Rightarrow> string option \<Rightarrow> bool \<times> tts_config option" where
  "tts_config_set_preferred_voice now config voice =
     (case config of
        None \<Rightarrow> (False, None)
      | Some c \<Rightarrow>
          if preferred_voice c \<noteq> voice
          then (True, tts_config_mark_modified now (Some (c\<lparr>preferred_voice := voice\<rparr>)))
          else (True, Some c))"

definition tts_config_set_default_speed :: "nat \<Rightarrow> tts_config option \<Rightarrow> c_float \<Rightarrow> bool \<times> tts_config option" where
  "tts_config_set_default_speed now config speed =
     (case config of
        None \<Rightarrow> (False, None)
      | Some c \<Rightarrow>
          if \<not> tts_config_validate_speed speed then (False, Some c)
          else if \<not> fl_eq (default_speed c) speed
          then (True, tts_config_mark_modified now (Some (c\<lparr>default_speed := speed\<rparr>)))
          else (True, Some c))"

definition tts_config_set_default_volume :: "nat \<Rightarrow> tts_config option \<Rightarrow> int \<Rightarrow> bool \<times> tts_config option" where
  "tts_config_set_default_volume now config volume =
     (case config of
        None \<Rightarrow> (False, None)
      | Some c \<Rightarrow>
          if \<not> tts_config_validate_volume volume then (False, Some c)
          else if default_volume c \<noteq> volume
          then (True, tts_config_mark_modified now (Some (c\<lparr>default_volume := volume\<rparr>)))
          else (True, Some c))"

definition tts_config_set_default_pitch :: "nat \<Rightarrow> tts_config option \<Rightarrow> int \<Rightarrow> bool \<times> tts_config option" where
  "tts_config_set_default_pitch now config pitch =
     (case config of
        None \<Rightarrow> (False, None)
      | Some c \<Rightarrow>
          if \<not> tts_config_validate_pitch pitch then (False, Some c)
          else if default_pitch c \<noteq> pitch
          then (True, tts_config_mark_modified now (Some (c\<lparr>default_pitch := pitch\<rparr>)))
          else (True, Some c))"

definition tts_config_set_auto_continue_pages :: "nat \<Rightarrow> tts_config option \<Rightarrow> bool \<Rightarrow> bool \<times> tts_config option" where
  "tts_config_set_auto_continue_pages now config auto_continue =
     (case config of
        None \<Rightarrow> (False, None)
      | Some c \<Rightarrow>
          if auto_continue_pages c \<noteq> auto_continue
          then (True, tts_config_mark_modified now (Some (c\<lparr>auto_continue_pages := auto_continue\<rparr>)))
          else (True, Some c))"

definition tts_config_set_highlight_spoken_text :: "nat \<Rightarrow> tts_config option \<Rightarrow> bool \<Rightarrow> bool \<times> tts_config option" where
  "tts_config_set_highlight_spoken_text now config highlight =
     (case config of
        None \<Rightarrow> (False, None)
      | Some c \<Rightarrow>
          if highlight_spoken_text c \<noteq> highlight
          then (True, tts_config_mark_modified now (Some (c\<lparr>highlight_spoken_text := highlight\<rparr>)))
          else (True, Some c))"

definition tts_config_set_announce_page_numbers :: "nat \<Rightarrow> tts_config option \<Rightarrow> bool \<Rightarrow> bool \<times> tts_config option" where
  "tts_config_set_announce_page_numbers now config announce =
     (case config of
        None \<Rightarrow> (False, None)
      | Some c \<Rightarrow>
          if announce_page_numbers c \<noteq> announce
          then (True, tts_config_mark_modified now (Some (c\<lparr>announce_page_numbers := announce\<rparr>)))
          else (True, Some c))"

subsection \<open>Getters\<close>

definition tts_config_get_preferred_engine :: "tts_config option \<Rightarrow> tts_engine_type" where
  "tts_config_get_preferred_engine config = (case config of Some c \<Rightarrow> preferred_engine c | None \<Rightarrow> TTS_ENGINE_NONE)"

definition tts_config_get_preferred_voice :: "tts_config option \<Rightarrow> string option" where
  "tts_config_get_preferred_voice config = (case config of Some c \<Rightarrow> preferred_voice c | None \<Rightarrow> None)"

definition tts_config_get_default_speed :: "tts_config option \<Rightarrow> c_float" where
  "tts_config_get_default_speed config = (case config of Some c \<Rightarrow> default_speed c | None \<Rightarrow> Fin 1)"

definition tts_config_get_default_volume :: "tts_config option \<Rightarrow> int" where
  "tts_config_get_default_volume config = (case config of Some c \<Rightarrow> default_volume c | None \<Rightarrow> 80)"

definition tts_config_get_default_pitch :: "tts_config option \<Rightarrow> int" where
  "tts_config_get_default_pitch config = (case config of Some c \<Rightarrow> default_pitch c | None \<Rightarrow> 0)"

definition tts_config_get_auto_continue_pages :: "tts_config option \<Rightarrow> bool" where
  "tts_config_get_auto_continue_pages config = (case config of Some c \<Rightarrow> auto_continue_pages c | None \<Rightarrow> True)"

definition tts_config_get_highlight_spoken_text :: "tts_config option \<Rightarrow> bool" where
  "tts_config_get_highlight_spoken_text config = (case config of Some c \<Rightarrow> highlight_spoken_text c | None \<Rightarrow> True)"

definition tts_config_get_announce_page_numbers :: "tts_config option \<Rightarrow> bool" where
  "tts_config_get_announce_page_numbers config = (case config of Some c \<Rightarrow> announce_page_numbers c | None \<Rightarrow> True)"

lemmas setter_defs =
  tts_config_set_preferred_engine_def
  tts_config_set_preferred_voice_def
  tts_config_set_default_speed_def
  tts_config_set_default_volume_def
  tts_config_set_default_pitch_def
  tts_config_set_auto_continue_pages_def
  tts_config_set_highlight_spoken_text_def
  tts_config_set_announce_page_numbers_def tts_config_mark_modified_def

lemmas getter_defs =
  tts_config_get_preferred_engine_def
  tts_config_get_preferred_voice_def
  tts_config_get_default_speed_def
  tts_config_get_default_volume_def
  tts_config_get_default_pitch_def
  tts_config_get_auto_continue_pages_def
  tts_config_get_highlight_spoken_text_def
  tts_config_get_announce_page_numbers_def

subsection \<open>The contract of the setters\<close>

text \<open>
  What every setter promises for a configuration that exists: it succeeds exactly for a legal value, then the
  getter returns that value, and otherwise nothing changes; the configuration counts as modified afterwards
  if it did before or if the value differs from the old one.
\<close>

definition apply_puts ::
  "(nat \<Rightarrow> tts_config option \<Rightarrow> 'v \<Rightarrow> bool \<times> tts_config option) \<Rightarrow> (nat \<times> 'v) list \<Rightarrow>
   tts_config option \<Rightarrow> tts_config option" where
  "apply_puts put vs c = fold (\<lambda>(now, v) c. snd (put now c v)) vs c"

locale validated_setter =
  fixes put :: "nat \<Rightarrow> tts_config option \<Rightarrow> 'v \<Rightarrow> bool \<times> tts_config option"
    and get :: "tts_config option \<Rightarrow> 'v"
    and legal :: "'v \<Rightarrow> bool"
  assumes put_null: "put now None v = (False, None)"
    and put_result: "fst (put now (Some c) v) = legal v"
    and put_get: "legal v \<Longrightarrow> get (snd (put now (Some c) v)) = v"
    and put_illegal: "\<not> legal v \<Longrightarrow> snd (put now (Some c) v) = Some c"
    and put_modified: "tts_config_is_modified (snd (put now (Some c) v)) \<longleftrightarrow>
      config_is_modified c \<or> (legal v \<and> get (Some c) \<noteq> v)"
    and put_some: "snd (put now (Some c) v) \<noteq> None"
begin

lemma get_after_put: "get (snd (put now (Some c) v)) = (if legal v then v else get (Some c))"
  by (simp add: put_get put_illegal)

lemma get_stays_legal: "legal (get (Some c)) \<Longrightarrow> legal (get (snd (put now (Some c) v)))"
  by (simp add: get_after_put)

text \<open>After a series of calls the getter returns the last legal value, or the initial one.\<close>

lemma get_apply_puts:
  "get (apply_puts put vs (Some c)) = last (get (Some c) # filter legal (map snd vs))"
proof (induction vs arbitrary: c)
  case Nil
  then show ?case by (simp add: apply_puts_def)
next
  case (Cons nv vs)
  obtain now v where nv: "nv = (now, v)" by (cases nv)
  obtain c' where c': "snd (put now (Some c) v) = Some c'" using put_some by blast
  have "get (Some c') = (if legal v then v else get (Some c))" using get_after_put [of now c v] c' by simp
  then show ?case using Cons.IH [of c'] by (simp add: nv c' apply_puts_def)
qed

end

lemma fl_eq_iff: "tts_config_validate_speed v \<Longrightarrow> fl_eq x v \<longleftrightarrow> x = v"
  by (auto simp: fl_eq_def tts_config_validate_speed_def)

interpretation voice: validated_setter tts_config_set_preferred_voice tts_config_get_preferred_voice "\<lambda>_. True"
  by unfold_locales
    (auto simp: setter_defs getter_defs tts_config_is_modified_def fl_eq_iff)

interpretation engine: validated_setter tts_config_set_preferred_engine tts_config_get_preferred_engine tts_config_validate_engine_type
  by unfold_locales
    (auto simp: setter_defs getter_defs tts_config_is_modified_def fl_eq_iff)

interpretation speed: validated_setter tts_config_set_default_speed tts_config_get_default_speed tts_config_validate_speed
  by unfold_locales
    (auto simp: setter_defs getter_defs tts_config_is_modified_def fl_eq_iff)

interpretation volume: validated_setter tts_config_set_default_volume tts_config_get_default_volume tts_config_validate_volume
  by unfold_locales
    (auto simp: setter_defs getter_defs tts_config_is_modified_def fl_eq_iff)

interpretation pitch: validated_setter tts_config_set_default_pitch tts_config_get_default_pitch tts_config_validate_pitch
  by unfold_locales
    (auto simp: setter_defs getter_defs tts_config_is_modified_def fl_eq_iff)

interpretation auto_continue: validated_setter tts_config_set_auto_continue_pages tts_config_get_auto_continue_pages "\<lambda>_. True"
  by unfold_locales
    (auto simp: setter_defs getter_defs tts_config_is_modified_def fl_eq_iff)

interpretation highlight: validated_setter tts_config_set_highlight_spoken_text tts_config_get_highlight_spoken_text "\<lambda>_. True"
  by unfold_locales
    (auto simp: setter_defs getter_defs tts_config_is_modified_def fl_eq_iff)

interpretation announce_pages: validated_setter tts_config_set_announce_page_numbers tts_config_get_announce_page_numbers "\<lambda>_. True"
  by unfold_locales
    (auto simp: setter_defs getter_defs tts_config_is_modified_def fl_eq_iff)

subsection \<open>Properties of the configuration\<close>

lemma validate_iff:
  "fst (tts_config_validate point config) \<longleftrightarrow>
     (\<exists>c. config = Some c \<and> tts_config_validate_speed (default_speed c) \<and>
        tts_config_validate_volume (default_volume c) \<and> tts_config_validate_pitch (default_pitch c) \<and>
        tts_config_validate_engine_type (preferred_engine c) \<and> 0 \<le> status_timeout_ms c \<and> 0 \<le> segment_pause_ms c)"
  by (cases config) (auto simp: tts_config_validate_def)

text \<open>
  Validation accepts exactly the configurations with a speed from 0.5 to 3 (so none that is not a number), a
  volume from 0 to 100, a pitch from -50 to 50, a real engine and non-negative times, and it gives a message
  exactly when it rejects.
\<close>

theorem validation_correct:
  "(fst (tts_config_validate point config) \<longleftrightarrow>
     (\<exists>c r. config = Some c \<and> default_speed c = Fin r \<and> 1 / 2 \<le> r \<and> r \<le> 3 \<and>
        0 \<le> default_volume c \<and> default_volume c \<le> 100 \<and> - 50 \<le> default_pitch c \<and> default_pitch c \<le> 50 \<and>
        preferred_engine c \<noteq> TTS_ENGINE_NONE \<and> 0 \<le> status_timeout_ms c \<and> 0 \<le> segment_pause_ms c)) \<and>
   (snd (tts_config_validate point config) = None \<longleftrightarrow> fst (tts_config_validate point config))"
proof
  have engine: "tts_config_validate_engine_type e \<longleftrightarrow> e \<noteq> TTS_ENGINE_NONE" for e
    by (cases e) (simp_all add: tts_config_validate_engine_type_def engine_type_order)
  show "fst (tts_config_validate point config) \<longleftrightarrow>
     (\<exists>c r. config = Some c \<and> default_speed c = Fin r \<and> 1 / 2 \<le> r \<and> r \<le> 3 \<and>
        0 \<le> default_volume c \<and> default_volume c \<le> 100 \<and> - 50 \<le> default_pitch c \<and> default_pitch c \<le> 50 \<and>
        preferred_engine c \<noteq> TTS_ENGINE_NONE \<and> 0 \<le> status_timeout_ms c \<and> 0 \<le> segment_pause_ms c)"
    unfolding validate_iff engine tts_config_validate_speed_def fl_between_Fin
      tts_config_validate_volume_def tts_config_validate_pitch_def by blast
  show "snd (tts_config_validate point config) = None \<longleftrightarrow> fst (tts_config_validate point config)"
    by (cases config) (simp_all add: tts_config_validate_def)
qed

text \<open>
  For each validated setting, after any series of set calls the getter returns the last legal value that
  was passed, or the initial one if none was legal.
\<close>

theorem setters_keep_last_legal_value:
  "tts_config_get_default_speed (apply_puts tts_config_set_default_speed speeds (Some c)) =
     last (default_speed c # filter tts_config_validate_speed (map snd speeds)) \<and>
   tts_config_get_default_volume (apply_puts tts_config_set_default_volume volumes (Some c)) =
     last (default_volume c # filter tts_config_validate_volume (map snd volumes)) \<and>
   tts_config_get_default_pitch (apply_puts tts_config_set_default_pitch pitches (Some c)) =
     last (default_pitch c # filter tts_config_validate_pitch (map snd pitches)) \<and>
   tts_config_get_preferred_engine (apply_puts tts_config_set_preferred_engine engines (Some c)) =
     last (preferred_engine c # filter tts_config_validate_engine_type (map snd engines))"
  using speed.get_apply_puts [of speeds c] volume.get_apply_puts [of volumes c]
    pitch.get_apply_puts [of pitches c] engine.get_apply_puts [of engines c]
  by (simp add: getter_defs)

text \<open>The setters as a machine whose invariant is validity.\<close>

datatype config_op =
    Set_Engine tts_engine_type
  | Set_Voice "string option"
  | Set_Speed c_float
  | Set_Volume int
  | Set_Pitch int
  | Set_Auto_Continue bool
  | Set_Highlight bool
  | Set_Announce_Pages bool
  | Reset_To_Defaults
  | Clear_Modified

fun config_exec :: "nat \<times> config_op \<Rightarrow> tts_config option \<Rightarrow> tts_config option" where
  "config_exec (now, Set_Engine v) c = snd (tts_config_set_preferred_engine now c v)"
| "config_exec (now, Set_Voice v) c = snd (tts_config_set_preferred_voice now c v)"
| "config_exec (now, Set_Speed v) c = snd (tts_config_set_default_speed now c v)"
| "config_exec (now, Set_Volume v) c = snd (tts_config_set_default_volume now c v)"
| "config_exec (now, Set_Pitch v) c = snd (tts_config_set_default_pitch now c v)"
| "config_exec (now, Set_Auto_Continue v) c = snd (tts_config_set_auto_continue_pages now c v)"
| "config_exec (now, Set_Highlight v) c = snd (tts_config_set_highlight_spoken_text now c v)"
| "config_exec (now, Set_Announce_Pages v) c = snd (tts_config_set_announce_page_numbers now c v)"
| "config_exec (now, Reset_To_Defaults) c = tts_config_reset_to_defaults now c"
| "config_exec (now, Clear_Modified) c = tts_config_clear_modified c"

definition config_legal :: "tts_config \<Rightarrow> bool" where
  "config_legal c \<longleftrightarrow> tts_config_validate_speed (default_speed c) \<and> tts_config_validate_volume (default_volume c) \<and>
     tts_config_validate_pitch (default_pitch c) \<and> tts_config_validate_engine_type (preferred_engine c)"

definition config_ok :: "tts_config option \<Rightarrow> bool" where
  "config_ok config \<longleftrightarrow> (\<exists>c. config = Some c \<and> config_legal c \<and> 0 \<le> status_timeout_ms c \<and> 0 \<le> segment_pause_ms c)"

lemma config_ok_validate: "fst (tts_config_validate point config) = config_ok config"
  by (auto simp: validate_iff config_ok_def config_legal_def)

lemma defaults_ok: "config_ok (tts_config_set_defaults (Some c))"
  by (simp add: config_ok_def config_legal_def tts_config_set_defaults_def validate_defs)

interpretation config: op_machine config_exec config_ok
proof
  fix config :: "tts_config option" and op :: "nat \<times> config_op"
  assume "config_ok config"
  then obtain c where c: "config = Some c" "config_legal c" "0 \<le> status_timeout_ms c" "0 \<le> segment_pause_ms c"
    by (auto simp: config_ok_def)
  obtain now o' where op: "op = (now, o')" by (cases op)
  have marked: "config_ok (tts_config_mark_modified now x) = config_ok x" for x
    by (cases x) (auto simp: config_ok_def config_legal_def tts_config_mark_modified_def)
  show "config_ok (config_exec op config)"
  proof (cases o')
    case Reset_To_Defaults
    then show ?thesis by (simp add: op c(1) tts_config_reset_to_defaults_def marked defaults_ok)
  qed (use c in \<open>auto simp: op setter_defs tts_config_clear_modified_def config_ok_def config_legal_def\<close>)
qed

text \<open>
  A configuration that starts from the defaults and is changed only through the setters always passes
  validation, whatever values the setters are given and in whatever order they are called.
\<close>

theorem setters_never_invalidate:
  "fst (tts_config_validate point (fold config_exec ops (Some tts_config_new)))"
proof -
  have "config_ok (Some tts_config_new)"
    using defaults_ok [of config_zero] by (simp add: tts_config_new_def tts_config_set_defaults_def)
  then show ?thesis
    using config.inv_run [of "Some tts_config_new" ops] by (simp add: config.run_def config_ok_validate)
qed

lemma copy_identity: "tts_config_copy (Some c) = Some c"
  by (simp add: tts_config_copy_def tts_config_new_def tts_config_set_defaults_def config_zero_def)

subsection \<open>Exchange with zathura's settings\<close>

text \<open>
  The settings of a session belong to girara, which is not part of the repository. Registering is the list
  of calls of \<^verbatim>\<open>girara_setting_add\<close>, each with a result given by the argument \<open>add\<close>;
  loading asks the argument \<open>get\<close> for the value of a setting, absent when \<^verbatim>\<open>girara_setting_get\<close>
  fails or yields NULL.
\<close>

datatype setting_value = S_String string | S_Boolean bool | S_Int int | S_Float c_float

definition config_settings :: "(string \<times> setting_value) list" where
  "config_settings =
     [(''tts_engine'', S_String ''piper''), (''tts_piper_voice'', S_String ''default''),
      (''tts_speechd_voice'', S_String ''default''), (''tts_espeak_voice'', S_String ''default''),
      (''tts_auto_fallback'', S_Boolean True), (''tts_piper_voice_path'', S_String ''''),
      (''tts_speed'', S_Float (Fin 1)), (''tts_volume'', S_Int 80), (''tts_pitch'', S_Int 0),
      (''tts_auto_continue_pages'', S_Boolean True), (''tts_highlight_text'', S_Boolean True),
      (''tts_highlight_color'', S_String ''#FFFF00''), (''tts_announce_page_numbers'', S_Boolean True),
      (''tts_announce_math'', S_Boolean True), (''tts_announce_tables'', S_Boolean True),
      (''tts_announce_links'', S_Boolean True), (''tts_show_status'', S_Boolean True),
      (''tts_show_progress'', S_Boolean True), (''tts_extraction_method'', S_String ''auto''),
      (''tts_optimize_reading_order'', S_Boolean True), (''tts_sentence_pause'', S_Int 100),
      (''tts_paragraph_pause'', S_Int 300)]"

text \<open>Every setting is added, also after one has failed (\<^verbatim>\<open>all_registered &= ...\<close>).\<close>

definition tts_config_register_settings ::
  "(string \<Rightarrow> setting_value \<Rightarrow> bool) \<Rightarrow> tts_config option \<Rightarrow> bool \<Rightarrow> bool \<times> (string \<times> setting_value) list" where
  "tts_config_register_settings add config has_session =
     (if config = None \<or> \<not> has_session then (False, [])
      else (list_all (\<lambda>(name, value). add name value) config_settings, config_settings))"

definition engine_of_name :: "string \<Rightarrow> tts_engine_type option" where
  "engine_of_name name =
     (if name = ''piper'' then Some TTS_ENGINE_PIPER
      else if name = ''speech_dispatcher'' then Some TTS_ENGINE_SPEECH_DISPATCHER
      else if name = ''espeak'' then Some TTS_ENGINE_ESPEAK
      else if name = ''system'' then Some TTS_ENGINE_SYSTEM
      else None)"

text \<open>Using a setting of a given type, when it is there.\<close>

definition load_string :: "setting_value option \<Rightarrow> (string \<Rightarrow> tts_config \<Rightarrow> tts_config) \<Rightarrow> tts_config \<Rightarrow> tts_config" where
  "load_string r upd c = (case r of Some (S_String v) \<Rightarrow> upd v c | _ \<Rightarrow> c)"

definition load_bool :: "setting_value option \<Rightarrow> (bool \<Rightarrow> tts_config \<Rightarrow> tts_config) \<Rightarrow> tts_config \<Rightarrow> tts_config" where
  "load_bool r upd c = (case r of Some (S_Boolean v) \<Rightarrow> upd v c | _ \<Rightarrow> c)"

definition load_int :: "setting_value option \<Rightarrow> (int \<Rightarrow> tts_config \<Rightarrow> tts_config) \<Rightarrow> tts_config \<Rightarrow> tts_config" where
  "load_int r upd c = (case r of Some (S_Int v) \<Rightarrow> upd v c | _ \<Rightarrow> c)"

definition load_float :: "setting_value option \<Rightarrow> (c_float \<Rightarrow> tts_config \<Rightarrow> tts_config) \<Rightarrow> tts_config \<Rightarrow> tts_config" where
  "load_float r upd c = (case r of Some (S_Float v) \<Rightarrow> upd v c | _ \<Rightarrow> c)"

lemmas load_defs = load_string_def load_bool_def load_int_def load_float_def

definition tts_config_load_from_zathura ::
  "(string \<Rightarrow> setting_value option) \<Rightarrow> tts_config option \<Rightarrow> bool \<Rightarrow> bool \<times> tts_config option" where
  "tts_config_load_from_zathura get config has_session =
     (case config of
        None \<Rightarrow> (False, None)
      | Some c0 \<Rightarrow>
          if \<not> has_session then (False, config)
          else
            let c1 = load_string (get ''tts_engine'')
                       (\<lambda>v c. case engine_of_name v of Some e \<Rightarrow> c\<lparr>preferred_engine := e\<rparr> | None \<Rightarrow> c) c0;
                c2 = load_string (get ''tts_piper_voice'') (\<lambda>v c. c\<lparr>preferred_voice := Some v\<rparr>) c1;
                c3 = load_float (get ''tts_speed'')
                       (\<lambda>v c. if tts_config_validate_speed v then c\<lparr>default_speed := v\<rparr> else c) c2;
                c4 = load_int (get ''tts_volume'')
                       (\<lambda>v c. if tts_config_validate_volume v then c\<lparr>default_volume := v\<rparr> else c) c3;
                c5 = load_int (get ''tts_pitch'')
                       (\<lambda>v c. if tts_config_validate_pitch v then c\<lparr>default_pitch := v\<rparr> else c) c4;
                c6 = load_bool (get ''tts_auto_continue_pages'') (\<lambda>v c. c\<lparr>auto_continue_pages := v\<rparr>) c5;
                c7 = load_bool (get ''tts_highlight_text'') (\<lambda>v c. c\<lparr>highlight_spoken_text := v\<rparr>) c6;
                c8 = load_bool (get ''tts_announce_page_numbers'') (\<lambda>v c. c\<lparr>announce_page_numbers := v\<rparr>) c7;
                c9 = load_bool (get ''tts_announce_math'') (\<lambda>v c. c\<lparr>announce_headings := v\<rparr>) c8;
                c10 = load_bool (get ''tts_announce_tables'') (\<lambda>v c. c\<lparr>announce_tables := v\<rparr>) c9;
                c11 = load_bool (get ''tts_announce_links'') (\<lambda>v c. c\<lparr>announce_links := v\<rparr>) c10;
                c12 = load_bool (get ''tts_show_status'') (\<lambda>v c. c\<lparr>show_status_messages := v\<rparr>) c11;
                c13 = load_bool (get ''tts_show_progress'') (\<lambda>v c. c\<lparr>show_progress_indicator := v\<rparr>) c12;
                c14 = load_int (get ''tts_sentence_pause'')
                        (\<lambda>v c. if v \<ge> 0 then c\<lparr>segment_pause_ms := v\<rparr> else c) c13
            in (True, Some c14))"

lemma load_ok:
  "config_ok (Some c) \<Longrightarrow> (\<And>v. config_ok (Some (us v c))) \<Longrightarrow> config_ok (Some (load_string r us c))"
  "config_ok (Some c) \<Longrightarrow> (\<And>v. config_ok (Some (ub v c))) \<Longrightarrow> config_ok (Some (load_bool r ub c))"
  "config_ok (Some c) \<Longrightarrow> (\<And>v. config_ok (Some (ui v c))) \<Longrightarrow> config_ok (Some (load_int r ui c))"
  "config_ok (Some c) \<Longrightarrow> (\<And>v. config_ok (Some (uf v c))) \<Longrightarrow> config_ok (Some (load_float r uf c))"
  by (simp_all add: load_defs split: option.split setting_value.split)

lemma upd_ok:
  "config_ok (Some c) \<Longrightarrow> config_ok (Some (c\<lparr>preferred_voice := x\<rparr>))"
  "config_ok (Some c) \<Longrightarrow> config_ok (Some (c\<lparr>auto_continue_pages := b\<rparr>))"
  "config_ok (Some c) \<Longrightarrow> config_ok (Some (c\<lparr>highlight_spoken_text := b\<rparr>))"
  "config_ok (Some c) \<Longrightarrow> config_ok (Some (c\<lparr>announce_page_numbers := b\<rparr>))"
  "config_ok (Some c) \<Longrightarrow> config_ok (Some (c\<lparr>announce_headings := b\<rparr>))"
  "config_ok (Some c) \<Longrightarrow> config_ok (Some (c\<lparr>announce_tables := b\<rparr>))"
  "config_ok (Some c) \<Longrightarrow> config_ok (Some (c\<lparr>announce_links := b\<rparr>))"
  "config_ok (Some c) \<Longrightarrow> config_ok (Some (c\<lparr>show_status_messages := b\<rparr>))"
  "config_ok (Some c) \<Longrightarrow> config_ok (Some (c\<lparr>show_progress_indicator := b\<rparr>))"
  "config_ok (Some c) \<Longrightarrow> config_ok (Some (if tts_config_validate_speed s then c\<lparr>default_speed := s\<rparr> else c))"
  "config_ok (Some c) \<Longrightarrow> config_ok (Some (if tts_config_validate_volume i then c\<lparr>default_volume := i\<rparr> else c))"
  "config_ok (Some c) \<Longrightarrow> config_ok (Some (if tts_config_validate_pitch i then c\<lparr>default_pitch := i\<rparr> else c))"
  "config_ok (Some c) \<Longrightarrow> config_ok (Some (if 0 \<le> i then c\<lparr>segment_pause_ms := i\<rparr> else c))"
  by (simp_all add: config_ok_def config_legal_def)

lemma engine_of_name_legal: "engine_of_name name = Some e \<Longrightarrow> tts_config_validate_engine_type e"
  by (auto simp: engine_of_name_def tts_config_validate_engine_type_def engine_type_order split: if_splits)

lemma upd_engine_ok:
  "config_ok (Some c) \<Longrightarrow>
   config_ok (Some (case engine_of_name v of Some e \<Rightarrow> c\<lparr>preferred_engine := e\<rparr> | None \<Rightarrow> c))"
  using engine_of_name_legal [of v] by (auto simp: config_ok_def config_legal_def split: option.split)

text \<open>
  Loading zathura's settings never makes a valid configuration invalid, whatever values the settings have;
  and when the settings still hold what the plugin registered, loading them into a new configuration changes
  nothing, that is, the registered defaults are the built-in ones.
\<close>

theorem zathura_settings_keep_config_valid:
  "(fst (tts_config_validate point (Some c)) \<longrightarrow>
      fst (tts_config_validate point (snd (tts_config_load_from_zathura get (Some c) True)))) \<and>
   ((\<forall>name value. (name, value) \<in> set (snd (tts_config_register_settings add (Some tts_config_new) True)) \<longrightarrow>
       get name = Some value) \<longrightarrow>
    tts_config_load_from_zathura get (Some tts_config_new) True = (True, Some tts_config_new))"
proof (intro conjI impI)
  assume "fst (tts_config_validate point (Some c))"
  then have "config_ok (Some c)" by (simp add: config_ok_validate)
  then show "fst (tts_config_validate point (snd (tts_config_load_from_zathura get (Some c) True)))"
    unfolding config_ok_validate tts_config_load_from_zathura_def Let_def option.case snd_conv if_False not_True_eq_False
    by (intro load_ok upd_ok upd_engine_ok)
next
  assume "\<forall>name value. (name, value) \<in> set (snd (tts_config_register_settings add (Some tts_config_new) True)) \<longrightarrow>
    get name = Some value"
  then have "get ''tts_engine'' = Some (S_String ''piper'')" "get ''tts_piper_voice'' = Some (S_String ''default'')"
    "get ''tts_speed'' = Some (S_Float (Fin 1))" "get ''tts_volume'' = Some (S_Int 80)" "get ''tts_pitch'' = Some (S_Int 0)"
    "get ''tts_auto_continue_pages'' = Some (S_Boolean True)" "get ''tts_highlight_text'' = Some (S_Boolean True)"
    "get ''tts_announce_page_numbers'' = Some (S_Boolean True)" "get ''tts_announce_math'' = Some (S_Boolean True)"
    "get ''tts_announce_tables'' = Some (S_Boolean True)" "get ''tts_announce_links'' = Some (S_Boolean True)"
    "get ''tts_show_status'' = Some (S_Boolean True)" "get ''tts_show_progress'' = Some (S_Boolean True)"
    "get ''tts_sentence_pause'' = Some (S_Int 100)"
    by (simp_all add: tts_config_register_settings_def config_settings_def)
  then show "tts_config_load_from_zathura get (Some tts_config_new) True = (True, Some tts_config_new)"
    by (simp add: tts_config_load_from_zathura_def load_defs engine_of_name_def validate_defs
        tts_config_new_def tts_config_set_defaults_def config_zero_def Let_def)
qed

lemma zathura_settings_keep_config_valid_witness:
  "tts_config_load_from_zathura (map_of config_settings) (Some tts_config_new) True = (True, Some tts_config_new)"
proof -
  have "distinct (map fst config_settings)" by (simp add: config_settings_def)
  then have "\<forall>name value. (name, value) \<in> set (snd (tts_config_register_settings (\<lambda>n v. True) (Some tts_config_new) True)) \<longrightarrow>
      map_of config_settings name = Some value"
    by (simp add: tts_config_register_settings_def)
  then show ?thesis
    using zathura_settings_keep_config_valid [of _ _ "map_of config_settings" "\<lambda>n v. True"] by blast
qed

end
