(* ===== verification/Config_File.thy ===== *)
theory Config_File
  imports Tts_Config
begin

text \<open>
  The configuration file of \<^verbatim>\<open>tts-config.c\<close>: splitting a line into key and value, loading and
  saving. Files are a map from paths to contents; reading a line is \<^verbatim>\<open>fgets\<close> with the buffer of
  1024 bytes, so a longer line is read in pieces. The decimal point of \<^verbatim>\<open>%.2f\<close> is the one of the
  process's locale and an argument of saving. The contents have no NUL byte.
\<close>

subsection \<open>Lines\<close>

definition g_ascii_isspace :: "char \<Rightarrow> bool" where
  "g_ascii_isspace c \<longleftrightarrow> c = CHR '' '' \<or> c = CHR 0x09 \<or> c = CHR 0x0A \<or> c = CHR 0x0C \<or> c = CHR 0x0D"

definition strip_end :: "string \<Rightarrow> string" where
  "strip_end s = rev (dropWhile g_ascii_isspace (rev s))"

definition tts_config_parse_key_value :: "string option \<Rightarrow> (string \<times> string) option" where
  "tts_config_parse_key_value line =
     (case line of
        None \<Rightarrow> None
      | Some l0 \<Rightarrow>
          let l = dropWhile g_ascii_isspace l0 in
          if l = [] \<or> hd l = CHR ''#'' then None
          else if CHR ''='' \<notin> set l then None
          else let key = strip_end (takeWhile (\<lambda>c. c \<noteq> CHR ''='') l) in
            if key = [] then None
            else let value_start = dropWhile g_ascii_isspace (tl (dropWhile (\<lambda>c. c \<noteq> CHR ''='') l))
              in Some (key, strip_end value_start))"

definition tts_config_format_key_value :: "string option \<Rightarrow> string option \<Rightarrow> string option" where
  "tts_config_format_key_value key value =
     (case key of
        None \<Rightarrow> None
      | Some k \<Rightarrow> (case value of None \<Rightarrow> None | Some v \<Rightarrow> Some (k @ '' = '' @ v @ [CHR 0x0A])))"

text \<open>One call of \<^verbatim>\<open>fgets\<close>: up to \<open>n\<close> bytes, ending after a newline.\<close>

fun read_line :: "nat \<Rightarrow> string \<Rightarrow> string \<times> string" where
  "read_line n [] = ([], [])"
| "read_line 0 (c # cs) = ([], c # cs)"
| "read_line (Suc n) (c # cs) =
     (if c = CHR 0x0A then ([c], cs) else case read_line n cs of (l, rest) \<Rightarrow> (c # l, rest))"

lemma read_line_append: "read_line n s = (l, rest) \<Longrightarrow> s = l @ rest"
  by (induction n s arbitrary: l rest rule: read_line.induct) (auto split: if_splits prod.splits)

lemma read_line_progress: "read_line (Suc n) s = (l, rest) \<Longrightarrow> s \<noteq> [] \<Longrightarrow> length rest < length s"
  by (cases s) (auto split: if_splits prod.splits dest: read_line_append)

function fgets_lines :: "string \<Rightarrow> string list" where
  "fgets_lines s = (if s = [] then [] else case read_line 1023 s of (l, rest) \<Rightarrow> l # fgets_lines rest)"
  by pat_completeness auto

termination
  by (relation "measure length") (auto simp: numeral_eq_Suc dest!: sym [of "(_, _)"] read_line_progress)

declare fgets_lines.simps [simp del]

subsection \<open>Loading\<close>

definition config_bool :: "string \<Rightarrow> bool" where
  "config_bool value \<longleftrightarrow> value = ''true''"

definition apply_key_value :: "nat \<Rightarrow> string \<Rightarrow> string \<Rightarrow> tts_config \<Rightarrow> tts_config" where
  "apply_key_value now key value c =
     (if key = ''preferred_engine'' then
        (case engine_of_name value of Some e \<Rightarrow> c\<lparr>preferred_engine := e\<rparr> | None \<Rightarrow> c)
      else if key = ''preferred_voice'' then
        the (snd (tts_config_set_preferred_voice now (Some c) (Some value)))
      else if key = ''default_speed'' then
        the (snd (tts_config_set_default_speed now (Some c) (double_to_float (g_ascii_strtod value))))
      else if key = ''default_volume'' then
        the (snd (tts_config_set_default_volume now (Some c) (c_atoi value)))
      else if key = ''default_pitch'' then
        the (snd (tts_config_set_default_pitch now (Some c) (c_atoi value)))
      else if key = ''auto_continue_pages'' then
        the (snd (tts_config_set_auto_continue_pages now (Some c) (config_bool value)))
      else if key = ''highlight_spoken_text'' then
        the (snd (tts_config_set_highlight_spoken_text now (Some c) (config_bool value)))
      else if key = ''announce_page_numbers'' then
        the (snd (tts_config_set_announce_page_numbers now (Some c) (config_bool value)))
      else if key = ''announce_headings'' then c\<lparr>announce_headings := config_bool value\<rparr>
      else if key = ''announce_links'' then c\<lparr>announce_links := config_bool value\<rparr>
      else if key = ''announce_tables'' then c\<lparr>announce_tables := config_bool value\<rparr>
      else if key = ''show_status_messages'' then c\<lparr>show_status_messages := config_bool value\<rparr>
      else if key = ''show_progress_indicator'' then c\<lparr>show_progress_indicator := config_bool value\<rparr>
      else if key = ''status_timeout_ms'' then c\<lparr>status_timeout_ms := c_atoi value\<rparr>
      else if key = ''use_threading'' then c\<lparr>use_threading := config_bool value\<rparr>
      else if key = ''segment_pause_ms'' then c\<lparr>segment_pause_ms := c_atoi value\<rparr>
      else if key = ''skip_empty_segments'' then c\<lparr>skip_empty_segments := config_bool value\<rparr>
      else c)"

definition load_line :: "nat \<Rightarrow> string \<Rightarrow> tts_config \<Rightarrow> tts_config" where
  "load_line now line c =
     (case tts_config_parse_key_value (Some line) of
        None \<Rightarrow> c
      | Some (key, value) \<Rightarrow> apply_key_value now key value c)"

type_synonym files = "string \<Rightarrow> string option"

definition tts_config_load_from_file ::
  "char \<Rightarrow> nat \<Rightarrow> files \<Rightarrow> tts_config option \<Rightarrow> string option \<Rightarrow> bool \<times> tts_config option" where
  "tts_config_load_from_file point now fs config file_path =
     (case config of
        None \<Rightarrow> (False, None)
      | Some c0 \<Rightarrow>
          (case file_path of
             None \<Rightarrow> (False, config)
           | Some path \<Rightarrow>
               (case fs path of
                  None \<Rightarrow> (False, config)
                | Some content \<Rightarrow>
                    let c1 = fold (load_line now) (fgets_lines content) c0;
                        success = fst (tts_config_validate point (Some c1))
                    in (success, tts_config_clear_modified (Some (c1\<lparr>config_file_path := Some path\<rparr>))))))"

subsection \<open>Saving\<close>

definition engine_file_name :: "tts_engine_type \<Rightarrow> string" where
  "engine_file_name e =
     (case e of
        TTS_ENGINE_PIPER \<Rightarrow> ''piper''
      | TTS_ENGINE_SPEECH_DISPATCHER \<Rightarrow> ''speech_dispatcher''
      | TTS_ENGINE_ESPEAK \<Rightarrow> ''espeak''
      | TTS_ENGINE_SYSTEM \<Rightarrow> ''system''
      | TTS_ENGINE_NONE \<Rightarrow> ''piper'')"

definition bool_text :: "bool \<Rightarrow> string" where
  "bool_text b = (if b then ''true'' else ''false'')"

definition setting_line :: "string \<Rightarrow> string \<Rightarrow> string" where
  "setting_line key value = key @ '' = '' @ value @ [CHR 0x0A]"

definition text_line :: "string \<Rightarrow> string" where
  "text_line s = s @ [CHR 0x0A]"

definition config_lines :: "char \<Rightarrow> tts_config \<Rightarrow> string list" where
  "config_lines point c =
     [text_line ''# Zathura TTS Configuration'', text_line ''# Generated automatically - edit with care'', text_line '''',
      text_line ''# Engine preferences'', setting_line ''preferred_engine'' (engine_file_name (preferred_engine c))] @
     (case preferred_voice c of None \<Rightarrow> [] | Some v \<Rightarrow> [setting_line ''preferred_voice'' v]) @
     [text_line '''', text_line ''# Audio settings'',
      setting_line ''default_speed'' (fmt_2f point (default_speed c)),
      setting_line ''default_volume'' (fmt_int (default_volume c)),
      setting_line ''default_pitch'' (fmt_int (default_pitch c)), text_line '''',
      text_line ''# Behavior settings'',
      setting_line ''auto_continue_pages'' (bool_text (auto_continue_pages c)),
      setting_line ''highlight_spoken_text'' (bool_text (highlight_spoken_text c)),
      setting_line ''announce_page_numbers'' (bool_text (announce_page_numbers c)),
      setting_line ''announce_headings'' (bool_text (announce_headings c)),
      setting_line ''announce_links'' (bool_text (announce_links c)),
      setting_line ''announce_tables'' (bool_text (announce_tables c)), text_line '''',
      text_line ''# UI settings'',
      setting_line ''show_status_messages'' (bool_text (show_status_messages c)),
      setting_line ''show_progress_indicator'' (bool_text (show_progress_indicator c)),
      setting_line ''status_timeout_ms'' (fmt_int (status_timeout_ms c)), text_line '''',
      text_line ''# Advanced settings'',
      setting_line ''use_threading'' (bool_text (use_threading c)),
      setting_line ''segment_pause_ms'' (fmt_int (segment_pause_ms c)),
      setting_line ''skip_empty_segments'' (bool_text (skip_empty_segments c))]"

definition tts_config_save_to_file ::
  "char \<Rightarrow> bool \<Rightarrow> bool \<Rightarrow> files \<Rightarrow> tts_config option \<Rightarrow> string option \<Rightarrow> bool \<times> files" where
  "tts_config_save_to_file point mkdir_ok fopen_ok fs config file_path =
     (case config of
        None \<Rightarrow> (False, fs)
      | Some c \<Rightarrow>
          (case file_path of
             None \<Rightarrow> (False, fs)
           | Some path \<Rightarrow>
               if \<not> fst (tts_config_validate point config) then (False, fs)
               else if \<not> mkdir_ok then (False, fs)
               else if \<not> fopen_ok then (False, fs)
               else (True, fs(path \<mapsto> concat (config_lines point c)))))"

definition tts_config_get_default_path :: "string \<Rightarrow> string" where
  "tts_config_get_default_path home = home @ ''/'' @ ''.config/zathura-tts'' @ ''/'' @ ''config''"

definition tts_config_load_default ::
  "char \<Rightarrow> nat \<Rightarrow> files \<Rightarrow> string \<Rightarrow> tts_config option \<Rightarrow> bool \<times> tts_config option" where
  "tts_config_load_default point now fs home config =
     (case config of
        None \<Rightarrow> (False, None)
      | Some c \<Rightarrow> tts_config_load_from_file point now fs config (Some (tts_config_get_default_path home)))"

definition tts_config_save_default ::
  "char \<Rightarrow> bool \<Rightarrow> bool \<Rightarrow> files \<Rightarrow> string \<Rightarrow> tts_config option \<Rightarrow> bool \<times> files" where
  "tts_config_save_default point mkdir_ok fopen_ok fs home config =
     (case config of
        None \<Rightarrow> (False, fs)
      | Some c \<Rightarrow> tts_config_save_to_file point mkdir_ok fopen_ok fs config (Some (tts_config_get_default_path home)))"

definition tts_config_create_config_dir :: "(string \<Rightarrow> bool) \<Rightarrow> string \<Rightarrow> bool" where
  "tts_config_create_config_dir mkdir home = mkdir (home @ ''/'' @ ''.config/zathura-tts'')"

subsection \<open>Reading lines back\<close>

definition whole_line :: "string \<Rightarrow> bool" where
  "whole_line l \<longleftrightarrow> length l \<le> 1023 \<and> (\<exists>l0. l = l0 @ [CHR 0x0A] \<and> CHR 0x0A \<notin> set l0)"

lemma read_line_whole:
  "CHR 0x0A \<notin> set l0 \<Longrightarrow> length l0 < n \<Longrightarrow> read_line n (l0 @ CHR 0x0A # rest) = (l0 @ [CHR 0x0A], rest)"
proof (induction l0 arbitrary: n)
  case Nil
  then show ?case by (cases n) auto
next
  case (Cons c l0)
  then obtain m where "n = Suc m" by (cases n) auto
  then show ?case using Cons by auto
qed

lemma fgets_lines_concat: "\<forall>l \<in> set ls. whole_line l \<Longrightarrow> fgets_lines (concat ls) = ls"
proof (induction ls)
  case Nil
  then show ?case by (simp add: fgets_lines.simps)
next
  case (Cons l ls)
  then obtain l0 where l: "l = l0 @ [CHR 0x0A]" "CHR 0x0A \<notin> set l0" "length l0 < 1023"
    by (auto simp: whole_line_def)
  then have "read_line 1023 (concat (l # ls)) = (l, concat ls)"
    using read_line_whole [OF l(2,3)] by simp
  then have "fgets_lines (concat (l # ls)) = l # fgets_lines (concat ls)"
    using l(1) by (subst fgets_lines.simps) simp
  with Cons show ?case by simp
qed

text \<open>A value that survives a line: no newline, no white space at its ends.\<close>

definition plain_value :: "string \<Rightarrow> bool" where
  "plain_value v \<longleftrightarrow> CHR 0x0A \<notin> set v \<and> (v \<noteq> [] \<longrightarrow> \<not> g_ascii_isspace (hd v) \<and> \<not> g_ascii_isspace (last v))"

definition plain_key :: "string \<Rightarrow> bool" where
  "plain_key k \<longleftrightarrow> k \<noteq> [] \<and> hd k \<noteq> CHR ''#'' \<and> (\<forall>c \<in> set k. \<not> g_ascii_isspace c \<and> c \<noteq> CHR ''='')"

lemma strip_end_plain: "v = [] \<or> \<not> g_ascii_isspace (last v) \<Longrightarrow> strip_end (v @ [CHR 0x0A]) = v"
  by (cases v rule: rev_cases) (simp_all add: strip_end_def g_ascii_isspace_def)

lemma strip_end_key: "\<forall>c \<in> set k. \<not> g_ascii_isspace c \<Longrightarrow> strip_end (k @ '' '') = k"
  by (cases k rule: rev_cases) (simp_all add: strip_end_def g_ascii_isspace_def)

lemma parse_setting_line:
  assumes "plain_key k" "plain_value v"
  shows "tts_config_parse_key_value (Some (setting_line k v)) = Some (k, v)"
proof -
  obtain c k' where k: "k = c # k'" "\<not> g_ascii_isspace c" "c \<noteq> CHR ''#''"
    using assms(1) by (cases k) (auto simp: plain_key_def)
  let ?l = "k @ CHR '' '' # CHR ''='' # CHR '' '' # v @ [CHR 0x0A]"
  have ne: "\<forall>c \<in> set k. c \<noteq> CHR ''=''" using assms(1) by (auto simp: plain_key_def)
  then have key: "takeWhile (\<lambda>c. c \<noteq> CHR ''='') ?l = k @ '' ''"
    and rest: "dropWhile (\<lambda>c. c \<noteq> CHR ''='') ?l = CHR ''='' # CHR '' '' # v @ [CHR 0x0A]"
    by (simp_all add: takeWhile_append dropWhile_append)
  have "strip_end (k @ '' '') = k" using assms(1) by (intro strip_end_key) (auto simp: plain_key_def)
  moreover have "strip_end (dropWhile g_ascii_isspace (CHR '' '' # v @ [CHR 0x0A])) = v"
  proof (cases v)
    case Nil
    then show ?thesis by (simp add: strip_end_def g_ascii_isspace_def)
  next
    case (Cons d v')
    then have "dropWhile g_ascii_isspace (CHR '' '' # v @ [CHR 0x0A]) = v @ [CHR 0x0A]"
      using assms(2) by (simp add: plain_value_def) (simp add: g_ascii_isspace_def)
    moreover have "strip_end (v @ [CHR 0x0A]) = v"
      using assms(2) by (intro strip_end_plain) (auto simp: plain_value_def)
    ultimately show ?thesis by (simp only:)
  qed
  moreover have "dropWhile g_ascii_isspace ?l = ?l" using k by simp
  ultimately show ?thesis
    using k by (simp add: tts_config_parse_key_value_def setting_line_def Let_def key [unfolded k, simplified] rest [unfolded k, simplified])
qed

lemma parse_text_line:
  "tts_config_parse_key_value (Some (text_line [])) = None"
  "tts_config_parse_key_value (Some (text_line (CHR ''#'' # s))) = None"
  by (simp_all add: tts_config_parse_key_value_def text_line_def g_ascii_isspace_def)

lemma load_setting_line: "plain_key k \<Longrightarrow> plain_value v \<Longrightarrow> load_line now (setting_line k v) c = apply_key_value now k v c"
  by (simp add: load_line_def parse_setting_line)

lemma load_text_line: "load_line now (text_line []) c = c" "load_line now (text_line (CHR ''#'' # s)) c = c"
  by (simp_all add: load_line_def parse_text_line)

subsection \<open>The values that are written\<close>

lemma digit_plain: "c_isdigit c \<Longrightarrow> \<not> g_ascii_isspace c \<and> c \<noteq> CHR 0x0A"
  by (auto simp: c_isdigit_def g_ascii_isspace_def byte_def)

lemma plain_fmt_nat: "plain_value (fmt_nat n)"
  using fmt_nat_digits [of _ n] fmt_nat_not_Nil [of n] digit_plain
  by (auto simp: plain_value_def)

lemma plain_fmt_int: "plain_value (fmt_int i)"
proof -
  have "\<not> g_ascii_isspace CHR ''-''" by (simp add: g_ascii_isspace_def)
  then show ?thesis
    using plain_fmt_nat [of "nat (- i)"] plain_fmt_nat [of "nat i"] fmt_nat_not_Nil
    by (auto simp: fmt_int_def plain_value_def)
qed

lemma plain_bool: "plain_value (bool_text b)"
  by (simp add: bool_text_def plain_value_def g_ascii_isspace_def)

lemma plain_engine: "plain_value (engine_file_name e)"
  by (cases e) (simp_all add: engine_file_name_def plain_value_def g_ascii_isspace_def)

lemma plain_hundredths: "p = CHR ''.'' \<or> p = CHR '','' \<Longrightarrow> plain_value (fmt_hundredths p h)"
proof -
  assume p: "p = CHR ''.'' \<or> p = CHR '',''"
  obtain c cs where c: "fmt_nat (h div 100) = c # cs" using fmt_nat_not_Nil by (cases "fmt_nat (h div 100)") auto
  have "\<forall>d \<in> set (c # cs). \<not> g_ascii_isspace d \<and> d \<noteq> CHR 0x0A"
    unfolding c [symmetric] using fmt_nat_digits digit_plain by blast
  moreover define a b where "a = digit_char (h div 10 mod 10)" and "b = digit_char (h mod 10)"
  moreover have "\<not> g_ascii_isspace b" "b \<noteq> CHR 0x0A" "a \<noteq> CHR 0x0A"
    unfolding a_def b_def by (simp_all add: digit_plain digit_char_isdigit)
  moreover have "fmt_hundredths p h = c # cs @ [p, a, b]" by (simp only: fmt_hundredths_def c a_def b_def append_Cons)
  moreover have "p \<noteq> CHR 0x0A" using p by auto
  ultimately show ?thesis unfolding plain_value_def by (simp only:) auto
qed

subsection \<open>Saving and loading again\<close>

text \<open>The configuration without its change tracking, which loading touches.\<close>

definition untracked :: "tts_config \<Rightarrow> tts_config" where
  "untracked c = c\<lparr>config_is_modified := False, last_modified := None\<rparr>"

lemma untracked_setters:
  "untracked (the (snd (tts_config_set_preferred_voice now (Some c) v))) = (untracked c)\<lparr>preferred_voice := v\<rparr>"
  "tts_config_validate_speed s \<Longrightarrow>
   untracked (the (snd (tts_config_set_default_speed now (Some c) s))) = (untracked c)\<lparr>default_speed := s\<rparr>"
  "tts_config_validate_volume i \<Longrightarrow>
   untracked (the (snd (tts_config_set_default_volume now (Some c) i))) = (untracked c)\<lparr>default_volume := i\<rparr>"
  "tts_config_validate_pitch i \<Longrightarrow>
   untracked (the (snd (tts_config_set_default_pitch now (Some c) i))) = (untracked c)\<lparr>default_pitch := i\<rparr>"
  "untracked (the (snd (tts_config_set_auto_continue_pages now (Some c) b))) = (untracked c)\<lparr>auto_continue_pages := b\<rparr>"
  "untracked (the (snd (tts_config_set_highlight_spoken_text now (Some c) b))) = (untracked c)\<lparr>highlight_spoken_text := b\<rparr>"
  "untracked (the (snd (tts_config_set_announce_page_numbers now (Some c) b))) = (untracked c)\<lparr>announce_page_numbers := b\<rparr>"
  by (cases c; auto simp: setter_defs untracked_def fl_eq_iff)+

lemma config_bool_text: "config_bool (bool_text b) = b"
  by (simp add: config_bool_def bool_text_def)

lemma engine_file_name_inverse: "e \<noteq> TTS_ENGINE_NONE \<Longrightarrow> engine_of_name (engine_file_name e) = Some e"
  by (cases e) (simp_all add: engine_file_name_def engine_of_name_def)

definition int32 :: "int \<Rightarrow> bool" where
  "int32 i \<longleftrightarrow> - (2 ^ 31) \<le> i \<and> i < 2 ^ 31"

lemma atoi_int32: "int32 i \<Longrightarrow> c_atoi (fmt_int i) = i"
  by (simp add: int32_def atoi_fmt_int)

text \<open>What loading one written line does to the configuration.\<close>

lemma load_written_lines:
  "e \<noteq> TTS_ENGINE_NONE \<Longrightarrow>
   untracked (load_line now (setting_line ''preferred_engine'' (engine_file_name e)) c) = (untracked c)\<lparr>preferred_engine := e\<rparr>"
  "plain_value v \<Longrightarrow>
   untracked (load_line now (setting_line ''preferred_voice'' v) c) = (untracked c)\<lparr>preferred_voice := Some v\<rparr>"
  "tts_config_validate_volume i \<Longrightarrow>
   untracked (load_line now (setting_line ''default_volume'' (fmt_int i)) c) = (untracked c)\<lparr>default_volume := i\<rparr>"
  "tts_config_validate_pitch i \<Longrightarrow>
   untracked (load_line now (setting_line ''default_pitch'' (fmt_int i)) c) = (untracked c)\<lparr>default_pitch := i\<rparr>"
  "untracked (load_line now (setting_line ''auto_continue_pages'' (bool_text b)) c) = (untracked c)\<lparr>auto_continue_pages := b\<rparr>"
  "untracked (load_line now (setting_line ''highlight_spoken_text'' (bool_text b)) c) = (untracked c)\<lparr>highlight_spoken_text := b\<rparr>"
  "untracked (load_line now (setting_line ''announce_page_numbers'' (bool_text b)) c) = (untracked c)\<lparr>announce_page_numbers := b\<rparr>"
  "untracked (load_line now (setting_line ''announce_headings'' (bool_text b)) c) = (untracked c)\<lparr>announce_headings := b\<rparr>"
  "untracked (load_line now (setting_line ''announce_links'' (bool_text b)) c) = (untracked c)\<lparr>announce_links := b\<rparr>"
  "untracked (load_line now (setting_line ''announce_tables'' (bool_text b)) c) = (untracked c)\<lparr>announce_tables := b\<rparr>"
  "untracked (load_line now (setting_line ''show_status_messages'' (bool_text b)) c) = (untracked c)\<lparr>show_status_messages := b\<rparr>"
  "untracked (load_line now (setting_line ''show_progress_indicator'' (bool_text b)) c) = (untracked c)\<lparr>show_progress_indicator := b\<rparr>"
  "int32 i \<Longrightarrow>
   untracked (load_line now (setting_line ''status_timeout_ms'' (fmt_int i)) c) = (untracked c)\<lparr>status_timeout_ms := i\<rparr>"
  "untracked (load_line now (setting_line ''use_threading'' (bool_text b)) c) = (untracked c)\<lparr>use_threading := b\<rparr>"
  "int32 i \<Longrightarrow>
   untracked (load_line now (setting_line ''segment_pause_ms'' (fmt_int i)) c) = (untracked c)\<lparr>segment_pause_ms := i\<rparr>"
  "untracked (load_line now (setting_line ''skip_empty_segments'' (bool_text b)) c) = (untracked c)\<lparr>skip_empty_segments := b\<rparr>"
proof -
  have small: "tts_config_validate_volume i \<Longrightarrow> int32 i" "tts_config_validate_pitch i \<Longrightarrow> int32 i" for i
    by (simp_all add: validate_defs int32_def)
  note rules = load_setting_line plain_key_def g_ascii_isspace_def apply_key_value_def plain_engine plain_fmt_int plain_bool
    untracked_setters config_bool_text engine_file_name_inverse atoi_int32
  show "tts_config_validate_volume i \<Longrightarrow>
   untracked (load_line now (setting_line ''default_volume'' (fmt_int i)) c) = (untracked c)\<lparr>default_volume := i\<rparr>"
    by (simp add: rules small)
  show "tts_config_validate_pitch i \<Longrightarrow>
   untracked (load_line now (setting_line ''default_pitch'' (fmt_int i)) c) = (untracked c)\<lparr>default_pitch := i\<rparr>"
    by (simp add: rules small)
qed (simp_all add: load_setting_line plain_key_def g_ascii_isspace_def apply_key_value_def plain_engine plain_fmt_int
    plain_bool untracked_setters config_bool_text engine_file_name_inverse atoi_int32, simp_all add: untracked_def)

lemma load_speed_line:
  assumes "plain_value v"
  shows "untracked (load_line now (setting_line ''default_speed'' v) c) =
    (let s = double_to_float (g_ascii_strtod v)
     in if tts_config_validate_speed s then (untracked c)\<lparr>default_speed := s\<rparr> else untracked c)"
  using assms speed.put_illegal
  by (simp add: load_setting_line plain_key_def g_ascii_isspace_def apply_key_value_def untracked_setters Let_def)

lemma length_fmt_nat: "n < 10 ^ k \<Longrightarrow> 0 < k \<Longrightarrow> length (fmt_nat n) \<le> k"
proof (induction n arbitrary: k rule: fmt_nat.induct)
  case (1 n)
  show ?case
  proof (cases "n < 10")
    case True
    then show ?thesis using 1 by (simp add: fmt_nat.simps [of n])
  next
    case False
    then obtain j where k: "k = Suc j" "0 < j" using 1 by (cases k; cases "k - 1") auto
    have "n div 10 < 10 ^ j" using 1(2) k by (simp add: div_less_iff_less_mult mult.commute)
    then have "length (fmt_nat (n div 10)) \<le> j" using 1(1) False k by blast
    then show ?thesis using False k by (simp add: fmt_nat.simps [of n])
  qed
qed

lemma length_fmt_int: "int32 i \<Longrightarrow> length (fmt_int i) \<le> 11"
proof -
  assume "int32 i"
  then have "nat (- i) < 10 ^ 10" "nat i < 10 ^ 10" unfolding int32_def by auto
  then have "length (fmt_nat (nat (- i))) \<le> 10" "length (fmt_nat (nat i)) \<le> 10"
    by (simp_all add: length_fmt_nat)
  then show ?thesis by (simp add: fmt_int_def)
qed

lemma whole_text_line: "CHR 0x0A \<notin> set s \<Longrightarrow> length s < 1023 \<Longrightarrow> whole_line (text_line s)"
  by (auto simp: whole_line_def text_line_def)

lemma whole_setting_line:
  "CHR 0x0A \<notin> set k \<Longrightarrow> plain_value v \<Longrightarrow> length k + length v < 1020 \<Longrightarrow> whole_line (setting_line k v)"
  unfolding whole_line_def setting_line_def plain_value_def
  by (intro conjI exI [of _ "k @ '' = '' @ v"]) auto

text \<open>The configurations that a file can hold: valid, with a voice name that fits on one line.\<close>

definition storable :: "tts_config \<Rightarrow> bool" where
  "storable c \<longleftrightarrow> config_ok (Some c) \<and> int32 (status_timeout_ms c) \<and> int32 (segment_pause_ms c) \<and>
     (\<forall>v. preferred_voice c = Some v \<longrightarrow> plain_value v \<and> length v \<le> 1000)"

definition speed_hundredths :: "tts_config \<Rightarrow> nat" where
  "speed_hundredths c = (case default_speed c of Fin r \<Rightarrow> nat (round_half_even (r * 100)) | _ \<Rightarrow> 0)"

lemma storable_facts:
  assumes "storable c"
  shows "preferred_engine c \<noteq> TTS_ENGINE_NONE" "tts_config_validate_volume (default_volume c)"
    "tts_config_validate_pitch (default_pitch c)" "int32 (default_volume c)" "int32 (default_pitch c)"
    "int32 (status_timeout_ms c)" "int32 (segment_pause_ms c)"
    "50 \<le> speed_hundredths c" "speed_hundredths c \<le> 300"
    "fmt_2f point (default_speed c) = fmt_hundredths point (speed_hundredths c)"
proof -
  note ok = assms [unfolded storable_def config_ok_def config_legal_def]
  show "preferred_engine c \<noteq> TTS_ENGINE_NONE"
    using ok by (auto simp: tts_config_validate_engine_type_def engine_type_order)
  show "tts_config_validate_volume (default_volume c)" "tts_config_validate_pitch (default_pitch c)"
    "int32 (status_timeout_ms c)" "int32 (segment_pause_ms c)" using ok by auto
  show "int32 (default_volume c)" "int32 (default_pitch c)" using ok by (auto simp: validate_defs int32_def)
  obtain r where r: "default_speed c = Fin r" "1 / 2 \<le> r" "r \<le> 3"
    using ok unfolding tts_config_validate_speed_def fl_between_Fin by auto
  have "50 \<le> round_half_even (r * 100)" "round_half_even (r * 100) \<le> 300"
    using r by (auto intro!: round_half_even_mono_int)
  then show "50 \<le> speed_hundredths c" "speed_hundredths c \<le> 300"
    using r by (simp_all add: speed_hundredths_def)
  show "fmt_2f point (default_speed c) = fmt_hundredths point (speed_hundredths c)"
    using r by (simp add: fmt_2f_def speed_hundredths_def)
qed

lemma plain_value_no_newline: "plain_value v \<Longrightarrow> CHR 0x0A \<notin> set v"
  by (simp add: plain_value_def)

lemma length_bool_text: "length (bool_text b) \<le> 5"
  by (simp add: bool_text_def)

lemma config_lines_whole:
  assumes "storable c" and p: "point = CHR ''.'' \<or> point = CHR '',''"
  shows "\<forall>l \<in> set (config_lines point c). whole_line l"
proof -
  note f = storable_facts [OF assms(1)]
  have ints: "length (fmt_int (default_volume c)) \<le> 11" "length (fmt_int (default_pitch c)) \<le> 11"
    "length (fmt_int (status_timeout_ms c)) \<le> 11" "length (fmt_int (segment_pause_ms c)) \<le> 11"
    by (simp_all add: f length_fmt_int)
  have "length (fmt_nat (speed_hundredths c div 100)) \<le> 3"
    using f(9) by (intro length_fmt_nat) simp_all
  then have speed: "length (fmt_hundredths point (speed_hundredths c)) \<le> 6"
    by (simp add: fmt_hundredths_def)
  have bools: "length k \<le> 1000 \<Longrightarrow> CHR 0x0A \<notin> set k \<Longrightarrow> whole_line (setting_line k (bool_text b))" for k b
    using length_bool_text [of b] by (intro whole_setting_line plain_bool) simp_all
  have engine: "whole_line (setting_line ''preferred_engine'' (engine_file_name (preferred_engine c)))"
    by (intro whole_setting_line plain_engine) (simp_all add: engine_file_name_def split: tts_engine_type.split)
  have voice: "preferred_voice c = Some v \<Longrightarrow> whole_line (setting_line ''preferred_voice'' v)" for v
    using assms(1) by (intro whole_setting_line) (simp_all add: storable_def)
  have nums: "int32 i \<Longrightarrow> length k \<le> 100 \<Longrightarrow> CHR 0x0A \<notin> set k \<Longrightarrow> whole_line (setting_line k (fmt_int i))" for i k
    using length_fmt_int [of i] by (intro whole_setting_line plain_fmt_int) simp_all
  have sp: "whole_line (setting_line ''default_speed'' (fmt_hundredths point (speed_hundredths c)))"
    using speed by (intro whole_setting_line plain_hundredths [OF p]) simp_all
  show ?thesis
    unfolding config_lines_def f(10)
    by (cases "preferred_voice c") (simp_all add: whole_text_line bools engine nums f sp voice)
qed

text \<open>The configuration that loading the saved text gives, apart from the speed.\<close>

definition overwritten :: "tts_config \<Rightarrow> c_float \<Rightarrow> tts_config \<Rightarrow> tts_config" where
  "overwritten c s c0 = c0
     \<lparr>preferred_engine := preferred_engine c,
      preferred_voice := (case preferred_voice c of None \<Rightarrow> preferred_voice c0 | Some v \<Rightarrow> Some v),
      default_speed := s, default_volume := default_volume c, default_pitch := default_pitch c,
      auto_continue_pages := auto_continue_pages c, highlight_spoken_text := highlight_spoken_text c,
      announce_page_numbers := announce_page_numbers c, announce_headings := announce_headings c,
      announce_links := announce_links c, announce_tables := announce_tables c,
      show_status_messages := show_status_messages c, show_progress_indicator := show_progress_indicator c,
      status_timeout_ms := status_timeout_ms c, use_threading := use_threading c,
      segment_pause_ms := segment_pause_ms c, skip_empty_segments := skip_empty_segments c\<rparr>"

lemma untracked_select [simp]:
  "default_speed (untracked c) = default_speed c" "preferred_voice (untracked c) = preferred_voice c"
  by (simp_all add: untracked_def)

lemma load_config_lines:
  assumes "storable c" and p: "point = CHR ''.'' \<or> point = CHR '',''"
  shows "untracked (fold (load_line now) (config_lines point c) c0) =
    (let s = double_to_float (g_ascii_strtod (fmt_hundredths point (speed_hundredths c)))
     in untracked (overwritten c (if tts_config_validate_speed s then s else default_speed c0) c0))"
proof -
  note f = storable_facts [OF assms(1)]
  have voice: "preferred_voice c = Some v \<Longrightarrow> plain_value v" for v using assms(1) by (simp add: storable_def)
  show ?thesis
    unfolding config_lines_def f(10)
    by (cases "preferred_voice c")
      (simp_all add: load_text_line load_written_lines load_speed_line plain_hundredths [OF p] f voice Let_def
        overwritten_def, simp_all add: untracked_def)
qed

lemma untracked_path: "untracked (x\<lparr>config_file_path := q\<rparr>) = (untracked x)\<lparr>config_file_path := q\<rparr>"
  by (simp add: untracked_def)

lemma load_saved:
  assumes "storable c" "point = CHR ''.'' \<or> point = CHR '',''" "fs path = Some (concat (config_lines point c))"
    and "tts_config_load_from_file q now fs (Some c0) (Some path) = (ok, Some c')"
  defines "s \<equiv> double_to_float (g_ascii_strtod (fmt_hundredths point (speed_hundredths c)))"
  shows "untracked c' = untracked ((overwritten c (if tts_config_validate_speed s then s else default_speed c0) c0)
      \<lparr>config_file_path := Some path\<rparr>) \<and> \<not> config_is_modified c'"
proof -
  let ?c1 = "fold (load_line now) (config_lines point c) c0"
  have "fgets_lines (concat (config_lines point c)) = config_lines point c"
    by (rule fgets_lines_concat [OF config_lines_whole [OF assms(1,2)]])
  then have c': "c' = ?c1\<lparr>config_file_path := Some path, config_is_modified := False\<rparr>"
    using assms(3,4) by (simp add: tts_config_load_from_file_def tts_config_clear_modified_def Let_def)
  have "untracked c' = (untracked ?c1)\<lparr>config_file_path := Some path\<rparr>"
    by (simp add: c' untracked_def)
  then have "untracked c' = untracked ((overwritten c (if tts_config_validate_speed s then s else default_speed c0) c0)
      \<lparr>config_file_path := Some path\<rparr>)"
    by (simp only: load_config_lines [OF assms(1,2)] s_def Let_def untracked_path)
  moreover have "\<not> config_is_modified c'" by (simp add: c')
  ultimately show ?thesis by blast
qed

lemma loaded_some: "fs path = Some t \<Longrightarrow> \<exists>ok c'. tts_config_load_from_file q now fs (Some c0) (Some path) = (ok, Some c')"
  by (simp add: tts_config_load_from_file_def tts_config_clear_modified_def Let_def)

lemma config_lines_untracked: "config_lines p (untracked c) = config_lines p c"
  by (simp add: config_lines_def untracked_def)

lemma config_lines_overwritten:
  "preferred_voice c \<noteq> None \<Longrightarrow> fmt_2f p s = fmt_2f p (default_speed c) \<Longrightarrow>
   config_lines p ((overwritten c s c0)\<lparr>config_file_path := q\<rparr>) = config_lines p c"
  by (cases "preferred_voice c") (simp_all add: config_lines_def overwritten_def)


lemma storable_default: "storable tts_config_new"
  using defaults_ok [of config_zero]
  by (simp add: storable_def tts_config_new_def tts_config_set_defaults_def int32_def plain_value_def g_ascii_isspace_def)

lemma save_succeeds:
  "storable c \<Longrightarrow>
   tts_config_save_to_file point True True fs (Some c) (Some path) = (True, fs(path \<mapsto> concat (config_lines point c)))"
  by (simp add: tts_config_save_to_file_def config_ok_validate storable_def)


subsection \<open>A locale with a decimal comma\<close>

lemma round_to_small_whole:
  assumes "k \<in> {1, 2, 3}"
  shows "to_double (of_nat k) = Fin (of_nat k)" "double_to_float (Fin (of_nat k)) = Fin (of_nat k)"
proof -
  have k: "pow2 (- 1) \<le> (of_nat k :: rat)" "(of_nat k :: rat) < pow2 2" "(of_nat k :: rat) < pow2 1024"
    "(of_nat k :: rat) < pow2 128"
    using assms pow2_mono [of 2 1024] pow2_mono [of 2 128] by (auto simp: pow2_def)
  have "\<exists>v. round_to 53 (- 1022) 1023 (of_nat k) = Fin v \<and> of_nat k \<le> v \<and> v \<le> of_nat k \<and>
      \<bar>v - of_nat k\<bar> \<le> pow2 (2 - 53) / 2"
    using k by (intro round_to_range [where m = "- 1" and l = "int k * 2 ^ 51" and h = "int k * 2 ^ 51"])
      (simp_all add: pow2_def)
  then show "to_double (of_nat k) = Fin (of_nat k)" by (auto simp: to_double_def)
  have "\<exists>v. round_to 24 (- 126) 127 (of_nat k) = Fin v \<and> of_nat k \<le> v \<and> v \<le> of_nat k \<and>
      \<bar>v - of_nat k\<bar> \<le> pow2 (2 - 24) / 2"
    using k by (intro round_to_range [where m = "- 1" and l = "int k * 2 ^ 22" and h = "int k * 2 ^ 22"])
      (simp_all add: pow2_def)
  then show "double_to_float (Fin (of_nat k)) = Fin (of_nat k)" by (auto simp: double_to_float_def)
qed

lemma whole_speed: "k < 4 \<Longrightarrow> double_to_float (to_double (of_nat k)) = Fin (of_nat k)"
proof (cases "k = 0")
  case True
  then show ?thesis by (simp add: to_double_def double_to_float_def round_to_def)
next
  case False
  assume "k < 4"
  with False have "k \<in> {1, 2, 3}" by auto
  then show ?thesis using round_to_small_whole by simp
qed

text \<open>
  When the process's locale writes a decimal comma, the saved speed is read back without its fraction: a
  speed of at least 1 comes back as the whole number below it (of its hundredths), a smaller one is dropped and the
  speed of the loading configuration stays.
\<close>

theorem comma_locale_loses_speed:
  assumes "storable c"
    and "tts_config_save_to_file CHR '','' True True fs (Some c) (Some path) = (True, fs')"
    and "tts_config_load_from_file CHR '','' now fs' (Some c0) (Some path) = (ok, Some c')"
  shows "default_speed c' =
    (if 100 \<le> speed_hundredths c then Fin (of_nat (speed_hundredths c div 100)) else default_speed c0)"
proof -
  let ?h = "speed_hundredths c"
  have saved: "fs' path = Some (concat (config_lines CHR '','' c))"
    using assms(1,2) by (auto simp: tts_config_save_to_file_def split: if_splits)
  have r: "?h div 100 < 4" using storable_facts(9) [OF assms(1)] by (simp add: div_less_iff_less_mult)
  then have s: "double_to_float (g_ascii_strtod (fmt_hundredths CHR '','' ?h)) = Fin (of_nat (?h div 100))"
    by (simp add: strtod_comma whole_speed)
  have legal: "tts_config_validate_speed (Fin (of_nat (?h div 100))) = (100 \<le> ?h)"
  proof (cases "100 \<le> ?h")
    case True
    then have "1 \<le> ?h div 100" by (simp add: div_greater_zero_iff Suc_le_eq)
    with r have "?h div 100 \<in> {1, 2, 3}" by auto
    then show ?thesis using True by (auto simp: tts_config_validate_speed_def)
  qed (simp add: tts_config_validate_speed_def)
  have "default_speed (untracked c') = (if 100 \<le> ?h then Fin (of_nat (?h div 100)) else default_speed c0)"
    using load_saved [OF assms(1) _ saved assms(3), unfolded s legal] by (simp add: untracked_def overwritten_def)
  then show ?thesis by simp
qed

lemma comma_locale_loses_speed_witness:
  "\<exists>c'. snd (tts_config_load_from_file CHR '','' 7 (snd (tts_config_save_to_file CHR '','' True True Map.empty
      (Some (tts_config_new\<lparr>default_speed := Fin (5 / 2)\<rparr>)) (Some ''config''))) (Some tts_config_new) (Some ''config'')) =
      Some c' \<and> default_speed c' = Fin 2"
proof -
  let ?c = "tts_config_new\<lparr>default_speed := Fin (5 / 2)\<rparr>"
  let ?fs = "snd (tts_config_save_to_file CHR '','' True True Map.empty (Some ?c) (Some ''config''))"
  have st: "storable ?c"
    using storable_default by (simp add: storable_def config_ok_def config_legal_def tts_config_validate_speed_def)
  have sv: "tts_config_save_to_file CHR '','' True True Map.empty (Some ?c) (Some ''config'') = (True, ?fs)"
    using save_succeeds [OF st] by simp
  obtain ok c' where ld: "tts_config_load_from_file CHR '','' 7 ?fs (Some tts_config_new) (Some ''config'') = (ok, Some c')"
    using loaded_some [of ?fs "''config''"] save_succeeds [OF st] by fastforce
  have "round_half_even 250 = 250" by (intro round_half_even_unique) simp
  then have "speed_hundredths ?c = 250" by (simp add: speed_hundredths_def)
  then have "default_speed c' = Fin 2" using comma_locale_loses_speed [OF st sv ld] by simp
  with ld show ?thesis by simp
qed

subsection \<open>Arbitrary files\<close>

lemma apply_key_value_legal: "config_legal c \<Longrightarrow> config_legal (apply_key_value now k v c)"
proof -
  assume l: "config_legal c"
  have put: "config_legal (the (snd (tts_config_set_preferred_voice now (Some c) w)))"
    "config_legal (the (snd (tts_config_set_default_speed now (Some c) s)))"
    "config_legal (the (snd (tts_config_set_default_volume now (Some c) i)))"
    "config_legal (the (snd (tts_config_set_default_pitch now (Some c) i)))"
    "config_legal (the (snd (tts_config_set_auto_continue_pages now (Some c) b)))"
    "config_legal (the (snd (tts_config_set_highlight_spoken_text now (Some c) b)))"
    "config_legal (the (snd (tts_config_set_announce_page_numbers now (Some c) b)))" for w s i b
    using l by (auto simp: setter_defs config_legal_def)
  have engine: "config_legal (case engine_of_name v of Some e \<Rightarrow> c\<lparr>preferred_engine := e\<rparr> | None \<Rightarrow> c)"
    using l engine_of_name_legal [of v] by (auto simp: config_legal_def split: option.split)
  have other: "config_legal (c\<lparr>announce_headings := b\<rparr>)" "config_legal (c\<lparr>announce_links := b\<rparr>)"
    "config_legal (c\<lparr>announce_tables := b\<rparr>)" "config_legal (c\<lparr>show_status_messages := b\<rparr>)"
    "config_legal (c\<lparr>show_progress_indicator := b\<rparr>)" "config_legal (c\<lparr>status_timeout_ms := i\<rparr>)"
    "config_legal (c\<lparr>use_threading := b\<rparr>)" "config_legal (c\<lparr>segment_pause_ms := i\<rparr>)"
    "config_legal (c\<lparr>skip_empty_segments := b\<rparr>)" for b i
    using l by (simp_all add: config_legal_def)
  show ?thesis unfolding apply_key_value_def by (simp add: put engine other l)
qed

lemma load_lines_legal: "config_legal c \<Longrightarrow> config_legal (fold (load_line now) ls c)"
proof (induction ls arbitrary: c)
  case (Cons l ls)
  have "config_legal (load_line now l c)"
    using Cons.prems by (simp add: load_line_def apply_key_value_legal split: option.split prod.split)
  then show ?case using Cons.IH by simp
qed simp

text \<open>
  Whatever a readable file contains, loading it keeps speed, volume, pitch and engine legal; the call
  reports failure exactly when one of the two times has become negative, but even then the loaded values stay in
  the configuration, which counts as unmodified and remembers the path.
\<close>

theorem any_file_keeps_settings_legal:
  assumes "config_legal c" "fs path = Some content"
  shows "\<exists>ok c'. tts_config_load_from_file point now fs (Some c) (Some path) = (ok, Some c') \<and> config_legal c' \<and>
    (ok \<longleftrightarrow> 0 \<le> status_timeout_ms c' \<and> 0 \<le> segment_pause_ms c') \<and>
    \<not> config_is_modified c' \<and> config_file_path c' = Some path"
proof -
  let ?c1 = "fold (load_line now) (fgets_lines content) c"
  have l: "config_legal ?c1" by (rule load_lines_legal [OF assms(1)])
  have "tts_config_load_from_file point now fs (Some c) (Some path) =
      (config_ok (Some ?c1), Some (?c1\<lparr>config_file_path := Some path, config_is_modified := False\<rparr>))"
    using assms(2) by (simp add: tts_config_load_from_file_def tts_config_clear_modified_def Let_def config_ok_validate)
  then show ?thesis using l by (auto simp: config_ok_def) (simp_all add: config_legal_def)
qed

lemma any_file_keeps_settings_legal_witness:
  "\<exists>ok c'. tts_config_load_from_file CHR ''.'' 3 (Map.empty(''f'' \<mapsto> ''status_timeout_ms = -5'')) (Some tts_config_new) (Some ''f'') =
     (ok, Some c') \<and> config_legal c'"
proof -
  have "config_legal tts_config_new" using storable_default by (simp add: storable_def config_ok_def)
  from any_file_keeps_settings_legal [OF this, of "Map.empty(''f'' \<mapsto> ''status_timeout_ms = -5'')" "''f''"]
  show ?thesis by (metis fun_upd_same)
qed

text \<open>
  Formatting and parsing a setting are inverse: for a key without white space or equals sign that does
  not begin a comment, and a value without a newline and without white space at its ends, the formatted line
  parses to the same key and value; a comment, a blank line and a line without equals sign parse to nothing.
\<close>

theorem format_parse_round_trip:
  "(plain_key k \<and> plain_value v \<longrightarrow>
      tts_config_parse_key_value (tts_config_format_key_value (Some k) (Some v)) = Some (k, v)) \<and>
   (CHR ''='' \<notin> set l \<longrightarrow> tts_config_parse_key_value (Some l) = None) \<and>
   tts_config_parse_key_value (Some (CHR ''#'' # l)) = None"
proof (intro conjI impI)
  assume "plain_key k \<and> plain_value v"
  then show "tts_config_parse_key_value (tts_config_format_key_value (Some k) (Some v)) = Some (k, v)"
    using parse_setting_line [of k v] by (simp add: tts_config_format_key_value_def setting_line_def)
next
  assume "CHR ''='' \<notin> set l"
  then show "tts_config_parse_key_value (Some l) = None"
    using set_dropWhile_subset [of g_ascii_isspace l] by (auto simp: tts_config_parse_key_value_def Let_def)
next
  show "tts_config_parse_key_value (Some (CHR ''#'' # l)) = None"
    by (simp add: tts_config_parse_key_value_def g_ascii_isspace_def)
qed

lemma format_parse_round_trip_witness:
  "tts_config_parse_key_value (tts_config_format_key_value (Some ''a'') (Some ''b = c'')) = Some (''a'', ''b = c'')"
proof -
  have "plain_key ''a'' \<and> plain_value ''b = c''"
    by (simp add: plain_key_def plain_value_def g_ascii_isspace_def)
  then show ?thesis using format_parse_round_trip by blast
qed

end
