(* ===== verification/Float_Format.thy ===== *)
theory Float_Format
  imports C_Float
begin

text \<open>
  Which numbers a \<^verbatim>\<open>float\<close> can hold, and that rounding to single precision gives one of them.
\<close>

definition is_float :: "c_float \<Rightarrow> bool" where
  "is_float x \<longleftrightarrow> (\<forall>r. x = Fin r \<longrightarrow> (\<exists>m e. r = of_int m * pow2 e \<and> \<bar>m\<bar> < 2 ^ 24 \<and> - 149 \<le> e \<and> e \<le> 104))"

lemma is_floatI: "\<bar>m\<bar> < 2 ^ 24 \<Longrightarrow> - 149 \<le> e \<Longrightarrow> e \<le> 104 \<Longrightarrow> is_float (Fin (of_int m * pow2 e))"
  by (auto simp: is_float_def)

lemma is_float_special [simp]: "is_float PInf" "is_float NInf" "is_float NotANumber"
  by (simp_all add: is_float_def)

lemma is_float_neg: "is_float (Fin r) \<Longrightarrow> is_float (Fin (- r))"
proof -
  assume "is_float (Fin r)"
  then obtain m e where "r = of_int m * pow2 e" "\<bar>m\<bar> < 2 ^ 24" "- 149 \<le> e" "e \<le> 104" unfolding is_float_def by blast
  then show ?thesis using is_floatI [of "- m" e] by simp
qed

lemma is_float_int: "\<bar>i\<bar> < 2 ^ 24 \<Longrightarrow> is_float (Fin (of_int i))"
  using is_floatI [of i 0] by (simp add: pow2_def)

text \<open>The significand after rounding: it fits, or it is the next power of two, which fits with the next exponent.\<close>

lemma rounded_significand:
  assumes "0 < a" and e: "e = max (flog2 a) (- 126) - 23" and v: "of_int (round_half_even (a / pow2 e)) * pow2 e < pow2 128"
  shows "is_float (Fin (of_int (round_half_even (a / pow2 e)) * pow2 e))"
proof -
  define m where "m = round_half_even (a / pow2 e)"
  have p: "0 < pow2 e" by (rule pow2_pos)
  have "a < pow2 (e + 24)" using flog2_bounds(2) [OF assms(1)] pow2_mono [of "flog2 a + 1" "e + 24"] e by linarith
  then have "a / pow2 e \<le> of_int (2 ^ 24)" using p by (simp add: pow2_add divide_le_eq) (simp add: pow2_def)
  then have hi: "m \<le> 2 ^ 24" unfolding m_def by (rule round_half_even_mono_int(2))
  have "of_int 0 \<le> a / pow2 e" using assms(1) p by simp
  then have lo: "0 \<le> m" unfolding m_def by (rule round_half_even_mono_int(1))
  have e149: "- 149 \<le> e" using e by simp
  show ?thesis
  proof (cases "m = 2 ^ 24")
    case True
    have t: "of_int m * pow2 e = pow2 (e + 24)" unfolding True by (simp add: pow2_add) (simp add: pow2_def)
    have "e + 24 < 128" using v unfolding m_def [symmetric] t pow2_less_iff .
    moreover have "of_int m * pow2 e = of_int (2 ^ 23) * pow2 (e + 1)" unfolding t by (simp add: pow2_add) (simp add: pow2_def)
    ultimately have r: "of_int m * pow2 e = of_int (2 ^ 23) * pow2 (e + 1)" "e + 24 < 128" by blast+
    show ?thesis unfolding m_def [symmetric] r(1) by (rule is_floatI) (use r(2) e149 in simp_all)
  next
    case False
    have "e \<le> 104"
    proof (rule ccontr)
      assume "\<not> e \<le> 104"
      then have f: "e + 23 = flog2 a" "128 \<le> e + 23" using e by (auto simp: max_def split: if_splits)
      have "pow2 (e + 23) \<le> a" using flog2_bounds(1) [OF assms(1)] f by simp
      then have "of_int (2 ^ 23) \<le> a / pow2 e" using p by (simp add: pow2_add le_divide_eq) (simp add: pow2_def)
      then have "2 ^ 23 \<le> m" unfolding m_def by (rule round_half_even_mono_int(1))
      then have "of_int (2 ^ 23) * pow2 e \<le> of_int m * pow2 e" using p by (intro mult_right_mono) (simp_all only: of_int_le_iff less_imp_le)
      moreover have "of_int (2 ^ 23) * pow2 e = pow2 (e + 23)" by (simp add: pow2_add) (simp add: pow2_def)
      ultimately show False using v pow2_mono [OF f(2)] by (simp add: m_def)
    qed
    then show ?thesis unfolding m_def [symmetric] by (intro is_floatI) (use False hi lo e149 in simp_all)
  qed
qed

lemma is_float_round: "is_float (round_to 24 (- 126) 127 r)"
proof (cases "r = 0")
  case False
  define e where "e = max (flog2 \<bar>r\<bar>) (- 126) - 23"
  let ?v = "of_int (round_half_even (\<bar>r\<bar> / pow2 e)) * pow2 e"
  have "?v < pow2 128 \<Longrightarrow> is_float (Fin ?v)" using rounded_significand [of "\<bar>r\<bar>" e] False by (simp add: e_def)
  then show ?thesis
    using False is_float_neg [of ?v] by (auto simp: round_to_def Let_def e_def not_le)
qed (use is_float_int [of 0] in \<open>simp add: round_to_def\<close>)

lemma is_float_double_to_float: "is_float (double_to_float x)"
  by (simp add: double_to_float_def is_float_round split: c_float.split)

end
