(* ===== verification/Config_Types.thy ===== *)
theory Config_Types
  imports Config_File Float_Format
begin

text \<open>
  The types of the configuration. In the model the speed is any rational and the numbers are any integers; here
  they are shown to stay what the C types of the fields can hold, whichever of its three sources the configuration
  takes its values from: the setters, a file, and the settings of zathura.
\<close>

subsection \<open>The three sources\<close>

datatype source_op =
    By_Setter nat config_op
  | From_File char nat files "string option"
  | From_Zathura "string \<Rightarrow> setting_value option" bool

fun source_exec :: "source_op \<Rightarrow> tts_config option \<Rightarrow> tts_config option" where
  "source_exec (By_Setter now op) config = config_exec (now, op) config"
| "source_exec (From_File point now fs path) config = snd (tts_config_load_from_file point now fs config path)"
| "source_exec (From_Zathura get session) config = snd (tts_config_load_from_zathura get config session)"

text \<open>What the caller and zathura pass has the type of the parameter; a file may hold anything.\<close>

definition value_typed :: "setting_value \<Rightarrow> bool" where
  "value_typed v \<longleftrightarrow> (case v of S_Int i \<Rightarrow> int32 i | S_Float x \<Rightarrow> is_float x | _ \<Rightarrow> True)"

fun source_typed :: "source_op \<Rightarrow> bool" where
  "source_typed (By_Setter now (Set_Speed x)) = is_float x"
| "source_typed (By_Setter now (Set_Volume i)) = int32 i"
| "source_typed (By_Setter now (Set_Pitch i)) = int32 i"
| "source_typed (By_Setter now op) = True"
| "source_typed (From_File point now fs path) = True"
| "source_typed (From_Zathura get session) = (\<forall>name v. get name = Some v \<longrightarrow> value_typed v)"

definition fields_typed :: "tts_config \<Rightarrow> bool" where
  "fields_typed c \<longleftrightarrow> is_float (default_speed c) \<and> int32 (default_volume c) \<and> int32 (default_pitch c) \<and>
     int32 (status_timeout_ms c) \<and> int32 (segment_pause_ms c)"

definition config_typed :: "tts_config option \<Rightarrow> bool" where
  "config_typed config \<longleftrightarrow> (\<exists>c. config = Some c \<and> config_legal c \<and> fields_typed c)"

subsection \<open>Each source keeps the types\<close>

lemma int32_atoi: "int32 (c_atoi s)"
proof -
  have "int32 (to_int32 i)" for i
    using sint_greater_eq [of "word_of_int i :: 32 word"] sint_less [of "word_of_int i :: 32 word"] by (simp add: int32_def to_int32_def)
  then show ?thesis by (simp add: c_atoi_def Let_def split: prod.split)
qed

lemma config_typed_Some [simp]: "config_typed (Some c) \<longleftrightarrow> config_legal c \<and> fields_typed c"
  by (simp add: config_typed_def)

lemma defaults_typed: "config_typed (tts_config_set_defaults (Some c))"
  using is_float_int [of 1]
  by (simp add: tts_config_set_defaults_def config_legal_def fields_typed_def validate_defs int32_def)

lemma mark_modified_typed [simp]: "config_typed (tts_config_mark_modified now x) = config_typed x"
  by (cases x) (auto simp: config_typed_def fields_typed_def config_legal_def tts_config_mark_modified_def)

lemma setter_typed:
  assumes "config_typed config" "source_typed (By_Setter now op)"
  shows "config_typed (config_exec (now, op) config)"
proof (cases op)
  case Reset_To_Defaults
  then show ?thesis
    using assms(1) defaults_typed by (auto simp: config_typed_def [of config] tts_config_reset_to_defaults_def)
qed (use assms in \<open>auto simp: config_typed_def [of config] setter_defs tts_config_clear_modified_def config_legal_def fields_typed_def\<close>)

lemma apply_key_value_typed: "fields_typed c \<Longrightarrow> fields_typed (apply_key_value now k v c)"
proof -
  assume t: "fields_typed c"
  have put: "fields_typed (the (snd (tts_config_set_preferred_voice now (Some c) w)))"
    "fields_typed (the (snd (tts_config_set_default_speed now (Some c) (double_to_float x))))"
    "fields_typed (the (snd (tts_config_set_default_volume now (Some c) (c_atoi s))))"
    "fields_typed (the (snd (tts_config_set_default_pitch now (Some c) (c_atoi s))))"
    "fields_typed (the (snd (tts_config_set_auto_continue_pages now (Some c) b)))"
    "fields_typed (the (snd (tts_config_set_highlight_spoken_text now (Some c) b)))"
    "fields_typed (the (snd (tts_config_set_announce_page_numbers now (Some c) b)))" for w x s b
    using t by (auto simp: setter_defs fields_typed_def int32_atoi is_float_double_to_float)
  have engine: "fields_typed (case engine_of_name v of Some e \<Rightarrow> c\<lparr>preferred_engine := e\<rparr> | None \<Rightarrow> c)"
    using t by (auto simp: fields_typed_def split: option.split)
  have other: "fields_typed (c\<lparr>announce_headings := b\<rparr>)" "fields_typed (c\<lparr>announce_links := b\<rparr>)"
    "fields_typed (c\<lparr>announce_tables := b\<rparr>)" "fields_typed (c\<lparr>show_status_messages := b\<rparr>)"
    "fields_typed (c\<lparr>show_progress_indicator := b\<rparr>)" "fields_typed (c\<lparr>status_timeout_ms := c_atoi s\<rparr>)"
    "fields_typed (c\<lparr>use_threading := b\<rparr>)" "fields_typed (c\<lparr>segment_pause_ms := c_atoi s\<rparr>)"
    "fields_typed (c\<lparr>skip_empty_segments := b\<rparr>)" for b s
    using t by (simp_all add: fields_typed_def int32_atoi)
  show ?thesis unfolding apply_key_value_def by (simp add: put engine other t)
qed

lemma load_lines_typed: "fields_typed c \<Longrightarrow> fields_typed (fold (load_line now) ls c)"
proof (induction ls arbitrary: c)
  case (Cons l ls)
  have "fields_typed (load_line now l c)"
    using Cons.prems by (simp add: load_line_def apply_key_value_typed split: option.split prod.split)
  then show ?case using Cons.IH by simp
qed simp

lemma book_keeping_typed:
  "config_legal (c\<lparr>config_file_path := p, config_is_modified := b\<rparr>) = config_legal c"
  "fields_typed (c\<lparr>config_file_path := p, config_is_modified := b\<rparr>) = fields_typed c"
  by (simp_all add: config_legal_def fields_typed_def)

lemma load_file_typed: "config_typed config \<Longrightarrow> config_typed (snd (tts_config_load_from_file point now fs config path))"
  by (auto simp: config_typed_def [of config] tts_config_load_from_file_def Let_def tts_config_clear_modified_def
      load_lines_legal load_lines_typed book_keeping_typed split: option.split)

lemma load_typed:
  assumes "config_typed (Some c)" "\<And>v. r = Some v \<Longrightarrow> value_typed v"
  shows "(\<And>v. config_typed (Some (us v c))) \<Longrightarrow> config_typed (Some (load_string r us c))"
    "(\<And>v. config_typed (Some (ub v c))) \<Longrightarrow> config_typed (Some (load_bool r ub c))"
    "(\<And>v. int32 v \<Longrightarrow> config_typed (Some (ui v c))) \<Longrightarrow> config_typed (Some (load_int r ui c))"
    "(\<And>v. is_float v \<Longrightarrow> config_typed (Some (uf v c))) \<Longrightarrow> config_typed (Some (load_float r uf c))"
  using assms by (auto simp: load_defs value_typed_def split: option.split setting_value.split)

lemma upd_typed:
  assumes "config_typed (Some c)"
  shows "config_typed (Some (c\<lparr>preferred_voice := x\<rparr>))" "config_typed (Some (c\<lparr>auto_continue_pages := b\<rparr>))"
    "config_typed (Some (c\<lparr>highlight_spoken_text := b\<rparr>))" "config_typed (Some (c\<lparr>announce_page_numbers := b\<rparr>))"
    "config_typed (Some (c\<lparr>announce_headings := b\<rparr>))" "config_typed (Some (c\<lparr>announce_tables := b\<rparr>))"
    "config_typed (Some (c\<lparr>announce_links := b\<rparr>))" "config_typed (Some (c\<lparr>show_status_messages := b\<rparr>))"
    "config_typed (Some (c\<lparr>show_progress_indicator := b\<rparr>))"
    "config_typed (Some (case engine_of_name v of Some e \<Rightarrow> c\<lparr>preferred_engine := e\<rparr> | None \<Rightarrow> c))"
    "is_float s \<Longrightarrow> config_typed (Some (if tts_config_validate_speed s then c\<lparr>default_speed := s\<rparr> else c))"
    "int32 i \<Longrightarrow> config_typed (Some (if tts_config_validate_volume i then c\<lparr>default_volume := i\<rparr> else c))"
    "int32 i \<Longrightarrow> config_typed (Some (if tts_config_validate_pitch i then c\<lparr>default_pitch := i\<rparr> else c))"
    "int32 i \<Longrightarrow> config_typed (Some (if 0 \<le> i then c\<lparr>segment_pause_ms := i\<rparr> else c))"
  using assms engine_of_name_legal [of v] by (auto simp: config_legal_def fields_typed_def split: option.split)

lemma load_zathura_typed:
  assumes "config_typed config" "\<And>name v. get name = Some v \<Longrightarrow> value_typed v"
  shows "config_typed (snd (tts_config_load_from_zathura get config session))"
proof -
  obtain c where c: "config = Some c" "config_typed (Some c)" using assms(1) by (auto simp: config_typed_def)
  show ?thesis
  proof (cases session)
    case True
    have get: "value_typed v" if "get name = Some v" for name v using assms(2) that by blast
    show ?thesis
      unfolding tts_config_load_from_zathura_def Let_def c(1) option.case snd_conv if_not_P [OF not_not [THEN iffD2, OF True]]
      by (rule load_typed upd_typed c(2) | erule get | assumption)+
  qed (use c in \<open>simp add: tts_config_load_from_zathura_def\<close>)
qed

interpretation sources: guarded_machine source_exec config_typed source_typed
proof
  fix config and op :: source_op
  assume "config_typed config" "source_typed op"
  then show "config_typed (source_exec op config)"
    using setter_typed load_file_typed load_zathura_typed by (cases op) simp_all
qed

text \<open>
  C37. The configuration is well typed and its settings are legal: after any sequence of setters, files with any contents
  and settings of zathura, with parameters of the types of C, the speed is a number that single precision
  can hold, between 0.5 and 3.0, volume and pitch are in their ranges, the engine is one of the four, and every number fits in the
  32 bits of an \<^verbatim>\<open>int\<close>.
\<close>

theorem config_fields_have_their_types:
  assumes "\<forall>op \<in> set ops. source_typed op"
  shows "\<exists>c r. fold source_exec ops (Some tts_config_new) = Some c \<and>
    default_speed c = Fin r \<and> is_float (Fin r) \<and> 1 / 2 \<le> r \<and> r \<le> 3 \<and>
    0 \<le> default_volume c \<and> default_volume c \<le> 100 \<and> - 50 \<le> default_pitch c \<and> default_pitch c \<le> 50 \<and>
    preferred_engine c \<noteq> TTS_ENGINE_NONE \<and> int32 (status_timeout_ms c) \<and> int32 (segment_pause_ms c)"
proof -
  have "config_typed (Some tts_config_new)"
    using defaults_typed [of config_zero] by (simp add: tts_config_new_def tts_config_set_defaults_def)
  from sources.inv_fold_allowed [OF this assms] obtain c where
    c: "fold source_exec ops (Some tts_config_new) = Some c" "config_legal c" "fields_typed c"
    unfolding config_typed_def by blast
  from c(2) obtain r where "default_speed c = Fin r" "1 / 2 \<le> r" "r \<le> 3"
    unfolding config_legal_def tts_config_validate_speed_def fl_between_Fin by blast
  with c show ?thesis
    by (auto simp: config_legal_def validate_defs fields_typed_def)
qed

lemma config_fields_have_their_types_witness:
  "\<exists>c r. fold source_exec [From_File CHR ''.'' 3 (Map.empty(''f'' \<mapsto> ''default_volume=99999999999'')) (Some ''f''),
       From_Zathura (map_of config_settings) True, By_Setter 4 (Set_Volume 70)] (Some tts_config_new) = Some c \<and>
     default_speed c = Fin r \<and> is_float (Fin r)"
proof -
  have "value_typed v" if "map_of config_settings name = Some v" for name v
    using map_of_SomeD [OF that] is_float_int [of 1] by (auto simp: config_settings_def value_typed_def int32_def)
  then have "\<forall>op \<in> set [From_File CHR ''.'' 3 (Map.empty(''f'' \<mapsto> ''default_volume=99999999999'')) (Some ''f''),
       From_Zathura (map_of config_settings) True, By_Setter 4 (Set_Volume 70)]. source_typed op"
    by (simp add: int32_def)
  from config_fields_have_their_types [OF this] show ?thesis by blast
qed

end
