(* ===== verification/Utf8_Validate.thy ===== *)
theory Utf8_Validate
  imports C_Strings
begin

unbundle bit_operations_syntax

text \<open>
  \<^verbatim>\<open>g_utf8_validate\<close> of the bundled GLib (\<^verbatim>\<open>glib/gutf8.c\<close>), which the extractor and the
  streaming engine call on every segment. \<^verbatim>\<open>fast_validate\<close> returns the position where it
  stopped: the model returns the rest of the string from there, the empty string for the NUL.
  A byte read at the terminating NUL fails every \<^verbatim>\<open>VALIDATE_BYTE\<close>, which is the branch for a
  string that is too short. The theory relates the bit tests to RFC 3629: the accepted strings
  are exactly the encodings of sequences of Unicode scalar values.
\<close>

subsection \<open>The validator\<close>

definition validate_byte :: "nat \<Rightarrow> nat \<Rightarrow> char \<Rightarrow> bool" where
  "validate_byte bits expect c \<longleftrightarrow> byte c AND bits = expect"

definition validate_second3 :: "char \<Rightarrow> char \<Rightarrow> bool" where
  "validate_second3 c d =
     (let low = byte c AND 0x0f in
      if low = 0 then validate_byte 0xe0 0xa0 d
      else if low = 0x0d then validate_byte 0xe0 0x80 d
      else validate_byte 0xc0 0x80 d)"

definition validate_second4 :: "char \<Rightarrow> char \<Rightarrow> bool" where
  "validate_second4 c d =
     (let low = byte c AND 0x07 in
      if low = 0 then validate_byte 0xc0 0x80 d \<and> byte d AND 0x30 \<noteq> 0
      else if low = 4 then validate_byte 0xf0 0x80 d
      else validate_byte 0xc0 0x80 d)"

fun fast_validate :: "string \<Rightarrow> string" where
  "fast_validate [] = []"
| "fast_validate (c # cs) =
     (if byte c < 128 then fast_validate cs
      else if byte c < 0xe0 then
        (if byte c < 0xc2 then c # cs
         else case cs of
             d # r \<Rightarrow> (if validate_byte 0xc0 0x80 d then fast_validate r else c # cs)
           | _ \<Rightarrow> c # cs)
      else if byte c < 0xf0 then
        (case cs of
             d # e # r \<Rightarrow>
               (if validate_second3 c d \<and> validate_byte 0xc0 0x80 e then fast_validate r else c # cs)
           | _ \<Rightarrow> c # cs)
      else if byte c < 0xf5 then
        (case cs of
             d # e # f # r \<Rightarrow>
               (if validate_second4 c d \<and> validate_byte 0xc0 0x80 e \<and> validate_byte 0xc0 0x80 f
                then fast_validate r else c # cs)
           | _ \<Rightarrow> c # cs)
      else c # cs)"

definition g_utf8_validate :: "string \<Rightarrow> bool" where
  "g_utf8_validate s \<longleftrightarrow> fast_validate s = []"

subsection \<open>The masks as ranges\<close>

lemma upt_256: "[0..<256::nat] = 0 # Suc 0 # [2..<256]"
  by (simp add: upt_conv_Cons numeral_2_eq_2)

lemmas all_bytes = upt_256 upt_rec_numeral

lemma nat256_cases:
  assumes "list_all P [0..<256]"
  shows "P (byte c)"
  using assms byte_less_256 [of c] by (simp add: list_all_iff)

lemma mask_c0: "byte c AND 0xc0 = 0x80 \<longleftrightarrow> 128 \<le> byte c \<and> byte c < 192"
  by (rule nat256_cases [where P = "\<lambda>b. b AND 0xc0 = 0x80 \<longleftrightarrow> 128 \<le> b \<and> b < 192"])
    (simp add: all_bytes)

lemma mask_e0_a0: "byte c AND 0xe0 = 0xa0 \<longleftrightarrow> 160 \<le> byte c \<and> byte c < 192"
  by (rule nat256_cases [where P = "\<lambda>b. b AND 0xe0 = 0xa0 \<longleftrightarrow> 160 \<le> b \<and> b < 192"])
    (simp add: all_bytes)

lemma mask_e0_80: "byte c AND 0xe0 = 0x80 \<longleftrightarrow> 128 \<le> byte c \<and> byte c < 160"
  by (rule nat256_cases [where P = "\<lambda>b. b AND 0xe0 = 0x80 \<longleftrightarrow> 128 \<le> b \<and> b < 160"])
    (simp add: all_bytes)

lemma mask_f0_80: "byte c AND 0xf0 = 0x80 \<longleftrightarrow> 128 \<le> byte c \<and> byte c < 144"
  by (rule nat256_cases [where P = "\<lambda>b. b AND 0xf0 = 0x80 \<longleftrightarrow> 128 \<le> b \<and> b < 144"])
    (simp add: all_bytes)

lemma mask_30: "128 \<le> byte c \<Longrightarrow> byte c < 192 \<Longrightarrow> byte c AND 0x30 \<noteq> 0 \<longleftrightarrow> 144 \<le> byte c"
  by (rule nat256_cases [where P = "\<lambda>b. 128 \<le> b \<longrightarrow> b < 192 \<longrightarrow> (b AND 0x30 \<noteq> 0 \<longleftrightarrow> 144 \<le> b)", rule_format])
    (simp add: all_bytes | simp)+

lemma low_0f: "0xe0 \<le> byte c \<Longrightarrow> byte c < 0xf0 \<Longrightarrow> byte c AND 0x0f = byte c - 0xe0"
  by (rule nat256_cases [where P = "\<lambda>b. 0xe0 \<le> b \<longrightarrow> b < 0xf0 \<longrightarrow> b AND 0x0f = b - 0xe0", rule_format])
    (simp add: all_bytes | simp)+

lemma low_07: "0xf0 \<le> byte c \<Longrightarrow> byte c < 0xf5 \<Longrightarrow> byte c AND 0x07 = byte c - 0xf0"
  by (rule nat256_cases [where P = "\<lambda>b. 0xf0 \<le> b \<longrightarrow> b < 0xf5 \<longrightarrow> b AND 0x07 = b - 0xf0", rule_format])
    (simp add: all_bytes | simp)+

lemma validate_cont: "validate_byte 0xc0 0x80 c \<longleftrightarrow> 128 \<le> byte c \<and> byte c < 192"
  by (simp add: validate_byte_def mask_c0 [simplified])

lemma validate_second3_range:
  assumes "0xe0 \<le> byte c" "byte c < 0xf0"
  shows "validate_second3 c d \<longleftrightarrow>
    (if byte c = 0xe0 then 160 \<le> byte d \<and> byte d < 192
     else if byte c = 0xed then 128 \<le> byte d \<and> byte d < 160
     else 128 \<le> byte d \<and> byte d < 192)"
  using assms
  by (auto simp: validate_second3_def low_0f [simplified] validate_byte_def mask_c0 [simplified]
      mask_e0_a0 [simplified] mask_e0_80 [simplified] Let_def)

lemma validate_second4_range:
  assumes "0xf0 \<le> byte c" "byte c < 0xf5"
  shows "validate_second4 c d \<longleftrightarrow>
    (if byte c = 0xf0 then 144 \<le> byte d \<and> byte d < 192
     else if byte c = 0xf4 then 128 \<le> byte d \<and> byte d < 144
     else 128 \<le> byte d \<and> byte d < 192)"
  using assms mask_30 [of d, simplified]
  by (auto simp: validate_second4_def low_07 [simplified] validate_byte_def mask_c0 [simplified]
      mask_f0_80 [simplified] Let_def)

subsection \<open>The encoding of RFC 3629\<close>

definition unicode_scalar :: "nat \<Rightarrow> bool" where
  "unicode_scalar u \<longleftrightarrow> u < 0x110000 \<and> \<not> (0xd800 \<le> u \<and> u < 0xe000)"

definition utf8_encode :: "nat \<Rightarrow> string" where
  "utf8_encode u =
     (if u < 0x80 then [char_of u]
      else if u < 0x800 then [char_of (0xc0 + u div 64), char_of (0x80 + u mod 64)]
      else if u < 0x10000 then
        [char_of (0xe0 + u div 4096), char_of (0x80 + u div 64 mod 64), char_of (0x80 + u mod 64)]
      else
        [char_of (0xf0 + u div 262144), char_of (0x80 + u div 4096 mod 64),
         char_of (0x80 + u div 64 mod 64), char_of (0x80 + u mod 64)])"

lemma char_of_eq: "n = byte c \<Longrightarrow> char_of n = c"
  by (simp add: byte_def)

lemma byte_cont: "byte (char_of (128 + n mod 64)) = 128 + n mod 64"
proof -
  have "n mod 64 < 64" by simp
  then show ?thesis by (intro byte_char_of) linarith
qed

text \<open>The base-64 digits of a code point.\<close>

lemma base64_digits2: "u = 4096 * (u div 4096) + 64 * (u div 64 mod 64) + u mod 64" for u :: nat
proof -
  have "u div 4096 = u div 64 div 64" by (simp flip: div_mult2_eq)
  moreover have "u = 64 * (u div 64) + u mod 64" by simp
  moreover have "u div 64 = 64 * (u div 64 div 64) + u div 64 mod 64" by simp
  ultimately show ?thesis by linarith
qed

lemma base64_digits3:
  "u = 262144 * (u div 262144) + 4096 * (u div 4096 mod 64) + 64 * (u div 64 mod 64) + u mod 64" for u :: nat
proof -
  have "u div 262144 = u div 4096 div 64" by (simp flip: div_mult2_eq)
  moreover have "u div 4096 = 64 * (u div 4096 div 64) + u div 4096 mod 64" by simp
  ultimately show ?thesis using base64_digits2 [of u] by linarith
qed

lemma validate_encode2:
  fixes u :: nat
  assumes "0x80 \<le> u" "u < 0x800"
  shows "fast_validate (char_of (0xc0 + u div 64) # char_of (0x80 + u mod 64) # r) = fast_validate r"
proof -
  have b: "2 \<le> u div 64" "u div 64 < 32" using assms by auto
  then have "byte (char_of (0xc0 + u div 64)) = 0xc0 + u div 64"
    by (intro byte_char_of) linarith
  with b show ?thesis
    by (simp add: validate_cont [simplified] byte_cont [simplified])
qed

lemma validate_encode3:
  fixes u :: nat
  assumes "0x800 \<le> u" "u < 0x10000" "unicode_scalar u"
  shows "fast_validate (char_of (0xe0 + u div 4096) # char_of (0x80 + u div 64 mod 64) #
    char_of (0x80 + u mod 64) # r) = fast_validate r"
proof -
  let ?c = "char_of (0xe0 + u div 4096) :: char"
  have b: "u div 4096 < 16" using assms by auto
  then have c: "byte ?c = 0xe0 + u div 4096"
    by (intro byte_char_of) linarith
  have e0: "32 \<le> u div 64 mod 64" if "u div 4096 = 0"
    using that assms(1) base64_digits2 [of u] mod_less_divisor [of 64 u] by linarith
  have ed: "u div 64 mod 64 < 32" if "u div 4096 = 13"
    using that assms(3) base64_digits2 [of u] mod_less_divisor [of 64 u]
      mod_less_divisor [of 64 "u div 64"]
    unfolding unicode_scalar_def by linarith
  have "validate_second3 ?c d" if "byte d = 0x80 + u div 64 mod 64" for d
  proof -
    have "u div 64 mod 64 < 64" by simp
    with that c e0 ed b show ?thesis
      by (subst validate_second3_range) (simp_all only: split: if_splits, linarith+)
  qed
  then have "validate_second3 ?c (char_of (0x80 + u div 64 mod 64))"
    by (simp add: byte_cont [simplified])
  with b c show ?thesis
    by (simp add: validate_cont [simplified] byte_cont [simplified])
qed

lemma validate_encode4:
  fixes u :: nat
  assumes "0x10000 \<le> u" "u < 0x110000"
  shows "fast_validate (char_of (0xf0 + u div 262144) # char_of (0x80 + u div 4096 mod 64) #
    char_of (0x80 + u div 64 mod 64) # char_of (0x80 + u mod 64) # r) = fast_validate r"
proof -
  let ?c = "char_of (0xf0 + u div 262144) :: char"
  have b: "u div 262144 < 5" using assms by auto
  then have c: "byte ?c = 0xf0 + u div 262144"
    by (intro byte_char_of) linarith
  have f0: "16 \<le> u div 4096 mod 64" if "u div 262144 = 0"
    using that assms(1) base64_digits3 [of u] mod_less_divisor [of 64 u]
      mod_less_divisor [of 64 "u div 64"] by linarith
  have f4: "u div 4096 mod 64 < 16" if "u div 262144 = 4"
    using that assms(2) base64_digits3 [of u] by linarith
  have "validate_second4 ?c d" if "byte d = 0x80 + u div 4096 mod 64" for d
  proof -
    have "u div 4096 mod 64 < 64" by simp
    with that c f0 f4 b show ?thesis
      by (subst validate_second4_range) (simp_all only: split: if_splits, linarith+)
  qed
  then have "validate_second4 ?c (char_of (0x80 + u div 4096 mod 64))"
    by (simp add: byte_cont [simplified])
  with b c show ?thesis
    by (simp add: validate_cont [simplified] byte_cont [simplified])
qed

lemma fast_validate_encode:
  assumes "unicode_scalar u"
  shows "fast_validate (utf8_encode u @ r) = fast_validate r"
proof -
  consider "u < 0x80" | "0x80 \<le> u" "u < 0x800" | "0x800 \<le> u" "u < 0x10000" | "0x10000 \<le> u"
    by linarith
  then show ?thesis
  proof cases
    case 1
    then have "byte (char_of u) = u" by (intro byte_char_of) simp
    with 1 show ?thesis by (simp add: utf8_encode_def)
  next
    case 2
    then show ?thesis using validate_encode2 [of u r] by (simp add: utf8_encode_def)
  next
    case 3
    then show ?thesis using validate_encode3 [of u r] assms by (simp add: utf8_encode_def)
  next
    case 4
    then show ?thesis
      using validate_encode4 [of u r] assms by (simp add: utf8_encode_def unicode_scalar_def)
  qed
qed

lemma fast_validate_encodes:
  "\<forall>u \<in> set us. unicode_scalar u \<Longrightarrow> fast_validate (concat (map utf8_encode us)) = []"
  by (induction us) (simp_all add: fast_validate_encode)

subsection \<open>Every accepted string is an encoding\<close>

lemma char_of_byte: "n = byte c \<Longrightarrow> char_of n = c"
  by (simp add: byte_def)

lemma decode2:
  assumes "0xc2 \<le> byte c" "byte c < 0xe0" "0x80 \<le> byte d" "byte d < 0xc0"
  shows "\<exists>u. unicode_scalar u \<and> utf8_encode u = [c, d]"
proof -
  obtain x y where x: "byte c = 0xc0 + x" "x < 32" "2 \<le> x" and y: "byte d = 0x80 + y" "y < 64"
    using assms that [of "byte c - 0xc0" "byte d - 0x80"] by auto
  have "(64 * x + y) div 64 = x" "(64 * x + y) mod 64 = y" using y by auto
  then have "utf8_encode (64 * x + y) = [c, d]"
    using x y by (simp add: utf8_encode_def char_of_byte)
  moreover have "unicode_scalar (64 * x + y)"
    using x y by (simp add: unicode_scalar_def)
  ultimately show ?thesis by blast
qed

lemma base64_step: "z < 64 \<Longrightarrow> (64 * a + z) div 64 = a \<and> (64 * a + z) mod 64 = z" for a z :: nat
  by simp

lemma base64_two:
  fixes u :: nat
  assumes "y < 64" "z < 64" and u: "u = 64 * (64 * x + y) + z"
  shows "u mod 64 = z" "u div 64 mod 64 = y" "u div 4096 = x"
proof -
  have d: "u div 64 = 64 * x + y" and "u mod 64 = z"
    unfolding u using base64_step [OF assms(2), of "64 * x + y"] by blast+
  then show "u mod 64 = z" "u div 64 mod 64 = y"
    using base64_step [OF assms(1), of x] by (simp_all only:)
  have "u div 4096 = u div 64 div 64" by (simp flip: div_mult2_eq)
  then show "u div 4096 = x"
    using d base64_step [OF assms(1), of x] by (simp only:)
qed

lemma base64_three:
  fixes u :: nat
  assumes "x < 64" "y < 64" "z < 64" and u: "u = 64 * (64 * (64 * w + x) + y) + z"
  shows "u mod 64 = z" "u div 64 mod 64 = y" "u div 4096 mod 64 = x" "u div 262144 = w"
proof -
  show "u mod 64 = z" "u div 64 mod 64 = y" and x: "u div 4096 mod 64 = x"
    using base64_two [OF assms(2,3) u] assms(1) by simp_all
  have "u div 262144 = u div 4096 div 64" by (simp flip: div_mult2_eq)
  then show "u div 262144 = w" using base64_two [OF assms(2,3) u] assms(1) by simp
qed

lemma decode3:
  assumes "0xe0 \<le> byte c" "byte c < 0xf0" "validate_second3 c d" "0x80 \<le> byte e" "byte e < 0xc0"
  shows "\<exists>u. unicode_scalar u \<and> utf8_encode u = [c, d, e]"
proof -
  have d: "0x80 \<le> byte d" "byte d < 0xc0" "byte c = 0xe0 \<Longrightarrow> 0xa0 \<le> byte d"
    "byte c = 0xed \<Longrightarrow> byte d < 0xa0"
    using assms by (auto simp: validate_second3_range [simplified] split: if_splits)
  obtain x y z where x: "byte c = 0xe0 + x" "x < 16" and y: "byte d = 0x80 + y" "y < 64"
    and z: "byte e = 0x80 + z" "z < 64"
    using assms d that [of "byte c - 0xe0" "byte d - 0x80" "byte e - 0x80"] by auto
  let ?u = "64 * (64 * x + y) + z"
  note digits = base64_two [OF y(2) z(2) refl, of x]
  have lo: "0x800 \<le> ?u" and hi: "?u < 0x10000"
    using x y z d by (cases "x = 0"; simp)+
  have "\<not> (0xd800 \<le> ?u \<and> ?u < 0xe000)"
    using x y z d by (cases "x < 13"; cases "x = 13"; simp)
  with hi have "unicode_scalar ?u" by (simp add: unicode_scalar_def)
  moreover have "utf8_encode ?u = [c, d, e]"
    using lo hi unfolding utf8_encode_def digits using x y z by (simp add: char_of_byte)
  ultimately show ?thesis by blast
qed

lemma decode4:
  assumes "0xf0 \<le> byte c" "byte c < 0xf5" "validate_second4 c d"
    "0x80 \<le> byte e" "byte e < 0xc0" "0x80 \<le> byte f" "byte f < 0xc0"
  shows "\<exists>u. unicode_scalar u \<and> utf8_encode u = [c, d, e, f]"
proof -
  have d: "0x80 \<le> byte d" "byte d < 0xc0" "byte c = 0xf0 \<Longrightarrow> 0x90 \<le> byte d"
    "byte c = 0xf4 \<Longrightarrow> byte d < 0x90"
    using assms by (auto simp: validate_second4_range [simplified] split: if_splits)
  obtain w x y z where w: "byte c = 0xf0 + w" "w < 5" and x: "byte d = 0x80 + x" "x < 64"
    and y: "byte e = 0x80 + y" "y < 64" and z: "byte f = 0x80 + z" "z < 64"
    using assms d that [of "byte c - 0xf0" "byte d - 0x80" "byte e - 0x80" "byte f - 0x80"] by auto
  let ?u = "64 * (64 * (64 * w + x) + y) + z"
  note digits = base64_three [OF x(2) y(2) z(2) refl, of w]
  have lo: "0x10000 \<le> ?u" and hi: "?u < 0x110000"
    using w x y z d by (cases "w = 0"; cases "w = 4"; simp)+
  then have "unicode_scalar ?u" by (simp add: unicode_scalar_def)
  moreover have "utf8_encode ?u = [c, d, e, f]"
    using lo hi unfolding utf8_encode_def digits using w x y z by (simp add: char_of_byte)
  ultimately show ?thesis by blast
qed

lemma fast_validate_first:
  assumes "fast_validate (c # cs) = []"
  shows "\<exists>u r. unicode_scalar u \<and> c # cs = utf8_encode u @ r \<and> fast_validate r = []"
proof -
  consider "byte c < 128" | "0x80 \<le> byte c" "byte c < 0xe0"
    | "0xe0 \<le> byte c" "byte c < 0xf0" | "0xf0 \<le> byte c"
    by linarith
  then show ?thesis
  proof cases
    case 1
    then have "unicode_scalar (byte c) \<and> c # cs = utf8_encode (byte c) @ cs"
      by (simp add: unicode_scalar_def utf8_encode_def char_of_byte)
    moreover have "fast_validate cs = []" using 1 assms by simp
    ultimately show ?thesis by blast
  next
    case 2
    with assms obtain d r where "cs = d # r" "0xc2 \<le> byte c" "validate_byte 0xc0 0x80 d"
      "fast_validate r = []"
      by (auto split: list.splits if_splits)
    with 2 decode2 [of c d] show ?thesis by (fastforce simp: validate_cont [simplified])
  next
    case 3
    with assms obtain d e r where "cs = d # e # r" "validate_second3 c d"
      "validate_byte 0xc0 0x80 e" "fast_validate r = []"
      by (auto split: list.splits if_splits)
    with 3 decode3 [of c d e] show ?thesis by (fastforce simp: validate_cont [simplified])
  next
    case 4
    with assms obtain d e f r where "cs = d # e # f # r" "byte c < 0xf5" "validate_second4 c d"
      "validate_byte 0xc0 0x80 e" "validate_byte 0xc0 0x80 f" "fast_validate r = []"
      by (auto split: list.splits if_splits)
    with 4 decode4 [of c d e f] show ?thesis by (fastforce simp: validate_cont [simplified])
  qed
qed

lemma utf8_encode_not_Nil: "utf8_encode u \<noteq> []"
  by (simp add: utf8_encode_def)

lemma fast_validate_decodes:
  "fast_validate s = [] \<Longrightarrow> \<exists>us. (\<forall>u \<in> set us. unicode_scalar u) \<and> s = concat (map utf8_encode us)"
proof (induction s rule: length_induct)
  case (1 s)
  show ?case
  proof (cases s)
    case Nil
    then show ?thesis by (intro exI [of _ "[]"]) simp
  next
    case (Cons c cs)
    with "1.prems" obtain u r where u: "unicode_scalar u" "s = utf8_encode u @ r" "fast_validate r = []"
      using fast_validate_first by blast
    then have "length r < length s" using utf8_encode_not_Nil [of u] by simp
    with "1.IH" u(3) obtain us where "\<forall>u \<in> set us. unicode_scalar u" "r = concat (map utf8_encode us)"
      by blast
    with u show ?thesis by (intro exI [of _ "u # us"]) simp
  qed
qed

text \<open>
  C39. \<^verbatim>\<open>g_utf8_validate\<close>, the check that guards every segment, accepts exactly the strings that
  are a concatenation of RFC 3629 encodings of Unicode scalar values.
\<close>

theorem g_utf8_validate_iff_encoding:
  "g_utf8_validate s \<longleftrightarrow> (\<exists>us. (\<forall>u \<in> set us. unicode_scalar u) \<and> s = concat (map utf8_encode us))"
  unfolding g_utf8_validate_def
  using fast_validate_decodes [of s] fast_validate_encodes by auto

lemma g_utf8_validate_iff_encoding_witness:
  "unicode_scalar 960 \<and> utf8_encode 960 = [CHR 0xCF, CHR 0x80] \<and> g_utf8_validate [CHR 0xCF, CHR 0x80]"
proof -
  have c: "char_of (207::nat) = CHR 0xCF" "char_of (128::nat) = CHR 0x80"
    by (rule char_of_eq; simp add: byte_def)+
  then have u: "unicode_scalar 960" "utf8_encode 960 = [CHR 0xCF, CHR 0x80]"
    by (simp_all add: unicode_scalar_def utf8_encode_def)
  then have "\<exists>us. (\<forall>u \<in> set us. unicode_scalar u) \<and> [CHR 0xCF, CHR 0x80] = concat (map utf8_encode us)"
    by (intro exI [of _ "[960]"]) simp
  then show ?thesis using u g_utf8_validate_iff_encoding by blast
qed

subsection \<open>Splitting at ASCII bytes\<close>

lemma ascii_not_continuation:
  assumes "byte a < 128"
  shows "\<not> validate_byte 0xc0 0x80 a" "\<not> validate_second3 c a" "\<not> validate_second4 c a"
  using assms
  by (auto simp: validate_second3_def validate_second4_def validate_byte_def mask_c0 [simplified]
      mask_e0_a0 [simplified] mask_e0_80 [simplified] mask_f0_80 [simplified] Let_def)

lemma fast_validate_ascii: "byte a < 128 \<Longrightarrow> fast_validate (a # s) = fast_validate s"
  by simp

lemma list_cases3:
  assumes "xs = [] \<Longrightarrow> P" and "\<And>x. xs = [x] \<Longrightarrow> P" and "\<And>x y. xs = [x, y] \<Longrightarrow> P"
    and "\<And>x y z zs. xs = x # y # z # zs \<Longrightarrow> P"
  shows P
  using assms by (cases xs; cases "tl xs"; cases "tl (tl xs)") auto

lemma fast_validate_ascii_split:
  assumes ascii: "byte a < 128"
  shows "fast_validate (s @ a # t) = [] \<longleftrightarrow> fast_validate s = [] \<and> fast_validate t = []"
proof (induction s rule: length_induct)
  case (1 s)
  note [simp] = ascii_not_continuation [OF ascii, simplified]
  have IH: "fast_validate (r @ a # t) = [] \<longleftrightarrow> fast_validate r = [] \<and> fast_validate t = []"
    if "length r < length s" for r
    using "1.IH" that by blast
  show ?case
  proof (cases s)
    case Nil
    then show ?thesis using ascii by simp
  next
    case s: (Cons c cs)
    consider "cs = []" | d where "cs = [d]" | d e where "cs = [d, e]" | d e f r where "cs = d # e # f # r"
      by (rule list_cases3)
    then show ?thesis
    proof cases
      case 1
      then show ?thesis
        using ascii fast_validate.simps(2) [of a t] unfolding s 1 append_Cons append_Nil fast_validate.simps(2) [of c]
        by (auto simp del: fast_validate.simps simp: fast_validate.simps(1) split: list.split)
    next
      case (2 d)
      then show ?thesis
        using ascii IH [of "[d]"] s
        unfolding s 2 append_Cons append_Nil fast_validate.simps(2) [of c]
        by (auto simp del: fast_validate.simps simp: fast_validate.simps(1) fast_validate_ascii split: list.split)
    next
      case (3 d e)
      then show ?thesis
        using ascii IH [of "[d, e]"] IH [of "[e]"] s
        unfolding s 3 append_Cons append_Nil fast_validate.simps(2) [of c]
        by (auto simp del: fast_validate.simps simp: fast_validate.simps(1) fast_validate_ascii split: list.split)
    next
      case (4 d e f r)
      show ?thesis
        using IH [of "d # e # f # r"] IH [of "e # f # r"] IH [of "f # r"] IH [of r]
        unfolding s 4 append_Cons fast_validate.simps(2) [of c] list.case
        by (auto simp del: fast_validate.simps simp: s 4 split: if_splits)
    qed
  qed
qed

lemma g_utf8_validate_Nil [simp]: "g_utf8_validate []"
  by (simp add: g_utf8_validate_def)

lemma g_utf8_validate_ascii_Cons: "byte a < 128 \<Longrightarrow> g_utf8_validate (a # s) = g_utf8_validate s"
  by (simp add: g_utf8_validate_def)

lemma g_utf8_validate_ascii_append:
  "byte a < 128 \<Longrightarrow> g_utf8_validate (s @ a # t) \<longleftrightarrow> g_utf8_validate s \<and> g_utf8_validate t"
  by (simp add: g_utf8_validate_def fast_validate_ascii_split)

lemma g_utf8_validate_append: "g_utf8_validate s \<Longrightarrow> g_utf8_validate t \<Longrightarrow> g_utf8_validate (s @ t)"
  unfolding g_utf8_validate_def
  using fast_validate_decodes [of s] fast_validate_decodes [of t] fast_validate_encodes
  by (metis UnE concat_append map_append set_append)

lemma g_utf8_validate_ascii: "\<forall>c \<in> set s. byte c < 128 \<Longrightarrow> g_utf8_validate s"
  by (induction s) (auto simp: g_utf8_validate_ascii_Cons)

lemma isspace_ascii: "c_isspace c \<Longrightarrow> byte c < 128"
  by (auto simp: c_isspace_def)

lemma g_utf8_validate_drop_spaces: "g_utf8_validate s \<Longrightarrow> g_utf8_validate (dropWhile c_isspace s)"
  by (induction s) (auto simp: g_utf8_validate_ascii_Cons isspace_ascii)

end
