(* ===== verification/Segment_Store.thy ===== *)
theory Segment_Store
  imports Utf8_Validate
begin

text \<open>
  The data of \<^verbatim>\<open>tts-text-extractor.h\<close>: rectangles, content types and text segments, the
  constructor and destructor of segments, and the store in which segments and lists of segments
  live. Several parts of the plugin pass segments on by pointer and free them; whether one of them
  frees a segment twice or reads it after it was freed is a question about addresses, so the store
  keeps every allocated segment and list under its address and records each bad access as a fault.

  A list of segments stands for a girara list whose free function is \<^verbatim>\<open>tts_text_segment_free\<close>:
  freeing it frees its elements. (girara is not part of the repository; what is used of its lists is
  their documented behaviour: append, size, n-th element, free.)
\<close>

subsection \<open>Segments\<close>

datatype zathura_error =
    ZATHURA_ERROR_OK
  | ZATHURA_ERROR_UNKNOWN
  | ZATHURA_ERROR_OUT_OF_MEMORY
  | ZATHURA_ERROR_INVALID_ARGUMENTS
  | ZATHURA_ERROR_OTHER nat

record zathura_rectangle =
  rect_x1 :: rat
  rect_y1 :: rat
  rect_x2 :: rat
  rect_y2 :: rat

datatype tts_content_type =
    TTS_CONTENT_NORMAL
  | TTS_CONTENT_HEADING
  | TTS_CONTENT_FORMULA
  | TTS_CONTENT_TABLE
  | TTS_CONTENT_LINK
  | TTS_CONTENT_CAPTION

record tts_text_segment =
  seg_text :: "string option"
  seg_bounds :: zathura_rectangle
  seg_page_number :: int
  seg_id :: int
  seg_type :: tts_content_type

definition tts_text_segment_new ::
  "string option \<Rightarrow> zathura_rectangle \<Rightarrow> int \<Rightarrow> int \<Rightarrow> tts_content_type \<Rightarrow> tts_text_segment option" where
  "tts_text_segment_new text bounds page_number segment_id type =
     (case text of
        None \<Rightarrow> None
      | Some t \<Rightarrow>
          if \<not> g_utf8_validate t then None
          else let text_len = length t in
            if text_len = 0 \<or> text_len > 10000 then None
            else let copy = take text_len t in
              if \<not> g_utf8_validate copy then None
              else Some \<lparr>seg_text = Some copy, seg_bounds = bounds, seg_page_number = page_number,
                         seg_id = segment_id, seg_type = type\<rparr>)"

definition segment_text_ok :: "string \<Rightarrow> bool" where
  "segment_text_ok t \<longleftrightarrow> g_utf8_validate t \<and> 0 < length t \<and> length t \<le> 10000"

lemma tts_text_segment_new_Some:
  "tts_text_segment_new (Some t) b p i ty =
     (if segment_text_ok t
      then Some \<lparr>seg_text = Some t, seg_bounds = b, seg_page_number = p, seg_id = i, seg_type = ty\<rparr>
      else None)"
  by (auto simp: tts_text_segment_new_def segment_text_ok_def Let_def)

lemma tts_text_segment_new_None [simp]: "tts_text_segment_new None b p i ty = None"
  by (simp add: tts_text_segment_new_def)

subsection \<open>The store\<close>

type_synonym addr = nat

datatype fault =
    Double_Free addr
  | Use_After_Free addr
  | List_Double_Free addr
  | List_Use_After_Free addr

record store =
  next_addr :: addr
  segs :: "addr \<Rightarrow> tts_text_segment option"
  seg_lists :: "addr \<Rightarrow> addr list option"
  faults :: "fault list"

definition empty_store :: store where
  "empty_store = \<lparr>next_addr = 1, segs = Map.empty, seg_lists = Map.empty, faults = []\<rparr>"

definition raise_fault :: "fault \<Rightarrow> store \<Rightarrow> store" where
  "raise_fault f st = st\<lparr>faults := faults st @ [f]\<rparr>"

definition alloc_segment :: "tts_text_segment \<Rightarrow> store \<Rightarrow> addr \<times> store" where
  "alloc_segment s st =
     (next_addr st, st\<lparr>next_addr := Suc (next_addr st), segs := (segs st)(next_addr st \<mapsto> s)\<rparr>)"

definition tts_text_segment_free :: "addr option \<Rightarrow> store \<Rightarrow> store" where
  "tts_text_segment_free p st =
     (case p of
        None \<Rightarrow> st
      | Some a \<Rightarrow>
          (case segs st a of
             None \<Rightarrow> raise_fault (Double_Free a) st
           | Some _ \<Rightarrow> st\<lparr>segs := (segs st)(a := None)\<rparr>))"

definition read_segment :: "addr \<Rightarrow> store \<Rightarrow> tts_text_segment option \<times> store" where
  "read_segment a st =
     (case segs st a of
        None \<Rightarrow> (None, raise_fault (Use_After_Free a) st)
      | Some s \<Rightarrow> (Some s, st))"

fun free_segments :: "addr list \<Rightarrow> store \<Rightarrow> store" where
  "free_segments [] st = st"
| "free_segments (a # as) st = free_segments as (tts_text_segment_free (Some a) st)"

definition list_alloc :: "addr list \<Rightarrow> store \<Rightarrow> addr \<times> store" where
  "list_alloc as st =
     (next_addr st, st\<lparr>next_addr := Suc (next_addr st), seg_lists := (seg_lists st)(next_addr st \<mapsto> as)\<rparr>)"

definition list_free :: "addr \<Rightarrow> store \<Rightarrow> store" where
  "list_free l st =
     (case seg_lists st l of
        None \<Rightarrow> raise_fault (List_Double_Free l) st
      | Some as \<Rightarrow> (free_segments as st)\<lparr>seg_lists := (seg_lists st)(l := None)\<rparr>)"

definition list_read :: "addr \<Rightarrow> store \<Rightarrow> addr list \<times> store" where
  "list_read l st =
     (case seg_lists st l of
        None \<Rightarrow> ([], raise_fault (List_Use_After_Free l) st)
      | Some as \<Rightarrow> (as, st))"

lemmas store_defs =
  raise_fault_def alloc_segment_def tts_text_segment_free_def read_segment_def list_alloc_def
  list_free_def list_read_def

subsection \<open>Well-formed stores\<close>

text \<open>No fault so far, and every address in use is below the next free one.\<close>

definition store_ok :: "store \<Rightarrow> bool" where
  "store_ok st \<longleftrightarrow> faults st = [] \<and>
     (\<forall>a. segs st a \<noteq> None \<longrightarrow> a < next_addr st) \<and>
     (\<forall>l. seg_lists st l \<noteq> None \<longrightarrow> l < next_addr st)"

text \<open>The segments at the addresses of a list, each of them allocated, none listed twice.\<close>

definition holds_segments :: "store \<Rightarrow> addr list \<Rightarrow> bool" where
  "holds_segments st as \<longleftrightarrow> distinct as \<and> (\<forall>a \<in> set as. segs st a \<noteq> None)"

lemma store_ok_empty: "store_ok empty_store"
  by (simp add: store_ok_def empty_store_def)

lemma store_ok_fresh: "store_ok st \<Longrightarrow> segs st (next_addr st) = None \<and> seg_lists st (next_addr st) = None"
  unfolding store_ok_def by (metis less_irrefl)

lemma store_ok_alloc: "store_ok st \<Longrightarrow> store_ok (snd (alloc_segment s st))"
  unfolding store_ok_def alloc_segment_def by (auto simp: less_Suc_eq)

lemma store_ok_list_alloc: "store_ok st \<Longrightarrow> store_ok (snd (list_alloc as st))"
  unfolding store_ok_def list_alloc_def by (auto simp: less_Suc_eq)

lemma free_allocated:
  "segs st a \<noteq> None \<Longrightarrow> tts_text_segment_free (Some a) st = st\<lparr>segs := (segs st)(a := None)\<rparr>"
  by (auto simp: tts_text_segment_free_def)

lemma store_ok_free:
  "store_ok st \<Longrightarrow> segs st a \<noteq> None \<Longrightarrow> store_ok (tts_text_segment_free (Some a) st)"
  by (simp add: free_allocated store_ok_def)

lemma free_segments_effect:
  "holds_segments st as \<Longrightarrow>
   free_segments as st = st\<lparr>segs := (\<lambda>a. if a \<in> set as then None else segs st a)\<rparr>"
proof (induction as arbitrary: st)
  case Nil
  then show ?case by simp
next
  case (Cons a as)
  let ?st = "st\<lparr>segs := (segs st)(a := None)\<rparr>"
  have "holds_segments ?st as" using Cons.prems by (auto simp: holds_segments_def)
  then have "free_segments as ?st = ?st\<lparr>segs := (\<lambda>b. if b \<in> set as then None else segs ?st b)\<rparr>"
    by (rule Cons.IH)
  moreover have "tts_text_segment_free (Some a) st = ?st"
    using Cons.prems by (auto simp: free_allocated holds_segments_def)
  ultimately show ?case by (auto simp: fun_eq_iff)
qed

lemma store_ok_free_segments: "store_ok st \<Longrightarrow> holds_segments st as \<Longrightarrow> store_ok (free_segments as st)"
  by (simp add: free_segments_effect store_ok_def)

lemma free_segments_dangling:
  assumes "a \<in> set as" "segs st a = None"
  shows "faults (free_segments as st) \<noteq> []"
  using assms
proof (induction as arbitrary: st)
  case Nil
  then show ?case by simp
next
  case (Cons b as)
  have keep: "faults s \<noteq> [] \<Longrightarrow> faults (free_segments cs s) \<noteq> []" for cs s
    by (induction cs arbitrary: s) (auto simp: store_defs split: option.split)
  show ?case
  proof (cases "a = b")
    case True
    with Cons.prems have "faults (tts_text_segment_free (Some b) st) \<noteq> []"
      by (simp add: store_defs)
    then show ?thesis using keep by simp
  next
    case False
    with Cons.prems have "a \<in> set as" "segs (tts_text_segment_free (Some b) st) a = None"
      by (auto simp: store_defs split: option.split)
    then show ?thesis using Cons.IH by simp
  qed
qed

end
