(* ===== verification/Sentence_Split.thy ===== *)
theory Sentence_Split
  imports Segment_Store
begin

text \<open>
  \<^verbatim>\<open>clean_extracted_text\<close> and \<^verbatim>\<open>tts_segment_text_into_sentences\<close> of
  \<^verbatim>\<open>tts-text-extractor.c\<close>. The pointer loops run over the rest of the string: a position is the
  suffix it points to, and the text between two positions is carried as the list of bytes read since
  the first one. The lemmas say what the cleaning does to white space and that neither routine loses
  or reorders a byte that is not white space.
\<close>

subsection \<open>Cleaning extracted text\<close>

fun clean_loop :: "bool \<Rightarrow> string \<Rightarrow> string" where
  "clean_loop prev_was_space [] = []"
| "clean_loop prev_was_space (c # cs) =
     (if c_isspace c
      then (if \<not> prev_was_space then CHR '' '' # clean_loop True cs else clean_loop prev_was_space cs)
      else c # clean_loop False cs)"

definition drop_trailing_space :: "string \<Rightarrow> string" where
  "drop_trailing_space s = (if s \<noteq> [] \<and> last s = CHR '' '' then butlast s else s)"

definition clean_extracted_text :: "string option \<Rightarrow> string option" where
  "clean_extracted_text raw =
     (case raw of None \<Rightarrow> None | Some t \<Rightarrow> Some (drop_trailing_space (clean_loop False t)))"

definition cleaned :: "string \<Rightarrow> string" where
  "cleaned t = drop_trailing_space (clean_loop False t)"

lemma clean_extracted_text_Some: "clean_extracted_text (Some t) = Some (cleaned t)"
  by (simp add: clean_extracted_text_def cleaned_def)

subsection \<open>Sentences\<close>

definition sentence_end :: "char \<Rightarrow> bool" where
  "sentence_end c \<longleftrightarrow> c = CHR ''.'' \<or> c = CHR ''!'' \<or> c = CHR ''?''"

text \<open>Appending one sentence: cleaned, and only if something is left of it.\<close>

definition append_sentence :: "string list \<Rightarrow> string \<Rightarrow> string list" where
  "append_sentence sentences s =
     (case clean_extracted_text (Some s) of
        None \<Rightarrow> sentences
      | Some c \<Rightarrow> (if length c > 0 then sentences @ [c] else sentences))"

text \<open>
  The main loop. \<open>acc\<close> is the text from \<^verbatim>\<open>sentence_start\<close> to \<^verbatim>\<open>current\<close>, the last
  argument is the text from \<^verbatim>\<open>current\<close> on.
\<close>

fun sentence_loop :: "string list \<Rightarrow> string \<Rightarrow> string \<Rightarrow> string list \<times> string" where
  "sentence_loop sentences acc [] = (sentences, acc)"
| "sentence_loop sentences acc (c # cs) =
     (if sentence_end c then
        let next = dropWhile c_isspace cs in
        if next = [] \<or> c_isupper (hd next)
        then sentence_loop (append_sentence sentences (acc @ [c])) [] next
        else sentence_loop sentences (acc @ [c]) cs
      else sentence_loop sentences (acc @ [c]) cs)"

definition tts_segment_text_into_sentences :: "string option \<Rightarrow> zathura_error \<times> string list option" where
  "tts_segment_text_into_sentences text =
     (case text of
        None \<Rightarrow> (ZATHURA_ERROR_INVALID_ARGUMENTS, None)
      | Some t \<Rightarrow>
          if length t = 0 then (ZATHURA_ERROR_OK, Some [])
          else case sentence_loop [] [] t of
            (sentences, rest) \<Rightarrow>
              (ZATHURA_ERROR_OK, Some (if rest \<noteq> [] then append_sentence sentences rest else sentences)))"

text \<open>The sentences of a text, as the caller gets them.\<close>

definition sentences_of :: "string \<Rightarrow> string list" where
  "sentences_of t = (case sentence_loop [] [] t of
     (sentences, rest) \<Rightarrow> if rest \<noteq> [] then append_sentence sentences rest else sentences)"

lemma tts_segment_text_into_sentences_Some:
  "tts_segment_text_into_sentences (Some t) = (ZATHURA_ERROR_OK, Some (sentences_of t))"
  by (simp add: tts_segment_text_into_sentences_def sentences_of_def split: prod.split)

subsection \<open>What cleaning does to white space\<close>

text \<open>A text in the form the cleaning aims at: single blanks only, and none at the end.\<close>

fun single_blanks :: "string \<Rightarrow> bool" where
  "single_blanks [] = True"
| "single_blanks [c] = (c_isspace c \<longrightarrow> c = CHR '' '')"
| "single_blanks (c # d # cs) =
     ((c_isspace c \<longrightarrow> c = CHR '' '' \<and> \<not> c_isspace d) \<and> single_blanks (d # cs))"

definition tidy :: "string \<Rightarrow> bool" where
  "tidy s \<longleftrightarrow> single_blanks s \<and> (s \<noteq> [] \<longrightarrow> \<not> c_isspace (last s))"

lemma clean_loop_True_hd: "clean_loop True s \<noteq> [] \<Longrightarrow> \<not> c_isspace (hd (clean_loop True s))"
  by (induction s) auto

lemma single_blanks_Cons:
  "single_blanks (c # s) \<longleftrightarrow>
     (c_isspace c \<longrightarrow> c = CHR '' '' \<and> (s \<noteq> [] \<longrightarrow> \<not> c_isspace (hd s))) \<and> single_blanks s"
  by (cases s) auto

lemma single_blanks_clean_loop: "single_blanks (clean_loop b s)"
proof (induction b s rule: clean_loop.induct)
  case (2 b c cs)
  then show ?case
    using clean_loop_True_hd [of cs] by (auto simp: single_blanks_Cons)
qed simp

lemma single_blanks_append: "single_blanks (s @ t) \<Longrightarrow> single_blanks s"
  by (induction s) (auto simp: single_blanks_Cons)

lemma single_blanks_butlast: "single_blanks s \<Longrightarrow> single_blanks (butlast s)"
  by (cases s rule: rev_cases) (auto dest: single_blanks_append)

lemma single_blanks_last: "single_blanks s \<Longrightarrow> s \<noteq> [] \<Longrightarrow> c_isspace (last s) \<Longrightarrow> last s = CHR '' ''"
  by (induction s rule: single_blanks.induct) auto

lemma single_blanks_last_butlast:
  "single_blanks s \<Longrightarrow> s \<noteq> [] \<Longrightarrow> c_isspace (last s) \<Longrightarrow> butlast s \<noteq> [] \<Longrightarrow> \<not> c_isspace (last (butlast s))"
proof (induction s rule: single_blanks.induct)
  case (3 c d cs)
  then show ?case by (cases cs) auto
qed simp_all

lemma tidy_drop_trailing_space: "single_blanks s \<Longrightarrow> tidy (drop_trailing_space s)"
proof (cases "s \<noteq> [] \<and> c_isspace (last s)")
  case True
  assume s: "single_blanks s"
  then have "drop_trailing_space s = butlast s"
    using True single_blanks_last [OF s] by (simp add: drop_trailing_space_def)
  then show ?thesis
    using True s single_blanks_last_butlast [OF s] by (simp add: tidy_def single_blanks_butlast)
next
  case False
  then have "drop_trailing_space s = s" by (auto simp: drop_trailing_space_def)
  then show "single_blanks s \<Longrightarrow> ?thesis" using False by (auto simp: tidy_def)
qed

lemma tidy_cleaned: "tidy (cleaned s)"
  by (simp add: cleaned_def tidy_drop_trailing_space single_blanks_clean_loop)

lemma clean_loop_tidy: "single_blanks s \<Longrightarrow> (b \<longrightarrow> s \<noteq> [] \<longrightarrow> \<not> c_isspace (hd s)) \<Longrightarrow> clean_loop b s = s"
  by (induction b s rule: clean_loop.induct) (auto simp: single_blanks_Cons)

lemma cleaned_tidy: "tidy s \<Longrightarrow> cleaned s = s"
  by (auto simp: cleaned_def tidy_def clean_loop_tidy drop_trailing_space_def)

definition visible :: "string \<Rightarrow> string" where
  "visible s = filter (\<lambda>c. \<not> c_isspace c) s"

lemma visible_append [simp]: "visible (s @ t) = visible s @ visible t"
  by (simp add: visible_def)

lemma visible_Nil [simp]: "visible [] = []"
  by (simp add: visible_def)

lemma visible_clean_loop: "visible (clean_loop b s) = visible s"
  by (induction b s rule: clean_loop.induct) (auto simp: visible_def)

lemma visible_drop_trailing_space: "visible (drop_trailing_space s) = visible s"
proof (cases "s \<noteq> [] \<and> last s = CHR '' ''")
  case True
  then have "s = butlast s @ [CHR '' '']" by (metis append_butlast_last_id)
  then have "visible s = visible (butlast s) @ visible [CHR '' '']" by (metis visible_append)
  with True show ?thesis by (simp add: drop_trailing_space_def visible_def)
qed (auto simp: drop_trailing_space_def)

lemma visible_cleaned: "visible (cleaned s) = visible s"
  by (simp add: cleaned_def visible_drop_trailing_space visible_clean_loop)

lemma length_clean_loop: "length (clean_loop b s) \<le> length s"
  by (induction b s rule: clean_loop.induct) auto

lemma length_cleaned: "length (cleaned s) \<le> length s"
  using length_clean_loop [of False s] by (simp add: cleaned_def drop_trailing_space_def le_diff_conv)

text \<open>
  \<^verbatim>\<open>clean_extracted_text\<close> returns a text whose only white space is single blanks, with none
  at the end; it changes no other byte and keeps their order, never grows the text (so the buffer of
  \<^verbatim>\<open>strlen + 1\<close> bytes suffices), and cleaning a cleaned text changes nothing.
\<close>

theorem clean_extracted_text_normalises:
  "clean_extracted_text (Some t) = Some (cleaned t) \<and> tidy (cleaned t) \<and> visible (cleaned t) = visible t \<and>
   length (cleaned t) \<le> length t \<and> clean_extracted_text (Some (cleaned t)) = Some (cleaned t)"
  by (simp add: clean_extracted_text_Some tidy_cleaned visible_cleaned length_cleaned cleaned_tidy)

subsection \<open>What the segmentation does\<close>

text \<open>
  The specification works on the visible text alone: a sentence ends at a full stop, an exclamation
  mark or a question mark that is followed by an upper-case letter or by nothing.
\<close>

fun split_sentences :: "string \<Rightarrow> string \<Rightarrow> string list" where
  "split_sentences acc [] = (if acc = [] then [] else [acc])"
| "split_sentences acc [c] = [acc @ [c]]"
| "split_sentences acc (c # d # cs) =
     (if sentence_end c \<and> c_isupper d
      then (acc @ [c]) # split_sentences [] (d # cs)
      else split_sentences (acc @ [c]) (d # cs))"

lemma sentence_end_not_space: "sentence_end c \<Longrightarrow> \<not> c_isspace c"
  by (auto simp: sentence_end_def c_isspace_iff)

lemma isupper_not_space: "c_isupper c \<Longrightarrow> \<not> c_isspace c"
  by (auto simp: ctype_defs)

lemma visible_eq_Nil: "visible s = [] \<longleftrightarrow> (\<forall>c \<in> set s. c_isspace c)"
  by (auto simp: visible_def filter_empty_conv)

lemma cleaned_eq_Nil: "cleaned s = [] \<longleftrightarrow> visible s = []"
proof
  assume v: "visible s = []"
  show "cleaned s = []"
  proof (rule ccontr)
    assume n: "cleaned s \<noteq> []"
    then have "\<not> c_isspace (last (cleaned s))" using tidy_cleaned [of s] by (simp add: tidy_def)
    then have "visible (cleaned s) \<noteq> []" using n by (auto simp: visible_eq_Nil)
    with v show False by (simp add: visible_cleaned)
  qed
next
  assume "cleaned s = []"
  then show "visible s = []" using visible_cleaned [of s] by simp
qed

lemma append_sentence_cleaned:
  "append_sentence ss s = (if visible s = [] then ss else ss @ [cleaned s])"
  by (simp add: append_sentence_def clean_extracted_text_Some cleaned_eq_Nil)

lemma visible_dropWhile: "visible (dropWhile c_isspace s) = visible s"
  by (induction s) (auto simp: visible_def)

definition at_boundary :: "string \<Rightarrow> bool" where
  "at_boundary cs \<longleftrightarrow> dropWhile c_isspace cs = [] \<or> c_isupper (hd (dropWhile c_isspace cs))"

lemma sentence_loop_cut:
  "sentence_end c \<Longrightarrow> at_boundary cs \<Longrightarrow>
   sentence_loop ss acc (c # cs) = sentence_loop (append_sentence ss (acc @ [c])) [] (dropWhile c_isspace cs)"
  unfolding at_boundary_def by (simp only: sentence_loop.simps Let_def if_True)

lemma sentence_loop_go:
  "\<not> (sentence_end c \<and> at_boundary cs) \<Longrightarrow>
   sentence_loop ss acc (c # cs) = sentence_loop ss (acc @ [c]) cs"
  by (cases "sentence_end c"; cases "at_boundary cs")
    (simp_all only: sentence_loop.simps at_boundary_def Let_def if_True if_False simp_thms)

declare sentence_loop.simps(2) [simp del]

lemma sentence_loop_induct [case_names Nil Cut Go]:
  assumes "\<And>ss acc. P ss acc []"
    and "\<And>ss acc c cs. sentence_end c \<Longrightarrow> at_boundary cs \<Longrightarrow>
      P (append_sentence ss (acc @ [c])) [] (dropWhile c_isspace cs) \<Longrightarrow> P ss acc (c # cs)"
    and "\<And>ss acc c cs. \<not> (sentence_end c \<and> at_boundary cs) \<Longrightarrow> P ss (acc @ [c]) cs \<Longrightarrow> P ss acc (c # cs)"
  shows "P ss acc rest"
proof (induction ss acc rest rule: sentence_loop.induct)
  case (1 ss acc)
  show ?case by (rule assms(1))
next
  case (2 ss acc c cs)
  show ?case
  proof (cases "sentence_end c \<and> at_boundary cs")
    case True
    then show ?thesis using assms(2) 2(1) [OF _ refl] unfolding at_boundary_def by blast
  next
    case False
    then have "P ss (acc @ [c]) cs"
      using 2(2) [OF _ refl] 2(3) unfolding at_boundary_def by blast
    then show ?thesis using False assms(3) by blast
  qed
qed

lemma visible_Cons: "\<not> c_isspace c \<Longrightarrow> visible (c # cs) = c # visible cs"
  "c_isspace c \<Longrightarrow> visible (c # cs) = visible cs"
  by (simp_all add: visible_def)

lemma at_boundary_visible: "at_boundary cs \<longleftrightarrow> visible cs = [] \<or> c_isupper (hd (visible cs))"
proof (induction cs)
  case (Cons c cs)
  then show ?case by (cases "c_isspace c") (auto simp: at_boundary_def visible_Cons)
qed (simp add: at_boundary_def)

definition finish_sentences :: "string list \<times> string \<Rightarrow> string list" where
  "finish_sentences r = (if snd r \<noteq> [] then append_sentence (fst r) (snd r) else fst r)"

lemma sentences_of_finish: "sentences_of t = finish_sentences (sentence_loop [] [] t)"
  by (simp add: sentences_of_def finish_sentences_def split: prod.split)

lemma split_sentences_no_end:
  "\<not> sentence_end c \<Longrightarrow> split_sentences acc (c # cs) = split_sentences (acc @ [c]) cs"
  by (cases cs) auto

lemma split_sentences_cut:
  "sentence_end c \<Longrightarrow> cs = [] \<or> c_isupper (hd cs) \<Longrightarrow>
   split_sentences acc (c # cs) = (acc @ [c]) # split_sentences [] cs"
  by (cases cs) auto

lemma split_sentences_go:
  "\<not> (sentence_end c \<and> (cs = [] \<or> c_isupper (hd cs))) \<Longrightarrow>
   split_sentences acc (c # cs) = split_sentences (acc @ [c]) cs"
  by (cases cs) auto

lemma sentence_loop_spec:
  "map visible (finish_sentences (sentence_loop ss acc rest)) =
   map visible ss @ split_sentences (visible acc) (visible rest)"
proof (induction ss acc rest rule: sentence_loop_induct)
  case (Nil ss acc)
  then show ?case by (auto simp: finish_sentences_def append_sentence_cleaned visible_cleaned)
next
  case (Cut ss acc c cs)
  then show ?case
    by (simp add: sentence_loop_cut visible_Cons sentence_end_not_space visible_dropWhile
        split_sentences_cut at_boundary_visible append_sentence_cleaned visible_cleaned)
next
  case (Go ss acc c cs)
  then show ?case
    by (cases "c_isspace c")
      (simp_all add: sentence_loop_go visible_Cons at_boundary_visible split_sentences_go)
qed

lemma finish_sentences_tidy:
  "\<forall>s \<in> set ss. tidy s \<and> s \<noteq> [] \<Longrightarrow> \<forall>s \<in> set (finish_sentences (sentence_loop ss acc rest)). tidy s \<and> s \<noteq> []"
proof (induction ss acc rest rule: sentence_loop_induct)
  case (Nil ss acc)
  then show ?case
    by (auto simp: finish_sentences_def append_sentence_cleaned tidy_cleaned cleaned_eq_Nil)
next
  case (Cut ss acc c cs)
  have "\<forall>s \<in> set (append_sentence ss (acc @ [c])). tidy s \<and> s \<noteq> []"
    using Cut.prems by (auto simp: append_sentence_cleaned tidy_cleaned cleaned_eq_Nil)
  from Cut.IH [OF this] show ?case by (simp only: sentence_loop_cut [OF Cut.hyps])
next
  case (Go ss acc c cs)
  from Go.IH [OF Go.prems] show ?case by (simp only: sentence_loop_go [OF Go.hyps])
qed

text \<open>The raw text is cut into consecutive parts, and each sentence is its part with the white space normalised.\<close>

lemma clean_loop_append:
  "clean_loop b (s @ t) = clean_loop b s @ clean_loop (if s = [] then b else c_isspace (last s)) t"
  by (induction b s rule: clean_loop.induct) auto

lemma clean_loop_spaces:
  "\<forall>c \<in> set ws. c_isspace c \<Longrightarrow> clean_loop b ws = (if b \<or> ws = [] then [] else [CHR '' ''])"
  by (induction b ws rule: clean_loop.induct) auto

lemma cleaned_trailing_spaces:
  assumes "\<not> c_isspace c" "\<forall>c \<in> set ws. c_isspace c"
  shows "cleaned (s @ c # ws) = cleaned (s @ [c])"
proof -
  have "clean_loop False (s @ c # ws) = clean_loop False (s @ [c]) @ (if ws = [] then [] else [CHR '' ''])"
    using clean_loop_append [of False "s @ [c]" ws] clean_loop_spaces [OF assms(2), of False] assms(1) by simp
  moreover have "clean_loop False (s @ [c]) \<noteq> [] \<and> last (clean_loop False (s @ [c])) = c"
    using clean_loop_append [of False s "[c]"] assms(1) by simp
  moreover have "c \<noteq> CHR '' ''" using assms(1) by (auto simp: c_isspace_iff)
  ultimately show ?thesis by (simp add: cleaned_def drop_trailing_space_def)
qed

lemma sentence_loop_parts:
  "\<exists>parts. concat parts = acc @ rest \<and>
     finish_sentences (sentence_loop ss acc rest) = ss @ filter (\<lambda>s. s \<noteq> []) (map cleaned parts)"
proof (induction ss acc rest rule: sentence_loop_induct)
  case (Nil ss acc)
  then show ?case
    by (intro exI [of _ "[acc]"]) (auto simp: finish_sentences_def append_sentence_cleaned cleaned_eq_Nil)
next
  case (Cut ss acc c cs)
  define ws where "ws = takeWhile c_isspace cs"
  have cs: "cs = ws @ dropWhile c_isspace cs" by (simp add: ws_def)
  have part: "cleaned (acc @ c # ws) = cleaned (acc @ [c])"
    by (rule cleaned_trailing_spaces) (auto simp: ws_def sentence_end_not_space Cut.hyps dest: set_takeWhileD)
  obtain parts where p: "concat parts = [] @ dropWhile c_isspace cs"
    "finish_sentences (sentence_loop (append_sentence ss (acc @ [c])) [] (dropWhile c_isspace cs)) =
       append_sentence ss (acc @ [c]) @ filter (\<lambda>s. s \<noteq> []) (map cleaned parts)"
    using Cut.IH by blast
  have "concat ((acc @ c # ws) # parts) = acc @ c # cs" using p(1) cs by simp
  moreover have "finish_sentences (sentence_loop ss acc (c # cs)) =
      ss @ filter (\<lambda>s. s \<noteq> []) (map cleaned ((acc @ c # ws) # parts))"
    unfolding sentence_loop_cut [OF Cut.hyps] p(2) by (simp add: part append_sentence_cleaned cleaned_eq_Nil)
  ultimately show ?case by blast
next
  case (Go ss acc c cs)
  then show ?case by (simp only: sentence_loop_go [OF Go.hyps] append_assoc append.simps)
qed

text \<open>
  C1. Segmentation against its specification: the sentences are the cut of the visible text at a
  sentence mark followed by an upper-case letter or by the end of the text, in order and without loss
  or duplication of a byte; each one is a part of the text with its white space normalised (the parts
  that are only white space left out), hence non-empty and tidy.
\<close>

theorem segmentation_correct:
  "\<exists>ss. tts_segment_text_into_sentences (Some t) = (ZATHURA_ERROR_OK, Some ss) \<and>
     map visible ss = split_sentences [] (visible t) \<and>
     (\<exists>parts. concat parts = t \<and> ss = filter (\<lambda>s. s \<noteq> []) (map cleaned parts)) \<and>
     (\<forall>s \<in> set ss. tidy s \<and> s \<noteq> [])"
proof -
  have "tts_segment_text_into_sentences (Some t) = (ZATHURA_ERROR_OK, Some (sentences_of t))"
    by (rule tts_segment_text_into_sentences_Some)
  moreover have "map visible (sentences_of t) = split_sentences [] (visible t)"
    using sentence_loop_spec [of "[]" "[]" t] by (simp add: sentences_of_finish)
  moreover have "\<exists>parts. concat parts = t \<and> sentences_of t = filter (\<lambda>s. s \<noteq> []) (map cleaned parts)"
    using sentence_loop_parts [of "[]" t "[]"] by (simp add: sentences_of_finish)
  moreover have "\<forall>s \<in> set (sentences_of t). tidy s \<and> s \<noteq> []"
    unfolding sentences_of_finish by (rule finish_sentences_tidy) simp
  ultimately show ?thesis by blast
qed

lemma segmentation_correct_witness:
  "\<exists>ss. tts_segment_text_into_sentences (Some ''Up.  Go.'') = (ZATHURA_ERROR_OK, Some ss) \<and>
     map visible ss = [''Up.'', ''Go.''] \<and>
     (\<exists>parts. concat parts = ''Up.  Go.'' \<and> ss = filter (\<lambda>s. s \<noteq> []) (map cleaned parts))"
proof -
  have v: "visible ''Up.  Go.'' = ''Up.Go.''" by (simp add: visible_def c_isspace_iff)
  have "split_sentences [] ''Up.Go.'' = [''Up.'', ''Go.'']"
    by (simp add: sentence_end_def c_isupper_def byte_def)
  then show ?thesis using segmentation_correct [of "''Up.  Go.''"] unfolding v by metis
qed

subsection \<open>Segmentation and UTF-8\<close>

lemma g_utf8_validate_clean_loop: "g_utf8_validate (p @ s) \<Longrightarrow> g_utf8_validate (p @ clean_loop b s)"
proof (induction s arbitrary: p b)
  case Nil
  then show ?case by simp
next
  case (Cons c s)
  show ?case
  proof (cases "c_isspace c")
    case True
    then have p: "g_utf8_validate p" and s: "g_utf8_validate s"
      using Cons.prems isspace_ascii g_utf8_validate_ascii_append by blast+
    have loop: "g_utf8_validate (clean_loop b' s)" for b'
      using Cons.IH [of "[]"] s by simp
    have "byte CHR '' '' < 128" by (simp add: byte_def)
    then show ?thesis
      using True p loop by (simp add: g_utf8_validate_append g_utf8_validate_ascii_append)
  next
    case False
    then show ?thesis using Cons.IH [of "p @ [c]" False] Cons.prems by simp
  qed
qed

lemma g_utf8_validate_cleaned: "g_utf8_validate s \<Longrightarrow> g_utf8_validate (cleaned s)"
proof -
  assume "g_utf8_validate s"
  then have v: "g_utf8_validate (clean_loop False s)"
    using g_utf8_validate_clean_loop [of "[]"] by simp
  have "byte CHR '' '' < 128" by (simp add: byte_def)
  then have "g_utf8_validate (butlast r)" if "g_utf8_validate r" "r \<noteq> []" "last r = CHR '' ''" for r
    using that g_utf8_validate_ascii_append [of "CHR '' ''" "butlast r" "[]"]
    by (metis append_butlast_last_id)
  with v show ?thesis by (simp add: cleaned_def drop_trailing_space_def)
qed

lemma sentence_end_ascii: "sentence_end c \<Longrightarrow> byte c < 128"
  by (auto simp: sentence_end_def byte_def)

lemma finish_sentences_valid:
  "\<forall>s \<in> set ss. g_utf8_validate s \<Longrightarrow> g_utf8_validate (acc @ rest) \<Longrightarrow>
   \<forall>s \<in> set (finish_sentences (sentence_loop ss acc rest)). g_utf8_validate s"
proof (induction ss acc rest rule: sentence_loop_induct)
  case (Nil ss acc)
  then show ?case
    by (auto simp: finish_sentences_def append_sentence_cleaned g_utf8_validate_cleaned)
next
  case (Cut ss acc c cs)
  then have acc: "g_utf8_validate acc" and cs: "g_utf8_validate cs"
    using sentence_end_ascii g_utf8_validate_ascii_append by blast+
  have "g_utf8_validate (acc @ [c])"
    using acc Cut.hyps(1) g_utf8_validate_ascii_append [of c acc "[]"] by (simp add: sentence_end_ascii)
  then have "\<forall>s \<in> set (append_sentence ss (acc @ [c])). g_utf8_validate s"
    using Cut.prems(1) by (auto simp: append_sentence_cleaned g_utf8_validate_cleaned)
  moreover have "g_utf8_validate ([] @ dropWhile c_isspace cs)"
    using cs by (simp add: g_utf8_validate_drop_spaces)
  ultimately have "\<forall>s \<in> set (finish_sentences
      (sentence_loop (append_sentence ss (acc @ [c])) [] (dropWhile c_isspace cs))). g_utf8_validate s"
    by (rule Cut.IH)
  then show ?case by (simp only: sentence_loop_cut [OF Cut.hyps])
next
  case (Go ss acc c cs)
  then have "\<forall>s \<in> set (finish_sentences (sentence_loop ss (acc @ [c]) cs)). g_utf8_validate s"
    by (intro Go.IH) simp_all
  then show ?case by (simp only: sentence_loop_go [OF Go.hyps])
qed

lemma sentences_valid: "g_utf8_validate t \<Longrightarrow> \<forall>s \<in> set (sentences_of t). g_utf8_validate s"
  unfolding sentences_of_finish by (rule finish_sentences_valid) simp_all

lemma sentences_tidy: "s \<in> set (sentences_of t) \<Longrightarrow> tidy s \<and> s \<noteq> []"
  using finish_sentences_tidy [of "[]" "[]" t] unfolding sentences_of_finish by auto

lemma tidy_only_blanks: "tidy s \<Longrightarrow> c \<in> set s \<Longrightarrow> c_isspace c \<Longrightarrow> c = CHR '' ''"
proof -
  have "single_blanks s \<Longrightarrow> c \<in> set s \<Longrightarrow> c_isspace c \<Longrightarrow> c = CHR '' ''"
    by (induction s rule: single_blanks.induct) auto
  then show "tidy s \<Longrightarrow> c \<in> set s \<Longrightarrow> c_isspace c \<Longrightarrow> ?thesis" by (simp add: tidy_def)
qed

end
