(* ===== verification/Content_Detect.thy ===== *)
theory Content_Detect
  imports Sentence_Split
begin

text \<open>
  The content heuristics of \<^verbatim>\<open>tts-text-extractor.c\<close>: \<^verbatim>\<open>tts_text_contains_math\<close>,
  \<^verbatim>\<open>tts_text_is_table_content\<close>, \<^verbatim>\<open>tts_text_contains_links\<close> and
  \<^verbatim>\<open>tts_detect_content_type\<close>. The symbols are written as the bytes of their UTF-8 encoding,
  as the compiler stores them. Each routine is related to a description of the texts it accepts.
\<close>

subsection \<open>Mathematics\<close>

definition math_indicators :: "string list" where
  "math_indicators =
     [[CHR 0xE2, CHR 0x88, CHR 0xAB], [CHR 0xE2, CHR 0x88, CHR 0x91],
      [CHR 0xE2, CHR 0x88, CHR 0x8F], [CHR 0xE2, CHR 0x88, CHR 0x9A],
      [CHR 0xE2, CHR 0x88, CHR 0x9E], [CHR 0xE2, CHR 0x89, CHR 0xA4],
      [CHR 0xE2, CHR 0x89, CHR 0xA5], [CHR 0xE2, CHR 0x89, CHR 0xA0],
      [CHR 0xE2, CHR 0x89, CHR 0x88], [CHR 0xC2, CHR 0xB1],
      [CHR 0xC3, CHR 0x97], [CHR 0xC3, CHR 0xB7],
      [CHR 0xCE, CHR 0xB1], [CHR 0xCE, CHR 0xB2],
      [CHR 0xCE, CHR 0xB3], [CHR 0xCE, CHR 0xB4],
      [CHR 0xCE, CHR 0xB5], [CHR 0xCE, CHR 0xB8],
      [CHR 0xCE, CHR 0xBB], [CHR 0xCE, CHR 0xBC],
      [CHR 0xCF, CHR 0x80], [CHR 0xCF, CHR 0x83],
      [CHR 0xCF, CHR 0x86], [CHR 0xCF, CHR 0x88],
      [CHR 0xCF, CHR 0x89], [CHR 0xCE, CHR 0x94],
      [CHR 0xCE, CHR 0xA3], [CHR 0xCE, CHR 0xA0],
      [CHR 0xCE, CHR 0xA9]]"

definition equation_operators :: "string list" where
  "equation_operators = ['' = '', '' + '', '' - '', '' * '']"

text \<open>
  The scan for a digit or a one-letter variable. The first argument is the byte before the position
  (\<^verbatim>\<open>*(p-1)\<close>), absent at the start of the text.
\<close>

fun scan_variable :: "char option \<Rightarrow> string \<Rightarrow> bool" where
  "scan_variable prev [] = False"
| "scan_variable prev (c # cs) =
     (if c_isdigit c \<or>
         (c_islower c \<and> (case prev of None \<Rightarrow> True | Some b \<Rightarrow> \<not> c_isalpha b) \<and>
          (case cs of [] \<Rightarrow> True | d # _ \<Rightarrow> \<not> c_isalpha d))
      then True else scan_variable (Some c) cs)"

definition tts_text_contains_math :: "string option \<Rightarrow> bool" where
  "tts_text_contains_math text =
     (case text of
        None \<Rightarrow> False
      | Some t \<Rightarrow>
          if list_ex (strstr t) math_indicators then True
          else if list_ex (strstr t) equation_operators then scan_variable None t
          else False)"

subsection \<open>Tables\<close>

record table_counts =
  tab_count :: nat
  pipe_count :: nat
  number_count :: nat
  word_count :: nat
  in_word :: bool

definition table_step :: "table_counts \<Rightarrow> char \<Rightarrow> table_counts" where
  "table_step k c =
     (if c = CHR 0x09 then k\<lparr>tab_count := tab_count k + 1\<rparr>
      else if c = CHR ''|'' then k\<lparr>pipe_count := pipe_count k + 1\<rparr>
      else if c_isdigit c then k\<lparr>number_count := number_count k + 1\<rparr>
      else if c_isalpha c then
        (if \<not> in_word k then k\<lparr>word_count := word_count k + 1, in_word := True\<rparr> else k)
      else if c_isspace c then k\<lparr>in_word := False\<rparr>
      else k)"

definition tts_text_is_table_content :: "string option \<Rightarrow> bool" where
  "tts_text_is_table_content text =
     (case text of
        None \<Rightarrow> False
      | Some t \<Rightarrow>
          let k = foldl table_step
                    \<lparr>tab_count = 0, pipe_count = 0, number_count = 0, word_count = 0, in_word = False\<rparr> t
          in (tab_count k \<ge> 2 \<or> pipe_count k \<ge> 2) \<and> number_count k > 0 \<and> word_count k > 0)"

subsection \<open>Links\<close>

definition link_indicators :: "string list" where
  "link_indicators =
     [''http://'', ''https://'', ''www.'', ''ftp://'', ''mailto:'',
      ''.com'', ''.org'', ''.net'', ''.edu'', ''.gov'']"

definition tts_text_contains_links :: "string option \<Rightarrow> bool" where
  "tts_text_contains_links text =
     (case text of None \<Rightarrow> False | Some t \<Rightarrow> list_ex (strstr t) link_indicators)"

subsection \<open>The decision\<close>

definition tts_detect_content_type :: "string option \<Rightarrow> tts_content_type" where
  "tts_detect_content_type text =
     (case text of
        None \<Rightarrow> TTS_CONTENT_NORMAL
      | Some t \<Rightarrow>
          if tts_text_contains_math text then TTS_CONTENT_FORMULA
          else if tts_text_is_table_content text then TTS_CONTENT_TABLE
          else if tts_text_contains_links text then TTS_CONTENT_LINK
          else let len = length t in
            if len < 100 \<and> len > 5 \<and> \<not> list_ex sentence_end t then TTS_CONTENT_HEADING
            else TTS_CONTENT_NORMAL)"

subsection \<open>Which texts are accepted\<close>

text \<open>A letter that stands alone in the text, or a digit: what the code takes for a variable or a number.\<close>

definition has_variable :: "string \<Rightarrow> bool" where
  "has_variable t \<longleftrightarrow>
     (\<exists>c \<in> set t. c_isdigit c) \<or>
     (\<exists>u c v. t = u @ c # v \<and> c_islower c \<and> (u = [] \<or> \<not> c_isalpha (last u)) \<and> (v = [] \<or> \<not> c_isalpha (hd v)))"

definition lone_after :: "char option \<Rightarrow> string \<Rightarrow> bool" where
  "lone_after prev t \<longleftrightarrow>
     (\<exists>c \<in> set t. c_isdigit c) \<or>
     (\<exists>u c v. t = u @ c # v \<and> c_islower c \<and>
        (if u = [] then case prev of None \<Rightarrow> True | Some b \<Rightarrow> \<not> c_isalpha b else \<not> c_isalpha (last u)) \<and>
        (v = [] \<or> \<not> c_isalpha (hd v)))"

lemma if_True_disj: "(if P then True else Q) = (P \<or> Q)"
  by simp

lemma lone_after_None: "lone_after None t = has_variable t"
  by (simp only: lone_after_def has_variable_def option.case if_True_disj)

lemma split_Cons_iff:
  "(\<exists>u d v. c # cs = u @ d # v \<and> P u d v) \<longleftrightarrow> P [] c cs \<or> (\<exists>u d v. cs = u @ d # v \<and> P (c # u) d v)"
proof
  assume "\<exists>u d v. c # cs = u @ d # v \<and> P u d v"
  then obtain u d v where "c # cs = u @ d # v" "P u d v" by blast
  then show "P [] c cs \<or> (\<exists>u d v. cs = u @ d # v \<and> P (c # u) d v)" by (cases u) auto
next
  assume "P [] c cs \<or> (\<exists>u d v. cs = u @ d # v \<and> P (c # u) d v)"
  moreover have "\<exists>u d v. c # cs = u @ d # v \<and> P u d v" if "cs = u @ d # v" "P (c # u) d v" for u d v
    using that by (intro exI [of _ "c # u"] exI [of _ d] exI [of _ v]) simp
  moreover have "\<exists>u d v. c # cs = u @ d # v \<and> P u d v" if "P [] c cs"
    using that by (intro exI [of _ "[]"] exI [of _ c] exI [of _ cs]) simp
  ultimately show "\<exists>u d v. c # cs = u @ d # v \<and> P u d v" by blast
qed

definition stands_alone :: "char option \<Rightarrow> char \<Rightarrow> string \<Rightarrow> bool" where
  "stands_alone prev c cs \<longleftrightarrow> c_islower c \<and> (case prev of None \<Rightarrow> True | Some b \<Rightarrow> \<not> c_isalpha b) \<and>
     (case cs of [] \<Rightarrow> True | d # _ \<Rightarrow> \<not> c_isalpha d)"

lemma lone_after_Cons:
  "lone_after prev (c # cs) \<longleftrightarrow> c_isdigit c \<or> stands_alone prev c cs \<or> lone_after (Some c) cs"
proof -
  have hd: "(cs = [] \<or> \<not> c_isalpha (hd cs)) = (case cs of [] \<Rightarrow> True | d # _ \<Rightarrow> \<not> c_isalpha d)"
    by (cases cs) simp_all
  show ?thesis
    unfolding lone_after_def split_Cons_iff stands_alone_def hd by (simp split: if_split cong: conj_cong) blast
qed

lemma scan_variable_iff: "scan_variable prev t = lone_after prev t"
proof (induction prev t rule: scan_variable.induct)
  case (1 prev)
  then show ?case by (simp add: lone_after_def)
next
  case (2 prev c cs)
  have "scan_variable prev (c # cs) \<longleftrightarrow> c_isdigit c \<or> stands_alone prev c cs \<or> scan_variable (Some c) cs"
    unfolding scan_variable.simps stands_alone_def if_bool_eq_disj by blast
  moreover have "scan_variable (Some c) cs = lone_after (Some c) cs"
    if "\<not> (c_isdigit c \<or> stands_alone prev c cs)"
    using that unfolding stands_alone_def by (rule 2)
  ultimately show ?case unfolding lone_after_Cons by blast
qed

definition looks_like_table :: "string \<Rightarrow> bool" where
  "looks_like_table t \<longleftrightarrow>
     (2 \<le> count_list t CHR 0x09 \<or> 2 \<le> count_list t CHR ''|'') \<and>
     (\<exists>c \<in> set t. c_isdigit c) \<and> (\<exists>c \<in> set t. c_isalpha c)"

lemma class_not_separator:
  "c_isdigit CHR 0x09 = False" "c_isdigit CHR ''|'' = False" "c_isalpha CHR 0x09 = False" "c_isalpha CHR ''|'' = False"
  by (simp_all add: ctype_defs byte_def)

lemma digit_not_alpha: "c_isdigit c \<Longrightarrow> \<not> c_isalpha c"
  by (auto simp: ctype_defs)

lemma foldl_table_step:
  "(in_word k \<longrightarrow> word_count k > 0) \<Longrightarrow>
   (let k' = foldl table_step k t in
     tab_count k' = tab_count k + count_list t CHR 0x09 \<and>
     pipe_count k' = pipe_count k + count_list t CHR ''|'' \<and>
     (number_count k' > 0 \<longleftrightarrow> number_count k > 0 \<or> (\<exists>c \<in> set t. c_isdigit c)) \<and>
     (word_count k' > 0 \<longleftrightarrow> word_count k > 0 \<or> (\<exists>c \<in> set t. c_isalpha c)))"
proof (induction t arbitrary: k)
  case Nil
  then show ?case by simp
next
  case (Cons c t)
  have "in_word (table_step k c) \<longrightarrow> word_count (table_step k c) > 0"
    using Cons.prems by (auto simp: table_step_def)
  note IH = Cons.IH [OF this, unfolded Let_def]
  have "number_count (table_step k c) > 0 \<longleftrightarrow> number_count k > 0 \<or> c_isdigit c"
    "word_count (table_step k c) > 0 \<longleftrightarrow> word_count k > 0 \<or> c_isalpha c"
    using Cons.prems by (auto simp: table_step_def class_not_separator digit_not_alpha)
  moreover have "tab_count (table_step k c) = tab_count k + (if c = CHR 0x09 then 1 else 0)"
    "pipe_count (table_step k c) = pipe_count k + (if c = CHR ''|'' then 1 else 0)"
    by (auto simp: table_step_def)
  ultimately show ?case using IH by (auto simp: Let_def)
qed

lemma is_table_iff: "tts_text_is_table_content (Some t) = looks_like_table t"
  using foldl_table_step [of "\<lparr>tab_count = 0, pipe_count = 0, number_count = 0, word_count = 0, in_word = False\<rparr>" t]
  by (simp add: tts_text_is_table_content_def looks_like_table_def Let_def)

lemma contains_math_iff:
  "tts_text_contains_math (Some t) \<longleftrightarrow>
     (\<exists>s \<in> set math_indicators. sublist s t) \<or> ((\<exists>s \<in> set equation_operators. sublist s t) \<and> has_variable t)"
  by (auto simp: tts_text_contains_math_def list_ex_iff strstr_iff_sublist scan_variable_iff lone_after_None)

lemma contains_links_iff: "tts_text_contains_links (Some t) \<longleftrightarrow> (\<exists>s \<in> set link_indicators. sublist s t)"
  by (simp add: tts_text_contains_links_def list_ex_iff strstr_iff_sublist)

text \<open>
  The three recognisers accept exactly these texts: mathematics is a listed symbol, or a spaced
  operator in a text with a digit or a letter standing alone; a table has two tabs or two bars, a digit and
  a letter; a link contains one of the listed fragments.
\<close>

theorem content_recognisers_correct:
  "(tts_text_contains_math (Some t) =
     ((\<exists>s \<in> set math_indicators. sublist s t) \<or> ((\<exists>s \<in> set equation_operators. sublist s t) \<and> has_variable t))) \<and>
   tts_text_is_table_content (Some t) = looks_like_table t \<and>
   tts_text_contains_links (Some t) = (\<exists>s \<in> set link_indicators. sublist s t)"
  by (simp only: contains_math_iff is_table_iff contains_links_iff simp_thms)

subsection \<open>Headings\<close>

lemma detect_heading_iff:
  "tts_detect_content_type (Some t) = TTS_CONTENT_HEADING \<longleftrightarrow>
     \<not> tts_text_contains_math (Some t) \<and> \<not> tts_text_is_table_content (Some t) \<and>
     \<not> tts_text_contains_links (Some t) \<and> 5 < length t \<and> length t < 100 \<and> (\<forall>c \<in> set t. \<not> sentence_end c)"
  by (simp add: tts_detect_content_type_def Let_def list_ex_iff)

lemma tidy_no_tab: "tidy s \<Longrightarrow> CHR 0x09 \<notin> set s \<and> CHR 0x0A \<notin> set s"
proof -
  have "single_blanks s \<Longrightarrow> \<forall>c \<in> set s. c_isspace c \<longrightarrow> c = CHR '' ''" for s
    by (induction s rule: single_blanks.induct) auto
  then show "tidy s \<Longrightarrow> ?thesis" by (auto simp: tidy_def c_isspace_iff)
qed

text \<open>
  The heuristics on the sentences that the extractor produces: a tidy text has no tab, so a sentence is
  only ever classified as a table because of bars, and a sentence that ends in a sentence mark is never a
  heading. No text is classified as a caption.
\<close>

theorem detection_on_sentences:
  "tts_detect_content_type (Some t) \<noteq> TTS_CONTENT_CAPTION \<and>
   (\<forall>s. s \<in> set (sentences_of t) \<longrightarrow>
     (tts_detect_content_type (Some s) = TTS_CONTENT_TABLE \<longrightarrow> 2 \<le> count_list s CHR ''|'') \<and>
     (sentence_end (last s) \<longrightarrow> tts_detect_content_type (Some s) \<noteq> TTS_CONTENT_HEADING))"
proof -
  have tab: "count_list s CHR 0x09 = 0" if "s \<in> set (sentences_of t)" for s
    using that sentences_tidy tidy_no_tab by (metis count_list_0_iff)
  have "tts_detect_content_type (Some t) \<noteq> TTS_CONTENT_CAPTION"
    by (simp add: tts_detect_content_type_def Let_def)
  moreover have "2 \<le> count_list s CHR ''|''"
    if "s \<in> set (sentences_of t)" "tts_detect_content_type (Some s) = TTS_CONTENT_TABLE" for s
    using that tab [OF that(1)]
    by (auto simp: tts_detect_content_type_def Let_def is_table_iff looks_like_table_def split: if_splits)
  moreover have "tts_detect_content_type (Some s) \<noteq> TTS_CONTENT_HEADING"
    if "s \<in> set (sentences_of t)" "sentence_end (last s)" for s
    using that sentences_tidy [of s t] last_in_set [of s] by (auto simp: detect_heading_iff)
  ultimately show ?thesis by blast
qed

lemma detection_on_sentences_witness:
  "''x || 1.'' \<in> set (sentences_of ''x || 1.'') \<and> tts_detect_content_type (Some ''x || 1.'') = TTS_CONTENT_TABLE \<and>
   2 \<le> count_list ''x || 1.'' CHR ''|'' \<and> tts_detect_content_type (Some ''x || 1.'') \<noteq> TTS_CONTENT_HEADING"
proof -
  have s: "''x || 1.'' \<in> set (sentences_of ''x || 1.'')" by code_simp
  have d: "tts_detect_content_type (Some ''x || 1.'') = TTS_CONTENT_TABLE" by code_simp
  show ?thesis
    using detection_on_sentences [of "''x || 1.''"] s d by (auto simp: sentence_end_def)
qed

end
