(* ===== verification/Content_Process.thy ===== *)
theory Content_Process
  imports Content_Detect
begin

text \<open>
  The processors of special content in \<^verbatim>\<open>tts-text-extractor.c\<close>:
  \<^verbatim>\<open>tts_process_math_content\<close>, \<^verbatim>\<open>tts_process_table_content\<close>,
  \<^verbatim>\<open>tts_process_link_content\<close> and the dispatcher \<^verbatim>\<open>tts_process_text_segment\<close>.

  The three processors write into a buffer whose size is a multiple of the text's length and keep the
  number of bytes they may still write in \<^verbatim>\<open>remaining\<close>. A loop of the model takes the rest of
  the source and \<^verbatim>\<open>remaining\<close> and returns the bytes written. What the loops have in common is
  the locale \<open>bounded_writer\<close>: they stop at the end of the source or of the buffer, each round writes no
  more than \<^verbatim>\<open>remaining\<close> and consumes a byte at least, and a piece that fits is written as the
  intended expansion says. From these laws follow, once, that the buffer is never overrun and that the
  result is the intended expansion whenever that fits.
\<close>

subsection \<open>The shared contract of the writing loops\<close>

locale bounded_writer =
  fixes run :: "'s \<Rightarrow> string \<Rightarrow> nat \<Rightarrow> string"
    and expand :: "'s \<Rightarrow> string \<Rightarrow> string"
    and piece :: "'s \<Rightarrow> string \<Rightarrow> string"
    and rest :: "'s \<Rightarrow> string \<Rightarrow> string"
    and state_after :: "'s \<Rightarrow> string \<Rightarrow> 's"
  assumes run_end: "run s [] r = []"
    and run_full: "run s src 0 = []"
    and run_round: "src \<noteq> [] \<Longrightarrow> 0 < r \<Longrightarrow>
      \<exists>out src' s'. run s src r = out @ run s' src' (r - length out) \<and> length out \<le> r \<and> length src' < length src"
    and run_fits: "src \<noteq> [] \<Longrightarrow> length (piece s src) < r \<Longrightarrow>
      run s src r = piece s src @ run (state_after s src) (rest s src) (r - length (piece s src))"
    and expand_end: "expand s [] = []"
    and expand_round: "src \<noteq> [] \<Longrightarrow> expand s src = piece s src @ expand (state_after s src) (rest s src)"
    and rest_shorter: "src \<noteq> [] \<Longrightarrow> length (rest s src) < length src"
begin

lemma length_run: "length (run s src r) \<le> r"
proof (induction "length src" arbitrary: s src r rule: less_induct)
  case less
  show ?case
  proof (cases "src = [] \<or> r = 0")
    case True
    then show ?thesis using run_end run_full by auto
  next
    case False
    then obtain out src' s' where run: "run s src r = out @ run s' src' (r - length out)"
      and out: "length out \<le> r" and "length src' < length src"
      using run_round [of src r s] by auto
    then have "length (run s' src' (r - length out)) \<le> r - length out" using less by blast
    with run out show ?thesis by simp
  qed
qed

lemma run_eq_expand: "length (expand s src) < r \<Longrightarrow> run s src r = expand s src"
proof (induction "length src" arbitrary: s src r rule: less_induct)
  case less
  show ?case
  proof (cases "src = []")
    case True
    then show ?thesis by (simp add: run_end expand_end)
  next
    case False
    let ?p = "piece s src" and ?s = "state_after s src" and ?rest = "rest s src"
    have ex: "expand s src = ?p @ expand ?s ?rest" using False by (rule expand_round)
    with less.prems have fits: "length ?p < r" and "length (expand ?s ?rest) < r - length ?p"
      by simp_all
    then have "run ?s ?rest (r - length ?p) = expand ?s ?rest"
      using less.hyps [OF rest_shorter [OF False]] by blast
    with ex run_fits [OF False fits] show ?thesis by simp
  qed
qed

end

subsection \<open>Mathematics\<close>

definition math_replacements :: "(string \<times> string) list" where
  "math_replacements =
     [([CHR 0xE2, CHR 0x88, CHR 0xAB], '' integral ''),
      ([CHR 0xE2, CHR 0x88, CHR 0x91], '' sum ''),
      ([CHR 0xE2, CHR 0x88, CHR 0x8F], '' product ''),
      ([CHR 0xE2, CHR 0x88, CHR 0x9A], '' square root of ''),
      ([CHR 0xE2, CHR 0x88, CHR 0x9E], '' infinity ''),
      ([CHR 0xE2, CHR 0x89, CHR 0xA4], '' less than or equal to ''),
      ([CHR 0xE2, CHR 0x89, CHR 0xA5], '' greater than or equal to ''),
      ([CHR 0xE2, CHR 0x89, CHR 0xA0], '' not equal to ''),
      ([CHR 0xE2, CHR 0x89, CHR 0x88], '' approximately equal to ''),
      ([CHR 0xC2, CHR 0xB1], '' plus or minus ''),
      ([CHR 0xC3, CHR 0x97], '' times ''),
      ([CHR 0xC3, CHR 0xB7], '' divided by ''),
      ([CHR 0xCE, CHR 0xB1], '' alpha ''),
      ([CHR 0xCE, CHR 0xB2], '' beta ''),
      ([CHR 0xCE, CHR 0xB3], '' gamma ''),
      ([CHR 0xCE, CHR 0xB4], '' delta ''),
      ([CHR 0xCE, CHR 0xB5], '' epsilon ''),
      ([CHR 0xCE, CHR 0xB8], '' theta ''),
      ([CHR 0xCE, CHR 0xBB], '' lambda ''),
      ([CHR 0xCE, CHR 0xBC], '' mu ''),
      ([CHR 0xCF, CHR 0x80], '' pi ''),
      ([CHR 0xCF, CHR 0x83], '' sigma ''),
      ([CHR 0xCF, CHR 0x86], '' phi ''),
      ([CHR 0xCF, CHR 0x88], '' psi ''),
      ([CHR 0xCF, CHR 0x89], '' omega ''),
      ([CHR 0xCE, CHR 0x94], '' Delta ''),
      ([CHR 0xCE, CHR 0xA3], '' Sigma ''),
      ([CHR 0xCE, CHR 0xA0], '' Pi ''),
      ([CHR 0xCE, CHR 0xA9], '' Omega '')]"

text \<open>The entry the inner loop stops at: its symbol is next in the source and its spoken form fits.\<close>

definition find_replacement :: "string \<Rightarrow> nat \<Rightarrow> (string \<times> string) option" where
  "find_replacement src remaining =
     find (\<lambda>(symbol, spoken). prefix symbol src \<and> length spoken < remaining) math_replacements"

lemma math_symbols_not_Nil: "(symbol, spoken) \<in> set math_replacements \<Longrightarrow> length symbol \<ge> 2"
  by (auto simp: math_replacements_def)

lemma find_replacement_Some:
  "find_replacement src r = Some (symbol, spoken) \<Longrightarrow>
     (symbol, spoken) \<in> set math_replacements \<and> prefix symbol src \<and> length spoken < r"
  unfolding find_replacement_def by (auto dest: find_Some_in)

lemma find_replacement_shorter:
  "find_replacement src r = Some (symbol, spoken) \<Longrightarrow> length (drop (length symbol) src) < length src"
  using find_replacement_Some [of src r symbol spoken] math_symbols_not_Nil [of symbol spoken]
    prefix_length_le [of symbol src] by simp

function math_loop :: "string \<Rightarrow> nat \<Rightarrow> string" where
  "math_loop src remaining =
     (if src = [] \<or> remaining = 0 then []
      else case find_replacement src remaining of
        Some (symbol, spoken) \<Rightarrow> spoken @ math_loop (drop (length symbol) src) (remaining - length spoken)
      | None \<Rightarrow> hd src # math_loop (tl src) (remaining - 1))"
  by pat_completeness auto

termination
  by (relation "measure (\<lambda>(src, r). length src)") (auto dest: find_replacement_shorter)

declare math_loop.simps [simp del]

definition tts_process_math_content :: "string option \<Rightarrow> zathura_error \<times> string option" where
  "tts_process_math_content text =
     (case text of
        None \<Rightarrow> (ZATHURA_ERROR_INVALID_ARGUMENTS, None)
      | Some t \<Rightarrow>
          let buffer_size = length t * 3 in
          if buffer_size = 0 then (ZATHURA_ERROR_OUT_OF_MEMORY, None)
          else (ZATHURA_ERROR_OK, Some (math_loop t (buffer_size - 1))))"

text \<open>The intended expansion: every symbol replaced, whatever the length.\<close>

definition find_symbol :: "string \<Rightarrow> (string \<times> string) option" where
  "find_symbol src = find (\<lambda>(symbol, spoken). prefix symbol src) math_replacements"

lemma find_symbol_shorter:
  "find_symbol src = Some (symbol, spoken) \<Longrightarrow> length (drop (length symbol) src) < length src"
  using math_symbols_not_Nil [of symbol spoken] prefix_length_le [of symbol src]
  unfolding find_symbol_def by (auto dest!: find_Some_in)

definition math_piece :: "unit \<Rightarrow> string \<Rightarrow> string" where
  "math_piece u src = (case find_symbol src of Some (symbol, spoken) \<Rightarrow> spoken | None \<Rightarrow> [hd src])"

definition math_rest :: "unit \<Rightarrow> string \<Rightarrow> string" where
  "math_rest u src = (case find_symbol src of Some (symbol, spoken) \<Rightarrow> drop (length symbol) src | None \<Rightarrow> tl src)"

function math_expand :: "string \<Rightarrow> string" where
  "math_expand src = (if src = [] then [] else math_piece () src @ math_expand (math_rest () src))"
  by pat_completeness auto

termination
  by (relation "measure length")
    (auto simp: math_rest_def dest: find_symbol_shorter split: option.split)

declare math_expand.simps [simp del]

lemma find_conj: "find P xs = Some x \<Longrightarrow> Q x \<Longrightarrow> find (\<lambda>x. P x \<and> Q x) xs = Some x"
  by (induction xs) (auto split: if_splits)

lemma find_conj_None: "find P xs = None \<Longrightarrow> find (\<lambda>x. P x \<and> Q x) xs = None"
  by (induction xs) (auto split: if_splits)

lemma find_replacement_conj:
  "find_replacement src r = find (\<lambda>e. (\<lambda>(symbol, spoken). prefix symbol src) e \<and> length (snd e) < r) math_replacements"
  unfolding find_replacement_def by (intro arg_cong2 [of _ _ _ _ find]) auto

lemma find_replacement_symbol:
  "find_symbol src = Some (symbol, spoken) \<Longrightarrow> length spoken < r \<Longrightarrow> find_replacement src r = Some (symbol, spoken)"
  unfolding find_replacement_conj find_symbol_def by (rule find_conj) simp_all

lemma find_replacement_no_symbol: "find_symbol src = None \<Longrightarrow> find_replacement src r = None"
  unfolding find_replacement_conj find_symbol_def by (rule find_conj_None)

interpretation math: bounded_writer "\<lambda>u. math_loop" "\<lambda>u. math_expand" math_piece math_rest "\<lambda>u src. ()"
proof
  fix s :: unit and src :: string and r :: nat
  show "math_loop [] r = []" by (simp add: math_loop.simps)
  show "math_loop src 0 = []" by (simp add: math_loop.simps)
  show "math_expand [] = []" by (simp add: math_expand.simps)
  assume n: "src \<noteq> []"
  then show "math_expand src = math_piece s src @ math_expand (math_rest s src)"
    by (simp add: math_expand.simps [of src])
  show "length (math_rest s src) < length src"
    using n by (auto simp: math_rest_def dest: find_symbol_shorter split: option.split)
  show "\<exists>out src' s'. math_loop src r = out @ math_loop src' (r - length out) \<and> length out \<le> r \<and> length src' < length src"
    if "0 < r"
  proof (cases "find_replacement src r")
    case None
    then have "math_loop src r = [hd src] @ math_loop (tl src) (r - length [hd src])"
      using n that by (simp add: math_loop.simps [of src])
    moreover have "length [hd src] \<le> r" "length (tl src) < length src" using n that by auto
    ultimately show ?thesis by blast
  next
    case (Some p)
    obtain symbol spoken where p: "p = (symbol, spoken)" by (cases p)
    then have "math_loop src r = spoken @ math_loop (drop (length symbol) src) (r - length spoken)"
      using n that Some by (simp add: math_loop.simps [of src])
    then show ?thesis
      using Some p find_replacement_Some [of src r] find_replacement_shorter [of src r] by (metis less_imp_le)
  qed
  show "math_loop src r = math_piece s src @ math_loop (math_rest s src) (r - length (math_piece s src))"
    if "length (math_piece s src) < r"
    using n that
    by (auto simp: math_loop.simps [of src] math_piece_def math_rest_def find_replacement_symbol
        find_replacement_no_symbol split: option.split option.splits)
qed

subsection \<open>Tables\<close>

definition is_column_separator :: "char \<Rightarrow> bool" where
  "is_column_separator c \<longleftrightarrow> c = CHR 0x09 \<or> c = CHR ''|''"

definition column_announcement :: "bool \<Rightarrow> string" where
  "column_announcement first_column = (if first_column then '''' else '', next column: '')"

fun table_loop :: "bool \<Rightarrow> string \<Rightarrow> nat \<Rightarrow> string" where
  "table_loop first_column [] remaining = []"
| "table_loop first_column (c # cs) remaining =
     (if remaining = 0 then []
      else if is_column_separator c then
        (let sep = column_announcement first_column in
         if length sep < remaining then sep @ table_loop False cs (remaining - length sep)
         else table_loop first_column cs remaining)
      else if c = CHR 0x0A then
        (let row_sep = '', next row: '' in
         if length row_sep < remaining then row_sep @ table_loop True cs (remaining - length row_sep)
         else table_loop first_column cs remaining)
      else c # table_loop first_column cs (remaining - 1))"

definition tts_process_table_content :: "string option \<Rightarrow> zathura_error \<times> string option" where
  "tts_process_table_content text =
     (case text of
        None \<Rightarrow> (ZATHURA_ERROR_INVALID_ARGUMENTS, None)
      | Some t \<Rightarrow>
          let buffer_size = length t * 2; table_start = ''Table content: '' in
          if buffer_size = 0 then (ZATHURA_ERROR_OUT_OF_MEMORY, None)
          else (ZATHURA_ERROR_OK, Some
            (let remaining = buffer_size - 1 in
             if length table_start < remaining
             then table_start @ table_loop True t (remaining - length table_start)
             else table_loop True t remaining)))"

definition table_piece :: "bool \<Rightarrow> string \<Rightarrow> string" where
  "table_piece first src =
     (if is_column_separator (hd src) then column_announcement first
      else if hd src = CHR 0x0A then '', next row: '' else [hd src])"

definition table_state :: "bool \<Rightarrow> string \<Rightarrow> bool" where
  "table_state first src =
     (if is_column_separator (hd src) then False else if hd src = CHR 0x0A then True else first)"

fun table_expand :: "bool \<Rightarrow> string \<Rightarrow> string" where
  "table_expand first [] = []"
| "table_expand first (c # cs) = table_piece first (c # cs) @ table_expand (table_state first (c # cs)) cs"

interpretation table: bounded_writer table_loop table_expand table_piece "\<lambda>s. tl" table_state
proof
  fix s :: bool and src :: string and r :: nat
  show "table_loop s [] r = []" by simp
  show "table_loop s src 0 = []" by (cases src) simp_all
  show "table_expand s [] = []" by simp
  assume "src \<noteq> []"
  then obtain c cs where src: "src = c # cs" by (cases src) auto
  show "table_expand s src = table_piece s src @ table_expand (table_state s src) (tl src)"
    by (simp add: src)
  show "length (tl src) < length src" by (simp add: src)
  show "table_loop s src r =
      table_piece s src @ table_loop (table_state s src) (tl src) (r - length (table_piece s src))"
    if "length (table_piece s src) < r"
    using that by (auto simp: src table_piece_def table_state_def Let_def)
  have step: "\<exists>out s'. table_loop s src r = out @ table_loop s' cs (r - length out) \<and> length out \<le> r"
    if r: "0 < r"
  proof (cases "length (table_piece s src) < r")
    case True
    then show ?thesis
      using r by (intro exI [of _ "table_piece s src"] exI [of _ "table_state s src"])
        (auto simp: src table_piece_def table_state_def Let_def)
  next
    case False
    define out where "out = (if is_column_separator c \<or> c = CHR 0x0A then [] else [c])"
    have "table_loop s src r = out @ table_loop s cs (r - length out)"
      using False r by (auto simp: src table_piece_def out_def Let_def)
    moreover have "length out \<le> r" using r by (simp add: out_def)
    ultimately show ?thesis by blast
  qed
  show "\<exists>out src' s'. table_loop s src r = out @ table_loop s' src' (r - length out) \<and>
      length out \<le> r \<and> length src' < length src" if "0 < r"
    using step [OF that] by (metis src length_Cons lessI)
qed

subsection \<open>Links\<close>

definition link_patterns :: "(string \<times> string) list" where
  "link_patterns =
     [(''http://'', ''Link: ''), (''https://'', ''Secure link: ''), (''www.'', ''Web link: ''),
      (''ftp://'', ''FTP link: ''), (''mailto:'', ''Email link: '')]"

definition find_link :: "string \<Rightarrow> (string \<times> string) option" where
  "find_link src = find (\<lambda>(pattern, announcement). prefix pattern src) link_patterns"

text \<open>Copying the link itself: up to white space, the end of the text or the end of the buffer.\<close>

fun copy_word :: "string \<Rightarrow> nat \<Rightarrow> string \<times> string" where
  "copy_word [] remaining = ([], [])"
| "copy_word (c # cs) remaining =
     (if \<not> c_isspace c \<and> remaining > 0
      then case copy_word cs (remaining - 1) of (w, rest) \<Rightarrow> (c # w, rest)
      else ([], c # cs))"

text \<open>The body of the inner loop for a pattern that matches: bytes written, rest of the source, \<^verbatim>\<open>remaining\<close>.\<close>

definition link_end :: string where
  "link_end = '', end link''"

definition announce_link :: "string \<Rightarrow> string \<Rightarrow> nat \<Rightarrow> string \<times> string \<times> nat" where
  "announce_link announcement src remaining =
     (let out1 = (if length announcement < remaining then announcement else []);
          remaining1 = remaining - length out1;
          (word, src1) = copy_word src remaining1;
          remaining2 = remaining1 - length word;
          out3 = (if length link_end < remaining2 then link_end else [])
      in (out1 @ word @ out3, src1, remaining2 - length out3))"

lemma copy_word_take:
  "copy_word s r = (take r (takeWhile (\<lambda>c. \<not> c_isspace c) s),
     drop (length (take r (takeWhile (\<lambda>c. \<not> c_isspace c) s))) s)"
proof (induction s r rule: copy_word.induct)
  case (2 c cs r)
  then show ?case by (cases r) auto
qed simp

lemma find_link_hd:
  "find_link src = Some (pattern, announcement) \<Longrightarrow> src \<noteq> [] \<and> \<not> c_isspace (hd src)"
  unfolding find_link_def
  by (drule find_Some_in) (auto simp: link_patterns_def prefix_def c_isspace_iff)

lemma announce_link_shorter:
  assumes "find_link src = Some (pattern, announcement)" and "0 < r"
    and "announce_link announcement src r = (out, src', r')"
  shows "length src' < length src" "r' = r - length out" "length out \<le> r"
proof -
  define o1 where "o1 = (if length announcement < r then announcement else [])"
  define r1 where "r1 = r - length o1"
  define w where "w = take r1 (takeWhile (\<lambda>c. \<not> c_isspace c) src)"
  define o3 where "o3 = (if length link_end < r1 - length w then link_end else [])"
  have "announce_link announcement src r = (o1 @ w @ o3, drop (length w) src, r1 - length w - length o3)"
    by (simp only: announce_link_def Let_def copy_word_take prod.case o1_def [symmetric] r1_def [symmetric]
        w_def [symmetric] o3_def [symmetric])
  then have eqs: "out = o1 @ w @ o3" "src' = drop (length w) src" "r' = r1 - length w - length o3"
    using assms(3) by simp_all
  have r1: "0 < r1" "length o1 \<le> r" using assms(2) by (auto simp: r1_def o1_def)
  obtain c cs where src: "src = c # cs" "\<not> c_isspace c"
    using find_link_hd [OF assms(1)] by (cases src) auto
  then have "w \<noteq> []" using r1 by (simp add: w_def)
  moreover have "length w \<le> r1" "length o3 \<le> r1 - length w" by (auto simp: w_def o3_def)
  ultimately show "length src' < length src" "r' = r - length out" "length out \<le> r"
    using src r1 by (auto simp: eqs r1_def)
qed

lemma find_link_shorter:
  "find_link src = Some (pattern, announcement) \<Longrightarrow> 0 < r \<Longrightarrow>
   length (fst (snd (announce_link announcement src r))) < length src"
  using announce_link_shorter(1) by (metis prod.collapse)

function link_loop :: "string \<Rightarrow> nat \<Rightarrow> string" where
  "link_loop src remaining =
     (if src = [] \<or> remaining = 0 then []
      else case find_link src of
        Some (pattern, announcement) \<Rightarrow>
          (case announce_link announcement src remaining of
             (out, src', remaining') \<Rightarrow> out @ link_loop src' remaining')
      | None \<Rightarrow> hd src # link_loop (tl src) (remaining - 1))"
  by pat_completeness auto

termination
  by (relation "measure (\<lambda>(src, r). length src)") (auto dest: announce_link_shorter(1) [OF _ _ sym])

declare link_loop.simps [simp del]

definition tts_process_link_content :: "string option \<Rightarrow> zathura_error \<times> string option" where
  "tts_process_link_content text =
     (case text of
        None \<Rightarrow> (ZATHURA_ERROR_INVALID_ARGUMENTS, None)
      | Some t \<Rightarrow>
          let buffer_size = length t * 2 in
          if buffer_size = 0 then (ZATHURA_ERROR_OUT_OF_MEMORY, None)
          else (ZATHURA_ERROR_OK, Some (link_loop t (buffer_size - 1))))"

text \<open>The intended expansion: every link between its announcement and its closing words.\<close>

definition link_piece :: "unit \<Rightarrow> string \<Rightarrow> string" where
  "link_piece u src =
     (case find_link src of
        Some (pattern, announcement) \<Rightarrow> announcement @ takeWhile (\<lambda>c. \<not> c_isspace c) src @ link_end
      | None \<Rightarrow> [hd src])"

definition link_rest :: "unit \<Rightarrow> string \<Rightarrow> string" where
  "link_rest u src =
     (case find_link src of
        Some (pattern, announcement) \<Rightarrow> dropWhile (\<lambda>c. \<not> c_isspace c) src
      | None \<Rightarrow> tl src)"

lemma link_rest_shorter: "src \<noteq> [] \<Longrightarrow> length (link_rest u src) < length src"
proof (cases "find_link src")
  case (Some p)
  obtain pattern announcement where p: "p = (pattern, announcement)" by (cases p)
  then obtain c cs where "src = c # cs" "\<not> c_isspace c"
    using find_link_hd [of src pattern announcement] Some by (cases src) auto
  then show ?thesis
    using Some p by (simp add: link_rest_def length_dropWhile_less_Suc)
qed (simp add: link_rest_def)

function link_expand :: "string \<Rightarrow> string" where
  "link_expand src = (if src = [] then [] else link_piece () src @ link_expand (link_rest () src))"
  by pat_completeness auto

termination
  by (relation "measure length") (auto intro: link_rest_shorter)

declare link_expand.simps [simp del]

lemma announce_link_fits:
  assumes "length (announcement @ takeWhile (\<lambda>c. \<not> c_isspace c) src @ link_end) < r"
  shows "announce_link announcement src r =
    (announcement @ takeWhile (\<lambda>c. \<not> c_isspace c) src @ link_end, dropWhile (\<lambda>c. \<not> c_isspace c) src,
     r - length (announcement @ takeWhile (\<lambda>c. \<not> c_isspace c) src @ link_end))"
proof -
  let ?w = "takeWhile (\<lambda>c. \<not> c_isspace c) src"
  have "take (r - length announcement) ?w = ?w" "length announcement < r"
    "length link_end < r - length announcement - length ?w"
    using assms by simp_all
  then show ?thesis
    using assms by (simp add: announce_link_def Let_def copy_word_take dropWhile_eq_drop)
qed

interpretation link: bounded_writer "\<lambda>u. link_loop" "\<lambda>u. link_expand" link_piece link_rest "\<lambda>u src. ()"
proof
  fix s :: unit and src :: string and r :: nat
  show "link_loop [] r = []" by (simp add: link_loop.simps)
  show "link_loop src 0 = []" by (simp add: link_loop.simps)
  show "link_expand [] = []" by (simp add: link_expand.simps)
  assume n: "src \<noteq> []"
  then show "link_expand src = link_piece s src @ link_expand (link_rest s src)"
    by (simp add: link_expand.simps [of src])
  show "length (link_rest s src) < length src" using n by (rule link_rest_shorter)
  show "\<exists>out src' s'. link_loop src r = out @ link_loop src' (r - length out) \<and> length out \<le> r \<and> length src' < length src"
    if r: "0 < r"
  proof (cases "find_link src")
    case None
    then have "link_loop src r = [hd src] @ link_loop (tl src) (r - length [hd src])"
      using n r by (simp add: link_loop.simps [of src])
    moreover have "length [hd src] \<le> r" "length (tl src) < length src" using n r by auto
    ultimately show ?thesis by blast
  next
    case (Some p)
    obtain pattern announcement where p: "p = (pattern, announcement)" by (cases p)
    obtain out src' r' where a: "announce_link announcement src r = (out, src', r')"
      by (cases "announce_link announcement src r") auto
    have "link_loop src r = out @ link_loop src' r'"
      using n r Some p a by (simp add: link_loop.simps [of src])
    then show ?thesis using announce_link_shorter [OF Some [unfolded p] r a] by blast
  qed
  show "link_loop src r = link_piece s src @ link_loop (link_rest s src) (r - length (link_piece s src))"
    if "length (link_piece s src) < r"
  proof (cases "find_link src")
    case None
    then show ?thesis
      using n that by (simp add: link_loop.simps [of src] link_piece_def link_rest_def)
  next
    case (Some p)
    obtain pattern announcement where p: "p = (pattern, announcement)" by (cases p)
    then have fits: "length (announcement @ takeWhile (\<lambda>c. \<not> c_isspace c) src @ link_end) < r"
      using Some that by (simp add: link_piece_def)
    with n Some p show ?thesis
      by (simp only: link_loop.simps [of src] announce_link_fits [OF fits] link_piece_def link_rest_def
          option.case prod.case) simp
  qed
qed

subsection \<open>The dispatcher\<close>

definition tts_process_text_segment :: "tts_text_segment option \<Rightarrow> zathura_error \<times> string option" where
  "tts_process_text_segment segment =
     (case segment of
        None \<Rightarrow> (ZATHURA_ERROR_INVALID_ARGUMENTS, None)
      | Some sg \<Rightarrow>
          (case seg_text sg of
             None \<Rightarrow> (ZATHURA_ERROR_INVALID_ARGUMENTS, None)
           | Some t \<Rightarrow>
               (case seg_type sg of
                  TTS_CONTENT_FORMULA \<Rightarrow> tts_process_math_content (Some t)
                | TTS_CONTENT_TABLE \<Rightarrow> tts_process_table_content (Some t)
                | TTS_CONTENT_LINK \<Rightarrow> tts_process_link_content (Some t)
                | TTS_CONTENT_HEADING \<Rightarrow> (ZATHURA_ERROR_OK, Some (''Heading: '' @ t))
                | TTS_CONTENT_CAPTION \<Rightarrow> (ZATHURA_ERROR_OK, Some (''Image caption: '' @ t))
                | TTS_CONTENT_NORMAL \<Rightarrow> (ZATHURA_ERROR_OK, Some t))))"

subsection \<open>Properties\<close>

text \<open>
  What a processor is meant to return for a text, and the size of the buffer it allots to it
  (the final NUL included).
\<close>

definition intended_text :: "tts_content_type \<Rightarrow> string \<Rightarrow> string" where
  "intended_text type t =
     (case type of
        TTS_CONTENT_FORMULA \<Rightarrow> math_expand t
      | TTS_CONTENT_TABLE \<Rightarrow> ''Table content: '' @ table_expand True t
      | TTS_CONTENT_LINK \<Rightarrow> link_expand t
      | TTS_CONTENT_HEADING \<Rightarrow> ''Heading: '' @ t
      | TTS_CONTENT_CAPTION \<Rightarrow> ''Image caption: '' @ t
      | TTS_CONTENT_NORMAL \<Rightarrow> t)"

definition processing_buffer :: "tts_content_type \<Rightarrow> string \<Rightarrow> nat" where
  "processing_buffer type t =
     (case type of
        TTS_CONTENT_FORMULA \<Rightarrow> 3 * length t
      | TTS_CONTENT_TABLE \<Rightarrow> 2 * length t
      | TTS_CONTENT_LINK \<Rightarrow> 2 * length t
      | TTS_CONTENT_HEADING \<Rightarrow> length t + 10
      | TTS_CONTENT_CAPTION \<Rightarrow> length t + 16
      | TTS_CONTENT_NORMAL \<Rightarrow> length t + 1)"

lemma table_text:
  assumes "t \<noteq> []"
  obtains out where "tts_process_table_content (Some t) = (ZATHURA_ERROR_OK, Some out)"
    and "length out < 2 * length t"
    and "length (''Table content: '' @ table_expand True t) + 1 < 2 * length t \<Longrightarrow> out = ''Table content: '' @ table_expand True t"
proof -
  define start r where "start = ''Table content: ''" and "r = length t * 2 - 1"
  have n: "r < 2 * length t" using assms by (cases t) (simp_all add: r_def)
  define out where
    "out = (if length start < r then start @ table_loop True t (r - length start) else table_loop True t r)"
  show thesis
  proof (rule that [of out])
    show "tts_process_table_content (Some t) = (ZATHURA_ERROR_OK, Some out)"
      using assms by (simp only: tts_process_table_content_def option.case Let_def start_def [symmetric]
          r_def [symmetric] out_def) simp
    have "length out \<le> r"
      using table.length_run [of True t r] table.length_run [of True t "r - length start"]
      unfolding out_def by (cases "length start < r") auto
    with n show "length out < 2 * length t" by linarith
    show "out = ''Table content: '' @ table_expand True t"
      if "length (''Table content: '' @ table_expand True t) + 1 < 2 * length t"
    proof -
      from that have fits: "length start + length (table_expand True t) < r"
        unfolding start_def [symmetric] length_append r_def by linarith
      then have "table_loop True t (r - length start) = table_expand True t"
        by (intro table.run_eq_expand) linarith
      with fits show ?thesis by (simp add: out_def start_def [symmetric])
    qed
  qed
qed

lemma process_text_segment_bounds:
  assumes "seg_text sg = Some t" "t \<noteq> []"
  shows "\<exists>out. tts_process_text_segment (Some sg) = (ZATHURA_ERROR_OK, Some out) \<and>
    length out < processing_buffer (seg_type sg) t \<and>
    (length (intended_text (seg_type sg) t) + 1 < processing_buffer (seg_type sg) t \<longrightarrow>
       out = intended_text (seg_type sg) t)"
proof -
  have n: "0 < length t" using assms(2) by simp
  show ?thesis
  proof (cases "seg_type sg")
    case TTS_CONTENT_FORMULA
    have "length (math_loop t (length t * 3 - 1)) < 3 * length t"
      using math.length_run [of t "length t * 3 - 1"] n by linarith
    moreover have "length (math_expand t) + 1 < 3 * length t \<longrightarrow> math_loop t (length t * 3 - 1) = math_expand t"
      by (intro impI math.run_eq_expand) simp
    ultimately show ?thesis
      using assms TTS_CONTENT_FORMULA n
      by (simp add: tts_process_text_segment_def tts_process_math_content_def Let_def intended_text_def
          processing_buffer_def)
  next
    case TTS_CONTENT_LINK
    have "length (link_loop t (length t * 2 - 1)) < 2 * length t"
      using link.length_run [of t "length t * 2 - 1"] n by linarith
    moreover have "length (link_expand t) + 1 < 2 * length t \<longrightarrow> link_loop t (length t * 2 - 1) = link_expand t"
      by (intro impI link.run_eq_expand) simp
    ultimately show ?thesis
      using assms TTS_CONTENT_LINK n
      by (simp add: tts_process_text_segment_def tts_process_link_content_def Let_def intended_text_def
          processing_buffer_def)
  next
    case TTS_CONTENT_TABLE
    from table_text [OF assms(2)] show ?thesis
      using assms(1) TTS_CONTENT_TABLE
      by (simp only: tts_process_text_segment_def intended_text_def processing_buffer_def option.case
          tts_content_type.case) metis
  qed (use assms in \<open>auto simp: tts_process_text_segment_def intended_text_def processing_buffer_def\<close>)
qed

text \<open>
  C38. Processing a segment with text: it succeeds, the result with its final NUL fits in the buffer that the
  code allots, and it is the intended text whenever that leaves one byte to spare.
\<close>

theorem processing_meets_intent:
  "seg_text sg = Some t \<Longrightarrow> t \<noteq> [] \<Longrightarrow>
   \<exists>out. tts_process_text_segment (Some sg) = (ZATHURA_ERROR_OK, Some out) \<and>
    length out < processing_buffer (seg_type sg) t \<and>
    (length (intended_text (seg_type sg) t) + 1 < processing_buffer (seg_type sg) t \<longrightarrow>
       out = intended_text (seg_type sg) t)"
  by (rule process_text_segment_bounds)

lemma processing_meets_intent_witness:
  "\<exists>out. tts_process_text_segment (Some \<lparr>seg_text = Some ''1|2 and some more words in the row'',
      seg_bounds = \<lparr>rect_x1 = 0, rect_y1 = 0, rect_x2 = 1, rect_y2 = 1\<rparr>, seg_page_number = 0, seg_id = 0,
      seg_type = TTS_CONTENT_TABLE\<rparr>) = (ZATHURA_ERROR_OK, Some out) \<and>
    length out < processing_buffer TTS_CONTENT_TABLE ''1|2 and some more words in the row''"
  using processing_meets_intent [of "\<lparr>seg_text = Some ''1|2 and some more words in the row'',
      seg_bounds = \<lparr>rect_x1 = 0, rect_y1 = 0, rect_x2 = 1, rect_y2 = 1\<rparr>, seg_page_number = 0, seg_id = 0,
      seg_type = TTS_CONTENT_TABLE\<rparr>" "''1|2 and some more words in the row''"]
  by auto

text \<open>
  When processing fails: exactly for a missing segment, a segment without text, and an empty
  text of the three types whose buffer size is a multiple of the length (the allocation of zero bytes
  returns NULL, which is reported as memory exhaustion).
\<close>

theorem processing_failures:
  "snd (tts_process_text_segment s) = None \<longleftrightarrow>
     s = None \<or> seg_text (the s) = None \<or>
     (seg_text (the s) = Some [] \<and> seg_type (the s) \<in> {TTS_CONTENT_FORMULA, TTS_CONTENT_TABLE, TTS_CONTENT_LINK})"
  by (auto simp: tts_process_text_segment_def tts_process_math_content_def tts_process_table_content_def
      tts_process_link_content_def Let_def split: option.splits tts_content_type.splits)

subsection \<open>Formulas that are too short\<close>

lemma math_loop_unchanged:
  "\<forall>(symbol, spoken) \<in> set math_replacements. sublist symbol t \<longrightarrow> r \<le> length spoken \<Longrightarrow>
   length t \<le> r \<Longrightarrow> math_loop t r = t"
proof (induction t arbitrary: r)
  case Nil
  then show ?case by (simp add: math_loop.simps)
next
  case (Cons c cs)
  have "find_replacement (c # cs) r = None"
  proof (rule ccontr)
    assume "find_replacement (c # cs) r \<noteq> None"
    then obtain symbol spoken where "find_replacement (c # cs) r = Some (symbol, spoken)" by auto
    then have "(symbol, spoken) \<in> set math_replacements" "prefix symbol (c # cs)" "length spoken < r"
      using find_replacement_Some by blast+
    then show False using Cons.prems(1) prefix_imp_sublist by fastforce
  qed
  moreover have "math_loop cs (r - 1) = cs"
  proof (rule Cons.IH)
    show "\<forall>(symbol, spoken) \<in> set math_replacements. sublist symbol cs \<longrightarrow> r - 1 \<le> length spoken"
      using Cons.prems(1) by (force simp: sublist_Cons_right)
  qed (use Cons.prems(2) in simp)
  ultimately show ?case using Cons.prems(2) by (simp add: math_loop.simps [of "c # cs"])
qed

text \<open>
  A formula whose symbols all have a spoken form at least as long as the room in the buffer is
  returned unchanged, symbols and all: the replacement that does not fit is skipped. The buffer is three
  times the text, so this happens for every short formula.
\<close>

theorem short_formula_not_spoken:
  "\<forall>(symbol, spoken) \<in> set math_replacements. sublist symbol t \<longrightarrow> 3 * length t - 1 \<le> length spoken \<Longrightarrow>
   t \<noteq> [] \<Longrightarrow> tts_process_math_content (Some t) = (ZATHURA_ERROR_OK, Some t)"
  using math_loop_unchanged [of t "length t * 3 - 1"]
  by (simp add: tts_process_math_content_def Let_def mult.commute Suc_leI)

definition x_not_negative :: string where
  "x_not_negative = [CHR ''x'', CHR '' '', CHR 0xE2, CHR 0x89, CHR 0xA5, CHR '' '', CHR ''0'']"

lemma short_formula_not_spoken_witness:
  "tts_process_math_content (Some x_not_negative) = (ZATHURA_ERROR_OK, Some x_not_negative) \<and>
   tts_text_contains_math (Some x_not_negative)"
proof
  show "tts_process_math_content (Some x_not_negative) = (ZATHURA_ERROR_OK, Some x_not_negative)"
    by (rule short_formula_not_spoken)
      (simp_all add: x_not_negative_def math_replacements_def sublist_Cons_right)
  show "tts_text_contains_math (Some x_not_negative)"
    by (simp add: tts_text_contains_math_def math_indicators_def x_not_negative_def)
qed

end
