(* ===== verification/Page_Extract.thy ===== *)
theory Page_Extract
  imports Content_Process
begin

text \<open>
  The extraction of a page in \<^verbatim>\<open>tts-text-extractor.c\<close>: \<^verbatim>\<open>tts_extract_page_text\<close>,
  \<^verbatim>\<open>tts_extract_text_segments\<close> and \<^verbatim>\<open>tts_extract_page_links\<close>. The page belongs to
  zathura, which is not part of the repository: it is a parameter, a record of what its accessor functions
  return. The lemmas follow the text of a page from zathura to the list of segments.
\<close>

subsection \<open>The page interface\<close>

datatype zathura_link_type =
    ZATHURA_LINK_URI
  | ZATHURA_LINK_GOTO_DEST
  | ZATHURA_LINK_GOTO_REMOTE
  | ZATHURA_LINK_LAUNCH
  | ZATHURA_LINK_NAMED
  | ZATHURA_LINK_OTHER

record zathura_link =
  link_type :: zathura_link_type
  target_value :: "string option"
  target_page_number :: nat

record zathura_page =
  page_get_width :: rat
  page_get_height :: rat
  page_get_index :: nat
  page_get_text :: "zathura_rectangle \<Rightarrow> zathura_error \<times> string option"
  page_links_get :: "zathura_error \<times> zathura_link option list option"

definition get_full_page_rectangle :: "zathura_page option \<Rightarrow> zathura_rectangle" where
  "get_full_page_rectangle page =
     (case page of
        None \<Rightarrow> \<lparr>rect_x1 = 0, rect_y1 = 0, rect_x2 = 0, rect_y2 = 0\<rparr>
      | Some p \<Rightarrow> \<lparr>rect_x1 = 0, rect_y1 = 0, rect_x2 = page_get_width p, rect_y2 = page_get_height p\<rparr>)"

subsection \<open>Text and segments\<close>

definition tts_extract_page_text :: "zathura_page option \<Rightarrow> zathura_error \<times> string option" where
  "tts_extract_page_text page =
     (case page of
        None \<Rightarrow> (ZATHURA_ERROR_INVALID_ARGUMENTS, None)
      | Some p \<Rightarrow>
          (case page_get_text p (get_full_page_rectangle page) of
             (local_error, raw_text) \<Rightarrow>
               if local_error \<noteq> ZATHURA_ERROR_OK then (local_error, None)
               else (case raw_text of
                       None \<Rightarrow> (ZATHURA_ERROR_OK, None)
                     | Some raw \<Rightarrow> (ZATHURA_ERROR_OK, clean_extracted_text (Some raw)))))"

definition segment_content_type :: "string \<Rightarrow> tts_content_type" where
  "segment_content_type sentence =
     (if tts_text_contains_math (Some sentence) then TTS_CONTENT_FORMULA
      else if tts_text_is_table_content (Some sentence) then TTS_CONTENT_TABLE
      else if tts_text_contains_links (Some sentence) then TTS_CONTENT_LINK
      else TTS_CONTENT_NORMAL)"

text \<open>The conversion loop: the identifier grows also when no segment can be made of the sentence.\<close>

fun sentences_to_segments ::
  "zathura_rectangle \<Rightarrow> int \<Rightarrow> int \<Rightarrow> string list \<Rightarrow> tts_text_segment list" where
  "sentences_to_segments page_bounds page_number segment_id [] = []"
| "sentences_to_segments page_bounds page_number segment_id (sentence # sentences) =
     (case tts_text_segment_new (Some sentence) page_bounds page_number segment_id
             (segment_content_type sentence) of
        None \<Rightarrow> sentences_to_segments page_bounds page_number (segment_id + 1) sentences
      | Some segment \<Rightarrow> segment # sentences_to_segments page_bounds page_number (segment_id + 1) sentences)"

definition tts_extract_text_segments :: "zathura_page option \<Rightarrow> zathura_error \<times> tts_text_segment list option" where
  "tts_extract_text_segments page =
     (case page of
        None \<Rightarrow> (ZATHURA_ERROR_INVALID_ARGUMENTS, None)
      | Some p \<Rightarrow>
          (case tts_extract_page_text page of
             (local_error, page_text) \<Rightarrow>
               if local_error \<noteq> ZATHURA_ERROR_OK then (local_error, None)
               else (case page_text of
                       None \<Rightarrow> (ZATHURA_ERROR_OK, None)
                     | Some t \<Rightarrow>
                         (case tts_segment_text_into_sentences (Some t) of
                            (seg_error, sentences) \<Rightarrow>
                              if seg_error \<noteq> ZATHURA_ERROR_OK \<or> sentences = None then (seg_error, None)
                              else (ZATHURA_ERROR_OK,
                                    Some (sentences_to_segments (get_full_page_rectangle page)
                                            (to_int32 (int (page_get_index p))) 0 (the sentences)))))))"

subsection \<open>Links\<close>

definition describe_link :: "zathura_link \<Rightarrow> string" where
  "describe_link link =
     (case link_type link of
        ZATHURA_LINK_URI \<Rightarrow>
          (case target_value link of Some v \<Rightarrow> ''External link to '' @ v | None \<Rightarrow> ''External link'')
      | ZATHURA_LINK_GOTO_DEST \<Rightarrow> ''Internal link to page '' @ fmt_nat (target_page_number link)
      | ZATHURA_LINK_GOTO_REMOTE \<Rightarrow>
          (case target_value link of
             Some v \<Rightarrow> ''Link to external document '' @ v @ '', page '' @ fmt_nat (target_page_number link)
           | None \<Rightarrow> ''Link to external document, page '' @ fmt_nat (target_page_number link))
      | ZATHURA_LINK_LAUNCH \<Rightarrow>
          (case target_value link of Some v \<Rightarrow> ''Launch link to '' @ v | None \<Rightarrow> ''Launch link'')
      | ZATHURA_LINK_NAMED \<Rightarrow>
          (case target_value link of Some v \<Rightarrow> ''Named link '' @ v | None \<Rightarrow> ''Named link'')
      | ZATHURA_LINK_OTHER \<Rightarrow> ''Link detected'')"

fun describe_links :: "zathura_link option list \<Rightarrow> string list" where
  "describe_links [] = []"
| "describe_links (None # links) = describe_links links"
| "describe_links (Some link # links) = describe_link link # describe_links links"

definition tts_extract_page_links :: "zathura_page option \<Rightarrow> zathura_error \<times> string list option" where
  "tts_extract_page_links page =
     (case page of
        None \<Rightarrow> (ZATHURA_ERROR_INVALID_ARGUMENTS, None)
      | Some p \<Rightarrow>
          (case page_links_get p of
             (local_error, page_links) \<Rightarrow>
               if local_error \<noteq> ZATHURA_ERROR_OK then (local_error, None)
               else (case page_links of
                       None \<Rightarrow> (ZATHURA_ERROR_OK, None)
                     | Some links \<Rightarrow> (ZATHURA_ERROR_OK, Some (describe_links links)))))"

subsection \<open>What the conversion keeps\<close>

lemma segments_texts:
  "map seg_text (sentences_to_segments b p i ss) = map Some (filter segment_text_ok ss)"
  by (induction ss arbitrary: i) (simp_all add: tts_text_segment_new_Some)

lemma segments_fields:
  "sg \<in> set (sentences_to_segments b p i ss) \<Longrightarrow>
     seg_bounds sg = b \<and> seg_page_number sg = p \<and>
     (\<exists>s. seg_text sg = Some s \<and> segment_text_ok s \<and> seg_type sg = segment_content_type s)"
  by (induction ss arbitrary: i) (auto simp: tts_text_segment_new_Some split: if_splits)

lemma segments_ids:
  "sg \<in> set (sentences_to_segments b p i ss) \<Longrightarrow>
     i \<le> seg_id sg \<and> seg_id sg < i + int (length ss) \<and> seg_text sg = Some (ss ! nat (seg_id sg - i))"
proof (induction ss arbitrary: i)
  case (Cons s ss)
  show ?case
  proof (cases "sg \<in> set (sentences_to_segments b p (i + 1) ss)")
    case True
    from Cons.IH [OF this] have *: "i + 1 \<le> seg_id sg" "seg_id sg < i + 1 + int (length ss)"
      "seg_text sg = Some (ss ! nat (seg_id sg - (i + 1)))" by auto
    then have "nat (seg_id sg - i) = Suc (nat (seg_id sg - (i + 1)))" by simp
    with * show ?thesis by simp
  next
    case False
    with Cons.prems show ?thesis by (auto simp: tts_text_segment_new_Some split: if_splits)
  qed
qed simp

lemma segments_sorted: "sorted_wrt (<) (map seg_id (sentences_to_segments b p i ss))"
proof (induction ss arbitrary: i)
  case (Cons s ss)
  have "i < seg_id sg" if "sg \<in> set (sentences_to_segments b p (i + 1) ss)" for sg
    using segments_ids [OF that] by simp
  with Cons.IH show ?case by (simp add: tts_text_segment_new_Some)
qed simp

lemma extract_text_segments_Some:
  "page_get_text p (get_full_page_rectangle (Some p)) = (ZATHURA_ERROR_OK, Some raw) \<Longrightarrow>
   tts_extract_text_segments (Some p) =
     (ZATHURA_ERROR_OK, Some (sentences_to_segments (get_full_page_rectangle (Some p))
        (to_int32 (int (page_get_index p))) 0 (sentences_of (cleaned raw))))"
  by (simp add: tts_extract_text_segments_def tts_extract_page_text_def clean_extracted_text_Some
      tts_segment_text_into_sentences_Some)

lemma extract_text_segments_errors:
  "tts_extract_text_segments None = (ZATHURA_ERROR_INVALID_ARGUMENTS, None)"
  "page_get_text p (get_full_page_rectangle (Some p)) = (e, r) \<Longrightarrow> e \<noteq> ZATHURA_ERROR_OK \<Longrightarrow>
   tts_extract_text_segments (Some p) = (e, None)"
  "page_get_text p (get_full_page_rectangle (Some p)) = (ZATHURA_ERROR_OK, None) \<Longrightarrow>
   tts_extract_text_segments (Some p) = (ZATHURA_ERROR_OK, None)"
  by (simp_all add: tts_extract_text_segments_def tts_extract_page_text_def)

lemma concat_split_sentences: "concat (split_sentences acc t) = acc @ t"
  by (induction acc t rule: split_sentences.induct) auto

lemma concat_visible_sentences: "concat (map visible (sentences_of t)) = visible t"
  using sentence_loop_spec [of "[]" "[]" t]
  by (simp add: sentences_of_finish concat_split_sentences)
subsection \<open>Properties\<close>

text \<open>
  From a page's text to its segments: the segments carry, in order, exactly the sentences that make a
  legal segment text; each has the page's number and rectangle and the position of its sentence as
  identifier, so the identifiers increase; no segment is ever typed as a heading or a caption.
\<close>

theorem page_segments_correct:
  "page_get_text p (get_full_page_rectangle (Some p)) = (ZATHURA_ERROR_OK, Some raw) \<Longrightarrow>
   \<exists>segs. tts_extract_text_segments (Some p) = (ZATHURA_ERROR_OK, Some segs) \<and>
     map seg_text segs = map Some (filter segment_text_ok (sentences_of (cleaned raw))) \<and>
     sorted_wrt (<) (map seg_id segs) \<and>
     (\<forall>sg. sg \<in> set segs \<longrightarrow>
        seg_page_number sg = to_int32 (int (page_get_index p)) \<and>
        seg_bounds sg = get_full_page_rectangle (Some p) \<and>
        seg_text sg = Some (sentences_of (cleaned raw) ! nat (seg_id sg)) \<and>
        seg_type sg \<notin> {TTS_CONTENT_HEADING, TTS_CONTENT_CAPTION})"
proof -
  let ?segs = "sentences_to_segments (get_full_page_rectangle (Some p)) (to_int32 (int (page_get_index p))) 0
    (sentences_of (cleaned raw))"
  assume "page_get_text p (get_full_page_rectangle (Some p)) = (ZATHURA_ERROR_OK, Some raw)"
  then have "tts_extract_text_segments (Some p) = (ZATHURA_ERROR_OK, Some ?segs)"
    by (rule extract_text_segments_Some)
  moreover have "seg_page_number sg = to_int32 (int (page_get_index p)) \<and>
      seg_bounds sg = get_full_page_rectangle (Some p) \<and>
      seg_text sg = Some (sentences_of (cleaned raw) ! nat (seg_id sg)) \<and>
      seg_type sg \<notin> {TTS_CONTENT_HEADING, TTS_CONTENT_CAPTION}" if "sg \<in> set ?segs" for sg
    using segments_fields [OF that] segments_ids [OF that] by (auto simp: segment_content_type_def)
  ultimately show ?thesis using segments_texts segments_sorted by blast
qed

definition sample_page :: zathura_page where
  "sample_page = \<lparr>page_get_width = 595, page_get_height = 842, page_get_index = 4,
     page_get_text = (\<lambda>r. (ZATHURA_ERROR_OK, Some ''Stop. Go on.'')), page_links_get = (ZATHURA_ERROR_OK, None)\<rparr>"

lemma page_segments_correct_witness:
  "\<exists>segs. tts_extract_text_segments (Some sample_page) = (ZATHURA_ERROR_OK, Some segs) \<and>
     map seg_text segs = map Some (filter segment_text_ok (sentences_of (cleaned ''Stop. Go on.'')))"
  using page_segments_correct [of sample_page "''Stop. Go on.''"] by (auto simp: sample_page_def)

text \<open>
  C2. No word of a page is lost, repeated or moved: when the text of the page is valid UTF-8 and no sentence
  is longer than a segment may be, the segments read one after the other are the page's text, white space
  aside.
\<close>

theorem page_text_preserved:
  assumes "page_get_text p (get_full_page_rectangle (Some p)) = (ZATHURA_ERROR_OK, Some raw)"
    and "g_utf8_validate raw"
    and "\<forall>s \<in> set (sentences_of (cleaned raw)). length s \<le> 10000"
  shows "\<exists>segs. tts_extract_text_segments (Some p) = (ZATHURA_ERROR_OK, Some segs) \<and>
    concat (map (\<lambda>sg. visible (the (seg_text sg))) segs) = visible raw"
proof -
  let ?ss = "sentences_of (cleaned raw)"
  let ?segs = "sentences_to_segments (get_full_page_rectangle (Some p)) (to_int32 (int (page_get_index p))) 0 ?ss"
  have "\<forall>s \<in> set ?ss. segment_text_ok s"
    using assms sentences_valid [OF g_utf8_validate_cleaned [OF assms(2)]] sentences_tidy
    by (auto simp: segment_text_ok_def)
  then have "map seg_text ?segs = map Some ?ss"
    using segments_texts by (metis filter_True)
  then have "map (visible \<circ> the) (map seg_text ?segs) = map (visible \<circ> the) (map Some ?ss)" by simp
  then have "map (\<lambda>sg. visible (the (seg_text sg))) ?segs = map visible ?ss" by (simp add: o_def)
  then have "concat (map (\<lambda>sg. visible (the (seg_text sg))) ?segs) = visible raw"
    by (simp add: concat_visible_sentences visible_cleaned)
  then show ?thesis using extract_text_segments_Some [OF assms(1)] by blast
qed

lemma sample_sentences: "sentences_of (cleaned ''Stop. Go on.'') = [''Stop.'', ''Go on.'']"
  by code_simp

lemma page_text_preserved_witness:
  "\<exists>segs. tts_extract_text_segments (Some sample_page) = (ZATHURA_ERROR_OK, Some segs) \<and>
    concat (map (\<lambda>sg. visible (the (seg_text sg))) segs) = visible ''Stop. Go on.''"
proof (rule page_text_preserved)
  show "page_get_text sample_page (get_full_page_rectangle (Some sample_page)) = (ZATHURA_ERROR_OK, Some ''Stop. Go on.'')"
    by (simp add: sample_page_def)
  show "g_utf8_validate ''Stop. Go on.''" by (rule g_utf8_validate_ascii) (simp add: byte_def)
  show "\<forall>s \<in> set (sentences_of (cleaned ''Stop. Go on.'')). length s \<le> 10000"
    by (simp add: sample_sentences)
qed

text \<open>
  When the extraction yields no list: for a missing page, for a page whose text zathura fails to return
  (the error is passed on), and for a page without text, where the call succeeds all the same.
\<close>

theorem page_extraction_errors:
  "fst (tts_extract_text_segments page) =
     (case page of
        None \<Rightarrow> ZATHURA_ERROR_INVALID_ARGUMENTS
      | Some p \<Rightarrow> fst (page_get_text p (get_full_page_rectangle page))) \<and>
   ((\<exists>segs. snd (tts_extract_text_segments page) = Some segs) \<longleftrightarrow>
     (\<exists>p raw. page = Some p \<and> page_get_text p (get_full_page_rectangle page) = (ZATHURA_ERROR_OK, Some raw)))"
proof (cases page)
  case None
  then show ?thesis by (simp add: extract_text_segments_errors)
next
  case (Some p)
  obtain e r where er: "page_get_text p (get_full_page_rectangle (Some p)) = (e, r)" by force
  show ?thesis
  proof (cases "e = ZATHURA_ERROR_OK")
    case True
    with Some er show ?thesis
      by (cases r) (simp_all add: extract_text_segments_errors extract_text_segments_Some)
  next
    case False
    with Some er show ?thesis
      by (simp add: extract_text_segments_errors(2) [OF er])
  qed
qed

lemma describe_links_map: "describe_links links = map (\<lambda>l. describe_link (the l)) (filter (\<lambda>l. l \<noteq> None) links)"
  by (induction links rule: describe_links.induct) simp_all

lemma fmt_nat_inject: "fmt_nat m = fmt_nat n \<longleftrightarrow> m = n"
  by (metis digits_value_fmt_nat)

text \<open>
  The spoken link list has one non-empty entry for each link of the page, in order, and the description
  of a jump inside the document tells its target page apart from any other.
\<close>

theorem page_links_described:
  "page_links_get p = (ZATHURA_ERROR_OK, Some links) \<Longrightarrow>
   tts_extract_page_links (Some p) =
     (ZATHURA_ERROR_OK, Some (map (\<lambda>l. describe_link (the l)) (filter (\<lambda>l. l \<noteq> None) links))) \<and>
   (\<forall>l. describe_link l \<noteq> []) \<and>
   (\<forall>l l'. link_type l = ZATHURA_LINK_GOTO_DEST \<and> link_type l' = ZATHURA_LINK_GOTO_DEST \<longrightarrow>
      describe_link l = describe_link l' \<longrightarrow> target_page_number l = target_page_number l')"
  by (auto simp: tts_extract_page_links_def describe_links_map describe_link_def fmt_nat_inject
      split: zathura_link_type.split option.split)

lemma page_links_described_witness:
  "tts_extract_page_links (Some (sample_page\<lparr>page_links_get := (ZATHURA_ERROR_OK,
     Some [None, Some \<lparr>link_type = ZATHURA_LINK_GOTO_DEST, target_value = None, target_page_number = 12\<rparr>])\<rparr>)) =
   (ZATHURA_ERROR_OK, Some [''Internal link to page 12''])"
proof -
  have "describe_link \<lparr>link_type = ZATHURA_LINK_GOTO_DEST, target_value = None, target_page_number = 12\<rparr> =
    ''Internal link to page 12''" by code_simp
  then show ?thesis
    using page_links_described [of "sample_page\<lparr>page_links_get := (ZATHURA_ERROR_OK,
     Some [None, Some \<lparr>link_type = ZATHURA_LINK_GOTO_DEST, target_value = None, target_page_number = 12\<rparr>])\<rparr>"]
    by simp
qed

end
