(* ===== verification/Streaming_Engine.thy ===== *)
theory Streaming_Engine
  imports Segment_Store Session_Machine Engine_Types
begin

text \<open>
  The streaming engine of \<^verbatim>\<open>tts-streaming-engine.c\<close>: one child process fed through a pipe, a
  queue of text segments, and the feeder and audio threads. This theory models each function as one
  indivisible step on the engine and on the world around it (segments in memory, file descriptors, child
  processes); what the threads do in between is the subject of \<^verbatim>\<open>Feeder_Threads\<close>.

  What the operating system answers is an argument: the descriptors of the pipe, the working directory,
  whether the project file exists and what \<^verbatim>\<open>fork\<close> returns to the parent (\<open>spawn_env\<close>), whether the child
  has exited when it is polled (\<open>reap_env\<close>), the status of each write (\<open>write_env\<close>). The calls
  themselves have their documented effect: \<^verbatim>\<open>close\<close> of a descriptor that is not open fails and is
  recorded, \<^verbatim>\<open>waitpid\<close> on a process that is no child returns -1, a child that has exited is reaped,
  and shutting a channel down closes its descriptor (\<^verbatim>\<open>g_io_unix_close\<close> in
  \<^verbatim>\<open>giounix.c\<close>).
\<close>

subsection \<open>State\<close>

datatype tts_streaming_state =
    TTS_STREAMING_STATE_IDLE
  | TTS_STREAMING_STATE_STARTING
  | TTS_STREAMING_STATE_ACTIVE
  | TTS_STREAMING_STATE_PAUSED
  | TTS_STREAMING_STATE_STOPPING
  | TTS_STREAMING_STATE_ERROR

record tts_streaming_engine =
  process_pid :: int
  stdin_fd :: int
  stdout_fd :: int
  text_channel :: "int option"
  audio_channel :: "int option"
  stream_state :: tts_streaming_state
  text_queue :: "addr list"
  feeder_thread :: bool
  should_stop_feeding :: bool
  is_paused :: bool
  audio_thread :: bool
  should_stop_audio :: bool
  stream_engine_type :: tts_engine_type
  stream_speed :: rat
  stream_volume :: int
  stream_voice_name :: "string option"
  state_changed_callback :: bool

datatype os_signal = SIGTERM | SIGKILL

record stream_world =
  mem :: store
  open_fds :: "int set"
  bad_closes :: "int list"
  children :: "int set"
  signals :: "(int \<times> os_signal) list"
  spawned :: "string list"
  channel_text :: "string list"
  stream_events :: "(tts_streaming_state \<times> tts_streaming_state) list"

record spawn_env =
  env_pipe :: "(nat \<times> nat) option"
  env_cwd :: string
  env_pyproject :: bool
  env_fork :: int

record reap_env =
  exited_early :: bool
  kill_group_ok :: bool
  exited_after_term :: bool

datatype io_status = G_IO_STATUS_ERROR | G_IO_STATUS_NORMAL | G_IO_STATUS_EOF | G_IO_STATUS_AGAIN

text \<open>
  What the channel answers to the three calls of one round, and how many bytes at the end of the text it did
  not take: a channel that does not block returns success once it has taken a part of the text, and tries
  again only when it has taken nothing.
\<close>

record write_env =
  text_status :: io_status
  text_refused :: nat
  newline_status :: io_status
  flush_status :: io_status

definition tts_streaming_engine_new :: "tts_engine_type \<Rightarrow> tts_streaming_engine" where
  "tts_streaming_engine_new engine_type =
     \<lparr>process_pid = 0, stdin_fd = - 1, stdout_fd = - 1, text_channel = None, audio_channel = None,
      stream_state = TTS_STREAMING_STATE_IDLE, text_queue = [], feeder_thread = False,
      should_stop_feeding = False, is_paused = False, audio_thread = False, should_stop_audio = False,
      stream_engine_type = engine_type, stream_speed = 1, stream_volume = 80, stream_voice_name = None,
      state_changed_callback = False\<rparr>"

subsection \<open>The operating system\<close>

definition close_fd :: "int \<Rightarrow> stream_world \<Rightarrow> stream_world" where
  "close_fd fd w =
     (if fd \<in> open_fds w then w\<lparr>open_fds := open_fds w - {fd}\<rparr>
      else w\<lparr>bad_closes := bad_closes w @ [fd]\<rparr>)"

definition waitpid_nohang :: "int \<Rightarrow> bool \<Rightarrow> stream_world \<Rightarrow> int \<times> stream_world" where
  "waitpid_nohang pid exited w =
     (if pid \<notin> children w then (- 1, w)
      else if exited then (pid, w\<lparr>children := children w - {pid}\<rparr>)
      else (0, w))"

definition waitpid_block :: "int \<Rightarrow> stream_world \<Rightarrow> stream_world" where
  "waitpid_block pid w = w\<lparr>children := children w - {pid}\<rparr>"

definition send_signal :: "int \<Rightarrow> os_signal \<Rightarrow> stream_world \<Rightarrow> stream_world" where
  "send_signal pid sig w = w\<lparr>signals := signals w @ [(pid, sig)]\<rparr>"

lemmas os_defs = close_fd_def waitpid_nohang_def waitpid_block_def send_signal_def

subsection \<open>State changes\<close>

type_synonym stream = "tts_streaming_engine \<times> stream_world"

definition tts_streaming_engine_set_state :: "tts_streaming_state \<Rightarrow> stream \<Rightarrow> stream" where
  "tts_streaming_engine_set_state new_state s =
     (case s of (e, w) \<Rightarrow>
       (e\<lparr>stream_state := new_state\<rparr>,
        if state_changed_callback e
        then w\<lparr>stream_events := stream_events w @ [(stream_state e, new_state)]\<rparr> else w))"

definition tts_streaming_engine_get_state :: "tts_streaming_engine option \<Rightarrow> tts_streaming_state" where
  "tts_streaming_engine_get_state engine =
     (case engine of None \<Rightarrow> TTS_STREAMING_STATE_ERROR | Some e \<Rightarrow> stream_state e)"

definition tts_streaming_engine_is_active :: "tts_streaming_engine option \<Rightarrow> bool" where
  "tts_streaming_engine_is_active engine =
     (let state = tts_streaming_engine_get_state engine
      in state = TTS_STREAMING_STATE_ACTIVE \<or> state = TTS_STREAMING_STATE_PAUSED)"

subsection \<open>The child process\<close>

definition piper_pipeline :: string where
  "piper_pipeline =
     ''piper --model '' @ [CHR 0x27] @
     ''/home/user/Projects/zathura/zathura-tts/voices/en_US-lessac-medium.onnx'' @ [CHR 0x27] @
     '' --output-raw | aplay -r 22050 -f S16_LE -t raw -B 1000000 -''"

definition stream_command :: "spawn_env \<Rightarrow> tts_streaming_engine \<Rightarrow> string option" where
  "stream_command env e =
     (case stream_engine_type e of
        TTS_ENGINE_PIPER \<Rightarrow>
          let project_dir = env_cwd env @ ''/zathura-tts'' in
          if env_pyproject env
          then Some (''sh -c '' @ [CHR 0x22] @ ''cd '' @ [CHR 0x27] @ project_dir @ [CHR 0x27] @
                     '' && poetry run '' @ piper_pipeline @ [CHR 0x22])
          else Some (''sh -c '' @ [CHR 0x22] @ piper_pipeline @ [CHR 0x22])
      | TTS_ENGINE_ESPEAK \<Rightarrow>
          Some (''espeak-ng -s '' @ fmt_int (to_int32 \<lfloor>stream_speed e * 175\<rfloor>) @
                '' -a '' @ fmt_int (stream_volume e) @ '' --stdin'')
      | TTS_ENGINE_SPEECH_DISPATCHER \<Rightarrow> Some ''spd-say -r %d -i %d''
      | TTS_ENGINE_SYSTEM \<Rightarrow> None
      | TTS_ENGINE_NONE \<Rightarrow> None)"

definition tts_streaming_engine_spawn_process :: "spawn_env \<Rightarrow> stream \<Rightarrow> bool \<times> stream" where
  "tts_streaming_engine_spawn_process env s =
     (case s of (e, w) \<Rightarrow>
        case env_pipe env of
          None \<Rightarrow> (False, e, w)
        | Some (r', wr') \<Rightarrow>
            let r = int r'; wr = int wr'; w1 = w\<lparr>open_fds := open_fds w \<union> {r, wr}\<rparr> in
            case stream_command env e of
              None \<Rightarrow> (False, e, close_fd wr (close_fd r w1))
            | Some command \<Rightarrow>
                if env_fork env > 0 then
                  let w2 = close_fd r (w1\<lparr>children := children w1 \<union> {env_fork env}, spawned := spawned w1 @ [command]\<rparr>)
                  in (True,
                      e\<lparr>process_pid := env_fork env, stdin_fd := wr, stdout_fd := - 1,
                        text_channel := Some wr, audio_channel := None\<rparr>, w2)
                else (False, e, close_fd wr (close_fd r w1)))"

definition terminate_process :: "reap_env \<Rightarrow> int \<Rightarrow> stream_world \<Rightarrow> stream_world" where
  "terminate_process env pid w =
     (case waitpid_nohang pid (exited_early env) w of (result, w1) \<Rightarrow>
        if result = 0 then
          (let w2 = send_signal (- pid) SIGTERM w1 in
           if kill_group_ok env then
             (case waitpid_nohang pid (exited_after_term env) w2 of (result2, w3) \<Rightarrow>
                if result2 = 0 then waitpid_block pid (send_signal (- pid) SIGKILL w3) else w3)
           else
             (case waitpid_nohang pid (exited_after_term env) (send_signal pid SIGTERM w2) of (result2, w3) \<Rightarrow>
                if result2 = 0 then waitpid_block pid (send_signal pid SIGKILL w3) else w3))
        else w1)"

definition tts_streaming_engine_cleanup_process :: "reap_env \<Rightarrow> stream \<Rightarrow> stream" where
  "tts_streaming_engine_cleanup_process env s =
     (case s of (e0, w0) \<Rightarrow>
        let (e1, w1) = (case text_channel e0 of
                          None \<Rightarrow> (e0, w0)
                        | Some fd \<Rightarrow> (e0\<lparr>text_channel := None\<rparr>, close_fd fd w0));
            (e2, w2) = (if stdin_fd e1 \<ge> 0 then (e1\<lparr>stdin_fd := - 1\<rparr>, close_fd (stdin_fd e1) w1) else (e1, w1))
        in if process_pid e2 > 0 then
             (let (e3, w3) = (if stdin_fd e2 \<ge> 0 then (e2\<lparr>stdin_fd := - 1\<rparr>, close_fd (stdin_fd e2) w2) else (e2, w2))
              in (e3\<lparr>process_pid := 0\<rparr>, terminate_process env (process_pid e3) w3))
           else (e2, w2))"

subsection \<open>Engine control\<close>

definition tts_streaming_engine_start :: "spawn_env \<Rightarrow> stream \<Rightarrow> bool \<times> stream" where
  "tts_streaming_engine_start env s =
     (if stream_state (fst s) \<noteq> TTS_STREAMING_STATE_IDLE then (False, s)
      else case tts_streaming_engine_spawn_process env
                  (tts_streaming_engine_set_state TTS_STREAMING_STATE_STARTING s) of
        (ok, e, w) \<Rightarrow>
          if \<not> ok then (False, tts_streaming_engine_set_state TTS_STREAMING_STATE_ERROR (e, w))
          else (True, tts_streaming_engine_set_state TTS_STREAMING_STATE_ACTIVE
                  (e\<lparr>should_stop_feeding := False, feeder_thread := True,
                     should_stop_audio := False, audio_thread := True\<rparr>, w)))"

fun clear_loop :: "addr list \<Rightarrow> store \<Rightarrow> store" where
  "clear_loop [] m = m"
| "clear_loop (segment # queue) m = clear_loop queue (tts_text_segment_free (Some segment) m)"

definition tts_streaming_engine_clear_queue :: "stream \<Rightarrow> stream" where
  "tts_streaming_engine_clear_queue s =
     (case s of (e, w) \<Rightarrow> (e\<lparr>text_queue := []\<rparr>, w\<lparr>mem := clear_loop (text_queue e) (mem w)\<rparr>))"

definition tts_streaming_engine_stop :: "reap_env \<Rightarrow> stream \<Rightarrow> bool \<times> stream" where
  "tts_streaming_engine_stop env s =
     (if stream_state (fst s) = TTS_STREAMING_STATE_IDLE then (True, s)
      else case tts_streaming_engine_set_state TTS_STREAMING_STATE_STOPPING s of
        (e1, w1) \<Rightarrow>
          let e2 = e1\<lparr>should_stop_feeding := True, should_stop_audio := True\<rparr>;
              e3 = (if feeder_thread e2 then e2\<lparr>feeder_thread := False\<rparr> else e2);
              e4 = (if audio_thread e3 then e3\<lparr>audio_thread := False\<rparr> else e3)
          in (True, tts_streaming_engine_set_state TTS_STREAMING_STATE_IDLE
                (tts_streaming_engine_clear_queue (tts_streaming_engine_cleanup_process env (e4, w1)))))"

definition tts_streaming_engine_pause :: "stream \<Rightarrow> bool \<times> stream" where
  "tts_streaming_engine_pause s =
     (case s of (e, w) \<Rightarrow>
        if stream_state e \<noteq> TTS_STREAMING_STATE_ACTIVE then (False, s)
        else (True, tts_streaming_engine_set_state TTS_STREAMING_STATE_PAUSED (e\<lparr>is_paused := True\<rparr>, w)))"

definition tts_streaming_engine_resume :: "stream \<Rightarrow> bool \<times> stream" where
  "tts_streaming_engine_resume s =
     (case s of (e, w) \<Rightarrow>
        if stream_state e \<noteq> TTS_STREAMING_STATE_PAUSED then (False, s)
        else (True, tts_streaming_engine_set_state TTS_STREAMING_STATE_ACTIVE (e\<lparr>is_paused := False\<rparr>, w)))"

text \<open>Freeing stops the engine, frees what is left in the queue and then the engine itself.\<close>

definition tts_streaming_engine_free :: "reap_env \<Rightarrow> stream \<Rightarrow> stream_world" where
  "tts_streaming_engine_free env s =
     (case tts_streaming_engine_stop env s of
        (_, e, w) \<Rightarrow> w\<lparr>mem := clear_loop (text_queue e) (mem w)\<rparr>)"

subsection \<open>Queueing text\<close>

text \<open>
  The segment is pushed before its text is looked at; the result says whether the text was accepted,
  and the segment stays in the queue either way.
\<close>

definition tts_streaming_engine_queue_segment :: "addr option \<Rightarrow> stream \<Rightarrow> bool \<times> stream" where
  "tts_streaming_engine_queue_segment segment s =
     (case s of (e, w) \<Rightarrow>
        case segment of
          None \<Rightarrow> (False, s)
        | Some a \<Rightarrow>
            let e1 = e\<lparr>text_queue := text_queue e @ [a]\<rparr> in
            case read_segment a (mem w) of
              (contents, m) \<Rightarrow>
                (case contents of
                   None \<Rightarrow> False
                 | Some sg \<Rightarrow>
                     (case seg_text sg of
                        None \<Rightarrow> False
                      | Some t \<Rightarrow> g_utf8_validate t \<and> length t > 0 \<and> length t < 10000),
                 e1, w\<lparr>mem := m\<rparr>))"

definition tts_streaming_engine_queue_text :: "string option \<Rightarrow> int \<Rightarrow> stream \<Rightarrow> bool \<times> stream" where
  "tts_streaming_engine_queue_text text segment_id s =
     (case text of
        None \<Rightarrow> (False, s)
      | Some t \<Rightarrow>
          (case tts_text_segment_new (Some t) \<lparr>rect_x1 = 0, rect_y1 = 0, rect_x2 = 0, rect_y2 = 0\<rparr> 0
                  segment_id TTS_CONTENT_NORMAL of
             None \<Rightarrow> (False, s)
           | Some sg \<Rightarrow>
               (case s of (e, w) \<Rightarrow>
                  case alloc_segment sg (mem w) of
                    (a, m) \<Rightarrow> tts_streaming_engine_queue_segment (Some a) (e, w\<lparr>mem := m\<rparr>))))"

subsection \<open>The threads, one round each\<close>

text \<open>
  Writing a text and its newline to the channel, with the statuses the channel returns. The number of bytes
  that were written is not looked at.
\<close>

definition write_text :: "write_env \<Rightarrow> string \<Rightarrow> stream_world \<Rightarrow> stream_world" where
  "write_text env t w =
     (if text_status env = G_IO_STATUS_AGAIN then w
      else
        let w1 = w\<lparr>channel_text := channel_text w @ [take (length t - text_refused env) t]\<rparr> in
        if text_status env = G_IO_STATUS_NORMAL \<and> newline_status env = G_IO_STATUS_NORMAL
        then w1\<lparr>channel_text := channel_text w1 @ [[CHR 0x0A]]\<rparr> else w1)"

datatype feeder_outcome = Feeder_Exits | Feeder_Waits | Feeder_Loops

definition feeder_round :: "write_env \<Rightarrow> stream \<Rightarrow> feeder_outcome \<times> stream" where
  "feeder_round env s =
     (case s of (e, w) \<Rightarrow>
        if should_stop_feeding e then (Feeder_Exits, s)
        else case text_queue e of
          [] \<Rightarrow> (Feeder_Waits, s)
        | a # queue \<Rightarrow>
            if is_paused e then (Feeder_Waits, s)
            else
              let e1 = e\<lparr>text_queue := queue\<rparr> in
              case read_segment a (mem w) of
                (contents, m) \<Rightarrow>
                  let w1 = w\<lparr>mem := m\<rparr> in
                  (case contents of
                     None \<Rightarrow> (Feeder_Loops, e1, w1)
                   | Some sg \<Rightarrow>
                       (case seg_text sg of
                          None \<Rightarrow> (Feeder_Loops, e1, w1)
                        | Some t \<Rightarrow>
                            if \<not> g_utf8_validate t \<or> length t = 0 \<or> length t > 10000
                            then (Feeder_Loops, e1, w1\<lparr>mem := tts_text_segment_free (Some a) (mem w1)\<rparr>)
                            else
                              let w2 = (if text_channel e1 \<noteq> None \<and> length t > 0 then write_text env t w1 else w1)
                              in (Feeder_Loops, e1, w2\<lparr>mem := tts_text_segment_free (Some a) (mem w2)\<rparr>))))"

datatype audio_outcome = Audio_Exits | Audio_Loops

definition audio_round :: "bool \<Rightarrow> stream \<Rightarrow> audio_outcome \<times> stream" where
  "audio_round exited s =
     (case s of (e, w) \<Rightarrow>
        if should_stop_audio e \<or> process_pid e \<le> 0 then (Audio_Exits, s)
        else case waitpid_nohang (process_pid e) exited w of
          (result, w1) \<Rightarrow> if result > 0 \<or> result < 0 then (Audio_Exits, e, w1) else (Audio_Loops, e, w1))"

subsection \<open>The engine as a machine\<close>

datatype stream_op =
    Op_Start spawn_env
  | Op_Stop reap_env
  | Op_Pause
  | Op_Resume
  | Op_Queue "addr option"
  | Op_Queue_Text "string option" int
  | Op_Clear
  | Op_Feed write_env
  | Op_Audio bool

fun stream_exec :: "stream_op \<Rightarrow> stream \<Rightarrow> stream" where
  "stream_exec (Op_Start env) s = snd (tts_streaming_engine_start env s)"
| "stream_exec (Op_Stop env) s = snd (tts_streaming_engine_stop env s)"
| "stream_exec Op_Pause s = snd (tts_streaming_engine_pause s)"
| "stream_exec Op_Resume s = snd (tts_streaming_engine_resume s)"
| "stream_exec (Op_Queue a) s = snd (tts_streaming_engine_queue_segment a s)"
| "stream_exec (Op_Queue_Text t i) s = snd (tts_streaming_engine_queue_text t i s)"
| "stream_exec Op_Clear s = tts_streaming_engine_clear_queue s"
| "stream_exec (Op_Feed env) s = snd (feeder_round env s)"
| "stream_exec (Op_Audio exited) s = snd (audio_round exited s)"

definition is_stop_op :: "stream_op \<Rightarrow> bool" where
  "is_stop_op op \<longleftrightarrow> (case op of Op_Stop _ \<Rightarrow> True | _ \<Rightarrow> False)"

text \<open>
  The invariant between two operations: the transient states are never seen, an engine that runs has a
  process, a channel on its descriptor and both threads, and an engine that does not run has none of them.
\<close>

definition engine_running :: "tts_streaming_engine \<Rightarrow> bool" where
  "engine_running e \<longleftrightarrow> process_pid e > 0 \<and> stdin_fd e \<ge> 0 \<and> text_channel e = Some (stdin_fd e) \<and>
     feeder_thread e \<and> audio_thread e \<and> \<not> should_stop_feeding e \<and> \<not> should_stop_audio e"

definition engine_released :: "tts_streaming_engine \<Rightarrow> bool" where
  "engine_released e \<longleftrightarrow> process_pid e = 0 \<and> stdin_fd e = - 1 \<and> text_channel e = None \<and>
     \<not> feeder_thread e \<and> \<not> audio_thread e"

definition stream_inv :: "tts_streaming_engine \<Rightarrow> bool" where
  "stream_inv e \<longleftrightarrow>
     stdout_fd e = - 1 \<and> audio_channel e = None \<and>
     (case stream_state e of
        TTS_STREAMING_STATE_IDLE \<Rightarrow> engine_released e
      | TTS_STREAMING_STATE_ERROR \<Rightarrow> engine_released e
      | TTS_STREAMING_STATE_ACTIVE \<Rightarrow> engine_running e
      | TTS_STREAMING_STATE_PAUSED \<Rightarrow> engine_running e \<and> is_paused e
      | TTS_STREAMING_STATE_STARTING \<Rightarrow> False
      | TTS_STREAMING_STATE_STOPPING \<Rightarrow> False)"

definition engine_idle :: "tts_streaming_engine \<Rightarrow> bool" where
  "engine_idle e \<longleftrightarrow> stream_state e = TTS_STREAMING_STATE_IDLE \<and> engine_released e"

lemmas stream_inv_defs = stream_inv_def engine_running_def engine_released_def engine_idle_def

lemma stream_inv_new: "stream_inv (tts_streaming_engine_new ty)"
  by (simp add: stream_inv_defs tts_streaming_engine_new_def)

lemma set_state_fst [simp]: "fst (tts_streaming_engine_set_state st s) = (fst s)\<lparr>stream_state := st\<rparr>"
  by (cases s) (simp add: tts_streaming_engine_set_state_def)

lemma set_state_mem [simp]: "mem (snd (tts_streaming_engine_set_state st s)) = mem (snd s)"
  "open_fds (snd (tts_streaming_engine_set_state st s)) = open_fds (snd s)"
  "bad_closes (snd (tts_streaming_engine_set_state st s)) = bad_closes (snd s)"
  "children (snd (tts_streaming_engine_set_state st s)) = children (snd s)"
  "channel_text (snd (tts_streaming_engine_set_state st s)) = channel_text (snd s)"
  by (cases s; simp add: tts_streaming_engine_set_state_def)+

lemma cleanup_engine:
  "0 \<le> process_pid (fst s) \<Longrightarrow> - 1 \<le> stdin_fd (fst s) \<Longrightarrow>
   fst (tts_streaming_engine_cleanup_process env s) =
     (fst s)\<lparr>process_pid := 0, stdin_fd := - 1, text_channel := None\<rparr>"
  by (cases s) (auto simp: tts_streaming_engine_cleanup_process_def Let_def split: option.splits prod.splits)

lemma clear_queue_fst: "fst (tts_streaming_engine_clear_queue s) = (fst s)\<lparr>text_queue := []\<rparr>"
  by (cases s) (simp add: tts_streaming_engine_clear_queue_def)

lemma stop_engine:
  "stream_state (fst s) \<noteq> TTS_STREAMING_STATE_IDLE \<Longrightarrow> 0 \<le> process_pid (fst s) \<Longrightarrow> - 1 \<le> stdin_fd (fst s) \<Longrightarrow>
   fst (snd (tts_streaming_engine_stop env s)) =
     (fst s)\<lparr>process_pid := 0, stdin_fd := - 1, text_channel := None, text_queue := [], stream_state := TTS_STREAMING_STATE_IDLE,
        should_stop_feeding := True, should_stop_audio := True, feeder_thread := False, audio_thread := False\<rparr>"
proof -
  assume a: "stream_state (fst s) \<noteq> TTS_STREAMING_STATE_IDLE" "0 \<le> process_pid (fst s)" "- 1 \<le> stdin_fd (fst s)"
  obtain e1 w1 where s1: "tts_streaming_engine_set_state TTS_STREAMING_STATE_STOPPING s = (e1, w1)" by force
  then have e1: "e1 = (fst s)\<lparr>stream_state := TTS_STREAMING_STATE_STOPPING\<rparr>"
    using set_state_fst [of TTS_STREAMING_STATE_STOPPING s] by simp
  show ?thesis
    using a by (simp add: tts_streaming_engine_stop_def s1 Let_def cleanup_engine e1 clear_queue_fst)
qed

definition spawned_engine :: "spawn_env \<Rightarrow> tts_streaming_engine \<Rightarrow> tts_streaming_engine" where
  "spawned_engine env e =
     (let fd = int (snd (the (env_pipe env)))
      in e\<lparr>process_pid := env_fork env, stdin_fd := fd, stdout_fd := - 1, text_channel := Some fd, audio_channel := None\<rparr>)"

lemma spawn_engine:
  "tts_streaming_engine_spawn_process env s = (ok, s') \<Longrightarrow>
   (ok \<longrightarrow> 0 < env_fork env \<and> fst s' = spawned_engine env (fst s)) \<and> (\<not> ok \<longrightarrow> fst s' = fst s)"
  by (cases s)
    (auto simp: tts_streaming_engine_spawn_process_def spawned_engine_def Let_def split: option.splits if_splits)

lemma start_engine:
  assumes "tts_streaming_engine_start env s = (ok, s')" and "stream_state (fst s) = TTS_STREAMING_STATE_IDLE"
  shows "ok \<Longrightarrow> 0 < env_fork env \<and> fst s' = (spawned_engine env (fst s))
      \<lparr>stream_state := TTS_STREAMING_STATE_ACTIVE, should_stop_feeding := False, feeder_thread := True,
       should_stop_audio := False, audio_thread := True\<rparr>"
    and "\<not> ok \<Longrightarrow> fst s' = (fst s)\<lparr>stream_state := TTS_STREAMING_STATE_ERROR\<rparr>"
proof -
  obtain ok' e w where sp: "tts_streaming_engine_spawn_process env
      (tts_streaming_engine_set_state TTS_STREAMING_STATE_STARTING s) = (ok', e, w)"
    by (metis prod.collapse)
  show "ok \<Longrightarrow> 0 < env_fork env \<and> fst s' = (spawned_engine env (fst s))
      \<lparr>stream_state := TTS_STREAMING_STATE_ACTIVE, should_stop_feeding := False, feeder_thread := True,
       should_stop_audio := False, audio_thread := True\<rparr>"
    "\<not> ok \<Longrightarrow> fst s' = (fst s)\<lparr>stream_state := TTS_STREAMING_STATE_ERROR\<rparr>"
    using assms spawn_engine [OF sp]
    by (cases ok'; auto simp: tts_streaming_engine_start_def sp spawned_engine_def Let_def)+
qed

lemma start_not_idle:
  "stream_state (fst s) \<noteq> TTS_STREAMING_STATE_IDLE \<Longrightarrow> tts_streaming_engine_start env s = (False, s)"
  by (simp add: tts_streaming_engine_start_def)

lemma queue_segment_fst:
  "fst (snd (tts_streaming_engine_queue_segment p s)) =
     (case p of None \<Rightarrow> fst s | Some a \<Rightarrow> (fst s)\<lparr>text_queue := text_queue (fst s) @ [a]\<rparr>)"
  by (cases s) (simp add: tts_streaming_engine_queue_segment_def Let_def split: option.split prod.split)

lemma feeder_fst: "(fst (snd (feeder_round env s)))\<lparr>text_queue := []\<rparr> = (fst s)\<lparr>text_queue := []\<rparr>"
  by (cases s) (simp add: feeder_round_def Let_def split: list.split option.split prod.split)

lemma audio_fst: "fst (snd (audio_round exited s)) = fst s"
  by (cases s) (simp add: audio_round_def split: prod.split)

lemma queue_text_fst:
  "(fst (snd (tts_streaming_engine_queue_text t i s)))\<lparr>text_queue := []\<rparr> = (fst s)\<lparr>text_queue := []\<rparr>"
  by (cases s)
    (simp add: tts_streaming_engine_queue_text_def queue_segment_fst split: option.split prod.split)

lemma stream_inv_queue: "stream_inv (e\<lparr>text_queue := q\<rparr>) = stream_inv e"
  by (simp add: stream_inv_defs split: tts_streaming_state.split)

lemma stream_inv_same: "e\<lparr>text_queue := []\<rparr> = e'\<lparr>text_queue := []\<rparr> \<Longrightarrow> stream_inv e = stream_inv e'"
  by (metis stream_inv_queue)

lemma pause_cases:
  "tts_streaming_engine_pause s =
     (if stream_state (fst s) = TTS_STREAMING_STATE_ACTIVE
      then (True, tts_streaming_engine_set_state TTS_STREAMING_STATE_PAUSED ((fst s)\<lparr>is_paused := True\<rparr>, snd s))
      else (False, s))"
  by (cases s) (simp add: tts_streaming_engine_pause_def)

lemma resume_cases:
  "tts_streaming_engine_resume s =
     (if stream_state (fst s) = TTS_STREAMING_STATE_PAUSED
      then (True, tts_streaming_engine_set_state TTS_STREAMING_STATE_ACTIVE ((fst s)\<lparr>is_paused := False\<rparr>, snd s))
      else (False, s))"
  by (cases s) (simp add: tts_streaming_engine_resume_def)

lemma stream_inv_range:
  "stream_inv e \<Longrightarrow> 0 \<le> process_pid e \<and> - 1 \<le> stdin_fd e"
  by (auto simp: stream_inv_defs split: tts_streaming_state.splits)

lemma stream_inv_start: "stream_inv (fst s) \<Longrightarrow> stream_inv (fst (snd (tts_streaming_engine_start env s)))"
proof (cases "stream_state (fst s) = TTS_STREAMING_STATE_IDLE")
  case True
  assume i: "stream_inv (fst s)"
  obtain ok s' where r: "tts_streaming_engine_start env s = (ok, s')" by (metis prod.collapse)
  show ?thesis
    using i True start_engine [OF r True]
    by (cases ok) (simp_all add: r stream_inv_defs spawned_engine_def Let_def)
qed (simp add: start_not_idle)

lemma stop_idle:
  "stream_state (fst s) = TTS_STREAMING_STATE_IDLE \<Longrightarrow> tts_streaming_engine_stop env s = (True, s)"
  by (simp add: tts_streaming_engine_stop_def)

lemma stream_inv_stop:
  assumes "stream_inv (fst s)"
  shows "stream_inv (fst (snd (tts_streaming_engine_stop env s))) \<and> engine_idle (fst (snd (tts_streaming_engine_stop env s)))"
proof (cases "stream_state (fst s) = TTS_STREAMING_STATE_IDLE")
  case True
  then show ?thesis using assms by (simp add: stop_idle stream_inv_defs)
next
  case False
  with assms stream_inv_range [OF assms] show ?thesis
    by (simp add: stop_engine) (auto simp: stream_inv_defs)
qed

lemma stream_inv_pause: "stream_inv (fst s) \<Longrightarrow> stream_inv (fst (snd (tts_streaming_engine_pause s)))"
  by (cases "stream_state (fst s) = TTS_STREAMING_STATE_ACTIVE") (simp_all add: pause_cases stream_inv_defs)

lemma stream_inv_resume: "stream_inv (fst s) \<Longrightarrow> stream_inv (fst (snd (tts_streaming_engine_resume s)))"
  by (cases "stream_state (fst s) = TTS_STREAMING_STATE_PAUSED") (simp_all add: resume_cases stream_inv_defs)

lemma stream_inv_exec: "stream_inv (fst s) \<Longrightarrow> stream_inv (fst (stream_exec op s))"
proof (cases op)
  case (Op_Queue a)
  then show "stream_inv (fst s) \<Longrightarrow> ?thesis"
    by (cases a) (simp_all add: queue_segment_fst stream_inv_queue)
next
  case (Op_Queue_Text t i)
  then show "stream_inv (fst s) \<Longrightarrow> ?thesis"
    using stream_inv_same [OF queue_text_fst [of t i s]] by simp
next
  case (Op_Feed env)
  then show "stream_inv (fst s) \<Longrightarrow> ?thesis"
    using stream_inv_same [OF feeder_fst [of env s]] by simp
qed (simp_all add: stream_inv_start stream_inv_stop stream_inv_pause stream_inv_resume clear_queue_fst
    stream_inv_queue audio_fst)

interpretation streaming: restable_machine stream_exec "\<lambda>s. stream_inv (fst s)" is_stop_op "\<lambda>s. engine_idle (fst s)"
proof
  fix s op
  show "stream_inv (fst s) \<Longrightarrow> stream_inv (fst (stream_exec op s))" by (rule stream_inv_exec)
  show "stream_inv (fst s) \<Longrightarrow> is_stop_op op \<Longrightarrow> engine_idle (fst (stream_exec op s))"
    by (cases op) (auto simp: is_stop_op_def stream_inv_stop)
qed


subsection \<open>Which calls succeed\<close>

lemma stop_succeeds: "fst (tts_streaming_engine_stop env s)"
  by (simp add: tts_streaming_engine_stop_def Let_def split: prod.split)

text \<open>
  The control calls by state: a start is accepted only when idle and then leads to active or error, a
  pause only when active, a resume only when paused, a stop always and leads to idle; a call that is refused
  (a failed spawn aside) changes nothing.
\<close>

theorem streaming_transitions:
  "(fst (tts_streaming_engine_start sp s) \<longrightarrow>
      stream_state (fst s) = TTS_STREAMING_STATE_IDLE \<and>
      stream_state (fst (snd (tts_streaming_engine_start sp s))) = TTS_STREAMING_STATE_ACTIVE) \<and>
   (\<not> fst (tts_streaming_engine_start sp s) \<longrightarrow>
      (stream_state (fst s) \<noteq> TTS_STREAMING_STATE_IDLE \<and> snd (tts_streaming_engine_start sp s) = s) \<or>
      stream_state (fst (snd (tts_streaming_engine_start sp s))) = TTS_STREAMING_STATE_ERROR) \<and>
   fst (tts_streaming_engine_pause s) = (stream_state (fst s) = TTS_STREAMING_STATE_ACTIVE) \<and>
   fst (tts_streaming_engine_resume s) = (stream_state (fst s) = TTS_STREAMING_STATE_PAUSED) \<and>
   (\<not> fst (tts_streaming_engine_pause s) \<longrightarrow> snd (tts_streaming_engine_pause s) = s) \<and>
   (\<not> fst (tts_streaming_engine_resume s) \<longrightarrow> snd (tts_streaming_engine_resume s) = s) \<and>
   fst (tts_streaming_engine_stop env s)"
proof -
  obtain ok s' where r: "tts_streaming_engine_start sp s = (ok, s')" by (metis prod.collapse)
  have "(ok \<longrightarrow> stream_state (fst s) = TTS_STREAMING_STATE_IDLE \<and> stream_state (fst s') = TTS_STREAMING_STATE_ACTIVE) \<and>
     (\<not> ok \<longrightarrow> (stream_state (fst s) \<noteq> TTS_STREAMING_STATE_IDLE \<and> s' = s) \<or> stream_state (fst s') = TTS_STREAMING_STATE_ERROR)"
  proof (cases "stream_state (fst s) = TTS_STREAMING_STATE_IDLE")
    case True
    then show ?thesis using start_engine [OF r True] by (cases ok) simp_all
  qed (use r start_not_idle [of s sp] in simp)
  then show ?thesis by (simp add: r pause_cases resume_cases stop_succeeds)
qed

lemma streaming_transitions_witness:
  "fst (tts_streaming_engine_stop \<lparr>exited_early = True, kill_group_ok = True, exited_after_term = True\<rparr>
     (tts_streaming_engine_new TTS_ENGINE_PIPER, \<lparr>mem = empty_store, open_fds = {}, bad_closes = [], children = {},
       signals = [], spawned = [], channel_text = [], stream_events = []\<rparr>))"
  using streaming_transitions
    [of _ "(tts_streaming_engine_new TTS_ENGINE_PIPER, \<lparr>mem = empty_store, open_fds = {}, bad_closes = [], children = {},
       signals = [], spawned = [], channel_text = [], stream_events = []\<rparr>)"]
  by blast

subsection \<open>Stopping releases the process, the descriptor and the queue\<close>

lemma terminate_reaps: "pid > 0 \<Longrightarrow> pid \<notin> children (terminate_process env pid w)"
  by (auto simp: terminate_process_def os_defs Let_def)

lemma terminate_children: "children (terminate_process env pid w) \<subseteq> children w"
  by (auto simp: terminate_process_def os_defs Let_def split: if_splits)

lemma terminate_keeps [simp]:
  "open_fds (terminate_process env pid w) = open_fds w" "bad_closes (terminate_process env pid w) = bad_closes w"
  "mem (terminate_process env pid w) = mem w" "channel_text (terminate_process env pid w) = channel_text w"
  by (simp_all add: terminate_process_def os_defs Let_def split: prod.split)

lemma clear_loop_free_segments: "clear_loop q m = free_segments q m"
  by (induction q arbitrary: m) simp_all

lemma cleanup_running:
  assumes "engine_running e"
  shows "snd (tts_streaming_engine_cleanup_process env (e, w)) =
    terminate_process env (process_pid e) (close_fd (stdin_fd e) (close_fd (stdin_fd e) w))"
  using assms by (simp add: engine_running_def tts_streaming_engine_cleanup_process_def Let_def)

lemma cleanup_mem [simp]: "mem (snd (tts_streaming_engine_cleanup_process env s)) = mem (snd s)"
  by (cases s)
    (simp add: tts_streaming_engine_cleanup_process_def Let_def close_fd_def split: option.split prod.split)

lemma cleanup_queue [simp]: "text_queue (fst (tts_streaming_engine_cleanup_process env s)) = text_queue (fst s)"
  by (cases s)
    (simp add: tts_streaming_engine_cleanup_process_def Let_def split: option.split prod.split)

lemma clear_queue_snd [simp]:
  "mem (snd (tts_streaming_engine_clear_queue s)) = free_segments (text_queue (fst s)) (mem (snd s))"
  "open_fds (snd (tts_streaming_engine_clear_queue s)) = open_fds (snd s)"
  "bad_closes (snd (tts_streaming_engine_clear_queue s)) = bad_closes (snd s)"
  "children (snd (tts_streaming_engine_clear_queue s)) = children (snd s)"
  by (cases s; simp add: tts_streaming_engine_clear_queue_def clear_loop_free_segments)+

lemma drop_thread_handles:
  "(if feeder_thread e then e\<lparr>feeder_thread := False\<rparr> else e) = e\<lparr>feeder_thread := False\<rparr>"
  "(if audio_thread e then e\<lparr>audio_thread := False\<rparr> else e) = e\<lparr>audio_thread := False\<rparr>"
  by (cases e; simp)+

text \<open>The world after stopping an engine that is not idle, before the state is set to idle.\<close>

lemma stop_world:
  assumes "stream_state (fst s) \<noteq> TTS_STREAMING_STATE_IDLE"
  obtains e1 w1 where "fst (tts_streaming_engine_set_state TTS_STREAMING_STATE_STOPPING s) = e1"
    and "snd (tts_streaming_engine_set_state TTS_STREAMING_STATE_STOPPING s) = w1"
    and "snd (tts_streaming_engine_stop env s) = tts_streaming_engine_set_state TTS_STREAMING_STATE_IDLE
        (tts_streaming_engine_clear_queue (tts_streaming_engine_cleanup_process env
          (e1\<lparr>should_stop_feeding := True, should_stop_audio := True, feeder_thread := False, audio_thread := False\<rparr>, w1)))"
proof -
  obtain e1 w1 where sp: "tts_streaming_engine_set_state TTS_STREAMING_STATE_STOPPING s = (e1, w1)"
    by (metis prod.collapse)
  show thesis
    by (rule that [of e1 w1])
      (use assms in \<open>simp_all only: tts_streaming_engine_stop_def sp Let_def prod.case drop_thread_handles
        if_False fst_conv snd_conv\<close>)
qed

lemma stop_mem:
  "stream_state (fst s) \<noteq> TTS_STREAMING_STATE_IDLE \<Longrightarrow>
   mem (snd (snd (tts_streaming_engine_stop env s))) = free_segments (text_queue (fst s)) (mem (snd s))"
  by (rule stop_world [of s env]) auto

lemma stop_running:
  assumes "engine_running (fst s)" and "stream_state (fst s) \<noteq> TTS_STREAMING_STATE_IDLE"
  obtains w where "open_fds w = open_fds (snd s)" "bad_closes w = bad_closes (snd s)" "children w = children (snd s)"
    and "open_fds (snd (snd (tts_streaming_engine_stop env s))) =
      open_fds (close_fd (stdin_fd (fst s)) (close_fd (stdin_fd (fst s)) w))"
    and "bad_closes (snd (snd (tts_streaming_engine_stop env s))) =
      bad_closes (close_fd (stdin_fd (fst s)) (close_fd (stdin_fd (fst s)) w))"
    and "process_pid (fst s) \<notin> children (snd (snd (tts_streaming_engine_stop env s)))"
proof -
  obtain e1 w1 where e1: "fst (tts_streaming_engine_set_state TTS_STREAMING_STATE_STOPPING s) = e1"
    and w1: "snd (tts_streaming_engine_set_state TTS_STREAMING_STATE_STOPPING s) = w1"
    and stop: "snd (tts_streaming_engine_stop env s) = tts_streaming_engine_set_state TTS_STREAMING_STATE_IDLE
        (tts_streaming_engine_clear_queue (tts_streaming_engine_cleanup_process env
          (e1\<lparr>should_stop_feeding := True, should_stop_audio := True, feeder_thread := False, audio_thread := False\<rparr>, w1)))"
    by (rule stop_world [OF assms(2)])
  let ?e = "e1\<lparr>should_stop_feeding := True, should_stop_audio := True, feeder_thread := False, audio_thread := False\<rparr>"
  let ?c = "close_fd (stdin_fd (fst s)) (close_fd (stdin_fd (fst s)) w1)"
  have e1': "e1 = (fst s)\<lparr>stream_state := TTS_STREAMING_STATE_STOPPING\<rparr>" using e1 by simp
  have "snd (tts_streaming_engine_cleanup_process env (?e, w1)) = terminate_process env (process_pid (fst s)) ?c"
    using assms(1)
    by (simp add: e1' engine_running_def tts_streaming_engine_cleanup_process_def Let_def)
  moreover have "process_pid (fst s) \<notin> children (terminate_process env (process_pid (fst s)) ?c)"
    using assms(1) by (simp add: terminate_reaps engine_running_def)
  ultimately show thesis
    using that [of w1] w1 by (auto simp: stop)
qed

text \<open>
  C9. Stopping a running engine: its process is no longer a child (it is reaped, by force if it does not
  exit), its end of the pipe is no longer open, the queue is empty and exactly the segments that were queued
  are freed, without a memory fault.
\<close>

theorem stop_releases_everything:
  assumes "stream_inv e" and "stream_state e = TTS_STREAMING_STATE_ACTIVE \<or> stream_state e = TTS_STREAMING_STATE_PAUSED"
    and "store_ok (mem w)" and "holds_segments (mem w) (text_queue e)"
  shows "case tts_streaming_engine_stop env (e, w) of (ok, e', w') \<Rightarrow>
    ok \<and> engine_idle e' \<and> text_queue e' = [] \<and>
    process_pid e \<notin> children w' \<and> stdin_fd e \<notin> open_fds w' \<and>
    store_ok (mem w') \<and> segs (mem w') = (\<lambda>a. if a \<in> set (text_queue e) then None else segs (mem w) a)"
proof -
  obtain ok e' w' where r: "tts_streaming_engine_stop env (e, w) = (ok, e', w')" by (metis prod.collapse)
  have n: "stream_state (fst (e, w)) \<noteq> TTS_STREAMING_STATE_IDLE" using assms(2) by auto
  have run: "engine_running (fst (e, w))" using assms(1,2) by (auto simp: stream_inv_def)
  have "ok" using stop_succeeds [of env "(e, w)"] by (simp add: r)
  moreover have "engine_idle e'" using stream_inv_stop [of "(e, w)" env] assms(1) by (simp add: r)
  moreover have "text_queue e' = []"
    using stop_engine [OF n, of env] stream_inv_range [OF assms(1)] by (simp add: r)
  moreover have "process_pid e \<notin> children w' \<and> stdin_fd e \<notin> open_fds w'"
    by (rule stop_running [OF run n, of env]) (auto simp: r close_fd_def)
  moreover have "mem w' = free_segments (text_queue e) (mem w)"
    using stop_mem [OF n, of env] by (simp add: r)
  moreover have "store_ok (mem w')"
    using \<open>mem w' = _\<close> assms(3,4) by (simp add: store_ok_free_segments)
  ultimately show ?thesis
    using assms(4) by (simp add: r free_segments_effect)
qed

definition sample_world :: stream_world where
  "sample_world = \<lparr>mem = snd (alloc_segment \<lparr>seg_text = Some ''Go.'',
       seg_bounds = \<lparr>rect_x1 = 0, rect_y1 = 0, rect_x2 = 1, rect_y2 = 1\<rparr>, seg_page_number = 0, seg_id = 0,
       seg_type = TTS_CONTENT_NORMAL\<rparr> empty_store),
     open_fds = {9}, bad_closes = [], children = {77}, signals = [], spawned = [], channel_text = [], stream_events = []\<rparr>"

definition sample_engine :: tts_streaming_engine where
  "sample_engine = (tts_streaming_engine_new TTS_ENGINE_PIPER)\<lparr>process_pid := 77, stdin_fd := 9, text_channel := Some 9,
     stream_state := TTS_STREAMING_STATE_ACTIVE, feeder_thread := True, audio_thread := True, text_queue := [1]\<rparr>"

lemma sample_engine_ok:
  "stream_inv sample_engine" "store_ok (mem sample_world)" "holds_segments (mem sample_world) (text_queue sample_engine)"
  "stream_state sample_engine = TTS_STREAMING_STATE_ACTIVE"
  by (simp_all add: sample_engine_def sample_world_def stream_inv_defs tts_streaming_engine_new_def
      store_ok_alloc store_ok_empty) (simp add: holds_segments_def alloc_segment_def empty_store_def)

lemma stop_releases_everything_witness:
  "case tts_streaming_engine_stop \<lparr>exited_early = False, kill_group_ok = True, exited_after_term = False\<rparr>
     (sample_engine, sample_world) of (ok, e', w') \<Rightarrow> ok \<and> engine_idle e' \<and> text_queue e' = [] \<and> 77 \<notin> children w'"
  using stop_releases_everything [OF sample_engine_ok(1) disjI1 [OF sample_engine_ok(4)] sample_engine_ok(2,3),
      of "\<lparr>exited_early = False, kill_group_ok = True, exited_after_term = False\<rparr>"]
  by (auto simp: sample_engine_def)

text \<open>
  Stopping a running engine closes its descriptor a second time: shutting the channel down has closed
  it already, so the second close fails, or hits whatever file another thread has opened in between.
\<close>

theorem stop_closes_twice:
  "stream_inv e \<Longrightarrow> stream_state e = TTS_STREAMING_STATE_ACTIVE \<or> stream_state e = TTS_STREAMING_STATE_PAUSED \<Longrightarrow>
   stdin_fd e \<in> open_fds w \<Longrightarrow>
   bad_closes (snd (snd (tts_streaming_engine_stop env (e, w)))) = bad_closes w @ [stdin_fd e]"
  by (rule stop_running [of "(e, w)" env]) (auto simp: stream_inv_def close_fd_def)

lemma stop_closes_twice_witness:
  "bad_closes (snd (snd (tts_streaming_engine_stop \<lparr>exited_early = True, kill_group_ok = True, exited_after_term = True\<rparr>
     (sample_engine, sample_world)))) = [9]"
  using stop_closes_twice [OF sample_engine_ok(1) disjI1 [OF sample_engine_ok(4)], of sample_world]
  by (simp add: sample_engine_def sample_world_def)

subsection \<open>Feeding\<close>

definition queue_ready :: "store \<Rightarrow> addr list \<Rightarrow> bool" where
  "queue_ready m q \<longleftrightarrow> holds_segments m q \<and> (\<forall>a \<in> set q. \<exists>sg t. segs m a = Some sg \<and> seg_text sg = Some t \<and> segment_text_ok t)"

definition text_at :: "store \<Rightarrow> addr \<Rightarrow> string" where
  "text_at m a = the (seg_text (the (segs m a)))"

definition feeding :: "tts_streaming_engine \<Rightarrow> bool" where
  "feeding e \<longleftrightarrow> stream_inv e \<and> stream_state e = TTS_STREAMING_STATE_ACTIVE \<and> \<not> is_paused e"

lemma feeding_facts:
  "feeding e \<Longrightarrow> \<not> should_stop_feeding e \<and> \<not> is_paused e \<and> text_channel e \<noteq> None"
  by (auto simp: feeding_def stream_inv_defs)

lemma feeding_queue [simp]: "feeding (e\<lparr>text_queue := q\<rparr>) = feeding e"
  by (simp add: feeding_def stream_inv_queue)

lemma feeder_round_ready:
  assumes "feeding e" "text_queue e = a # q" "segs (mem w) a = Some sg" "seg_text sg = Some t" "segment_text_ok t"
  shows "feeder_round env (e, w) = (Feeder_Loops, e\<lparr>text_queue := q\<rparr>,
    (write_text env t w)\<lparr>mem := (mem w)\<lparr>segs := (segs (mem w))(a := None)\<rparr>\<rparr>)"
proof -
  have "mem (write_text env t w) = mem w" by (simp add: write_text_def Let_def)
  then show ?thesis
    using assms feeding_facts [OF assms(1)]
    by (simp add: feeder_round_def read_segment_def Let_def segment_text_ok_def free_allocated)
qed

lemma queue_ready_tail:
  "queue_ready m (a # q) \<Longrightarrow> queue_ready (m\<lparr>segs := (segs m)(a := None)\<rparr>) q"
  by (fastforce simp: queue_ready_def holds_segments_def)

lemma queue_ready_hd:
  "queue_ready m (a # q) \<Longrightarrow> \<exists>sg t. segs m a = Some sg \<and> seg_text sg = Some t \<and> segment_text_ok t \<and> text_at m a = t"
  by (auto simp: queue_ready_def text_at_def)

text \<open>What the channel accepts of one text.\<close>

definition accepted :: "write_env \<Rightarrow> string \<Rightarrow> string list" where
  "accepted env t =
     (if text_status env = G_IO_STATUS_AGAIN then []
      else take (length t - text_refused env) t #
        (if text_status env = G_IO_STATUS_NORMAL \<and> newline_status env = G_IO_STATUS_NORMAL then [[CHR 0x0A]] else []))"

lemma channel_text_write: "channel_text (write_text env t w) = channel_text w @ accepted env t"
  by (simp add: write_text_def accepted_def Let_def)

definition feed_all :: "write_env list \<Rightarrow> stream \<Rightarrow> stream" where
  "feed_all envs s = fold (\<lambda>env s. snd (feeder_round env s)) envs s"

lemma feed_all_effect:
  assumes "feeding e" "queue_ready (mem w) (text_queue e)" "length envs = length (text_queue e)"
  shows "fst (feed_all envs (e, w)) = e\<lparr>text_queue := []\<rparr> \<and>
    channel_text (snd (feed_all envs (e, w))) =
      channel_text w @ concat (map2 (\<lambda>env a. accepted env (text_at (mem w) a)) envs (text_queue e)) \<and>
    mem (snd (feed_all envs (e, w))) = (mem w)\<lparr>segs := (\<lambda>a. if a \<in> set (text_queue e) then None else segs (mem w) a)\<rparr>"
  using assms
proof (induction envs arbitrary: e w)
  case Nil
  then show ?case by (simp add: feed_all_def)
next
  case (Cons env envs)
  then obtain a q where q: "text_queue e = a # q" by (cases "text_queue e") auto
  with Cons.prems obtain sg t where a: "segs (mem w) a = Some sg" "seg_text sg = Some t" "segment_text_ok t"
    "text_at (mem w) a = t" using queue_ready_hd by metis
  let ?m = "(mem w)\<lparr>segs := (segs (mem w))(a := None)\<rparr>"
  define w' where "w' = (write_text env t w)\<lparr>mem := ?m\<rparr>"
  have w': "mem w' = ?m" "channel_text w' = channel_text w @ accepted env t"
    by (simp_all add: w'_def channel_text_write)
  have step: "feed_all (env # envs) (e, w) = feed_all envs (e\<lparr>text_queue := q\<rparr>, w')"
    using feeder_round_ready [OF Cons.prems(1) q a(1-3), of env] by (simp add: feed_all_def w'_def)
  have other: "text_at ?m b = text_at (mem w) b" if "b \<in> set q" for b
    using that Cons.prems(2) q by (auto simp: text_at_def queue_ready_def holds_segments_def)
  have IH: "fst (feed_all envs (e\<lparr>text_queue := q\<rparr>, w')) = e\<lparr>text_queue := []\<rparr> \<and>
    channel_text (snd (feed_all envs (e\<lparr>text_queue := q\<rparr>, w'))) =
      channel_text w @ accepted env t @ concat (map2 (\<lambda>env a. accepted env (text_at ?m a)) envs q) \<and>
    mem (snd (feed_all envs (e\<lparr>text_queue := q\<rparr>, w'))) = ?m\<lparr>segs := (\<lambda>a. if a \<in> set q then None else segs ?m a)\<rparr>"
    using Cons.IH [of "e\<lparr>text_queue := q\<rparr>" w', unfolded w'] Cons.prems q queue_ready_tail [of "mem w" a q]
    by simp
  have "concat (map2 (\<lambda>env a. accepted env (text_at ?m a)) envs q) =
      concat (map2 (\<lambda>env a. accepted env (text_at (mem w) a)) envs q)"
    using other by (intro arg_cong [of _ _ concat]) (auto dest: set_zip_rightD)
  with IH a(4) show ?case by (auto simp: step q fun_eq_iff)
qed

lemma concat_map2_replicate:
  "concat (map2 (\<lambda>env a. accepted env (f a)) (replicate (length q) env) q) = concat (map (\<lambda>a. accepted env (f a)) q)"
  by (induction q) simp_all

definition all_normal :: write_env where
  "all_normal = \<lparr>text_status = G_IO_STATUS_NORMAL, text_refused = 0, newline_status = G_IO_STATUS_NORMAL, flush_status = G_IO_STATUS_NORMAL\<rparr>"

text \<open>
  First in, first out: while the channel takes every text and newline, the feeder sends the queued texts in the
  order of the queue, each followed by a newline and none twice, empties the queue and frees exactly the
  segments it sent, without a memory fault.
\<close>

theorem feeder_sends_in_order:
  assumes "feeding e" "store_ok (mem w)" "queue_ready (mem w) (text_queue e)"
  shows "case feed_all (replicate (length (text_queue e)) all_normal) (e, w) of (e', w') \<Rightarrow>
    text_queue e' = [] \<and>
    channel_text w' = channel_text w @ concat (map (\<lambda>a. [text_at (mem w) a, [CHR 0x0A]]) (text_queue e)) \<and>
    store_ok (mem w') \<and> segs (mem w') = (\<lambda>a. if a \<in> set (text_queue e) then None else segs (mem w) a)"
proof -
  let ?envs = "replicate (length (text_queue e)) all_normal"
  obtain e' w' where r: "feed_all ?envs (e, w) = (e', w')" by (metis prod.collapse)
  have "e' = e\<lparr>text_queue := []\<rparr>"
    "channel_text w' = channel_text w @ concat (map2 (\<lambda>env a. accepted env (text_at (mem w) a)) ?envs (text_queue e))"
    "mem w' = (mem w)\<lparr>segs := (\<lambda>a. if a \<in> set (text_queue e) then None else segs (mem w) a)\<rparr>"
    using feed_all_effect [OF assms(1,3), of ?envs] by (simp_all add: r)
  moreover have "accepted all_normal t = [t, [CHR 0x0A]]" for t by (simp add: accepted_def all_normal_def)
  moreover have "store_ok (mem w')"
    using calculation(3) assms(2) by (simp add: store_ok_def)
  ultimately show ?thesis by (simp add: r concat_map2_replicate)
qed

lemma sample_feeding: "feeding sample_engine" "queue_ready (mem sample_world) (text_queue sample_engine)"
proof -
  have "segment_text_ok ''Go.''"
    using g_utf8_validate_ascii [of "''Go.''"] by (simp add: segment_text_ok_def byte_def)
  then show "queue_ready (mem sample_world) (text_queue sample_engine)"
    using sample_engine_ok(3)
    by (auto simp: queue_ready_def sample_engine_def sample_world_def alloc_segment_def empty_store_def)
  show "feeding sample_engine"
    using sample_engine_ok(1,4)
    by (simp add: feeding_def) (simp add: sample_engine_def tts_streaming_engine_new_def)
qed

lemma feeder_sends_in_order_witness:
  "case feed_all [all_normal] (sample_engine, sample_world) of (e', w') \<Rightarrow>
    text_queue e' = [] \<and> channel_text w' = [''Go.'', [CHR 0x0A]]"
  using feeder_sends_in_order [OF sample_feeding(1) sample_engine_ok(2) sample_feeding(2)]
  by (auto simp: sample_engine_def sample_world_def text_at_def alloc_segment_def empty_store_def)

text \<open>
  Text is lost without a trace when the channel does not take it: whatever the channel answers, the round
  takes the segment off the queue and frees it, so what was refused is never sent again; and a text that was
  refused in part is closed with a newline like a whole one.
\<close>

theorem feeder_drops_unsent_text:
  assumes "feeding e" "text_queue e = a # q" "queue_ready (mem w) (text_queue e)"
  shows "case feeder_round env (e, w) of (outcome, e', w') \<Rightarrow>
    outcome = Feeder_Loops \<and> text_queue e' = q \<and> segs (mem w') a = None \<and>
    channel_text w' = channel_text w @ accepted env (text_at (mem w) a)"
proof -
  obtain sg t where t: "segs (mem w) a = Some sg" "seg_text sg = Some t" "segment_text_ok t" "text_at (mem w) a = t"
    using queue_ready_hd assms(2,3) by metis
  from feeder_round_ready [OF assms(1,2) t(1-3), of env] show ?thesis
    by (simp add: channel_text_write t(4))
qed

lemma feeder_drops_unsent_text_witness:
  "case feeder_round (all_normal\<lparr>text_status := G_IO_STATUS_AGAIN\<rparr>) (sample_engine, sample_world) of (outcome, e', w') \<Rightarrow>
    outcome = Feeder_Loops \<and> text_queue e' = [] \<and> channel_text w' = []"
  "case feeder_round (all_normal\<lparr>text_refused := 1\<rparr>) (sample_engine, sample_world) of (outcome, e', w') \<Rightarrow>
    outcome = Feeder_Loops \<and> text_queue e' = [] \<and> channel_text w' = [''Go'', [CHR 0x0A]]"
  using feeder_drops_unsent_text [OF sample_feeding(1) _ sample_feeding(2), of 1 "[]" "all_normal\<lparr>text_status := G_IO_STATUS_AGAIN\<rparr>"]
    feeder_drops_unsent_text [OF sample_feeding(1) _ sample_feeding(2), of 1 "[]" "all_normal\<lparr>text_refused := 1\<rparr>"]
  by (auto simp: sample_engine_def sample_world_def accepted_def all_normal_def text_at_def alloc_segment_def empty_store_def)

subsection \<open>A pause outlives a restart\<close>

lemma stop_is_paused: "is_paused (fst (snd (tts_streaming_engine_stop env s))) = is_paused (fst s)"
  if "stream_inv (fst s)"
  using that stream_inv_range [OF that]
  by (cases "stream_state (fst s) = TTS_STREAMING_STATE_IDLE") (simp_all add: stop_idle stop_engine)

text \<open>
  A paused engine that is stopped and started again reports itself active but never speaks: the flag of
  the pause is still set, so the feeder waits whatever is queued, and a resume is refused.
\<close>

theorem restart_after_pause_is_mute:
  assumes "stream_inv e" "stream_state e = TTS_STREAMING_STATE_PAUSED"
    and "tts_streaming_engine_start sp (snd (tts_streaming_engine_stop env (e, w))) = (True, e', w')"
  shows "stream_state e' = TTS_STREAMING_STATE_ACTIVE \<and>
    feeder_round wr (e'\<lparr>text_queue := q\<rparr>, w'') = (Feeder_Waits, e'\<lparr>text_queue := q\<rparr>, w'') \<and>
    tts_streaming_engine_resume (e', w') = (False, e', w')"
proof -
  let ?s = "snd (tts_streaming_engine_stop env (e, w))"
  have idle: "stream_state (fst ?s) = TTS_STREAMING_STATE_IDLE"
    using stream_inv_stop [of "(e, w)" env] assms(1) by (simp add: engine_idle_def)
  have "is_paused (fst ?s)"
    using stop_is_paused [of "(e, w)" env] assms(1,2) by (simp add: stream_inv_def)
  then have "is_paused e' \<and> stream_state e' = TTS_STREAMING_STATE_ACTIVE \<and> \<not> should_stop_feeding e'"
    using start_engine(1) [OF assms(3) idle] by (simp add: spawned_engine_def Let_def)
  then show ?thesis by (simp add: feeder_round_def resume_cases split: list.split)
qed

lemma start_succeeds:
  assumes "stream_state (fst s) = TTS_STREAMING_STATE_IDLE" "env_pipe sp \<noteq> None" "0 < env_fork sp"
    and "stream_command sp ((fst s)\<lparr>stream_state := TTS_STREAMING_STATE_STARTING\<rparr>) \<noteq> None"
  shows "fst (tts_streaming_engine_start sp s)"
proof -
  obtain w where "tts_streaming_engine_set_state TTS_STREAMING_STATE_STARTING s =
      ((fst s)\<lparr>stream_state := TTS_STREAMING_STATE_STARTING\<rparr>, w)"
    using set_state_fst by (metis prod.collapse)
  then show ?thesis
    using assms by (auto simp: tts_streaming_engine_start_def tts_streaming_engine_spawn_process_def Let_def)
qed

definition sample_spawn :: spawn_env where
  "sample_spawn = \<lparr>env_pipe = Some (3, 4), env_cwd = ''/home/u'', env_pyproject = False, env_fork = 5\<rparr>"

definition sample_reap :: reap_env where
  "sample_reap = \<lparr>exited_early = True, kill_group_ok = True, exited_after_term = True\<rparr>"

lemma restart_after_pause_is_mute_witness:
  "\<exists>e' w'. tts_streaming_engine_start sample_spawn (snd (tts_streaming_engine_stop sample_reap
      (fst (snd (tts_streaming_engine_pause (sample_engine, sample_world))), sample_world))) = (True, e', w') \<and>
    stream_state e' = TTS_STREAMING_STATE_ACTIVE \<and> tts_streaming_engine_resume (e', w') = (False, e', w')"
proof -
  let ?e = "fst (snd (tts_streaming_engine_pause (sample_engine, sample_world)))"
  let ?s = "snd (tts_streaming_engine_stop sample_reap (?e, sample_world))"
  have inv: "stream_inv ?e" using stream_inv_pause [of "(sample_engine, sample_world)"] sample_engine_ok(1) by simp
  have paused: "stream_state ?e = TTS_STREAMING_STATE_PAUSED"
    using sample_engine_ok(4) by (simp add: pause_cases)
  have "stream_engine_type (fst ?s) = TTS_ENGINE_PIPER" "stream_state (fst ?s) = TTS_STREAMING_STATE_IDLE"
    using paused stream_inv_range [OF inv] sample_engine_ok(4)
    by (simp_all add: stop_engine pause_cases) (simp add: sample_engine_def tts_streaming_engine_new_def)
  then have "fst (tts_streaming_engine_start sample_spawn ?s)"
    by (intro start_succeeds) (simp_all add: sample_spawn_def stream_command_def Let_def)
  then obtain e' w' where r: "tts_streaming_engine_start sample_spawn ?s = (True, e', w')"
    by (metis (full_types) prod.collapse)
  from restart_after_pause_is_mute [OF inv paused r] r show ?thesis by blast
qed

subsection \<open>The queue and rejected segments\<close>

text \<open>
  Queueing a live segment puts it at the end of the queue whether or not the call reports success; the
  call reports success exactly for valid text of 1 to 9999 bytes, so a segment of the longest legal length
  (10000) is queued and reported as refused.
\<close>

theorem queue_segment_always_queues:
  "segs (mem w) a = Some sg \<Longrightarrow>
   tts_streaming_engine_queue_segment (Some a) (e, w) =
     ((case seg_text sg of None \<Rightarrow> False | Some t \<Rightarrow> segment_text_ok t \<and> length t \<noteq> 10000),
      e\<lparr>text_queue := text_queue e @ [a]\<rparr>, w)"
  by (auto simp: tts_streaming_engine_queue_segment_def Let_def read_segment_def segment_text_ok_def split: option.split)

lemma queue_segment_always_queues_witness:
  "tts_streaming_engine_queue_segment (Some 1) (sample_engine\<lparr>text_queue := []\<rparr>, sample_world) =
     (segment_text_ok ''Go.'', sample_engine\<lparr>text_queue := [1]\<rparr>, sample_world)"
  using queue_segment_always_queues [of sample_world 1]
  by (simp add: sample_world_def alloc_segment_def empty_store_def)

end
