(* ===== verification/Feeder_Threads.thy ===== *)
theory Feeder_Threads
  imports Streaming_Engine
begin

text \<open>
  The feeder thread of \<^verbatim>\<open>tts-streaming-engine.c\<close> and the thread that calls the engine, step by
  step: every acquisition and release of \<^verbatim>\<open>queue_mutex\<close>, every wait on and wake-up of
  \<^verbatim>\<open>queue_cond\<close> and every access to the shared flags and the queue is a step of its own, and the
  two threads interleave in any order. There is one calling thread (the user interface), so
  \<^verbatim>\<open>state_mutex\<close>, which the feeder never takes, is never contended and is left out. A wait ends
  only by a signal or a broadcast.
\<close>

subsection \<open>Threads and their steps\<close>

datatype thread_id = Feeder | Caller

datatype engine_call = C_Queue addr | C_Pause | C_Resume | C_Stop

datatype feeder_pc =
    F_Loop  \<comment> \<open>the test of the outer loop\<close>
  | F_Lock  \<comment> \<open>before taking the mutex\<close>
  | F_Test  \<comment> \<open>the test of the waiting loop, mutex held\<close>
  | F_Sleep  \<comment> \<open>about to wait, mutex held\<close>
  | F_Waiting  \<comment> \<open>waiting, mutex released\<close>
  | F_Woken  \<comment> \<open>woken, before taking the mutex again\<close>
  | F_Awake  \<comment> \<open>after the waiting loop, mutex held\<close>
  | F_Work addr  \<comment> \<open>a segment taken, mutex released\<close>
  | F_Exit

datatype caller_pc =
    M_Idle
  | M_Push addr
  | M_Signal addr
  | M_Unlock addr
  | M_Read addr  \<comment> \<open>reading the segment after it was queued, mutex released\<close>
  | M_Pause
  | M_Resume
  | M_Stop_Flag
  | M_Stop_Wake
  | M_Join

record threads =
  queue_mutex :: "thread_id option"
  shared_queue :: "addr list"
  stop_flag :: bool
  pause_flag :: bool
  fpc :: feeder_pc
  mpc :: caller_pc
  calls :: "engine_call list"
  live :: "addr set"
  bad_reads :: "(thread_id \<times> addr) list"
  pushed :: "addr list"
  taken :: "addr list"

definition wake :: "threads \<Rightarrow> threads" where
  "wake s = (if fpc s = F_Waiting then s\<lparr>fpc := F_Woken\<rparr> else s)"

definition touch :: "thread_id \<Rightarrow> addr \<Rightarrow> threads \<Rightarrow> threads" where
  "touch t a s = (if a \<in> live s then s else s\<lparr>bad_reads := bad_reads s @ [(t, a)]\<rparr>)"

definition feeder_step :: "threads \<Rightarrow> threads option" where
  "feeder_step s =
     (case fpc s of
        F_Loop \<Rightarrow> Some (s\<lparr>fpc := if stop_flag s then F_Exit else F_Lock\<rparr>)
      | F_Lock \<Rightarrow> if queue_mutex s = None then Some (s\<lparr>queue_mutex := Some Feeder, fpc := F_Test\<rparr>) else None
      | F_Test \<Rightarrow>
          Some (s\<lparr>fpc := if (shared_queue s = [] \<or> pause_flag s) \<and> \<not> stop_flag s then F_Sleep else F_Awake\<rparr>)
      | F_Sleep \<Rightarrow> Some (s\<lparr>queue_mutex := None, fpc := F_Waiting\<rparr>)
      | F_Waiting \<Rightarrow> None
      | F_Woken \<Rightarrow> if queue_mutex s = None then Some (s\<lparr>queue_mutex := Some Feeder, fpc := F_Test\<rparr>) else None
      | F_Awake \<Rightarrow>
          if stop_flag s then Some (s\<lparr>queue_mutex := None, fpc := F_Exit\<rparr>)
          else (case shared_queue s of
                  [] \<Rightarrow> Some (s\<lparr>queue_mutex := None, fpc := F_Loop\<rparr>)
                | a # q \<Rightarrow> Some (s\<lparr>queue_mutex := None, shared_queue := q, taken := taken s @ [a], fpc := F_Work a\<rparr>))
      | F_Work a \<Rightarrow> Some ((touch Feeder a s)\<lparr>live := live s - {a}, fpc := F_Loop\<rparr>)
      | F_Exit \<Rightarrow> None)"

definition caller_step :: "threads \<Rightarrow> threads option" where
  "caller_step s =
     (case mpc s of
        M_Idle \<Rightarrow>
          (case calls s of
             [] \<Rightarrow> None
           | C_Queue a # cs \<Rightarrow>
               if queue_mutex s = None then Some (s\<lparr>queue_mutex := Some Caller, calls := cs, mpc := M_Push a\<rparr>) else None
           | C_Pause # cs \<Rightarrow>
               if queue_mutex s = None then Some (s\<lparr>queue_mutex := Some Caller, calls := cs, mpc := M_Pause\<rparr>) else None
           | C_Resume # cs \<Rightarrow>
               if queue_mutex s = None then Some (s\<lparr>queue_mutex := Some Caller, calls := cs, mpc := M_Resume\<rparr>) else None
           | C_Stop # cs \<Rightarrow> Some (s\<lparr>calls := cs, mpc := M_Stop_Flag\<rparr>))
      | M_Push a \<Rightarrow> Some (s\<lparr>shared_queue := shared_queue s @ [a], pushed := pushed s @ [a], mpc := M_Signal a\<rparr>)
      | M_Signal a \<Rightarrow> Some ((wake s)\<lparr>mpc := M_Unlock a\<rparr>)
      | M_Unlock a \<Rightarrow> Some (s\<lparr>queue_mutex := None, mpc := M_Read a\<rparr>)
      | M_Read a \<Rightarrow> Some ((touch Caller a s)\<lparr>mpc := M_Idle\<rparr>)
      | M_Pause \<Rightarrow> Some (s\<lparr>pause_flag := True, queue_mutex := None, mpc := M_Idle\<rparr>)
      | M_Resume \<Rightarrow> Some ((wake s)\<lparr>pause_flag := False, queue_mutex := None, mpc := M_Idle\<rparr>)
      | M_Stop_Flag \<Rightarrow> Some (s\<lparr>stop_flag := True, mpc := M_Stop_Wake\<rparr>)
      | M_Stop_Wake \<Rightarrow> Some ((wake s)\<lparr>mpc := M_Join\<rparr>)
      | M_Join \<Rightarrow> if fpc s = F_Exit then Some (s\<lparr>mpc := M_Idle\<rparr>) else None)"

definition threads_init :: "engine_call list \<Rightarrow> addr set \<Rightarrow> threads" where
  "threads_init cs l =
     \<lparr>queue_mutex = None, shared_queue = [], stop_flag = False, pause_flag = False, fpc = F_Loop, mpc = M_Idle,
      calls = cs, live = l, bad_reads = [], pushed = [], taken = []\<rparr>"

inductive step :: "threads \<Rightarrow> threads \<Rightarrow> bool" where
  step_feeder: "feeder_step s = Some s' \<Longrightarrow> step s s'"
| step_caller: "caller_step s = Some s' \<Longrightarrow> step s s'"

inductive reachable :: "engine_call list \<Rightarrow> addr set \<Rightarrow> threads \<Rightarrow> bool" for cs l where
  reachable_init: "reachable cs l (threads_init cs l)"
| reachable_step: "reachable cs l s \<Longrightarrow> step s s' \<Longrightarrow> reachable cs l s'"

inductive_simps step_iff: "step s s'"

text \<open>Running a schedule, to exhibit interleavings.\<close>

fun run_schedule :: "thread_id list \<Rightarrow> threads \<Rightarrow> threads option" where
  "run_schedule [] s = Some s"
| "run_schedule (Feeder # ts) s = (case feeder_step s of None \<Rightarrow> None | Some s' \<Rightarrow> run_schedule ts s')"
| "run_schedule (Caller # ts) s = (case caller_step s of None \<Rightarrow> None | Some s' \<Rightarrow> run_schedule ts s')"

lemma run_schedule_reachable: "reachable cs l s \<Longrightarrow> run_schedule ts s = Some s' \<Longrightarrow> reachable cs l s'"
  by (induction ts s rule: run_schedule.induct)
    (auto split: option.splits intro: reachable_step step_feeder step_caller)

subsection \<open>The invariant\<close>

definition feeder_holds :: "feeder_pc \<Rightarrow> bool" where
  "feeder_holds p \<longleftrightarrow> p = F_Test \<or> p = F_Sleep \<or> p = F_Awake"

definition caller_holds :: "caller_pc \<Rightarrow> bool" where
  "caller_holds p \<longleftrightarrow> (case p of M_Push _ \<Rightarrow> True | M_Signal _ \<Rightarrow> True | M_Unlock _ \<Rightarrow> True
     | M_Pause \<Rightarrow> True | M_Resume \<Rightarrow> True | _ \<Rightarrow> False)"

definition threads_inv :: "threads \<Rightarrow> bool" where
  "threads_inv s \<longleftrightarrow>
     (queue_mutex s = Some Feeder \<longleftrightarrow> feeder_holds (fpc s)) \<and>
     (queue_mutex s = Some Caller \<longleftrightarrow> caller_holds (mpc s)) \<and>
     pushed s = taken s @ shared_queue s \<and>
     (fpc s = F_Awake \<and> \<not> stop_flag s \<longrightarrow> shared_queue s \<noteq> [] \<and> \<not> pause_flag s) \<and>
     (fpc s = F_Exit \<longrightarrow> stop_flag s) \<and>
     (mpc s = M_Stop_Wake \<or> mpc s = M_Join \<longrightarrow> stop_flag s)"

lemmas threads_defs = threads_inv_def feeder_holds_def caller_holds_def wake_def touch_def

lemma threads_inv_init: "threads_inv (threads_init cs l)"
  by (simp add: threads_defs threads_init_def)

lemma threads_inv_feeder:
  assumes i: "threads_inv s" and st: "feeder_step s = Some s'"
  shows "threads_inv s'"
proof (cases "fpc s")
  case F_Loop
  then have "s' = s\<lparr>fpc := if stop_flag s then F_Exit else F_Lock\<rparr>" using st by (simp add: feeder_step_def)
  with i F_Loop show ?thesis by (auto simp: threads_inv_def feeder_holds_def)
next
  case F_Lock
  then have "queue_mutex s = None" "s' = s\<lparr>queue_mutex := Some Feeder, fpc := F_Test\<rparr>"
    using st by (simp_all add: feeder_step_def split: if_splits)
  with i F_Lock show ?thesis by (auto simp: threads_inv_def feeder_holds_def)
next
  case F_Woken
  then have "queue_mutex s = None" "s' = s\<lparr>queue_mutex := Some Feeder, fpc := F_Test\<rparr>"
    using st by (simp_all add: feeder_step_def split: if_splits)
  with i F_Woken show ?thesis by (auto simp: threads_inv_def feeder_holds_def)
next
  case F_Test
  then have "s' = s\<lparr>fpc := if (shared_queue s = [] \<or> pause_flag s) \<and> \<not> stop_flag s then F_Sleep else F_Awake\<rparr>"
    using st by (simp add: feeder_step_def)
  with i F_Test show ?thesis
    by (cases "(shared_queue s = [] \<or> pause_flag s) \<and> \<not> stop_flag s") (auto simp: threads_inv_def feeder_holds_def)
next
  case F_Sleep
  then have "s' = s\<lparr>queue_mutex := None, fpc := F_Waiting\<rparr>" using st by (simp add: feeder_step_def)
  with i F_Sleep show ?thesis by (auto simp: threads_inv_def feeder_holds_def)
next
  case F_Awake
  show ?thesis
  proof (cases "stop_flag s")
    case True
    then have "s' = s\<lparr>queue_mutex := None, fpc := F_Exit\<rparr>" using st F_Awake by (simp add: feeder_step_def)
    with i F_Awake True show ?thesis by (auto simp: threads_inv_def feeder_holds_def)
  next
    case False
    then obtain a q where q: "shared_queue s = a # q"
      using i F_Awake by (cases "shared_queue s") (simp_all add: threads_inv_def)
    then have "s' = s\<lparr>queue_mutex := None, shared_queue := q, taken := taken s @ [a], fpc := F_Work a\<rparr>"
      using st F_Awake False by (simp add: feeder_step_def)
    with i F_Awake q show ?thesis by (auto simp: threads_inv_def feeder_holds_def)
  qed
next
  case (F_Work a)
  then have "s' = (touch Feeder a s)\<lparr>live := live s - {a}, fpc := F_Loop\<rparr>" using st by (simp add: feeder_step_def)
  with i F_Work show ?thesis by (simp add: threads_inv_def feeder_holds_def touch_def)
qed (use st in \<open>simp_all add: feeder_step_def\<close>)

lemma threads_inv_wake: "threads_inv s \<Longrightarrow> threads_inv (wake s)"
  by (simp add: wake_def threads_inv_def feeder_holds_def)

lemma wake_fields [simp]:
  "queue_mutex (wake s) = queue_mutex s" "shared_queue (wake s) = shared_queue s" "stop_flag (wake s) = stop_flag s"
  "pause_flag (wake s) = pause_flag s" "mpc (wake s) = mpc s" "calls (wake s) = calls s" "taken (wake s) = taken s"
  "pushed (wake s) = pushed s"
  by (simp_all add: wake_def)

lemma threads_inv_caller:
  assumes i: "threads_inv s" and st: "caller_step s = Some s'"
  shows "threads_inv s'"
proof (cases "mpc s")
  case M_Idle
  then show ?thesis
  proof (cases "calls s")
    case (Cons c cs)
    have lock: "threads_inv (s\<lparr>queue_mutex := Some Caller, calls := cs, mpc := p\<rparr>)"
      if "queue_mutex s = None" "caller_holds p" for p
      using i M_Idle that by (auto simp: threads_inv_def caller_holds_def split: caller_pc.splits)
    show ?thesis
    proof (cases c)
      case C_Stop
      then have "s' = s\<lparr>calls := cs, mpc := M_Stop_Flag\<rparr>" using st M_Idle Cons by (simp add: caller_step_def)
      then show ?thesis using i M_Idle by (simp add: threads_inv_def caller_holds_def)
    qed (use st M_Idle Cons lock in \<open>auto simp: caller_step_def caller_holds_def split: if_splits\<close>)
  qed (use st in \<open>simp add: caller_step_def\<close>)
next
  case (M_Push a)
  then have "s' = s\<lparr>shared_queue := shared_queue s @ [a], pushed := pushed s @ [a], mpc := M_Signal a\<rparr>"
    using st by (simp add: caller_step_def)
  with i M_Push show ?thesis by (auto simp: threads_inv_def caller_holds_def)
next
  case (M_Signal a)
  then have "s' = (wake s)\<lparr>mpc := M_Unlock a\<rparr>" using st by (simp add: caller_step_def)
  with threads_inv_wake [OF i] M_Signal show ?thesis by (auto simp: threads_inv_def caller_holds_def)
next
  case (M_Unlock a)
  then have "s' = s\<lparr>queue_mutex := None, mpc := M_Read a\<rparr>" using st by (simp add: caller_step_def)
  with i M_Unlock show ?thesis by (auto simp: threads_inv_def caller_holds_def)
next
  case (M_Read a)
  then have "s' = (touch Caller a s)\<lparr>mpc := M_Idle\<rparr>" using st by (simp add: caller_step_def)
  with i M_Read show ?thesis by (simp add: threads_inv_def caller_holds_def touch_def)
next
  case M_Pause
  then have "s' = s\<lparr>pause_flag := True, queue_mutex := None, mpc := M_Idle\<rparr>" using st by (simp add: caller_step_def)
  with i M_Pause show ?thesis by (auto simp: threads_inv_def caller_holds_def feeder_holds_def)
next
  case M_Resume
  then have "s' = (wake s)\<lparr>pause_flag := False, queue_mutex := None, mpc := M_Idle\<rparr>"
    using st by (simp add: caller_step_def)
  with threads_inv_wake [OF i] M_Resume show ?thesis by (auto simp: threads_inv_def caller_holds_def)
next
  case M_Stop_Flag
  then have "s' = s\<lparr>stop_flag := True, mpc := M_Stop_Wake\<rparr>" using st by (simp add: caller_step_def)
  with i M_Stop_Flag show ?thesis by (auto simp: threads_inv_def caller_holds_def)
next
  case M_Stop_Wake
  then have "s' = (wake s)\<lparr>mpc := M_Join\<rparr>" using st by (simp add: caller_step_def)
  with threads_inv_wake [OF i] M_Stop_Wake show ?thesis by (auto simp: threads_inv_def caller_holds_def)
next
  case M_Join
  then have "s' = s\<lparr>mpc := M_Idle\<rparr>" using st by (simp add: caller_step_def split: if_splits)
  with i M_Join show ?thesis by (auto simp: threads_inv_def caller_holds_def)
qed

lemma threads_inv_reachable: "reachable cs l s \<Longrightarrow> threads_inv s"
  by (induction rule: reachable.induct)
    (auto simp: threads_inv_init step_iff intro: threads_inv_feeder threads_inv_caller)

subsection \<open>Properties of every interleaving\<close>

lemma feeder_takes:
  assumes i: "threads_inv s" and st: "step s s'" and new: "taken s' \<noteq> taken s"
  shows "fpc s = F_Awake \<and> \<not> stop_flag s \<and> \<not> pause_flag s"
proof -
  from st consider "feeder_step s = Some s'" | "caller_step s = Some s'" by (auto simp: step_iff)
  then show ?thesis
  proof cases
    case 1
    have "fpc s = F_Awake"
      using 1 new by (cases "fpc s") (auto simp: feeder_step_def touch_def split: if_splits)
    then show ?thesis
      using 1 new i by (auto simp: feeder_step_def threads_inv_def split: if_splits)
  next
    case 2
    have "taken s' = taken s"
      using 2 by (cases "mpc s") (auto simp: caller_step_def touch_def split: if_splits list.splits engine_call.splits)
    with new show ?thesis by simp
  qed
qed



definition stuck :: "threads \<Rightarrow> bool" where
  "stuck s \<longleftrightarrow> feeder_step s = None \<and> caller_step s = None"

definition lost_wakeup :: "threads \<Rightarrow> bool" where
  "lost_wakeup s \<longleftrightarrow> fpc s = F_Waiting \<and> mpc s = M_Join \<and> stop_flag s"

lemma stuck_feeder: "feeder_step s = None \<Longrightarrow> fpc s = F_Waiting \<or> fpc s = F_Exit \<or> queue_mutex s \<noteq> None"
  by (cases "fpc s") (auto simp: feeder_step_def split: if_splits list.splits)

lemma stuck_caller:
  "caller_step s = None \<Longrightarrow> (mpc s = M_Idle \<and> (calls s = [] \<or> queue_mutex s \<noteq> None)) \<or> (mpc s = M_Join \<and> fpc s \<noteq> F_Exit)"
  by (cases "mpc s") (auto simp: caller_step_def split: if_splits list.splits engine_call.splits)

lemma holder_moves:
  "threads_inv s \<Longrightarrow> queue_mutex s \<noteq> None \<Longrightarrow> \<not> stuck s"
proof -
  assume i: "threads_inv s" and m: "queue_mutex s \<noteq> None"
  then obtain t where t: "queue_mutex s = Some t" by auto
  show "\<not> stuck s"
  proof (cases t)
    case Feeder
    then have "feeder_holds (fpc s)" using i t by (simp add: threads_inv_def)
    then show ?thesis by (auto simp: stuck_def feeder_step_def feeder_holds_def split: list.split)
  next
    case Caller
    then have "caller_holds (mpc s)" using i t by (simp add: threads_inv_def)
    then show ?thesis by (auto simp: stuck_def caller_step_def caller_holds_def split: caller_pc.splits)
  qed
qed


definition run_to :: "engine_call list \<Rightarrow> addr set \<Rightarrow> thread_id list \<Rightarrow> threads" where
  "run_to cs l ts = the (run_schedule ts (threads_init cs l))"

lemma run_to_reachable: "run_schedule ts (threads_init cs l) \<noteq> None \<Longrightarrow> reachable cs l (run_to cs l ts)"
  by (auto simp: run_to_def intro: run_schedule_reachable reachable_init)

lemmas run_simps = run_to_def threads_init_def feeder_step_def caller_step_def wake_def touch_def

definition idle_schedule :: "thread_id list" where
  "idle_schedule = [Feeder, Feeder, Feeder, Feeder]"

lemma idle_run: "run_schedule idle_schedule (threads_init [] {}) \<noteq> None" "stuck (run_to [] {} idle_schedule)"
  by (simp_all add: idle_schedule_def run_simps stuck_def)


definition lost_wakeup_schedule :: "thread_id list" where
  "lost_wakeup_schedule = [Feeder, Feeder, Feeder, Caller, Caller, Caller, Feeder]"

text \<open>
  The lost wake-up happens: when the stop flag is set and broadcast between the feeder's test and its
  wait, which \<^verbatim>\<open>tts_streaming_engine_stop\<close> allows because it does not take the queue mutex,
  a single call of stop on an engine with an empty queue never returns.
\<close>

theorem stop_can_deadlock:
  "\<exists>s. reachable [C_Stop] {} s \<and> lost_wakeup s \<and> stuck s"
proof (intro exI conjI)
  let ?s = "run_to [C_Stop] {} lost_wakeup_schedule"
  show "reachable [C_Stop] {} ?s"
    by (rule run_to_reachable) (simp add: lost_wakeup_schedule_def run_simps)
  show "lost_wakeup ?s" "stuck ?s"
    by (simp_all add: lost_wakeup_schedule_def run_simps lost_wakeup_def stuck_def)
qed

definition early_free_schedule :: "thread_id list" where
  "early_free_schedule = [Caller, Caller, Caller, Caller, Feeder, Feeder, Feeder, Feeder, Feeder, Caller]"

text \<open>
  Queueing one live segment can end in a read of freed memory: the caller looks at the text after it
  has released the mutex, when the feeder may have taken, spoken and freed the segment.
\<close>

theorem queue_segment_reads_freed_segment:
  "\<exists>s. reachable [C_Queue 1] {1} s \<and> bad_reads s = [(Caller, 1)]"
proof (intro exI conjI)
  let ?s = "run_to [C_Queue 1] {1} early_free_schedule"
  show "reachable [C_Queue 1] {1} ?s"
    by (rule run_to_reachable) (simp add: early_free_schedule_def run_simps)
  show "bad_reads ?s = [(Caller, 1)]"
    by (simp add: early_free_schedule_def run_simps)
qed

end
