(* ===== verification/Feeder_Progress.thy ===== *)
theory Feeder_Progress
  imports Feeder_Threads
begin

text \<open>
  Progress of the feeder thread beside its caller: every run of the two threads ends, after a number of
  steps that grows with the number of calls, and when the engine is neither stopped nor left paused everything that
  was queued has then been taken, in the order in which it was queued.
\<close>

subsection \<open>Every run ends\<close>

text \<open>
  What the threads can still do, as a number: each position of a thread counts what it leads to without another
  call, a queued segment counts one more round of the feeder, and a step that may wake the feeder pays for that.
\<close>

fun feeder_weight :: "feeder_pc \<Rightarrow> nat" where
  "feeder_weight F_Exit = 0"
| "feeder_weight F_Waiting = 1"
| "feeder_weight F_Sleep = 2"
| "feeder_weight F_Awake = 3"
| "feeder_weight F_Test = 4"
| "feeder_weight F_Lock = 5"
| "feeder_weight F_Woken = 5"
| "feeder_weight F_Loop = 6"
| "feeder_weight (F_Work a) = 7"

fun caller_weight :: "caller_pc \<Rightarrow> nat" where
  "caller_weight M_Idle = 0"
| "caller_weight (M_Push a) = 13"
| "caller_weight (M_Signal a) = 7"
| "caller_weight (M_Unlock a) = 2"
| "caller_weight (M_Read a) = 1"
| "caller_weight M_Pause = 1"
| "caller_weight M_Resume = 5"
| "caller_weight M_Stop_Flag = 7"
| "caller_weight M_Stop_Wake = 6"
| "caller_weight M_Join = 1"

fun call_weight :: "engine_call \<Rightarrow> nat" where
  "call_weight (C_Queue a) = 14"
| "call_weight C_Pause = 2"
| "call_weight C_Resume = 6"
| "call_weight C_Stop = 8"

definition work_left :: "threads \<Rightarrow> nat" where
  "work_left s = feeder_weight (fpc s) + caller_weight (mpc s) + 5 * length (shared_queue s) + sum_list (map call_weight (calls s))"

text \<open>A feeder that has come through the waiting loop finds a segment or the stop flag.\<close>

definition awake_for_cause :: "threads \<Rightarrow> bool" where
  "awake_for_cause s \<longleftrightarrow> (fpc s = F_Awake \<longrightarrow> shared_queue s \<noteq> [] \<or> stop_flag s)"

lemma fpc_wake [simp]: "fpc (wake s) = (if fpc s = F_Waiting then F_Woken else fpc s)"
  by (simp add: wake_def)

lemma touch_fields [simp]:
  "shared_queue (touch t a s) = shared_queue s" "calls (touch t a s) = calls s" "mpc (touch t a s) = mpc s"
  "stop_flag (touch t a s) = stop_flag s" "pause_flag (touch t a s) = pause_flag s" "fpc (touch t a s) = fpc s"
  "taken (touch t a s) = taken s" "pushed (touch t a s) = pushed s"
  by (simp_all add: touch_def)

lemma feeder_step_progress:
  assumes "awake_for_cause s" "feeder_step s = Some s'"
  shows "work_left s' < work_left s \<and> awake_for_cause s'"
  using assms
  by (cases "fpc s") (auto simp: feeder_step_def work_left_def awake_for_cause_def split: if_splits list.splits)

lemma caller_step_progress:
  assumes "awake_for_cause s" "caller_step s = Some s'"
  shows "work_left s' < work_left s \<and> awake_for_cause s'"
  using assms
  by (cases "mpc s")
    (auto simp: caller_step_def work_left_def awake_for_cause_def split: if_splits list.splits engine_call.splits)

lemma run_progress:
  "awake_for_cause s \<Longrightarrow> run_schedule ts s = Some s' \<Longrightarrow> length ts + work_left s' \<le> work_left s"
proof (induction ts s rule: run_schedule.induct)
  case (2 ts s)
  then obtain s1 where "feeder_step s = Some s1" "run_schedule ts s1 = Some s'" by (auto split: option.splits)
  then show ?case using 2(1) [of s1] feeder_step_progress [OF 2(2)] by fastforce
next
  case (3 ts s)
  then obtain s1 where "caller_step s = Some s1" "run_schedule ts s1 = Some s'" by (auto split: option.splits)
  then show ?case using 3(1) [of s1] caller_step_progress [OF 3(2)] by fastforce
qed simp

lemma sum_call_weights: "sum_list (map call_weight cs) \<le> 14 * length cs"
proof (induction cs)
  case (Cons c cs)
  have "call_weight c \<le> 14" by (cases c) simp_all
  then show ?case using Cons by simp
qed simp

lemma work_left_init: "work_left (threads_init cs l) \<le> 14 * length cs + 6"
  using sum_call_weights [of cs] by (simp add: work_left_def threads_init_def)



subsection \<open>Everything queued is taken\<close>

text \<open>The segments that calls queue, and whether the engine is paused after them.\<close>

fun queued :: "engine_call list \<Rightarrow> addr list" where
  "queued [] = []"
| "queued (C_Queue a # cs) = a # queued cs"
| "queued (c # cs) = queued cs"

fun paused_after :: "bool \<Rightarrow> engine_call list \<Rightarrow> bool" where
  "paused_after p [] = p"
| "paused_after p (C_Pause # cs) = paused_after True cs"
| "paused_after p (C_Resume # cs) = paused_after False cs"
| "paused_after p (c # cs) = paused_after p cs"

text \<open>The call in progress, as far as it has not yet had its effect.\<close>

definition to_push :: "caller_pc \<Rightarrow> addr list" where
  "to_push p = (case p of M_Push a \<Rightarrow> [a] | _ \<Rightarrow> [])"

definition pause_to_be :: "threads \<Rightarrow> bool" where
  "pause_to_be s = (case mpc s of M_Pause \<Rightarrow> True | M_Resume \<Rightarrow> False | _ \<Rightarrow> pause_flag s)"

definition not_stopping :: "threads \<Rightarrow> bool" where
  "not_stopping s \<longleftrightarrow> \<not> stop_flag s \<and> fpc s \<noteq> F_Exit \<and> mpc s \<noteq> M_Stop_Flag \<and> mpc s \<noteq> M_Stop_Wake \<and> mpc s \<noteq> M_Join \<and>
     C_Stop \<notin> set (calls s)"

definition sleeps_for_cause :: "threads \<Rightarrow> bool" where
  "sleeps_for_cause s \<longleftrightarrow> (fpc s = F_Sleep \<or> fpc s = F_Waiting \<longrightarrow>
     shared_queue s = [] \<or> pause_flag s \<or> (\<exists>a. mpc s = M_Signal a))"

definition progress_inv :: "engine_call list \<Rightarrow> threads \<Rightarrow> bool" where
  "progress_inv cs s \<longleftrightarrow> not_stopping s \<and> sleeps_for_cause s \<and> pushed s @ to_push (mpc s) @ queued (calls s) = queued cs \<and>
     paused_after (pause_to_be s) (calls s) = paused_after False cs"

lemma feeder_fields:
  assumes "feeder_step s = Some s'"
  shows "calls s' = calls s" "mpc s' = mpc s" "stop_flag s' = stop_flag s" "pause_flag s' = pause_flag s" "pushed s' = pushed s"
  using assms by (auto simp: feeder_step_def split: feeder_pc.splits if_splits list.splits)

lemma feeder_keeps_progress:
  assumes "progress_inv cs s" "feeder_step s = Some s'"
  shows "progress_inv cs s'"
proof -
  have n: "\<not> stop_flag s" "fpc s \<noteq> F_Exit" "sleeps_for_cause s" using assms(1) by (simp_all add: progress_inv_def not_stopping_def)
  have "fpc s' \<noteq> F_Exit" "sleeps_for_cause s'"
    using n assms(2) by (auto simp: feeder_step_def sleeps_for_cause_def split: feeder_pc.splits if_splits list.splits)
  moreover have "pause_to_be s' = pause_to_be s" unfolding pause_to_be_def feeder_fields [OF assms(2)] ..
  ultimately show ?thesis
    using assms(1) by (simp add: progress_inv_def not_stopping_def feeder_fields [OF assms(2)])
qed

lemma caller_keeps_pushes:
  "caller_step s = Some s' \<Longrightarrow> pushed s' @ to_push (mpc s') @ queued (calls s') = pushed s @ to_push (mpc s) @ queued (calls s)"
  by (auto simp: caller_step_def to_push_def split: caller_pc.splits if_splits list.splits engine_call.splits)

lemma caller_keeps_pauses:
  "caller_step s = Some s' \<Longrightarrow> paused_after (pause_to_be s') (calls s') = paused_after (pause_to_be s) (calls s)"
  by (auto simp: caller_step_def pause_to_be_def split: caller_pc.splits if_splits list.splits engine_call.splits)

lemma caller_keeps_running: "not_stopping s \<Longrightarrow> caller_step s = Some s' \<Longrightarrow> not_stopping s'"
  by (auto simp: caller_step_def not_stopping_def split: caller_pc.splits if_splits list.splits engine_call.splits)

lemma caller_keeps_sleep:
  assumes "caller_step s = Some s'" "sleeps_for_cause s" "not_stopping s" "caller_holds (mpc s) \<Longrightarrow> fpc s \<noteq> F_Sleep"
  shows "sleeps_for_cause s'"
  using assms
  by (auto simp: caller_step_def sleeps_for_cause_def not_stopping_def caller_holds_def
      split: caller_pc.splits if_splits list.splits engine_call.splits)

lemma caller_keeps_progress:
  assumes "threads_inv s" "progress_inv cs s" "caller_step s = Some s'"
  shows "progress_inv cs s'"
proof -
  have "caller_holds (mpc s) \<Longrightarrow> fpc s \<noteq> F_Sleep" using assms(1) by (auto simp: threads_inv_def feeder_holds_def)
  then show ?thesis
    using assms(2) caller_keeps_pushes [OF assms(3)] caller_keeps_pauses [OF assms(3)] caller_keeps_running [OF _ assms(3)]
      caller_keeps_sleep [OF assms(3)]
    by (simp add: progress_inv_def)
qed

lemma progress_inv_reachable: "reachable cs l s \<Longrightarrow> C_Stop \<notin> set cs \<Longrightarrow> progress_inv cs s"
proof (induction rule: reachable.induct)
  case reachable_init
  then show ?case
    by (simp add: progress_inv_def not_stopping_def sleeps_for_cause_def pause_to_be_def to_push_def threads_init_def)
next
  case (reachable_step s s')
  then have "progress_inv cs s" by blast
  then show ?case
    using feeder_keeps_progress [of cs s s'] caller_keeps_progress [OF threads_inv_reachable [OF reachable_step(1)], of cs s']
      reachable_step(2)
    unfolding step_iff by blast
qed

text \<open>
  C12. Nothing queued is forgotten: when calls without a stop have come to their end, and the engine is not left paused by
  them, the feeder has taken exactly the segments that were queued, in their order. So an engine that falls
  silent without having been paused or stopped has nothing left to say.
\<close>

theorem queued_segments_are_taken:
  assumes "run_schedule ts (threads_init cs l) = Some s" "stuck s" "C_Stop \<notin> set cs" "\<not> paused_after False cs"
  shows "taken s = queued cs"
proof -
  have r: "reachable cs l s" using run_schedule_reachable [OF reachable_init assms(1)] .
  note i = threads_inv_reachable [OF r] and p = progress_inv_reachable [OF r assms(3)]
  have "queue_mutex s = None" using holder_moves [OF i] assms(2) by blast
  with assms(2) stuck_feeder [of s] stuck_caller [of s] p
  have h: "fpc s = F_Waiting" "mpc s = M_Idle" "calls s = []"
    by (auto simp: stuck_def progress_inv_def not_stopping_def)
  then have "\<not> pause_flag s" "pushed s = queued cs"
    using p assms(4) by (simp_all add: progress_inv_def pause_to_be_def to_push_def)
  moreover have "shared_queue s = []" using p h calculation by (auto simp: progress_inv_def sleeps_for_cause_def)
  ultimately show ?thesis using i by (simp add: threads_inv_def)
qed

definition pause_calls :: "engine_call list" where
  "pause_calls = [C_Pause, C_Queue 1, C_Resume]"

definition pause_schedule :: "thread_id list" where
  "pause_schedule = replicate 9 Caller @ replicate 9 Feeder"

lemma queued_segments_are_taken_witness: "taken (run_to pause_calls {1} pause_schedule) = [1]"
proof -
  have r: "run_schedule pause_schedule (threads_init pause_calls {1}) = Some (run_to pause_calls {1} pause_schedule)"
    "stuck (run_to pause_calls {1} pause_schedule)"
    by (simp_all add: pause_schedule_def pause_calls_def run_simps stuck_def numeral_eq_Suc)
  show ?thesis using queued_segments_are_taken [OF r] by (simp add: pause_calls_def)
qed

end
