(* ===== verification/Feeder_Linear.thy ===== *)
theory Feeder_Linear
  imports Feeder_Progress
begin

text \<open>
  The two views of the streaming engine agree. \<^verbatim>\<open>Streaming_Engine\<close> runs every call and every round of the
  feeder as one operation; \<^verbatim>\<open>Feeder_Threads\<close> interleaves their single steps. Here every interleaving without
  a stop is matched by a sequence of whole operations: a call takes effect where it changes the queue or
  the flag, a round of the feeder where it takes a segment.
\<close>

subsection \<open>Where the operations take effect\<close>

fun op_of_call :: "reap_env \<Rightarrow> engine_call \<Rightarrow> stream_op" where
  "op_of_call env (C_Queue a) = Op_Queue (Some a)"
| "op_of_call env C_Pause = Op_Pause"
| "op_of_call env C_Resume = Op_Resume"
| "op_of_call env C_Stop = Op_Stop env"

definition effect_of :: "thread_id \<Rightarrow> threads \<Rightarrow> stream_op list" where
  "effect_of t s =
     (case t of
        Feeder \<Rightarrow> if fpc s = F_Awake then [Op_Feed all_normal] else []
      | Caller \<Rightarrow> (case mpc s of M_Push a \<Rightarrow> [Op_Queue (Some a)] | M_Pause \<Rightarrow> [Op_Pause] | M_Resume \<Rightarrow> [Op_Resume] | _ \<Rightarrow> []))"

text \<open>The calls that have not taken effect yet.\<close>

definition to_do :: "threads \<Rightarrow> engine_call list" where
  "to_do s = (case mpc s of M_Push a \<Rightarrow> [C_Queue a] | M_Pause \<Rightarrow> [C_Pause] | M_Resume \<Rightarrow> [C_Resume] | _ \<Rightarrow> []) @ calls s"

definition sent_of :: "stream_world \<Rightarrow> addr list \<Rightarrow> string list" where
  "sent_of w as = concat (map (\<lambda>a. [text_at (mem w) a, [CHR 0x0A]]) as)"

definition state_for :: "bool \<Rightarrow> tts_streaming_state" where
  "state_for p = (if p then TTS_STREAMING_STATE_PAUSED else TTS_STREAMING_STATE_ACTIVE)"

text \<open>The engine and the world that belong to a state of the threads.\<close>

definition engine_at :: "tts_streaming_engine \<Rightarrow> threads \<Rightarrow> tts_streaming_engine" where
  "engine_at e s = e\<lparr>text_queue := shared_queue s, is_paused := pause_flag s, stream_state := state_for (pause_flag s)\<rparr>"

definition world_at :: "stream_world \<Rightarrow> threads \<Rightarrow> stream_world \<Rightarrow> bool" where
  "world_at w0 s w \<longleftrightarrow> channel_text w = channel_text w0 @ sent_of w0 (taken s) \<and>
     mem w = (mem w0)\<lparr>segs := (\<lambda>a. if a \<in> set (taken s) then None else segs (mem w0) a)\<rparr>"

lemma set_state_world: "world_at w0 s w \<Longrightarrow> world_at w0 s (snd (tts_streaming_engine_set_state st (e, w)))"
  by (simp add: tts_streaming_engine_set_state_def world_at_def)

subsection \<open>One step\<close>

lemma quiet_feeder:
  assumes "feeder_step s = Some s'" "fpc s \<noteq> F_Awake"
  shows "shared_queue s' = shared_queue s \<and> pause_flag s' = pause_flag s \<and> taken s' = taken s \<and> to_do s' = to_do s"
  using assms by (auto simp: feeder_step_def to_do_def split: feeder_pc.splits if_splits)

lemma quiet_caller:
  assumes "caller_step s = Some s'" "effect_of Caller s = []" "C_Stop \<notin> set (calls s)"
  shows "shared_queue s' = shared_queue s \<and> pause_flag s' = pause_flag s \<and> taken s' = taken s \<and> to_do s' = to_do s"
  using assms
  by (auto simp: caller_step_def effect_of_def to_do_def split: caller_pc.splits if_splits list.splits engine_call.splits)

lemma feeder_effect:
  assumes i: "threads_inv s" and n: "not_stopping s" and q: "queue_ready (mem w0) (pushed s)" and f: "feeding e0"
    and st: "feeder_step s = Some s'" and a: "fpc s = F_Awake" and w: "world_at w0 s w"
  shows "\<exists>w'. stream_exec (Op_Feed all_normal) (engine_at e0 s, w) = (engine_at e0 s', w') \<and> world_at w0 s' w' \<and> to_do s' = to_do s"
proof -
  obtain b q' where s': "shared_queue s = b # q'" "s' = s\<lparr>queue_mutex := None, shared_queue := q', taken := taken s @ [b], fpc := F_Work b\<rparr>"
    and np: "\<not> pause_flag s"
    using i n a st by (auto simp: threads_inv_def not_stopping_def feeder_step_def split: list.splits)
  have p: "pushed s = taken s @ b # q'" using i s' by (simp add: threads_inv_def)
  then obtain sg t where sg: "segs (mem w0) b = Some sg" "seg_text sg = Some t" "segment_text_ok t" "text_at (mem w0) b = t"
    and nb: "b \<notin> set (taken s)"
    using q by (auto simp: queue_ready_def holds_segments_def text_at_def)
  have fe: "feeding (engine_at e0 s)"
    using f np by (auto simp: feeding_def engine_at_def state_for_def stream_inv_defs)
  have ws: "segs (mem w) b = Some sg" using w sg nb by (simp add: world_at_def)
  have "feeder_round all_normal (engine_at e0 s, w) = (Feeder_Loops, (engine_at e0 s)\<lparr>text_queue := q'\<rparr>,
    (write_text all_normal t w)\<lparr>mem := (mem w)\<lparr>segs := (segs (mem w))(b := None)\<rparr>\<rparr>)"
    by (rule feeder_round_ready [OF fe _ ws sg(2,3)]) (simp add: engine_at_def s')
  moreover have "world_at w0 s' ((write_text all_normal t w)\<lparr>mem := (mem w)\<lparr>segs := (segs (mem w))(b := None)\<rparr>\<rparr>)"
    using w sg(4) by (auto simp: world_at_def s' channel_text_write accepted_def all_normal_def sent_of_def fun_eq_iff)
  ultimately show ?thesis by (simp add: s' engine_at_def to_do_def)
qed

lemma caller_effect:
  assumes p: "progress_inv cs s" and q: "queue_ready (mem w0) (queued cs)" and f: "feeding e0"
    and i: "threads_inv s" and st: "caller_step s = Some s'" and o: "effect_of Caller s = [oper]" and w: "world_at w0 s w"
  shows "\<exists>w'. stream_exec oper (engine_at e0 s, w) = (engine_at e0 s', w') \<and> world_at w0 s' w' \<and>
    map (op_of_call env) (to_do s) = oper # map (op_of_call env) (to_do s')"
proof (cases "mpc s")
  case (M_Push a)
  have "a \<in> set (queued cs)" "a \<notin> set (taken s)" "segs (mem w0) a \<noteq> None"
  proof -
    have e: "taken s @ shared_queue s @ a # queued (calls s) = queued cs"
      using p i M_Push by (simp add: progress_inv_def threads_inv_def to_push_def)
    show "a \<in> set (queued cs)" by (simp flip: e)
    then show "segs (mem w0) a \<noteq> None" using q by (auto simp: queue_ready_def)
    show "a \<notin> set (taken s)" using q by (auto simp: queue_ready_def holds_segments_def simp flip: e)
  qed
  then obtain sg where sg: "segs (mem w) a = Some sg" using w by (auto simp: world_at_def)
  have "oper = Op_Queue (Some a)" using o M_Push by (simp add: effect_of_def)
  then show ?thesis
    using st M_Push w sg
    by (auto simp: caller_step_def tts_streaming_engine_queue_segment_def Let_def read_segment_def engine_at_def to_do_def world_at_def)
next
  case M_Pause
  then show ?thesis
    using st o w set_state_world
    by (auto simp: caller_step_def effect_of_def tts_streaming_engine_pause_def engine_at_def state_for_def to_do_def world_at_def
        tts_streaming_engine_set_state_def)
next
  case M_Resume
  then show ?thesis
    using st o w set_state_world
    by (auto simp: caller_step_def effect_of_def tts_streaming_engine_resume_def engine_at_def state_for_def to_do_def world_at_def
        tts_streaming_engine_set_state_def)
qed (use o in \<open>simp_all add: effect_of_def\<close>)

subsection \<open>A whole run\<close>

lemma step_effect:
  assumes r: "reachable cs l s" and c: "C_Stop \<notin> set cs" and q: "queue_ready (mem w0) (queued cs)" and f: "feeding e0"
    and st: "run_schedule [t] s = Some s'" and w: "world_at w0 s w"
  shows "\<exists>w'. fold stream_exec (effect_of t s) (engine_at e0 s, w) = (engine_at e0 s', w') \<and> world_at w0 s' w' \<and>
    map (op_of_call env) (to_do s) = filter (\<lambda>oper. oper \<noteq> Op_Feed all_normal) (effect_of t s) @ map (op_of_call env) (to_do s')"
proof -
  note i = threads_inv_reachable [OF r] and p = progress_inv_reachable [OF r c]
  have quiet: ?thesis if "effect_of t s = []"
    "shared_queue s' = shared_queue s \<and> pause_flag s' = pause_flag s \<and> taken s' = taken s \<and> to_do s' = to_do s"
    using that w by (simp add: engine_at_def world_at_def)
  have qp: "queue_ready (mem w0) (pushed s)"
  proof -
    have "queued cs = pushed s @ to_push (mpc s) @ queued (calls s)" using p by (simp add: progress_inv_def)
    then show ?thesis using q by (auto simp: queue_ready_def holds_segments_def)
  qed
  show ?thesis
  proof (cases t)
    case Feeder
    then have "feeder_step s = Some s'" using st by (auto split: option.splits)
    then show ?thesis
      using Feeder quiet quiet_feeder [of s s'] feeder_effect [OF i _ qp f _ _ w, of s'] p
      by (cases "fpc s = F_Awake") (auto simp: effect_of_def progress_inv_def)
  next
    case Caller
    then have s': "caller_step s = Some s'" using st by (auto split: option.splits)
    have "effect_of Caller s = [] \<or> (\<exists>oper. effect_of Caller s = [oper] \<and> oper \<noteq> Op_Feed all_normal)"
      by (auto simp: effect_of_def split: caller_pc.split)
    then show ?thesis
      using Caller s' quiet quiet_caller [OF s'] caller_effect [OF p q f i s' _ w, of _ env] p
      by (auto simp: progress_inv_def not_stopping_def)
  qed
qed

lemma run_effect:
  assumes "run_schedule ts s = Some s'" "reachable cs l s" "C_Stop \<notin> set cs" "queue_ready (mem w0) (queued cs)" "feeding e0"
    "world_at w0 s w"
  shows "\<exists>ops w'. fold stream_exec ops (engine_at e0 s, w) = (engine_at e0 s', w') \<and> world_at w0 s' w' \<and>
    map (op_of_call env) (to_do s) = filter (\<lambda>oper. oper \<noteq> Op_Feed all_normal) ops @ map (op_of_call env) (to_do s')"
  using assms
proof (induction ts arbitrary: s w)
  case Nil
  then have "fold stream_exec [] (engine_at e0 s, w) = (engine_at e0 s', w)" "world_at w0 s' w" "s' = s" by simp_all
  then show ?case by (intro exI [of _ "[]"] exI [of _ w]) simp
next
  case (Cons t ts)
  then obtain s1 where s1: "run_schedule [t] s = Some s1" "run_schedule ts s1 = Some s'"
    by (cases t) (auto split: option.splits)
  obtain w1 where w1: "fold stream_exec (effect_of t s) (engine_at e0 s, w) = (engine_at e0 s1, w1)" "world_at w0 s1 w1"
    "map (op_of_call env) (to_do s) = filter (\<lambda>oper. oper \<noteq> Op_Feed all_normal) (effect_of t s) @ map (op_of_call env) (to_do s1)"
    using step_effect [OF Cons.prems(2-5) s1(1) Cons.prems(6)] by blast
  from Cons.IH [OF s1(2) run_schedule_reachable [OF Cons.prems(2) s1(1)] Cons.prems(3-5) w1(2)]
  obtain ops w' where "fold stream_exec ops (engine_at e0 s1, w1) = (engine_at e0 s', w')" "world_at w0 s' w'"
    "map (op_of_call env) (to_do s1) = filter (\<lambda>oper. oper \<noteq> Op_Feed all_normal) ops @ map (op_of_call env) (to_do s')" by blast
  then show ?case using w1 by (intro exI [of _ "effect_of t s @ ops"] exI [of _ w']) simp
qed


definition shared_engine :: tts_streaming_engine where
  "shared_engine = sample_engine\<lparr>text_queue := []\<rparr>"


end
