(* ===== verification/Audio_Controller.thy ===== *)
theory Audio_Controller
  imports Streaming_Engine C_Float
begin

text \<open>
  The audio controller of \<^verbatim>\<open>tts-audio-controller.c\<close>: the playback state, the position in the
  list of segments, the settings, and the sessions that drive the streaming engine. Each function is one step
  on the controller, its engine and the memory; the invocations of the state callback are recorded with the
  position at that moment. A function whose controller pointer may be NULL is its body under the guard
  \<open>on_controller\<close>. No step of the model is interrupted; the mutex, and calls from several threads, are the subject of
  \<open>Audio_Locks\<close>.
\<close>

subsection \<open>State\<close>

datatype tts_audio_state =
    TTS_AUDIO_STATE_STOPPED
  | TTS_AUDIO_STATE_PLAYING
  | TTS_AUDIO_STATE_PAUSED
  | TTS_AUDIO_STATE_ERROR

record tts_audio_controller =
  audio_state :: tts_audio_state
  current_page :: int
  current_segment :: int
  text_segments :: "addr option"
  speed_multiplier :: c_float
  volume_level :: int
  streaming_engine :: "tts_streaming_engine option"
  state_change_callback :: "nat option"

record audio_event =
  event_old :: tts_audio_state
  event_new :: tts_audio_state
  event_page :: int
  event_segment :: int

record audio =
  ctl :: tts_audio_controller
  world :: stream_world
  audio_events :: "audio_event list"

definition tts_audio_controller_new :: tts_audio_controller where
  "tts_audio_controller_new =
     \<lparr>audio_state = TTS_AUDIO_STATE_STOPPED, current_page = - 1, current_segment = - 1, text_segments = None,
      speed_multiplier = Fin 1, volume_level = 80, streaming_engine = None, state_change_callback = None\<rparr>"

definition on_controller :: "'r \<Rightarrow> (audio \<Rightarrow> 'r \<times> audio) \<Rightarrow> audio option \<Rightarrow> 'r \<times> audio option" where
  "on_controller null_result body controller =
     (case controller of
        None \<Rightarrow> (null_result, None)
      | Some s \<Rightarrow> (case body s of (r, s') \<Rightarrow> (r, Some s')))"

abbreviation upd_ctl :: "(tts_audio_controller \<Rightarrow> tts_audio_controller) \<Rightarrow> audio \<Rightarrow> audio" where
  "upd_ctl f s \<equiv> s\<lparr>ctl := f (ctl s)\<rparr>"

abbreviation upd_mem :: "store \<Rightarrow> audio \<Rightarrow> audio" where
  "upd_mem m s \<equiv> s\<lparr>world := (world s)\<lparr>mem := m\<rparr>\<rparr>"

subsection \<open>Playback state\<close>

definition valid_transition :: "tts_audio_state \<Rightarrow> tts_audio_state \<Rightarrow> bool" where
  "valid_transition old_state new_state =
     (case old_state of
        TTS_AUDIO_STATE_STOPPED \<Rightarrow> new_state = TTS_AUDIO_STATE_PLAYING \<or> new_state = TTS_AUDIO_STATE_ERROR
      | TTS_AUDIO_STATE_PLAYING \<Rightarrow> new_state = TTS_AUDIO_STATE_PAUSED \<or> new_state = TTS_AUDIO_STATE_STOPPED \<or>
          new_state = TTS_AUDIO_STATE_ERROR
      | TTS_AUDIO_STATE_PAUSED \<Rightarrow> new_state = TTS_AUDIO_STATE_PLAYING \<or> new_state = TTS_AUDIO_STATE_STOPPED \<or>
          new_state = TTS_AUDIO_STATE_ERROR
      | TTS_AUDIO_STATE_ERROR \<Rightarrow> new_state = TTS_AUDIO_STATE_STOPPED)"

definition set_state_body :: "tts_audio_state \<Rightarrow> audio \<Rightarrow> bool \<times> audio" where
  "set_state_body new_state s =
     (let old_state = audio_state (ctl s) in
      if \<not> valid_transition old_state new_state then (False, s)
      else
        let s1 = upd_ctl (\<lambda>c. c\<lparr>audio_state := new_state\<rparr>) s in
        (True,
         if state_change_callback (ctl s1) \<noteq> None
         then s1\<lparr>audio_events := audio_events s1 @
                [\<lparr>event_old = old_state, event_new = new_state, event_page = current_page (ctl s1),
                  event_segment = current_segment (ctl s1)\<rparr>]\<rparr>
         else s1))"

definition tts_audio_controller_set_state :: "tts_audio_state \<Rightarrow> audio option \<Rightarrow> bool \<times> audio option" where
  "tts_audio_controller_set_state new_state = on_controller False (set_state_body new_state)"

definition tts_audio_controller_get_state :: "audio option \<Rightarrow> tts_audio_state" where
  "tts_audio_controller_get_state controller =
     (case controller of None \<Rightarrow> TTS_AUDIO_STATE_ERROR | Some s \<Rightarrow> audio_state (ctl s))"

definition tts_audio_controller_set_state_change_callback :: "nat option \<Rightarrow> audio option \<Rightarrow> audio option" where
  "tts_audio_controller_set_state_change_callback callback controller =
     map_option (upd_ctl (\<lambda>c. c\<lparr>state_change_callback := callback\<rparr>)) controller"

subsection \<open>Streaming sessions\<close>

text \<open>One round of the queueing loop: a copy of the segment goes to the engine, and is freed if refused.\<close>

definition queue_copy :: "addr \<Rightarrow> stream \<Rightarrow> stream" where
  "queue_copy original st =
     (case st of (e, w) \<Rightarrow>
        case read_segment original (mem w) of
          (contents, m) \<Rightarrow>
            let w1 = w\<lparr>mem := m\<rparr> in
            (case contents of
               None \<Rightarrow> (e, w1)
             | Some sg \<Rightarrow>
                 if seg_text sg = None then (e, w1)
                 else
                   (case tts_text_segment_new (seg_text sg) (seg_bounds sg) (seg_page_number sg) (seg_id sg) (seg_type sg) of
                      None \<Rightarrow> (e, w1)
                    | Some copy \<Rightarrow>
                        (case alloc_segment copy (mem w1) of
                           (a, m2) \<Rightarrow>
                             (case tts_streaming_engine_queue_segment (Some a) (e, w1\<lparr>mem := m2\<rparr>) of
                                (ok, e3, w3) \<Rightarrow>
                                  if \<not> ok then (e3, w3\<lparr>mem := tts_text_segment_free (Some a) (mem w3)\<rparr>)
                                  else (e3, w3))))))"

fun queue_loop :: "addr list \<Rightarrow> stream \<Rightarrow> stream" where
  "queue_loop [] st = st"
| "queue_loop (original # originals) st = queue_loop originals (queue_copy original st)"

definition start_streaming_session :: "spawn_env \<Rightarrow> addr \<Rightarrow> audio \<Rightarrow> bool \<times> audio" where
  "start_streaming_session env segments s =
     (let e0 = (case streaming_engine (ctl s) of
                  None \<Rightarrow> tts_streaming_engine_new TTS_ENGINE_PIPER
                | Some e \<Rightarrow> e)
      in case tts_streaming_engine_start env (e0, world s) of
           (started, e1, w1) \<Rightarrow>
             if \<not> started then (False, s\<lparr>ctl := (ctl s)\<lparr>streaming_engine := Some e1\<rparr>, world := w1\<rparr>)
             else
               (case list_read segments (mem w1) of
                  (originals, m) \<Rightarrow>
                    (case queue_loop originals (e1, w1\<lparr>mem := m\<rparr>) of
                       (e2, w2) \<Rightarrow> (True, s\<lparr>ctl := (ctl s)\<lparr>streaming_engine := Some e2\<rparr>, world := w2\<rparr>))))"

definition stop_streaming_session :: "reap_env \<Rightarrow> audio \<Rightarrow> audio" where
  "stop_streaming_session env s =
     (case streaming_engine (ctl s) of
        None \<Rightarrow> s
      | Some e \<Rightarrow>
          (case tts_streaming_engine_stop env (e, world s) of
             (_, e', w') \<Rightarrow> s\<lparr>ctl := (ctl s)\<lparr>streaming_engine := Some e'\<rparr>, world := w'\<rparr>))"

definition stop_session_body :: "reap_env \<Rightarrow> audio \<Rightarrow> audio" where
  "stop_session_body env s =
     (let s1 = upd_ctl (\<lambda>c. c\<lparr>current_page := - 1, current_segment := - 1\<rparr>) s;
          s2 = stop_streaming_session env s1
      in snd (set_state_body TTS_AUDIO_STATE_STOPPED s2))"

definition tts_audio_controller_stop_session :: "reap_env \<Rightarrow> audio option \<Rightarrow> audio option" where
  "tts_audio_controller_stop_session env controller = map_option (stop_session_body env) controller"

text \<open>The position a session starts with: the first segment of the list, if there is one.\<close>

definition set_first_position :: "addr \<Rightarrow> audio \<Rightarrow> audio" where
  "set_first_position segments s =
     (case list_read segments (mem (world s)) of
        (originals, m) \<Rightarrow>
          (case originals of
             [] \<Rightarrow> upd_mem m s
           | a # _ \<Rightarrow>
               (case read_segment a m of
                  (contents, m2) \<Rightarrow>
                    (case contents of
                       None \<Rightarrow> upd_mem m2 s
                     | Some sg \<Rightarrow>
                         upd_ctl (\<lambda>c. c\<lparr>current_page := seg_page_number sg, current_segment := 0\<rparr>) (upd_mem m2 s)))))"

definition start_session_body :: "spawn_env \<Rightarrow> reap_env \<Rightarrow> addr option \<Rightarrow> audio \<Rightarrow> bool \<times> audio" where
  "start_session_body sp env segments s =
     (case segments of
        None \<Rightarrow> (False, s)
      | Some l \<Rightarrow>
          let s1 = (if audio_state (ctl s) \<noteq> TTS_AUDIO_STATE_STOPPED then stop_session_body env s else s);
              s2 = (case text_segments (ctl s1) of
                      None \<Rightarrow> s1
                    | Some old \<Rightarrow> upd_mem (list_free old (mem (world s1))) s1);
              s3 = upd_ctl (\<lambda>c. c\<lparr>text_segments := Some l, current_page := - 1, current_segment := - 1\<rparr>) s2;
              s4 = set_first_position l s3
          in case set_state_body TTS_AUDIO_STATE_PLAYING s4 of
               (ok, s5) \<Rightarrow>
                 if \<not> ok then (False, s5)
                 else (case start_streaming_session sp l s5 of
                         (streaming_result, s6) \<Rightarrow>
                           if \<not> streaming_result then (False, snd (set_state_body TTS_AUDIO_STATE_ERROR s6))
                           else (True, s6)))"

definition tts_audio_controller_start_session ::
  "spawn_env \<Rightarrow> reap_env \<Rightarrow> addr option \<Rightarrow> audio option \<Rightarrow> bool \<times> audio option" where
  "tts_audio_controller_start_session sp env segments = on_controller False (start_session_body sp env segments)"

definition pause_session_body :: "audio \<Rightarrow> bool \<times> audio" where
  "pause_session_body s =
     (case streaming_engine (ctl s) of
        None \<Rightarrow> set_state_body TTS_AUDIO_STATE_PAUSED s
      | Some e \<Rightarrow>
          (case tts_streaming_engine_pause (e, world s) of
             (ok, e', w') \<Rightarrow>
               let s' = s\<lparr>ctl := (ctl s)\<lparr>streaming_engine := Some e'\<rparr>, world := w'\<rparr> in
               if \<not> ok then (False, s') else set_state_body TTS_AUDIO_STATE_PAUSED s'))"

definition resume_session_body :: "audio \<Rightarrow> bool \<times> audio" where
  "resume_session_body s =
     (case streaming_engine (ctl s) of
        None \<Rightarrow> set_state_body TTS_AUDIO_STATE_PLAYING s
      | Some e \<Rightarrow>
          (case tts_streaming_engine_resume (e, world s) of
             (ok, e', w') \<Rightarrow>
               let s' = s\<lparr>ctl := (ctl s)\<lparr>streaming_engine := Some e'\<rparr>, world := w'\<rparr> in
               if \<not> ok then (False, s') else set_state_body TTS_AUDIO_STATE_PLAYING s'))"

definition tts_audio_controller_pause_session :: "audio option \<Rightarrow> bool \<times> audio option" where
  "tts_audio_controller_pause_session = on_controller False pause_session_body"

definition tts_audio_controller_resume_session :: "audio option \<Rightarrow> bool \<times> audio option" where
  "tts_audio_controller_resume_session = on_controller False resume_session_body"

text \<open>
  Freeing the controller stops the session and frees the list of segments. The streaming engine is not freed: what
  is returned is the world that remains, with the engine that is left behind.
\<close>

definition tts_audio_controller_free :: "reap_env \<Rightarrow> audio option \<Rightarrow> (stream_world \<times> tts_streaming_engine option) option" where
  "tts_audio_controller_free env controller =
     map_option (\<lambda>s.
       let s1 = stop_session_body env s;
           s2 = (case text_segments (ctl s1) of
                   None \<Rightarrow> s1
                 | Some l \<Rightarrow> upd_mem (list_free l (mem (world s1))) s1)
       in (world s2, streaming_engine (ctl s2))) controller"

subsection \<open>Position\<close>

definition tts_audio_controller_get_current_page :: "audio option \<Rightarrow> int" where
  "tts_audio_controller_get_current_page controller =
     (case controller of None \<Rightarrow> - 1 | Some s \<Rightarrow> current_page (ctl s))"

definition tts_audio_controller_get_current_segment :: "audio option \<Rightarrow> int" where
  "tts_audio_controller_get_current_segment controller =
     (case controller of None \<Rightarrow> - 1 | Some s \<Rightarrow> current_segment (ctl s))"

definition set_position_body :: "int \<Rightarrow> int \<Rightarrow> audio \<Rightarrow> bool \<times> audio" where
  "set_position_body page segment s =
     (case text_segments (ctl s) of
        None \<Rightarrow> (False, s)
      | Some l \<Rightarrow>
          (case list_read l (mem (world s)) of
             (as, m) \<Rightarrow>
               if segment < 0 \<or> segment \<ge> int (length as) then (False, upd_mem m s)
               else (case read_segment (as ! nat segment) m of
                       (contents, m2) \<Rightarrow>
                         (case contents of
                            None \<Rightarrow> (False, upd_mem m2 s)
                          | Some sg \<Rightarrow>
                              if seg_page_number sg \<noteq> page then (False, upd_mem m2 s)
                              else (True, upd_ctl (\<lambda>c. c\<lparr>current_page := page, current_segment := segment\<rparr>)
                                            (upd_mem m2 s))))))"

definition tts_audio_controller_set_position :: "int \<Rightarrow> int \<Rightarrow> audio option \<Rightarrow> bool \<times> audio option" where
  "tts_audio_controller_set_position page segment = on_controller False (set_position_body page segment)"

definition navigate_to_segment_body :: "int \<Rightarrow> audio \<Rightarrow> bool \<times> audio" where
  "navigate_to_segment_body direction s =
     (case text_segments (ctl s) of
        None \<Rightarrow> (False, s)
      | Some l \<Rightarrow>
          (case list_read l (mem (world s)) of
             (as, m) \<Rightarrow>
               if length as = 0 then (False, upd_mem m s)
               else let new_segment = current_segment (ctl s) + direction in
                 if new_segment < 0 \<or> new_segment \<ge> int (length as) then (False, upd_mem m s)
                 else (case read_segment (as ! nat new_segment) m of
                         (contents, m2) \<Rightarrow>
                           (case contents of
                              None \<Rightarrow> (False, upd_mem m2 s)
                            | Some sg \<Rightarrow>
                                (True, upd_ctl (\<lambda>c. c\<lparr>current_segment := new_segment,
                                                      current_page := seg_page_number sg\<rparr>) (upd_mem m2 s))))))"

definition tts_audio_controller_navigate_to_segment :: "int \<Rightarrow> audio option \<Rightarrow> bool \<times> audio option" where
  "tts_audio_controller_navigate_to_segment direction = on_controller False (navigate_to_segment_body direction)"

text \<open>The search for the first segment of a page; \<open>i\<close> is the index of the head of the rest of the list.\<close>

fun find_page :: "int \<Rightarrow> int \<Rightarrow> addr list \<Rightarrow> store \<Rightarrow> int \<times> store" where
  "find_page page i [] m = (- 1, m)"
| "find_page page i (a # as) m =
     (case read_segment a m of
        (contents, m2) \<Rightarrow>
          (case contents of
             None \<Rightarrow> find_page page (i + 1) as m2
           | Some sg \<Rightarrow> if seg_page_number sg = page then (i, m2) else find_page page (i + 1) as m2))"

definition navigate_to_page_body :: "int \<Rightarrow> audio \<Rightarrow> bool \<times> audio" where
  "navigate_to_page_body page s =
     (case text_segments (ctl s) of
        None \<Rightarrow> (False, s)
      | Some l \<Rightarrow>
          if page < 0 then (False, s)
          else (case list_read l (mem (world s)) of
                  (as, m) \<Rightarrow>
                    (case find_page page 0 as m of
                       (target_segment, m2) \<Rightarrow>
                         if target_segment = - 1 then (False, upd_mem m2 s)
                         else (True, upd_ctl (\<lambda>c. c\<lparr>current_segment := target_segment, current_page := page\<rparr>)
                                       (upd_mem m2 s)))))"

definition tts_audio_controller_navigate_to_page :: "int \<Rightarrow> audio option \<Rightarrow> bool \<times> audio option" where
  "tts_audio_controller_navigate_to_page page = on_controller False (navigate_to_page_body page)"

subsection \<open>Settings\<close>

definition tts_audio_controller_get_speed :: "audio option \<Rightarrow> c_float" where
  "tts_audio_controller_get_speed controller =
     (case controller of None \<Rightarrow> Fin 1 | Some s \<Rightarrow> speed_multiplier (ctl s))"

definition tts_audio_controller_set_speed :: "c_float \<Rightarrow> audio option \<Rightarrow> bool \<times> audio option" where
  "tts_audio_controller_set_speed speed controller =
     (case controller of
        None \<Rightarrow> (False, None)
      | Some s \<Rightarrow>
          if fl_le speed (Fin 0) \<or> fl_less (Fin 5) speed then (False, controller)
          else (True, Some (upd_ctl (\<lambda>c. c\<lparr>speed_multiplier := speed\<rparr>) s)))"

definition tts_audio_controller_get_volume :: "audio option \<Rightarrow> int" where
  "tts_audio_controller_get_volume controller =
     (case controller of None \<Rightarrow> 80 | Some s \<Rightarrow> volume_level (ctl s))"

definition tts_audio_controller_set_volume :: "int \<Rightarrow> audio option \<Rightarrow> bool \<times> audio option" where
  "tts_audio_controller_set_volume volume controller =
     (case controller of
        None \<Rightarrow> (False, None)
      | Some s \<Rightarrow>
          if volume < 0 \<or> volume > 100 then (False, controller)
          else (True, Some (upd_ctl (\<lambda>c. c\<lparr>volume_level := volume\<rparr>) s)))"

text \<open>Deprecated entry points, kept without effect.\<close>

definition tts_audio_controller_play_text :: "audio option \<Rightarrow> string option \<Rightarrow> bool" where
  "tts_audio_controller_play_text controller text = True"

definition tts_audio_controller_get_engine :: "audio option \<Rightarrow> unit option" where
  "tts_audio_controller_get_engine controller = None"

subsection \<open>What the steps do to controller and engine\<close>

lemma set_state_fields:
  "fst (set_state_body st s) = valid_transition (audio_state (ctl s)) st"
  "ctl (snd (set_state_body st s)) =
     (if valid_transition (audio_state (ctl s)) st then (ctl s)\<lparr>audio_state := st\<rparr> else ctl s)"
  "world (snd (set_state_body st s)) = world s"
  by (simp_all add: set_state_body_def Let_def)

text \<open>
  Playback state and engine state agree. As long as there is no engine, no session has been started, but the
  playback state may still say otherwise: a resume is accepted when stopped.
\<close>

definition in_step :: "tts_audio_state \<Rightarrow> tts_streaming_engine option \<Rightarrow> bool" where
  "in_step st engine \<longleftrightarrow>
     (case engine of
        None \<Rightarrow> st \<noteq> TTS_AUDIO_STATE_ERROR
      | Some e \<Rightarrow> stream_inv e \<and>
          stream_state e = (case st of
             TTS_AUDIO_STATE_STOPPED \<Rightarrow> TTS_STREAMING_STATE_IDLE
           | TTS_AUDIO_STATE_PLAYING \<Rightarrow> TTS_STREAMING_STATE_ACTIVE
           | TTS_AUDIO_STATE_PAUSED \<Rightarrow> TTS_STREAMING_STATE_PAUSED
           | TTS_AUDIO_STATE_ERROR \<Rightarrow> TTS_STREAMING_STATE_ERROR))"

definition controller_in_step :: "audio \<Rightarrow> bool" where
  "controller_in_step s \<longleftrightarrow> in_step (audio_state (ctl s)) (streaming_engine (ctl s))"

lemma queue_copy_engine: "(fst (queue_copy a st))\<lparr>text_queue := []\<rparr> = (fst st)\<lparr>text_queue := []\<rparr>"
  by (cases st)
    (auto simp: queue_copy_def tts_streaming_engine_queue_segment_def Let_def split: option.split prod.split)

lemma queue_loop_engine: "(fst (queue_loop as st))\<lparr>text_queue := []\<rparr> = (fst st)\<lparr>text_queue := []\<rparr>"
  by (induction as st rule: queue_loop.induct) (simp_all add: queue_copy_engine)

lemma same_stream_state: "e\<lparr>text_queue := []\<rparr> = e'\<lparr>text_queue := []\<rparr> \<Longrightarrow> stream_state e = stream_state e'"
  by (drule arg_cong [where f = stream_state]) simp

lemma queue_loop_inv: "stream_inv (fst (queue_loop as st)) = stream_inv (fst st)"
  by (rule stream_inv_same [OF queue_loop_engine])

lemma queue_loop_state: "stream_state (fst (queue_loop as st)) = stream_state (fst st)"
  by (rule same_stream_state [OF queue_loop_engine])

lemma set_first_position_fields:
  "audio_state (ctl (set_first_position l s)) = audio_state (ctl s)"
  "streaming_engine (ctl (set_first_position l s)) = streaming_engine (ctl s)"
  "text_segments (ctl (set_first_position l s)) = text_segments (ctl s)"
  "volume_level (ctl (set_first_position l s)) = volume_level (ctl s)"
  "speed_multiplier (ctl (set_first_position l s)) = speed_multiplier (ctl s)"
  by (simp_all add: set_first_position_def split: prod.split list.split option.split)

subsection \<open>Controller and engine stay in step\<close>

lemma stop_streaming_fields:
  "ctl (stop_streaming_session env s) =
     (ctl s)\<lparr>streaming_engine := map_option (\<lambda>e. fst (snd (tts_streaming_engine_stop env (e, world s)))) (streaming_engine (ctl s))\<rparr>"
  by (cases "ctl s") (simp add: stop_streaming_session_def split: option.split prod.split)

definition engine_after_stop :: "reap_env \<Rightarrow> audio \<Rightarrow> tts_streaming_engine option" where
  "engine_after_stop env s =
     map_option (\<lambda>e. fst (snd (tts_streaming_engine_stop env (e, world s)))) (streaming_engine (ctl s))"

lemma stop_session_ctl:
  "ctl (stop_session_body env s) =
     (ctl s)\<lparr>current_page := - 1, current_segment := - 1, streaming_engine := engine_after_stop env s,
       audio_state := TTS_AUDIO_STATE_STOPPED\<rparr>"
  by (cases "audio_state (ctl s)")
    (simp_all add: stop_session_body_def Let_def set_state_fields stop_streaming_fields valid_transition_def
      engine_after_stop_def)

lemma engine_after_stop_in_step:
  "controller_in_step s \<Longrightarrow> in_step TTS_AUDIO_STATE_STOPPED (engine_after_stop env s)"
  using stream_inv_stop [of "(the (streaming_engine (ctl s)), world s)" env]
  by (auto simp: controller_in_step_def in_step_def engine_after_stop_def engine_idle_def split: option.splits)

lemma stop_session_in_step: "controller_in_step s \<Longrightarrow> controller_in_step (stop_session_body env s)"
  using engine_after_stop_in_step [of s env] by (simp add: controller_in_step_def stop_session_ctl)

lemma start_streaming_in_step:
  assumes "in_step TTS_AUDIO_STATE_STOPPED (streaming_engine (ctl s))"
    and "start_streaming_session env l s = (ok, s')"
  shows "\<exists>e. ctl s' = (ctl s)\<lparr>streaming_engine := Some e\<rparr> \<and> stream_inv e \<and>
    stream_state e = (if ok then TTS_STREAMING_STATE_ACTIVE else TTS_STREAMING_STATE_ERROR)"
proof -
  define e0 where "e0 = (case streaming_engine (ctl s) of None \<Rightarrow> tts_streaming_engine_new TTS_ENGINE_PIPER | Some e \<Rightarrow> e)"
  have e0: "stream_inv e0" "stream_state e0 = TTS_STREAMING_STATE_IDLE"
    using assms(1) stream_inv_new
    by (auto simp: e0_def in_step_def tts_streaming_engine_new_def split: option.splits)
  obtain started e1 w1 where st: "tts_streaming_engine_start env (e0, world s) = (started, e1, w1)"
    by (metis prod.collapse)
  have e1: "stream_inv e1" using stream_inv_start [of "(e0, world s)" env] e0 st by simp
  have idle: "stream_state (fst (e0, world s)) = TTS_STREAMING_STATE_IDLE" using e0 by simp
  show ?thesis
  proof (cases started)
    case False
    then show ?thesis
      using assms(2) e1 start_engine(2) [OF st idle]
      by (auto simp: start_streaming_session_def e0_def [symmetric] st Let_def)
  next
    case True
    obtain originals m where lr: "list_read l (mem w1) = (originals, m)" by force
    obtain e2 w2 where q: "queue_loop originals (e1, w1\<lparr>mem := m\<rparr>) = (e2, w2)" by force
    have "stream_inv e2" "stream_state e2 = stream_state e1"
      using queue_loop_inv [of originals "(e1, w1\<lparr>mem := m\<rparr>)"] queue_loop_state [of originals "(e1, w1\<lparr>mem := m\<rparr>)"] q e1
      by simp_all
    then show ?thesis
      using assms(2) True start_engine(1) [OF st idle]
      by (auto simp: start_streaming_session_def e0_def [symmetric] st Let_def lr q)
  qed
qed

text \<open>The state just before a session starts playing: stopped, with the new list and its first position.\<close>

definition before_play :: "reap_env \<Rightarrow> addr \<Rightarrow> audio \<Rightarrow> audio" where
  "before_play env l s =
     (let s1 = (if audio_state (ctl s) \<noteq> TTS_AUDIO_STATE_STOPPED then stop_session_body env s else s);
          s2 = (case text_segments (ctl s1) of
                  None \<Rightarrow> s1
                | Some old \<Rightarrow> upd_mem (list_free old (mem (world s1))) s1);
          s3 = upd_ctl (\<lambda>c. c\<lparr>text_segments := Some l, current_page := - 1, current_segment := - 1\<rparr>) s2
      in set_first_position l s3)"

lemma start_session_before_play:
  "start_session_body sp env (Some l) s =
     (case set_state_body TTS_AUDIO_STATE_PLAYING (before_play env l s) of
        (ok, s5) \<Rightarrow>
          if \<not> ok then (False, s5)
          else (case start_streaming_session sp l s5 of
                  (streaming_result, s6) \<Rightarrow>
                    if \<not> streaming_result then (False, snd (set_state_body TTS_AUDIO_STATE_ERROR s6))
                    else (True, s6)))"
  by (simp add: start_session_body_def before_play_def Let_def)

lemma before_play_in_step:
  assumes "controller_in_step s"
  shows "audio_state (ctl (before_play env l s)) = TTS_AUDIO_STATE_STOPPED"
    "in_step TTS_AUDIO_STATE_STOPPED (streaming_engine (ctl (before_play env l s)))"
    "text_segments (ctl (before_play env l s)) = Some l"
proof -
  define s1 where "s1 = (if audio_state (ctl s) \<noteq> TTS_AUDIO_STATE_STOPPED then stop_session_body env s else s)"
  have s1: "audio_state (ctl s1) = TTS_AUDIO_STATE_STOPPED" "in_step TTS_AUDIO_STATE_STOPPED (streaming_engine (ctl s1))"
    using assms engine_after_stop_in_step [OF assms]
    by (auto simp: s1_def stop_session_ctl controller_in_step_def)
  show "audio_state (ctl (before_play env l s)) = TTS_AUDIO_STATE_STOPPED"
    "in_step TTS_AUDIO_STATE_STOPPED (streaming_engine (ctl (before_play env l s)))"
    "text_segments (ctl (before_play env l s)) = Some l"
    using s1 by (simp_all add: before_play_def s1_def [symmetric] Let_def set_first_position_fields split: option.split)
qed

text \<open>What a start of a session comes to, when controller and engine were in step.\<close>

lemma start_session_outcome:
  assumes "controller_in_step s" and "start_session_body sp env (Some l) s = (ok, s')"
  shows "\<exists>e. ctl s' = (ctl (before_play env l s))\<lparr>streaming_engine := Some e,
      audio_state := (if ok then TTS_AUDIO_STATE_PLAYING else TTS_AUDIO_STATE_ERROR)\<rparr> \<and> stream_inv e \<and>
    stream_state e = (if ok then TTS_STREAMING_STATE_ACTIVE else TTS_STREAMING_STATE_ERROR)"
proof -
  let ?b = "before_play env l s"
  note b = before_play_in_step [OF assms(1), of env l]
  obtain s5 where s5: "set_state_body TTS_AUDIO_STATE_PLAYING ?b = (True, s5)"
    using set_state_fields(1) [of TTS_AUDIO_STATE_PLAYING ?b] b(1)
    by (cases "set_state_body TTS_AUDIO_STATE_PLAYING ?b") (simp add: valid_transition_def)
  have c5: "ctl s5 = (ctl ?b)\<lparr>audio_state := TTS_AUDIO_STATE_PLAYING\<rparr>"
    using set_state_fields(2) [of TTS_AUDIO_STATE_PLAYING ?b] b(1) s5 by (simp add: valid_transition_def)
  obtain r s6 where s6: "start_streaming_session sp l s5 = (r, s6)" by force
  obtain e where e: "ctl s6 = (ctl s5)\<lparr>streaming_engine := Some e\<rparr>" "stream_inv e"
    "stream_state e = (if r then TTS_STREAMING_STATE_ACTIVE else TTS_STREAMING_STATE_ERROR)"
    using start_streaming_in_step [OF _ s6] b(2) c5 by auto
  have "ok = r" "ctl s' = (if r then ctl s6 else (ctl s6)\<lparr>audio_state := TTS_AUDIO_STATE_ERROR\<rparr>)"
    using assms(2) e(1) c5
    by (auto simp: start_session_before_play s5 s6 set_state_fields valid_transition_def split: if_splits)
  then show ?thesis using e c5 by (intro exI [of _ e]) simp
qed

lemma start_session_in_step: "controller_in_step s \<Longrightarrow> controller_in_step (snd (start_session_body sp env l s))"
proof (cases l)
  case (Some a)
  assume i: "controller_in_step s"
  obtain ok s' where r: "start_session_body sp env (Some a) s = (ok, s')" by force
  show ?thesis
    using start_session_outcome [OF i r] Some r by (auto simp: controller_in_step_def in_step_def)
qed (simp add: start_session_body_def)

lemma pause_in_step: "controller_in_step s \<Longrightarrow> controller_in_step (snd (pause_session_body s))"
  using stream_inv_pause [of "(the (streaming_engine (ctl s)), world s)"]
  by (cases "audio_state (ctl s)")
    (auto simp: pause_session_body_def pause_cases controller_in_step_def in_step_def set_state_fields Let_def
      valid_transition_def tts_streaming_engine_set_state_def split: option.splits)

lemma resume_in_step: "controller_in_step s \<Longrightarrow> controller_in_step (snd (resume_session_body s))"
  using stream_inv_resume [of "(the (streaming_engine (ctl s)), world s)"]
  by (cases "audio_state (ctl s)")
    (auto simp: resume_session_body_def resume_cases controller_in_step_def in_step_def set_state_fields Let_def
      valid_transition_def tts_streaming_engine_set_state_def split: option.splits)

subsection \<open>The controller as a machine\<close>

text \<open>
  The operations, with the feeder's rounds between them. A start comes with new segments in a new list, which
  the controller takes over.
\<close>

datatype audio_op =
    A_Start spawn_env reap_env "tts_text_segment list"
  | A_Stop reap_env
  | A_Pause
  | A_Resume
  | A_Set_Position int int
  | A_Move int
  | A_Go_To_Page int
  | A_Set_Speed c_float
  | A_Set_Volume int
  | A_Set_Callback "nat option"
  | A_Feed write_env

fun alloc_all :: "tts_text_segment list \<Rightarrow> store \<Rightarrow> addr list \<times> store" where
  "alloc_all [] m = ([], m)"
| "alloc_all (sg # sgs) m =
     (case alloc_segment sg m of (a, m1) \<Rightarrow> (case alloc_all sgs m1 of (as, m2) \<Rightarrow> (a # as, m2)))"

definition new_list :: "tts_text_segment list \<Rightarrow> audio \<Rightarrow> addr \<times> audio" where
  "new_list sgs s =
     (case alloc_all sgs (mem (world s)) of (as, m) \<Rightarrow> (case list_alloc as m of (l, m2) \<Rightarrow> (l, upd_mem m2 s)))"

definition feed_body :: "write_env \<Rightarrow> audio \<Rightarrow> audio" where
  "feed_body env s =
     (case streaming_engine (ctl s) of
        None \<Rightarrow> s
      | Some e \<Rightarrow>
          (case snd (feeder_round env (e, world s)) of
             (e', w') \<Rightarrow> s\<lparr>ctl := (ctl s)\<lparr>streaming_engine := Some e'\<rparr>, world := w'\<rparr>))"

fun audio_exec :: "audio_op \<Rightarrow> audio \<Rightarrow> audio" where
  "audio_exec (A_Start sp env sgs) s = (case new_list sgs s of (l, s1) \<Rightarrow> snd (start_session_body sp env (Some l) s1))"
| "audio_exec (A_Stop env) s = stop_session_body env s"
| "audio_exec A_Pause s = snd (pause_session_body s)"
| "audio_exec A_Resume s = snd (resume_session_body s)"
| "audio_exec (A_Set_Position page i) s = snd (set_position_body page i s)"
| "audio_exec (A_Move direction) s = snd (navigate_to_segment_body direction s)"
| "audio_exec (A_Go_To_Page page) s = snd (navigate_to_page_body page s)"
| "audio_exec (A_Set_Speed speed) s = the (snd (tts_audio_controller_set_speed speed (Some s)))"
| "audio_exec (A_Set_Volume volume) s = the (snd (tts_audio_controller_set_volume volume (Some s)))"
| "audio_exec (A_Set_Callback cb) s = the (tts_audio_controller_set_state_change_callback cb (Some s))"
| "audio_exec (A_Feed env) s = feed_body env s"

definition is_audio_stop :: "audio_op \<Rightarrow> bool" where
  "is_audio_stop op \<longleftrightarrow> (case op of A_Stop _ \<Rightarrow> True | _ \<Rightarrow> False)"

definition session_over :: "audio \<Rightarrow> bool" where
  "session_over s \<longleftrightarrow> audio_state (ctl s) = TTS_AUDIO_STATE_STOPPED \<and> current_page (ctl s) = - 1 \<and>
     current_segment (ctl s) = - 1 \<and> (\<forall>e. streaming_engine (ctl s) = Some e \<longrightarrow> engine_idle e)"

lemma position_steps_fields:
  "audio_state (ctl (snd (set_position_body p i s))) = audio_state (ctl s)"
  "streaming_engine (ctl (snd (set_position_body p i s))) = streaming_engine (ctl s)"
  "text_segments (ctl (snd (set_position_body p i s))) = text_segments (ctl s)"
  "audio_state (ctl (snd (navigate_to_segment_body d s))) = audio_state (ctl s)"
  "streaming_engine (ctl (snd (navigate_to_segment_body d s))) = streaming_engine (ctl s)"
  "text_segments (ctl (snd (navigate_to_segment_body d s))) = text_segments (ctl s)"
  "audio_state (ctl (snd (navigate_to_page_body p s))) = audio_state (ctl s)"
  "streaming_engine (ctl (snd (navigate_to_page_body p s))) = streaming_engine (ctl s)"
  "text_segments (ctl (snd (navigate_to_page_body p s))) = text_segments (ctl s)"
  by (simp_all add: set_position_body_def navigate_to_segment_body_def navigate_to_page_body_def Let_def
      split: option.split prod.split)

lemma new_list_ctl: "ctl (snd (new_list sgs s)) = ctl s"
  by (simp add: new_list_def split: prod.split)

lemma feed_in_step: "controller_in_step s \<Longrightarrow> controller_in_step (feed_body env s)"
proof (cases "streaming_engine (ctl s)")
  case (Some e)
  assume i: "controller_in_step s"
  obtain out e' w' where r: "feeder_round env (e, world s) = (out, e', w')" by (metis prod.collapse)
  have "e'\<lparr>text_queue := []\<rparr> = e\<lparr>text_queue := []\<rparr>" using feeder_fst [of env "(e, world s)"] r by simp
  then have "stream_inv e' = stream_inv e" "stream_state e' = stream_state e"
    by (rule stream_inv_same, rule same_stream_state)
  then show ?thesis using i by (auto simp: feed_body_def Some r controller_in_step_def in_step_def)
qed (simp add: feed_body_def)

lemma audio_in_step: "controller_in_step s \<Longrightarrow> controller_in_step (audio_exec op s)"
proof (cases op)
  case (A_Start sp env sgs)
  assume i: "controller_in_step s"
  obtain l s1 where n: "new_list sgs s = (l, s1)" by force
  then have "controller_in_step s1" using i new_list_ctl [of sgs s] by (simp add: controller_in_step_def)
  then show ?thesis using A_Start n start_session_in_step by simp
qed (simp_all add: stop_session_in_step pause_in_step resume_in_step feed_in_step,
    simp_all add: controller_in_step_def position_steps_fields tts_audio_controller_set_speed_def
      tts_audio_controller_set_volume_def tts_audio_controller_set_state_change_callback_def)

lemma stop_session_over: "controller_in_step s \<Longrightarrow> session_over (stop_session_body env s)"
  using stream_inv_stop [of "(the (streaming_engine (ctl s)), world s)" env]
  by (auto simp: session_over_def stop_session_ctl engine_after_stop_def controller_in_step_def in_step_def
      split: option.splits)

interpretation playback: restable_machine audio_exec controller_in_step is_audio_stop session_over
proof
  fix s :: audio and op :: audio_op
  show "controller_in_step s \<Longrightarrow> controller_in_step (audio_exec op s)" by (rule audio_in_step)
  show "controller_in_step s \<Longrightarrow> is_audio_stop op \<Longrightarrow> session_over (audio_exec op s)"
    by (cases op) (auto simp: is_audio_stop_def stop_session_over)
qed

definition audio_init :: "stream_world \<Rightarrow> audio" where
  "audio_init w = \<lparr>ctl = tts_audio_controller_new, world = w, audio_events = []\<rparr>"

lemma audio_init_in_step: "controller_in_step (audio_init w)"
  by (simp add: audio_init_def tts_audio_controller_new_def controller_in_step_def in_step_def)


end
