(* ===== verification/Audio_Memory.thy ===== *)
theory Audio_Memory
  imports Audio_Controller
begin

text \<open>
  Who owns which segment. The controller owns the list it was given, the engine owns the copies in its queue,
  and nothing is owned twice: with that invariant no call and no feeder round frees or reads freed memory, as
  long as no text is exactly 10000 bytes long. With such a text the copy is freed while it is queued, and the
  next stop frees it again.
\<close>

subsection \<open>Ownership\<close>

definition owned :: "store \<Rightarrow> addr list \<Rightarrow> addr list" where
  "owned m ls = concat (map (\<lambda>l. the (seg_lists m l)) ls)"

definition owns :: "store \<Rightarrow> addr list \<Rightarrow> addr list \<Rightarrow> bool" where
  "owns m ls q \<longleftrightarrow> store_ok m \<and> distinct ls \<and> (\<forall>l \<in> set ls. seg_lists m l \<noteq> None) \<and> holds_segments m (owned m ls @ q)"

lemma owned_cong: "(\<And>l. l \<in> set ls \<Longrightarrow> seg_lists m l = seg_lists m' l) \<Longrightarrow> owned m ls = owned m' ls"
  by (auto simp: owned_def intro!: arg_cong [of _ _ concat])

lemma holds_frame:
  "holds_segments m as \<Longrightarrow> (\<And>a. a \<in> set as \<Longrightarrow> segs m' a \<noteq> None) \<Longrightarrow> holds_segments m' as"
  by (simp add: holds_segments_def)

lemma holds_append:
  "holds_segments m (as @ bs) \<longleftrightarrow> holds_segments m as \<and> holds_segments m bs \<and> set as \<inter> set bs = {}"
  by (auto simp: holds_segments_def)

lemma free_segments_other:
  "holds_segments m (as @ bs) \<Longrightarrow> holds_segments (free_segments bs m) as"
  by (auto simp: holds_append free_segments_effect) (auto simp: holds_segments_def)

lemma owns_free_queue: "owns m ls q \<Longrightarrow> owns (free_segments q m) ls []"
proof -
  assume o: "owns m ls q"
  then have h: "holds_segments m (owned m ls @ q)" "holds_segments m q" by (auto simp: owns_def holds_append)
  have lists: "seg_lists (free_segments q m) = seg_lists m" by (simp add: free_segments_effect [OF h(2)])
  then have "owned (free_segments q m) ls = owned m ls" by (simp add: owned_def)
  then show ?thesis
    using o h lists free_segments_other [OF h(1)] store_ok_free_segments [OF _ h(2)] by (simp add: owns_def)
qed

lemma owns_free_list: "owns m (l # ls) q \<Longrightarrow> owns (list_free l m) ls q"
proof -
  assume o: "owns m (l # ls) q"
  then obtain as where as: "seg_lists m l = Some as" by (auto simp: owns_def)
  then have ow: "owned m (l # ls) = as @ owned m ls" by (simp add: owned_def)
  then have h: "holds_segments m ((owned m ls @ q) @ as)" "holds_segments m as"
    using o by (auto simp: owns_def holds_append)
  let ?m = "(free_segments as m)\<lparr>seg_lists := (seg_lists m)(l := None)\<rparr>"
  have m: "list_free l m = ?m" using as by (simp add: list_free_def)
  have "store_ok (free_segments as m)" using o h store_ok_free_segments by (auto simp: owns_def)
  moreover have "seg_lists (free_segments as m) = seg_lists m" "next_addr (free_segments as m) = next_addr m"
    by (simp_all add: free_segments_effect [OF h(2)])
  ultimately have ok: "store_ok ?m" using o by (auto simp: store_ok_def owns_def)
  have "owned ?m ls = owned m ls" using o by (intro owned_cong) (auto simp: owns_def)
  moreover have "holds_segments ?m (owned m ls @ q)"
    using free_segments_other [OF h(1)] by (simp add: holds_segments_def)
  ultimately show ?thesis using o ok by (auto simp: owns_def m)
qed

lemma alloc_facts:
  assumes "store_ok m" "alloc_segment sg m = (a, m')"
  shows "store_ok m'" "segs m a = None" "segs m' = (segs m)(a \<mapsto> sg)" "seg_lists m' = seg_lists m"
  using assms store_ok_alloc [OF assms(1), of sg] store_ok_fresh [OF assms(1)]
  by (auto simp: alloc_segment_def)

lemma owns_alloc_queue:
  assumes "owns m ls q" "alloc_segment sg m = (a, m')"
  shows "owns m' ls (q @ [a])"
proof -
  have ok: "store_ok m" using assms(1) by (simp add: owns_def)
  note f = alloc_facts [OF ok assms(2)]
  have "owned m' ls = owned m ls" by (intro owned_cong) (simp add: f)
  moreover have "a \<notin> set (owned m ls @ q)" using assms(1) f(2) unfolding owns_def holds_segments_def by blast
  ultimately show ?thesis
    using assms(1) f by (auto simp: owns_def holds_segments_def)
qed

lemma owns_drop_queue: "owns m ls (a # q) \<Longrightarrow> owns m ls q"
  by (auto simp: owns_def holds_segments_def)

lemma owns_free_head: "owns m ls (a # q) \<Longrightarrow> owns (tts_text_segment_free (Some a) m) ls q"
proof -
  assume o: "owns m ls (a # q)"
  then have a: "segs m a \<noteq> None" and ok: "store_ok m" by (auto simp: owns_def holds_segments_def)
  let ?m = "m\<lparr>segs := (segs m)(a := None)\<rparr>"
  have "tts_text_segment_free (Some a) m = ?m" "store_ok ?m"
    using a free_allocated [OF a] store_ok_free [OF ok a] by simp_all
  moreover have "owned ?m ls = owned m ls" by (intro owned_cong) simp
  ultimately show ?thesis using o by (auto simp: owns_def holds_segments_def)
qed

lemma owns_read: "owns m ls q \<Longrightarrow> a \<in> set (owned m ls @ q) \<Longrightarrow> \<exists>sg. segs m a = Some sg \<and> read_segment a m = (Some sg, m)"
proof -
  assume "owns m ls q" "a \<in> set (owned m ls @ q)"
  then have "segs m a \<noteq> None" unfolding owns_def holds_segments_def by blast
  then show ?thesis by (auto simp: read_segment_def)
qed

lemma owns_list_read: "owns m ls q \<Longrightarrow> l \<in> set ls \<Longrightarrow> \<exists>as. seg_lists m l = Some as \<and> list_read l m = (as, m) \<and> set as \<subseteq> set (owned m ls)"
proof -
  assume o: "owns m ls q" and l: "l \<in> set ls"
  then obtain as where as: "seg_lists m l = Some as" by (auto simp: owns_def)
  then have "set as \<subseteq> set (owned m ls)" using l by (force simp: owned_def)
  with as show ?thesis by (simp add: list_read_def)
qed

subsection \<open>New lists\<close>

lemma alloc_all_facts:
  assumes "store_ok m" "alloc_all sgs m = (as, m')"
  shows "store_ok m' \<and> holds_segments m' as \<and> (\<forall>a \<in> set as. segs m a = None) \<and> map (segs m') as = map Some sgs \<and>
    seg_lists m' = seg_lists m \<and> (\<forall>b. segs m b \<noteq> None \<longrightarrow> segs m' b = segs m b)"
  using assms
proof (induction sgs arbitrary: m as m')
  case Nil
  then show ?case by (simp add: holds_segments_def)
next
  case (Cons sg sgs)
  obtain a m1 where a: "alloc_segment sg m = (a, m1)" by force
  obtain as' m2 where as': "alloc_all sgs m1 = (as', m2)" by force
  have r: "as = a # as'" "m' = m2" using Cons.prems(2) a as' by simp_all
  note f = alloc_facts [OF Cons.prems(1) a]
  from Cons.IH [OF f(1) as'] have IH: "store_ok m2" "holds_segments m2 as'" "\<forall>b \<in> set as'. segs m1 b = None"
    "map (segs m2) as' = map Some sgs" "seg_lists m2 = seg_lists m1" "\<forall>b. segs m1 b \<noteq> None \<longrightarrow> segs m2 b = segs m1 b"
    by auto
  have "segs m2 a = Some sg" using IH(6) f(3) by simp
  then show ?case
    using IH f r by (auto simp: holds_segments_def split: if_splits)
qed

lemma owns_new_list:
  assumes "owns m ls q" "alloc_all sgs m = (as, m1)" "list_alloc as m1 = (l, m2)"
  shows "owns m2 (l # ls) q" "seg_lists m2 l = Some as" "map (segs m2) as = map Some sgs"
    "\<And>b. segs m b \<noteq> None \<Longrightarrow> segs m2 b = segs m b" "\<And>k. seg_lists m k \<noteq> None \<Longrightarrow> seg_lists m2 k = seg_lists m k"
proof -
  have ok: "store_ok m" using assms(1) by (simp add: owns_def)
  note f = alloc_all_facts [OF ok assms(2)]
  have m2: "l = next_addr m1" "m2 = m1\<lparr>next_addr := Suc (next_addr m1), seg_lists := (seg_lists m1)(l \<mapsto> as)\<rparr>"
    using assms(3) by (auto simp: list_alloc_def)
  have fresh: "seg_lists m1 l = None" using f store_ok_fresh [of m1] m2(1) by simp
  have ok2: "store_ok m2" using f store_ok_list_alloc [of m1 as] assms(3) by simp
  have notin: "l \<notin> set ls" using assms(1) f fresh by (auto simp: owns_def)
  have ow: "owned m2 (l # ls) = as @ owned m ls"
    using notin f by (simp add: owned_def m2(2)) (intro arg_cong [of _ _ concat], auto)
  have "holds_segments m2 (as @ owned m ls @ q)"
    using assms(1) f by (auto simp: holds_append owns_def m2(2)) (auto simp: holds_segments_def)
  then show "owns m2 (l # ls) q"
    using assms(1) ok2 notin f ow by (auto simp: owns_def m2(2))
  show "seg_lists m2 l = Some as" "map (segs m2) as = map Some sgs" using f by (simp_all add: m2(2))
  show "segs m b \<noteq> None \<Longrightarrow> segs m2 b = segs m b" for b using f by (simp add: m2(2))
  show "seg_lists m k \<noteq> None \<Longrightarrow> seg_lists m2 k = seg_lists m k" for k using f fresh by (auto simp: m2(2))
qed

subsection \<open>Queueing copies\<close>

definition speakable :: "tts_text_segment \<Rightarrow> bool" where
  "speakable sg \<longleftrightarrow> (case seg_text sg of None \<Rightarrow> False | Some t \<Rightarrow> segment_text_ok t)"

definition not_boundary :: "tts_text_segment \<Rightarrow> bool" where
  "not_boundary sg \<longleftrightarrow> (\<forall>t. seg_text sg = Some t \<longrightarrow> length t \<noteq> 10000)"

text \<open>The memory before is still there after: nothing that was allocated has changed.\<close>

definition extends :: "store \<Rightarrow> store \<Rightarrow> bool" where
  "extends m m' \<longleftrightarrow> (\<forall>b. segs m b \<noteq> None \<longrightarrow> segs m' b = segs m b) \<and> seg_lists m' = seg_lists m"

lemma extends_trans: "extends m m' \<Longrightarrow> extends m' m'' \<Longrightarrow> extends m m''"
  unfolding extends_def by metis

lemma extends_refl: "extends m m"
  by (simp add: extends_def)

lemma segment_copy: "tts_text_segment_new (seg_text sg) (seg_bounds sg) (seg_page_number sg) (seg_id sg) (seg_type sg) =
  (if speakable sg then Some sg else None)"
  by (cases "seg_text sg"; cases sg) (simp_all add: speakable_def tts_text_segment_new_Some)

lemma queue_copy_speakable:
  assumes "segs (mem w) a = Some sg" "speakable sg" "not_boundary sg" "alloc_segment sg (mem w) = (b, m)" "store_ok (mem w)"
  shows "queue_copy a (e, w) = (e\<lparr>text_queue := text_queue e @ [b]\<rparr>, w\<lparr>mem := m\<rparr>)"
proof -
  obtain t where t: "seg_text sg = Some t" "segment_text_ok t"
    using assms(2) by (auto simp: speakable_def split: option.splits)
  have b: "segs m b = Some sg" using alloc_facts [OF assms(5,4)] by simp
  have "length t \<noteq> 10000" using assms(3) t by (simp add: not_boundary_def)
  then have "tts_streaming_engine_queue_segment (Some b) (e, w\<lparr>mem := m\<rparr>) =
      (True, e\<lparr>text_queue := text_queue e @ [b]\<rparr>, w\<lparr>mem := m\<rparr>)"
    using b t by (simp add: tts_streaming_engine_queue_segment_def read_segment_def Let_def segment_text_ok_def)
  then show ?thesis
    using assms(1,4) t segment_copy [of sg] assms(2)
    by (simp add: queue_copy_def read_segment_def Let_def)
qed

lemma queue_copy_unspeakable:
  "segs (mem w) a = Some sg \<Longrightarrow> \<not> speakable sg \<Longrightarrow> queue_copy a (e, w) = (e, w)"
  using segment_copy [of sg] by (simp add: queue_copy_def read_segment_def Let_def)

lemma owns_queue_loop:
  assumes "owns (mem w) ls (text_queue e)" "set as \<subseteq> set (owned (mem w) ls)"
    and "\<forall>a \<in> set as. not_boundary (the (segs (mem w) a))"
    and "queue_loop as (e, w) = (e', w')"
  shows "owns (mem w') ls (text_queue e') \<and> extends (mem w) (mem w') \<and>
    map (segs (mem w')) (text_queue e') =
      map (segs (mem w)) (text_queue e) @ map Some (filter speakable (map (\<lambda>a. the (segs (mem w) a)) as))"
  using assms
proof (induction as arbitrary: e w)
  case Nil
  then show ?case by (simp add: extends_refl)
next
  case (Cons a as)
  then obtain sg where sg: "segs (mem w) a = Some sg" using owns_read [of "mem w" ls "text_queue e" a] by auto
  show ?case
  proof (cases "speakable sg")
    case False
    then have "queue_loop as (e, w) = (e', w')" using Cons.prems(4) queue_copy_unspeakable [OF sg] by simp
    then show ?thesis using Cons.IH [of w e] Cons.prems(1-3) sg False by simp
  next
    case True
    obtain b m where b: "alloc_segment sg (mem w) = (b, m)" by force
    have ok: "store_ok (mem w)" using Cons.prems(1) by (simp add: owns_def)
    note f = alloc_facts [OF ok b]
    let ?e = "e\<lparr>text_queue := text_queue e @ [b]\<rparr>" and ?w = "w\<lparr>mem := m\<rparr>"
    have q: "queue_loop as (?e, ?w) = (e', w')"
      using Cons.prems(3,4) queue_copy_speakable [OF sg True _ b ok] sg by simp
    have ex: "extends (mem w) m" using f by (auto simp: extends_def)
    have ow: "owned m ls = owned (mem w) ls" by (intro owned_cong) (simp add: f)
    have live: "segs (mem w) c \<noteq> None" if "c \<in> set (owned (mem w) ls @ text_queue e)" for c
      using that Cons.prems(1) unfolding owns_def holds_segments_def by blast
    have same: "segs m c = segs (mem w) c" if "c \<in> set (owned (mem w) ls @ text_queue e)" for c
      using live [OF that] f(2,3) by (cases "c = b") simp_all
    have as: "segs m c = segs (mem w) c" if "c \<in> set as" for c
      using same [of c] that Cons.prems(2) by auto
    have IH: "owns (mem w') ls (text_queue e') \<and> extends (mem ?w) (mem w') \<and>
      map (segs (mem w')) (text_queue e') =
        map (segs (mem ?w)) (text_queue ?e) @ map Some (filter speakable (map (\<lambda>a. the (segs (mem ?w) a)) as))"
    proof (rule Cons.IH)
      show "owns (mem ?w) ls (text_queue ?e)" using owns_alloc_queue [OF Cons.prems(1) b] by simp
      show "set as \<subseteq> set (owned (mem ?w) ls)" using Cons.prems(2) ow by simp
      show "\<forall>a \<in> set as. not_boundary (the (segs (mem ?w) a))" using Cons.prems(3) as by simp
    qed (rule q)
    have "map (segs m) (text_queue e @ [b]) = map (segs (mem w)) (text_queue e) @ [Some sg]"
      using same f(3) by simp
    moreover have "filter speakable (map (\<lambda>a. the (segs m a)) as) = filter speakable (map (\<lambda>a. the (segs (mem w) a)) as)"
      using as by (intro arg_cong [of _ _ "filter speakable"] map_cong) simp_all
    moreover have "map (segs (mem w')) (text_queue e') =
        map (segs m) (text_queue e @ [b]) @ map Some (filter speakable (map (\<lambda>a. the (segs m a)) as))"
      using IH by simp
    ultimately have "map (segs (mem w')) (text_queue e') =
        map (segs (mem w)) (text_queue e) @ map Some (filter speakable (map (\<lambda>a. the (segs (mem w) a)) (a # as)))"
      using sg True by simp
    moreover have "extends (mem w) (mem w')" using IH ex extends_trans by auto
    ultimately show ?thesis using IH by blast
  qed
qed

subsection \<open>The invariant\<close>

definition lists_of :: "audio \<Rightarrow> addr list" where
  "lists_of s = (case text_segments (ctl s) of None \<Rightarrow> [] | Some l \<Rightarrow> [l])"

definition queue_of :: "tts_streaming_engine option \<Rightarrow> addr list" where
  "queue_of engine = (case engine of None \<Rightarrow> [] | Some e \<Rightarrow> text_queue e)"

definition position_ok :: "audio \<Rightarrow> bool" where
  "position_ok s \<longleftrightarrow> (current_segment (ctl s) = - 1 \<and> current_page (ctl s) = - 1) \<or>
     (\<exists>l as sg. text_segments (ctl s) = Some l \<and> seg_lists (mem (world s)) l = Some as \<and>
        0 \<le> current_segment (ctl s) \<and> current_segment (ctl s) < int (length as) \<and>
        segs (mem (world s)) (as ! nat (current_segment (ctl s))) = Some sg \<and> current_page (ctl s) = seg_page_number sg)"

definition idle_queue_empty :: "tts_streaming_engine option \<Rightarrow> bool" where
  "idle_queue_empty engine \<longleftrightarrow> (\<forall>e. engine = Some e \<longrightarrow>
     stream_state e = TTS_STREAMING_STATE_IDLE \<or> stream_state e = TTS_STREAMING_STATE_ERROR \<longrightarrow> text_queue e = [])"

definition audio_ok :: "audio \<Rightarrow> bool" where
  "audio_ok s \<longleftrightarrow> controller_in_step s \<and> owns (mem (world s)) (lists_of s) (queue_of (streaming_engine (ctl s))) \<and>
     position_ok s \<and> idle_queue_empty (streaming_engine (ctl s))"

text \<open>The part of the memory that the given lists own is unchanged.\<close>

definition keeps :: "store \<Rightarrow> addr list \<Rightarrow> store \<Rightarrow> bool" where
  "keeps m ls m' \<longleftrightarrow> (\<forall>l \<in> set ls. seg_lists m' l = seg_lists m l) \<and> (\<forall>a \<in> set (owned m ls). segs m' a = segs m a)"

lemma keeps_refl: "keeps m ls m"
  by (simp add: keeps_def)

lemma keeps_trans:
  assumes "keeps m ls m'" "keeps m' ls m''"
  shows "keeps m ls m''"
proof -
  have "owned m ls = owned m' ls" using assms(1) by (intro owned_cong) (simp add: keeps_def)
  then show ?thesis using assms by (simp add: keeps_def)
qed

lemma extends_keeps: "owns m ls q \<Longrightarrow> extends m m' \<Longrightarrow> keeps m ls m'"
  using owns_read [of m ls q] by (fastforce simp: keeps_def extends_def)

lemma keeps_free_queue: "owns m ls q \<Longrightarrow> keeps m ls (free_segments q m)"
proof -
  assume o: "owns m ls q"
  then have h: "holds_segments m q" "set (owned m ls) \<inter> set q = {}" by (auto simp: owns_def holds_append)
  then show ?thesis by (auto simp: keeps_def free_segments_effect)
qed

lemma keeps_free_list: "owns m (old # ls) q \<Longrightarrow> keeps m ls (list_free old m)"
proof -
  assume o: "owns m (old # ls) q"
  then obtain as where as: "seg_lists m old = Some as" by (auto simp: owns_def)
  then have ow: "owned m (old # ls) = as @ owned m ls" by (simp add: owned_def)
  then have h: "holds_segments m as" "set as \<inter> set (owned m ls) = {}" using o by (auto simp: owns_def holds_append)
  have "old \<notin> set ls" using o by (simp add: owns_def)
  then show ?thesis
    using h by (auto simp: keeps_def list_free_def as free_segments_effect)
qed

lemma owns_swap: "owns m [k, l] q \<Longrightarrow> owns m [l, k] q"
  by (auto simp: owns_def owned_def holds_append)

lemma stop_owns:
  assumes "owns (mem w) ls (text_queue e)" "stream_inv e" "tts_streaming_engine_stop env (e, w) = (ok, e', w')"
  shows "owns (mem w') ls (text_queue e') \<and> keeps (mem w) ls (mem w') \<and>
    (stream_state e \<noteq> TTS_STREAMING_STATE_IDLE \<longrightarrow> text_queue e' = [])"
proof (cases "stream_state e = TTS_STREAMING_STATE_IDLE")
  case True
  then show ?thesis using assms stop_idle [of "(e, w)" env] by (simp add: keeps_refl)
next
  case False
  then have n: "stream_state (fst (e, w)) \<noteq> TTS_STREAMING_STATE_IDLE" by simp
  have "text_queue e' = []" using stop_engine [OF n, of env] stream_inv_range [OF assms(2)] assms(3) by simp
  moreover have "mem w' = free_segments (text_queue e) (mem w)" using stop_mem [OF n, of env] assms(3) by simp
  ultimately show ?thesis
    using owns_free_queue [OF assms(1)] keeps_free_queue [OF assms(1)] by simp
qed

lemma stop_streaming_owns:
  assumes "owns (mem (world s)) ls (queue_of (streaming_engine (ctl s)))" "controller_in_step s"
    "idle_queue_empty (streaming_engine (ctl s))"
  shows "owns (mem (world (stop_streaming_session env s))) ls (queue_of (streaming_engine (ctl (stop_streaming_session env s)))) \<and>
    keeps (mem (world s)) ls (mem (world (stop_streaming_session env s))) \<and>
    queue_of (streaming_engine (ctl (stop_streaming_session env s))) = []"
proof (cases "streaming_engine (ctl s)")
  case None
  then show ?thesis using assms(1) by (simp add: stop_streaming_session_def keeps_refl queue_of_def)
next
  case (Some e)
  obtain ok e' w' where r: "tts_streaming_engine_stop env (e, world s) = (ok, e', w')" by (metis prod.collapse)
  have i: "stream_inv e" using assms(2) Some by (simp add: controller_in_step_def in_step_def)
  have "text_queue e' = []" if "stream_state e = TTS_STREAMING_STATE_IDLE"
    using that assms(3) Some r stop_idle [of "(e, world s)" env] by (simp add: idle_queue_empty_def)
  then show ?thesis
    using stop_owns [OF _ i r, of ls] assms(1) Some
    by (auto simp: stop_streaming_session_def r queue_of_def)
qed

lemma stop_session_world: "world (stop_session_body env s) = world (stop_streaming_session env s)"
  by (simp add: stop_session_body_def Let_def set_state_fields stop_streaming_session_def split: option.split prod.split)

lemma stop_session_engine: "streaming_engine (ctl (stop_session_body env s)) = streaming_engine (ctl (stop_streaming_session env s))"
  by (simp add: stop_session_ctl stop_streaming_fields engine_after_stop_def)

lemma stop_session_owns:
  assumes "owns (mem (world s)) ls (queue_of (streaming_engine (ctl s)))" "controller_in_step s"
    "idle_queue_empty (streaming_engine (ctl s))"
  shows "owns (mem (world (stop_session_body env s))) ls (queue_of (streaming_engine (ctl (stop_session_body env s)))) \<and>
    keeps (mem (world s)) ls (mem (world (stop_session_body env s))) \<and>
    queue_of (streaming_engine (ctl (stop_session_body env s))) = []"
  unfolding stop_session_world stop_session_engine by (rule stop_streaming_owns [OF assms])

subsection \<open>Starting a session\<close>

text \<open>The list at \<open>l\<close> holds exactly the given segments.\<close>

definition carries :: "store \<Rightarrow> addr \<Rightarrow> tts_text_segment list \<Rightarrow> bool" where
  "carries m l sgs \<longleftrightarrow> (\<exists>as. seg_lists m l = Some as \<and> map (segs m) as = map Some sgs)"

lemma keeps_carries: "carries m l sgs \<Longrightarrow> keeps m ls m' \<Longrightarrow> l \<in> set ls \<Longrightarrow> carries m' l sgs"
proof -
  assume c: "carries m l sgs" and k: "keeps m ls m'" and l: "l \<in> set ls"
  from c obtain as where as: "seg_lists m l = Some as" "map (segs m) as = map Some sgs" by (auto simp: carries_def)
  then have "set as \<subseteq> set (owned m ls)" using l by (force simp: owned_def)
  then have "map (segs m') as = map (segs m) as" using k by (auto simp: keeps_def)
  then show ?thesis using as k l by (auto simp: carries_def keeps_def)
qed

lemma set_first_position_world:
  assumes "owns (mem (world s)) [l] q" "carries (mem (world s)) l sgs"
  shows "world (set_first_position l s) = world s"
    "current_page (ctl (set_first_position l s)) = (case sgs of [] \<Rightarrow> current_page (ctl s) | sg # _ \<Rightarrow> seg_page_number sg)"
    "current_segment (ctl (set_first_position l s)) = (case sgs of [] \<Rightarrow> current_segment (ctl s) | sg # _ \<Rightarrow> 0)"
proof -
  obtain as where as: "seg_lists (mem (world s)) l = Some as" "map (segs (mem (world s))) as = map Some sgs"
    using assms(2) by (auto simp: carries_def)
  have w: "(world s)\<lparr>mem := mem (world s)\<rparr> = world s" by simp
  show "world (set_first_position l s) = world s"
    "current_page (ctl (set_first_position l s)) = (case sgs of [] \<Rightarrow> current_page (ctl s) | sg # _ \<Rightarrow> seg_page_number sg)"
    "current_segment (ctl (set_first_position l s)) = (case sgs of [] \<Rightarrow> current_segment (ctl s) | sg # _ \<Rightarrow> 0)"
    using as by (cases as; cases sgs; simp add: set_first_position_def list_read_def read_segment_def w)+
qed

lemma start_world:
  assumes "tts_streaming_engine_start sp (e, w) = (ok, e', w')"
  shows "mem w' = mem w" "text_queue e' = text_queue e"
proof -
  have spawn: "mem (snd (snd (tts_streaming_engine_spawn_process sp s))) = mem (snd s)"
    "text_queue (fst (snd (tts_streaming_engine_spawn_process sp s))) = text_queue (fst s)" for s
    by (cases s; simp add: tts_streaming_engine_spawn_process_def Let_def close_fd_def split: option.split prod.split)+
  obtain b e1 w1 where sp: "tts_streaming_engine_spawn_process sp
      (tts_streaming_engine_set_state TTS_STREAMING_STATE_STARTING (e, w)) = (b, e1, w1)"
    by (metis prod.collapse)
  have "mem w1 = mem w" "text_queue e1 = text_queue e"
    using spawn [of "tts_streaming_engine_set_state TTS_STREAMING_STATE_STARTING (e, w)"] by (simp_all add: sp)
  then have "mem (snd (snd (tts_streaming_engine_start sp (e, w)))) = mem w"
    "text_queue (fst (snd (tts_streaming_engine_start sp (e, w)))) = text_queue e"
    unfolding tts_streaming_engine_start_def sp by simp_all
  then show "mem w' = mem w" "text_queue e' = text_queue e" by (simp_all add: assms)
qed

lemma before_play_owns:
  assumes "controller_in_step s" "idle_queue_empty (streaming_engine (ctl s))"
    and "owns (mem (world s)) (l # lists_of s) (queue_of (streaming_engine (ctl s)))" "carries (mem (world s)) l sgs"
  shows "owns (mem (world (before_play env l s))) [l] []" "carries (mem (world (before_play env l s))) l sgs"
    "queue_of (streaming_engine (ctl (before_play env l s))) = []"
    "current_page (ctl (before_play env l s)) = (case sgs of [] \<Rightarrow> - 1 | sg # _ \<Rightarrow> seg_page_number sg)"
    "current_segment (ctl (before_play env l s)) = (case sgs of [] \<Rightarrow> - 1 | sg # _ \<Rightarrow> 0)"
proof -
  define s1 where "s1 = (if audio_state (ctl s) \<noteq> TTS_AUDIO_STATE_STOPPED then stop_session_body env s else s)"
  define s2 where "s2 = (case text_segments (ctl s1) of None \<Rightarrow> s1 | Some old \<Rightarrow> upd_mem (list_free old (mem (world s1))) s1)"
  define s3 where "s3 = upd_ctl (\<lambda>c. c\<lparr>text_segments := Some l, current_page := - 1, current_segment := - 1\<rparr>) s2"
  have b: "before_play env l s = set_first_position l s3"
    by (simp only: before_play_def Let_def s1_def s2_def s3_def)
  have idle: "audio_state (ctl s) = TTS_AUDIO_STATE_STOPPED \<Longrightarrow> queue_of (streaming_engine (ctl s)) = []"
    using assms(1,2) by (auto simp: controller_in_step_def in_step_def idle_queue_empty_def queue_of_def split: option.splits)
  have s1: "owns (mem (world s1)) (l # lists_of s1) [] \<and> carries (mem (world s1)) l sgs \<and> queue_of (streaming_engine (ctl s1)) = []"
  proof (cases "audio_state (ctl s) = TTS_AUDIO_STATE_STOPPED")
    case True
    then show ?thesis using assms(3,4) idle by (simp add: s1_def)
  next
    case False
    have "lists_of (stop_session_body env s) = lists_of s" by (simp add: lists_of_def stop_session_ctl)
    then show ?thesis
      using False stop_session_owns [OF assms(3,1,2), of env] keeps_carries [OF assms(4)] by (auto simp: s1_def)
  qed
  have s2: "owns (mem (world s2)) [l] [] \<and> carries (mem (world s2)) l sgs \<and> queue_of (streaming_engine (ctl s2)) = []"
  proof (cases "text_segments (ctl s1)")
    case None
    then show ?thesis using s1 by (simp add: s2_def lists_of_def)
  next
    case (Some old)
    then have o: "owns (mem (world s1)) [old, l] []" using s1 owns_swap by (simp add: lists_of_def)
    then show ?thesis
      using owns_free_list [OF o] keeps_free_list [OF o] keeps_carries s1 by (simp add: s2_def Some) (metis list.set_intros(1))
  qed
  have s3: "owns (mem (world s3)) [l] []" "carries (mem (world s3)) l sgs" using s2 by (simp_all add: s3_def)
  note p = set_first_position_world [OF s3]
  show "owns (mem (world (before_play env l s))) [l] []" "carries (mem (world (before_play env l s))) l sgs"
    using s3 by (simp_all add: b p)
  show "queue_of (streaming_engine (ctl (before_play env l s))) = []"
    using s2 by (simp add: b set_first_position_fields s3_def)
  show "current_page (ctl (before_play env l s)) = (case sgs of [] \<Rightarrow> - 1 | sg # _ \<Rightarrow> seg_page_number sg)"
    "current_segment (ctl (before_play env l s)) = (case sgs of [] \<Rightarrow> - 1 | sg # _ \<Rightarrow> 0)"
    by (simp_all add: b p) (simp_all add: s3_def split: list.split)
qed

lemma set_state_playing: "audio_state (ctl b) = TTS_AUDIO_STATE_STOPPED \<Longrightarrow>
  \<exists>s5. set_state_body TTS_AUDIO_STATE_PLAYING b = (True, s5) \<and> world s5 = world b \<and>
    ctl s5 = (ctl b)\<lparr>audio_state := TTS_AUDIO_STATE_PLAYING\<rparr>"
  using set_state_fields [of TTS_AUDIO_STATE_PLAYING b]
  by (cases "set_state_body TTS_AUDIO_STATE_PLAYING b") (simp add: valid_transition_def)

lemma start_streaming_owns:
  assumes "owns (mem (world s)) [l] []" "carries (mem (world s)) l sgs" "queue_of (streaming_engine (ctl s)) = []"
    and "\<forall>sg \<in> set sgs. not_boundary sg" "start_streaming_session sp l s = (ok, s')"
  shows "owns (mem (world s')) [l] (queue_of (streaming_engine (ctl s')))" "carries (mem (world s')) l sgs"
    "ok \<Longrightarrow> map (segs (mem (world s'))) (queue_of (streaming_engine (ctl s'))) = map Some (filter speakable sgs)"
    "\<not> ok \<Longrightarrow> queue_of (streaming_engine (ctl s')) = []"
proof -
  define e0 where "e0 = (case streaming_engine (ctl s) of None \<Rightarrow> tts_streaming_engine_new TTS_ENGINE_PIPER | Some e \<Rightarrow> e)"
  have q0: "text_queue e0 = []"
    using assms(3) by (auto simp: e0_def queue_of_def tts_streaming_engine_new_def split: option.splits)
  obtain started e1 w1 where st: "tts_streaming_engine_start sp (e0, world s) = (started, e1, w1)"
    by (metis prod.collapse)
  note w1 = start_world [OF st]
  obtain as where as: "seg_lists (mem (world s)) l = Some as" "map (segs (mem (world s))) as = map Some sgs"
    using assms(2) by (auto simp: carries_def)
  have lr: "list_read l (mem w1) = (as, mem (world s))" using as by (simp add: list_read_def w1)
  have ww: "w1\<lparr>mem := mem (world s)\<rparr> = w1" using w1(1) by (cases w1) simp
  obtain e2 w2 where q: "queue_loop as (e1, w1) = (e2, w2)" by force
  have s': "(ok, s') = (if \<not> started then (False, s\<lparr>ctl := (ctl s)\<lparr>streaming_engine := Some e1\<rparr>, world := w1\<rparr>)
      else (True, s\<lparr>ctl := (ctl s)\<lparr>streaming_engine := Some e2\<rparr>, world := w2\<rparr>))"
    using assms(5) unfolding start_streaming_session_def e0_def [symmetric] Let_def st
    by (cases started) (simp_all add: lr ww q)
  have ow: "owned (mem w1) [l] = as" using as by (simp add: owned_def w1)
  have the_as: "map (\<lambda>a. the (segs (mem w1) a)) as = sgs"
    using arg_cong [OF as(2), of "map the"] by (simp add: w1 o_def)
  have nb: "\<forall>a \<in> set as. not_boundary (the (segs (mem w1) a))"
    using assms(4) the_as by (metis image_eqI list.set_map)
  have loop: "owns (mem w2) [l] (text_queue e2)" "extends (mem w1) (mem w2)"
    "map (segs (mem w2)) (text_queue e2) = map Some (filter speakable sgs)"
    using owns_queue_loop [OF _ _ nb q, of "[l]"] assms(1) ow w1 q0 the_as by simp_all
  have keep: "keeps (mem (world s)) [l] (mem w2)" using extends_keeps [OF assms(1)] loop(2) w1 by simp
  show "owns (mem (world s')) [l] (queue_of (streaming_engine (ctl s')))"
    using s' loop assms(1) w1 q0 by (cases started) (simp_all add: queue_of_def)
  show "carries (mem (world s')) l sgs"
    using s' keeps_carries [OF assms(2) keep] assms(2) w1 by (cases started) simp_all
  show "ok \<Longrightarrow> map (segs (mem (world s'))) (queue_of (streaming_engine (ctl s'))) = map Some (filter speakable sgs)"
    using s' loop by (cases started) (simp_all add: queue_of_def)
  show "\<not> ok \<Longrightarrow> queue_of (streaming_engine (ctl s')) = []"
    using s' w1 q0 by (cases started) (simp_all add: queue_of_def)
qed

lemma start_session_owns:
  assumes i: "controller_in_step s" "idle_queue_empty (streaming_engine (ctl s))"
    and o: "owns (mem (world s)) (l # lists_of s) (queue_of (streaming_engine (ctl s)))" "carries (mem (world s)) l sgs"
    and nb: "\<forall>sg \<in> set sgs. not_boundary sg" and r: "start_session_body sp env (Some l) s = (ok, s')"
  shows "audio_ok s'" "text_segments (ctl s') = Some l" "carries (mem (world s')) l sgs"
    "current_segment (ctl s') = (case sgs of [] \<Rightarrow> - 1 | _ \<Rightarrow> 0)"
    "current_page (ctl s') = (case sgs of [] \<Rightarrow> - 1 | sg # _ \<Rightarrow> seg_page_number sg)"
    "audio_state (ctl s') = (if ok then TTS_AUDIO_STATE_PLAYING else TTS_AUDIO_STATE_ERROR)"
    "ok \<Longrightarrow> map (segs (mem (world s'))) (queue_of (streaming_engine (ctl s'))) = map Some (filter speakable sgs)"
proof -
  let ?b = "before_play env l s"
  note b = before_play_in_step [OF i(1), of env l] and bo = before_play_owns [OF i o, of env]
  obtain s5 where s5: "set_state_body TTS_AUDIO_STATE_PLAYING ?b = (True, s5)" "world s5 = world ?b"
    "ctl s5 = (ctl ?b)\<lparr>audio_state := TTS_AUDIO_STATE_PLAYING\<rparr>"
    using set_state_playing [OF b(1)] by blast
  obtain r6 s6 where s6: "start_streaming_session sp l s5 = (r6, s6)" by force
  have pre: "owns (mem (world s5)) [l] []" "carries (mem (world s5)) l sgs" "queue_of (streaming_engine (ctl s5)) = []"
    using bo by (simp_all add: s5)
  note so = start_streaming_owns [OF pre nb s6]
  obtain e where e: "ctl s6 = (ctl s5)\<lparr>streaming_engine := Some e\<rparr>" "stream_inv e"
    "stream_state e = (if r6 then TTS_STREAMING_STATE_ACTIVE else TTS_STREAMING_STATE_ERROR)"
    using start_streaming_in_step [OF _ s6] b(2) by (auto simp: s5)
  have r': "ok = r6" "s' = (if r6 then s6 else snd (set_state_body TTS_AUDIO_STATE_ERROR s6))"
    using r by (auto simp: start_session_before_play s5 s6 split: if_splits)
  have w: "world s' = world s6" by (simp add: r' set_state_fields)
  have c: "ctl s' = (ctl ?b)\<lparr>streaming_engine := Some e,
      audio_state := (if ok then TTS_AUDIO_STATE_PLAYING else TTS_AUDIO_STATE_ERROR)\<rparr>"
    by (simp add: r' set_state_fields e s5 valid_transition_def)
  show ts: "text_segments (ctl s') = Some l" by (simp add: c b)
  show ca: "carries (mem (world s')) l sgs" using so by (simp add: w)
  show pos: "current_segment (ctl s') = (case sgs of [] \<Rightarrow> - 1 | _ \<Rightarrow> 0)"
    "current_page (ctl s') = (case sgs of [] \<Rightarrow> - 1 | sg # _ \<Rightarrow> seg_page_number sg)"
    using bo(4,5) by (simp_all add: c)
  show "audio_state (ctl s') = (if ok then TTS_AUDIO_STATE_PLAYING else TTS_AUDIO_STATE_ERROR)" by (simp add: c)
  show "ok \<Longrightarrow> map (segs (mem (world s'))) (queue_of (streaming_engine (ctl s'))) = map Some (filter speakable sgs)"
    using so(3) by (simp add: w r'(1) c) (simp add: e(1))
  have "controller_in_step s'" using start_session_in_step [OF i(1), of sp env "Some l"] r by simp
  moreover have "owns (mem (world s')) (lists_of s') (queue_of (streaming_engine (ctl s')))"
    using so(1) by (simp add: w c lists_of_def b) (simp add: e(1))
  moreover have "idle_queue_empty (streaming_engine (ctl s'))"
    using so(4) e by (simp add: idle_queue_empty_def c queue_of_def)
  moreover have "position_ok s'"
    using ca ts pos by (cases sgs) (auto simp: position_ok_def carries_def)
  ultimately show "audio_ok s'" by (simp add: audio_ok_def)
qed

subsection \<open>Every call keeps the invariant\<close>

lemma position_ok_frame:
  assumes "position_ok s" and k: "keeps (mem (world s)) (lists_of s) (mem (world s'))"
    and "text_segments (ctl s') = text_segments (ctl s)" "current_segment (ctl s') = current_segment (ctl s)"
    "current_page (ctl s') = current_page (ctl s)"
  shows "position_ok s'"
proof (cases "current_segment (ctl s) = - 1 \<and> current_page (ctl s) = - 1")
  case True
  then show ?thesis using assms by (simp add: position_ok_def)
next
  case False
  then obtain l as sg where p: "text_segments (ctl s) = Some l" "seg_lists (mem (world s)) l = Some as"
    "0 \<le> current_segment (ctl s)" "current_segment (ctl s) < int (length as)"
    "segs (mem (world s)) (as ! nat (current_segment (ctl s))) = Some sg" "current_page (ctl s) = seg_page_number sg"
    using assms(1) by (auto simp: position_ok_def)
  then have "lists_of s = [l]" "owned (mem (world s)) [l] = as" by (simp_all add: lists_of_def owned_def)
  then have "seg_lists (mem (world s')) l = Some as"
    "segs (mem (world s')) (as ! nat (current_segment (ctl s))) = Some sg"
    using k p by (simp_all add: keeps_def)
  then show ?thesis using p assms(3-5) by (simp add: position_ok_def)
qed

lemma stop_session_ok: "audio_ok s \<Longrightarrow> audio_ok (stop_session_body env s)"
proof -
  assume a: "audio_ok s"
  then have o: "owns (mem (world s)) (lists_of s) (queue_of (streaming_engine (ctl s)))" and i: "controller_in_step s"
    and q: "idle_queue_empty (streaming_engine (ctl s))" by (simp_all add: audio_ok_def)
  note so = stop_session_owns [OF o i q, of env]
  have "lists_of (stop_session_body env s) = lists_of s" by (simp add: lists_of_def stop_session_ctl)
  moreover have "position_ok (stop_session_body env s)" by (simp add: position_ok_def stop_session_ctl)
  moreover have "idle_queue_empty (streaming_engine (ctl (stop_session_body env s)))"
    using so by (auto simp: idle_queue_empty_def queue_of_def split: option.splits)
  ultimately show ?thesis using so stop_session_in_step [OF i, of env] unfolding audio_ok_def by metis
qed

lemma feeder_owns:
  assumes o: "owns (mem w) ls (text_queue e)" and r: "feeder_round env (e, w) = (out, e', w')"
  shows "owns (mem w') ls (text_queue e') \<and> keeps (mem w) ls (mem w') \<and> (text_queue e = [] \<longrightarrow> text_queue e' = [])"
proof (cases "text_queue e")
  case Nil
  then have "e' = e \<and> w' = w" using r by (auto simp: feeder_round_def split: if_splits)
  then show ?thesis using o by (simp add: keeps_refl)
next
  case (Cons a q)
  obtain sg where sg: "segs (mem w) a = Some sg" "read_segment a (mem w) = (Some sg, mem w)"
    using owns_read [OF o, of a] Cons by auto
  have "owns (mem w) ls (a # q)" using o Cons by simp
  note o' = this owns_drop_queue [OF this] owns_free_head [OF this]
  have mw: "mem (write_text env t w) = mem w" for t by (simp add: write_text_def Let_def)
  have k: "keeps (mem w) ls (tts_text_segment_free (Some a) (mem w))"
    using o'(1) sg(1) by (auto simp: keeps_def free_allocated owns_def holds_segments_def)
  have "w\<lparr>mem := mem w\<rparr> = w" by simp
  then show ?thesis
    using o o' k r sg(2) mw Cons
    by (auto simp: feeder_round_def Let_def keeps_refl split: if_splits option.splits)
qed

lemma feed_ok: "audio_ok s \<Longrightarrow> audio_ok (feed_body env s)"
proof (cases "streaming_engine (ctl s)")
  case (Some e)
  assume a: "audio_ok s"
  obtain out e' w' where r: "feeder_round env (e, world s) = (out, e', w')" by (metis prod.collapse)
  have o: "owns (mem (world s)) (lists_of s) (text_queue e)" using a Some by (simp add: audio_ok_def queue_of_def)
  note f = feeder_owns [OF o r]
  have s': "feed_body env s = s\<lparr>ctl := (ctl s)\<lparr>streaming_engine := Some e'\<rparr>, world := w'\<rparr>"
    by (simp add: feed_body_def Some r)
  have "e'\<lparr>text_queue := []\<rparr> = e\<lparr>text_queue := []\<rparr>" using feeder_fst [of env "(e, world s)"] r by simp
  then have st: "stream_state e' = stream_state e" by (rule same_stream_state)
  have "position_ok (feed_body env s)"
    by (rule position_ok_frame [of s]) (use a f in \<open>simp_all add: audio_ok_def s'\<close>)
  moreover have "controller_in_step (feed_body env s)" using a feed_in_step by (simp add: audio_ok_def)
  moreover have "lists_of (feed_body env s) = lists_of s" by (simp add: lists_of_def s')
  moreover have "idle_queue_empty (Some e')"
    using a f st by (simp add: audio_ok_def idle_queue_empty_def Some)
  ultimately show ?thesis using f by (simp add: audio_ok_def queue_of_def s')
qed (simp add: feed_body_def)

definition memory_ok :: "audio \<Rightarrow> bool" where
  "memory_ok s \<longleftrightarrow> owns (mem (world s)) (lists_of s) (queue_of (streaming_engine (ctl s))) \<and> position_ok s \<and>
     idle_queue_empty (streaming_engine (ctl s))"

lemma audio_ok_memory: "audio_ok s \<longleftrightarrow> controller_in_step s \<and> memory_ok s"
  by (auto simp: audio_ok_def memory_ok_def)

lemma memory_ok_cong:
  assumes "memory_ok s" "mem (world s') = mem (world s)" "text_segments (ctl s') = text_segments (ctl s)"
    "streaming_engine (ctl s') = streaming_engine (ctl s)" "current_page (ctl s') = current_page (ctl s)"
    "current_segment (ctl s') = current_segment (ctl s)"
  shows "memory_ok s'"
  using assms by (simp add: memory_ok_def position_ok_def lists_of_def)

lemma memory_ok_set_state: "memory_ok s \<Longrightarrow> memory_ok (snd (set_state_body st s))"
  by (erule memory_ok_cong) (simp_all add: set_state_fields)

lemma memory_ok_engine:
  assumes "memory_ok s" "streaming_engine (ctl s) = Some e" "text_queue e' = text_queue e" "mem w' = mem (world s)"
    and "stream_state e' = TTS_STREAMING_STATE_IDLE \<or> stream_state e' = TTS_STREAMING_STATE_ERROR \<Longrightarrow>
      stream_state e' = stream_state e"
  shows "memory_ok (s\<lparr>ctl := (ctl s)\<lparr>streaming_engine := Some e'\<rparr>, world := w'\<rparr>)"
  using assms by (auto simp: memory_ok_def position_ok_def lists_of_def queue_of_def idle_queue_empty_def)

lemma pause_ok: "audio_ok s \<Longrightarrow> audio_ok (snd (pause_session_body s))"
proof -
  assume "audio_ok s"
  then have i: "controller_in_step s" and m: "memory_ok s" by (simp_all add: audio_ok_memory)
  have "memory_ok (snd (pause_session_body s))"
  proof (cases "streaming_engine (ctl s)")
    case None
    then show ?thesis using m by (simp add: pause_session_body_def memory_ok_set_state)
  next
    case (Some e)
    obtain ok e' w' where r: "tts_streaming_engine_pause (e, world s) = (ok, e', w')" by (metis prod.collapse)
    then have "memory_ok (s\<lparr>ctl := (ctl s)\<lparr>streaming_engine := Some e'\<rparr>, world := w'\<rparr>)"
      by (intro memory_ok_engine [OF m Some])
        (auto simp: pause_cases tts_streaming_engine_set_state_def split: if_splits)
    then show ?thesis by (auto simp: pause_session_body_def Some r Let_def memory_ok_set_state)
  qed
  with pause_in_step [OF i] show ?thesis by (simp add: audio_ok_memory)
qed

lemma resume_ok: "audio_ok s \<Longrightarrow> audio_ok (snd (resume_session_body s))"
proof -
  assume "audio_ok s"
  then have i: "controller_in_step s" and m: "memory_ok s" by (simp_all add: audio_ok_memory)
  have "memory_ok (snd (resume_session_body s))"
  proof (cases "streaming_engine (ctl s)")
    case None
    then show ?thesis using m by (simp add: resume_session_body_def memory_ok_set_state)
  next
    case (Some e)
    obtain ok e' w' where r: "tts_streaming_engine_resume (e, world s) = (ok, e', w')" by (metis prod.collapse)
    then have "memory_ok (s\<lparr>ctl := (ctl s)\<lparr>streaming_engine := Some e'\<rparr>, world := w'\<rparr>)"
      by (intro memory_ok_engine [OF m Some])
        (auto simp: resume_cases tts_streaming_engine_set_state_def split: if_splits)
    then show ?thesis by (auto simp: resume_session_body_def Some r Let_def memory_ok_set_state)
  qed
  with resume_in_step [OF i] show ?thesis by (simp add: audio_ok_memory)
qed

subsection \<open>Moving the position\<close>

definition at_position :: "int \<Rightarrow> int \<Rightarrow> audio \<Rightarrow> audio" where
  "at_position page segment s = upd_ctl (\<lambda>c. c\<lparr>current_page := page, current_segment := segment\<rparr>) s"

lemma carries_nth:
  assumes "carries m l sgs"
  obtains as where "seg_lists m l = Some as" "length as = length sgs"
    "\<And>i. i < length sgs \<Longrightarrow> segs m (as ! i) = Some (sgs ! i)"
proof -
  obtain as where as: "seg_lists m l = Some as" "map (segs m) as = map Some sgs"
    using assms by (auto simp: carries_def)
  have "length as = length sgs" using arg_cong [OF as(2), of length] by simp
  moreover have "segs m (as ! i) = Some (sgs ! i)" if "i < length sgs" for i
    using arg_cong [OF as(2), of "\<lambda>xs. xs ! i"] that calculation by simp
  ultimately show thesis using that as by blast
qed

lemma upd_mem_same [simp]: "upd_mem (mem (world s)) s = s"
  by simp

lemma navigate_to_segment_effect:
  assumes "text_segments (ctl s) = Some l" "carries (mem (world s)) l sgs"
  shows "navigate_to_segment_body d s =
    (let i = current_segment (ctl s) + d in
     if 0 \<le> i \<and> i < int (length sgs) then (True, at_position (seg_page_number (sgs ! nat i)) i s) else (False, s))"
proof -
  obtain as where as: "seg_lists (mem (world s)) l = Some as" "length as = length sgs"
    "\<And>i. i < length sgs \<Longrightarrow> segs (mem (world s)) (as ! i) = Some (sgs ! i)"
    using carries_nth [OF assms(2)] by blast
  then show ?thesis
    using assms(1) by (auto simp: navigate_to_segment_body_def list_read_def read_segment_def at_position_def Let_def)
qed

lemma set_position_effect:
  assumes "text_segments (ctl s) = Some l" "carries (mem (world s)) l sgs"
  shows "set_position_body page i s =
    (if 0 \<le> i \<and> i < int (length sgs) \<and> seg_page_number (sgs ! nat i) = page
     then (True, at_position page i s) else (False, s))"
proof -
  obtain as where as: "seg_lists (mem (world s)) l = Some as" "length as = length sgs"
    "\<And>i. i < length sgs \<Longrightarrow> segs (mem (world s)) (as ! i) = Some (sgs ! i)"
    using carries_nth [OF assms(2)] by blast
  then show ?thesis
    using assms(1) by (auto simp: set_position_body_def list_read_def read_segment_def at_position_def)
qed

text \<open>The first segment of a page, or none.\<close>

fun first_on_page :: "int \<Rightarrow> tts_text_segment list \<Rightarrow> nat option" where
  "first_on_page page [] = None"
| "first_on_page page (sg # sgs) =
     (if seg_page_number sg = page then Some 0 else map_option Suc (first_on_page page sgs))"

lemma first_on_page_Some:
  "first_on_page page sgs = Some i \<longleftrightarrow>
     i < length sgs \<and> seg_page_number (sgs ! i) = page \<and> (\<forall>j < i. seg_page_number (sgs ! j) \<noteq> page)"
proof (induction sgs arbitrary: i)
  case (Cons sg sgs)
  then show ?case by (cases i) (auto simp: All_less_Suc2)
qed simp

lemma first_on_page_None: "first_on_page page sgs = None \<longleftrightarrow> page \<notin> seg_page_number ` set sgs"
  by (induction sgs) auto

lemma find_page_effect:
  "map (segs m) as = map Some sgs \<Longrightarrow>
   find_page page i as m = (case first_on_page page sgs of None \<Rightarrow> - 1 | Some j \<Rightarrow> i + int j, m)"
proof (induction as arbitrary: sgs i)
  case (Cons a as)
  then obtain sg sgs' where "sgs = sg # sgs'" "segs m a = Some sg" "map (segs m) as = map Some sgs'" by (cases sgs) auto
  then show ?case using Cons.IH by (auto simp: read_segment_def split: option.split)
qed simp

lemma navigate_to_page_effect:
  assumes "text_segments (ctl s) = Some l" "carries (mem (world s)) l sgs"
  shows "navigate_to_page_body page s =
    (case (if page < 0 then None else first_on_page page sgs) of
       None \<Rightarrow> (False, s) | Some i \<Rightarrow> (True, at_position page (int i) s))"
proof -
  obtain as where as: "seg_lists (mem (world s)) l = Some as" "map (segs (mem (world s))) as = map Some sgs"
    using assms(2) by (auto simp: carries_def)
  then show ?thesis
    using assms(1)
    by (auto simp: navigate_to_page_body_def list_read_def find_page_effect at_position_def split: option.split)
qed

lemma position_without_list:
  "text_segments (ctl s) = None \<Longrightarrow> navigate_to_segment_body d s = (False, s)"
  "text_segments (ctl s) = None \<Longrightarrow> set_position_body page i s = (False, s)"
  "text_segments (ctl s) = None \<Longrightarrow> navigate_to_page_body page s = (False, s)"
  by (simp_all add: navigate_to_segment_body_def set_position_body_def navigate_to_page_body_def)

lemma memory_ok_carries:
  assumes "memory_ok s" "text_segments (ctl s) = Some l"
  obtains sgs where "carries (mem (world s)) l sgs"
proof -
  have o: "owns (mem (world s)) [l] (queue_of (streaming_engine (ctl s)))"
    using assms by (simp add: memory_ok_def lists_of_def)
  then obtain as where as: "seg_lists (mem (world s)) l = Some as" by (auto simp: owns_def)
  have "\<forall>a \<in> set as. segs (mem (world s)) a \<noteq> None"
    using o as by (simp add: owns_def owned_def holds_segments_def)
  then have "carries (mem (world s)) l (map (\<lambda>a. the (segs (mem (world s)) a)) as)"
    using as by (auto simp: carries_def)
  then show thesis by (rule that)
qed

lemma memory_ok_at_position:
  assumes "memory_ok s" "text_segments (ctl s) = Some l" "carries (mem (world s)) l sgs"
    and "0 \<le> i" "i < int (length sgs)"
  shows "memory_ok (at_position (seg_page_number (sgs ! nat i)) i s)"
proof -
  obtain as where as: "seg_lists (mem (world s)) l = Some as" "length as = length sgs"
    "\<And>i. i < length sgs \<Longrightarrow> segs (mem (world s)) (as ! i) = Some (sgs ! i)"
    using carries_nth [OF assms(3)] by blast
  then have "position_ok (at_position (seg_page_number (sgs ! nat i)) i s)"
    using assms(2,4,5) by (auto simp: position_ok_def at_position_def)
  then show ?thesis using assms(1) by (simp add: memory_ok_def at_position_def lists_of_def)
qed

lemma memory_ok_moves:
  assumes m: "memory_ok s"
  shows "memory_ok (snd (navigate_to_segment_body d s))" "memory_ok (snd (set_position_body page i s))"
    "memory_ok (snd (navigate_to_page_body page s))"
proof -
  have "memory_ok (snd (navigate_to_segment_body d s)) \<and> memory_ok (snd (set_position_body page i s)) \<and>
    memory_ok (snd (navigate_to_page_body page s))"
  proof (cases "text_segments (ctl s)")
    case None
    then show ?thesis using m by (simp add: position_without_list)
  next
    case (Some l)
    obtain sgs where c: "carries (mem (world s)) l sgs" using memory_ok_carries [OF m Some] by blast
    note at = memory_ok_at_position [OF m Some c]
    have "memory_ok (at_position page (int j) s)" if "first_on_page page sgs = Some j" for j
      using that at [of "int j"] by (auto simp: first_on_page_Some)
    then show ?thesis
      using m at by (auto simp: navigate_to_segment_effect [OF Some c] set_position_effect [OF Some c]
          navigate_to_page_effect [OF Some c] Let_def split: option.split)
  qed
  then show "memory_ok (snd (navigate_to_segment_body d s))" "memory_ok (snd (set_position_body page i s))"
    "memory_ok (snd (navigate_to_page_body page s))" by simp_all
qed

subsection \<open>Memory safety of every run\<close>

definition call_ok :: "audio_op \<Rightarrow> bool" where
  "call_ok op = (case op of A_Start sp env sgs \<Rightarrow> list_all not_boundary sgs | _ \<Rightarrow> True)"

lemma new_list_owns:
  assumes "owns (mem (world s)) ls q" "new_list sgs s = (l, s1)"
  shows "\<exists>m. s1 = upd_mem m s \<and> owns m (l # ls) q \<and> carries m l sgs"
proof -
  obtain as m1 where as: "alloc_all sgs (mem (world s)) = (as, m1)" by force
  obtain m2 where l: "list_alloc as m1 = (l, m2)" and s1: "s1 = upd_mem m2 s"
    using assms(2) by (auto simp: new_list_def as split: prod.splits)
  note nl = owns_new_list [OF assms(1) as l]
  then have "carries m2 l sgs" by (auto simp: carries_def)
  then show ?thesis using nl(1) s1 by blast
qed

lemma start_ok:
  assumes a: "audio_ok s" and nb: "list_all not_boundary sgs" and n: "new_list sgs s = (l, s1)"
    and r: "start_session_body sp env (Some l) s1 = (ok, s')"
  shows "audio_ok s' \<and> carries (mem (world s')) l sgs \<and> text_segments (ctl s') = Some l \<and>
    audio_state (ctl s') = (if ok then TTS_AUDIO_STATE_PLAYING else TTS_AUDIO_STATE_ERROR) \<and>
    current_segment (ctl s') = (case sgs of [] \<Rightarrow> - 1 | _ \<Rightarrow> 0) \<and>
    current_page (ctl s') = (case sgs of [] \<Rightarrow> - 1 | sg # _ \<Rightarrow> seg_page_number sg) \<and>
    (ok \<longrightarrow> map (segs (mem (world s'))) (queue_of (streaming_engine (ctl s'))) = map Some (filter speakable sgs))"
proof -
  have o: "owns (mem (world s)) (lists_of s) (queue_of (streaming_engine (ctl s)))" and i: "controller_in_step s"
    and q: "idle_queue_empty (streaming_engine (ctl s))" using a by (simp_all add: audio_ok_def)
  obtain m where s1: "s1 = upd_mem m s" and nl: "owns m (l # lists_of s) (queue_of (streaming_engine (ctl s)))" "carries m l sgs"
    using new_list_owns [OF o n] by blast
  have i1: "controller_in_step s1" "idle_queue_empty (streaming_engine (ctl s1))"
    using i q by (simp_all add: s1 controller_in_step_def)
  have o1: "owns (mem (world s1)) (l # lists_of s1) (queue_of (streaming_engine (ctl s1)))"
    using nl(1) by (simp add: s1 lists_of_def)
  have c1: "carries (mem (world s1)) l sgs" using nl(2) by (simp add: s1)
  have nb': "\<forall>sg \<in> set sgs. not_boundary sg" using nb by (simp add: list_all_iff)
  from start_session_owns [OF i1 o1 c1 nb' r] show ?thesis by blast
qed

interpretation careful: guarded_machine audio_exec audio_ok call_ok
proof
  fix s op
  assume a: "audio_ok s" and c: "call_ok op"
  show "audio_ok (audio_exec op s)"
  proof (cases op)
    case (A_Start sp env sgs)
    obtain l s1 where n: "new_list sgs s = (l, s1)" by force
    obtain ok s' where r: "start_session_body sp env (Some l) s1 = (ok, s')" by force
    show ?thesis using start_ok [OF a _ n r] c A_Start n r by (simp add: call_ok_def)
  next
    case (A_Set_Speed speed)
    then show ?thesis
      using a audio_in_step [of s op] memory_ok_cong [of s "audio_exec op s"]
      by (simp add: audio_ok_memory tts_audio_controller_set_speed_def)
  next
    case (A_Set_Volume volume)
    then show ?thesis
      using a audio_in_step [of s op] memory_ok_cong [of s "audio_exec op s"]
      by (simp add: audio_ok_memory tts_audio_controller_set_volume_def)
  next
    case (A_Set_Callback cb)
    then show ?thesis
      using a audio_in_step [of s op] memory_ok_cong [of s "audio_exec op s"]
      by (simp add: audio_ok_memory tts_audio_controller_set_state_change_callback_def)
  qed (use a audio_in_step [of s op] stop_session_ok pause_ok resume_ok feed_ok memory_ok_moves in
        \<open>simp_all add: audio_ok_memory\<close>)
qed

lemma audio_init_ok: "store_ok (mem w) \<Longrightarrow> audio_ok (audio_init w)"
  using audio_init_in_step [of w]
  by (simp add: audio_ok_def audio_init_def tts_audio_controller_new_def owns_def owned_def holds_segments_def
      lists_of_def queue_of_def position_ok_def idle_queue_empty_def)


definition sample_segment :: "string \<Rightarrow> int \<Rightarrow> int \<Rightarrow> tts_text_segment" where
  "sample_segment t page i =
     \<lparr>seg_text = Some t, seg_bounds = \<lparr>rect_x1 = 0, rect_y1 = 0, rect_x2 = 1, rect_y2 = 1\<rparr>, seg_page_number = page,
      seg_id = i, seg_type = TTS_CONTENT_NORMAL\<rparr>"


text \<open>
  Starting a session after any such run: the controller takes over the list, is at its first segment,
  and plays exactly if the engine started; then the queue of the engine holds copies of exactly the segments
  that can be spoken, in their order, and otherwise the controller is in the error state.
\<close>

theorem session_queues_speakable_segments:
  assumes "store_ok (mem w)" "\<forall>op \<in> set ops. call_ok op" "list_all not_boundary sgs"
    and "new_list sgs (fold audio_exec ops (audio_init w)) = (l, s)"
    and "start_session_body sp env (Some l) s = (ok, s')"
  shows "text_segments (ctl s') = Some l \<and> carries (mem (world s')) l sgs \<and>
    current_segment (ctl s') = (case sgs of [] \<Rightarrow> - 1 | _ \<Rightarrow> 0) \<and>
    current_page (ctl s') = (case sgs of [] \<Rightarrow> - 1 | sg # _ \<Rightarrow> seg_page_number sg) \<and>
    audio_state (ctl s') = (if ok then TTS_AUDIO_STATE_PLAYING else TTS_AUDIO_STATE_ERROR) \<and>
    (ok \<longrightarrow> map (segs (mem (world s'))) (queue_of (streaming_engine (ctl s'))) = map Some (filter speakable sgs))"
  using start_ok [OF careful.inv_fold_allowed [OF audio_init_ok [OF assms(1)] assms(2)] assms(3-5)] by blast

lemma session_queues_speakable_segments_witness:
  "\<exists>l s ok s'. new_list [sample_segment ''Go.'' 2 0] (audio_init sample_world) = (l, s) \<and>
     start_session_body sample_spawn sample_reap (Some l) s = (ok, s') \<and>
     current_segment (ctl s') = 0 \<and> current_page (ctl s') = 2"
proof -
  obtain l s where n: "new_list [sample_segment ''Go.'' 2 0] (fold audio_exec [] (audio_init sample_world)) = (l, s)" by force
  obtain ok s' where r: "start_session_body sample_spawn sample_reap (Some l) s = (ok, s')" by force
  have "list_all not_boundary [sample_segment ''Go.'' 2 0]" by (simp add: not_boundary_def sample_segment_def)
  from session_queues_speakable_segments [OF sample_engine_ok(2) _ this n r] n r show ?thesis
    by (auto simp: sample_segment_def)
qed

text \<open>
  C24. Moving in the list: a relative move succeeds exactly if it stays in the list and then the position is
  the target segment with its page; an absolute position must name the page of its segment; a page that has
  segments is entered at its first one. A move that fails changes nothing.
\<close>

theorem navigation_follows_list:
  assumes "text_segments (ctl s) = Some l" "carries (mem (world s)) l sgs"
  shows "navigate_to_segment_body d s =
      (let i = current_segment (ctl s) + d in
       if 0 \<le> i \<and> i < int (length sgs) then (True, at_position (seg_page_number (sgs ! nat i)) i s) else (False, s)) \<and>
    set_position_body page i s =
      (if 0 \<le> i \<and> i < int (length sgs) \<and> seg_page_number (sgs ! nat i) = page
       then (True, at_position page i s) else (False, s)) \<and>
    navigate_to_page_body page s =
      (case (if page < 0 then None else first_on_page page sgs) of
         None \<Rightarrow> (False, s) | Some i \<Rightarrow> (True, at_position page (int i) s))"
  using navigate_to_segment_effect [OF assms] set_position_effect [OF assms] navigate_to_page_effect [OF assms] by blast

lemma navigation_follows_list_witness:
  "\<exists>l s. text_segments (ctl s) = Some l \<and> carries (mem (world s)) l [sample_segment ''A.'' 2 0, sample_segment ''B.'' 3 0] \<and>
     navigate_to_page_body 3 s = (True, at_position 3 1 s) \<and> navigate_to_segment_body 5 s = (False, s)"
proof -
  let ?sgs = "[sample_segment ''A.'' 2 0, sample_segment ''B.'' 3 0]"
  obtain l s1 where n: "new_list ?sgs (fold audio_exec [] (audio_init sample_world)) = (l, s1)" by force
  obtain ok s where r: "start_session_body sample_spawn sample_reap (Some l) s1 = (ok, s)" by force
  have nb: "list_all not_boundary ?sgs" by (simp add: not_boundary_def sample_segment_def)
  have a: "audio_ok (fold audio_exec [] (audio_init sample_world))" using audio_init_ok sample_engine_ok(2) by simp
  have s: "text_segments (ctl s) = Some l" "carries (mem (world s)) l ?sgs" "current_segment (ctl s) = 0"
    using start_ok [OF a nb n r] by simp_all
  from navigation_follows_list [OF s(1,2), where d = 5 and page = 3 and i = 0] s show ?thesis
    by (auto simp: sample_segment_def)
qed

subsection \<open>A text of the longest legal length\<close>

lemma queue_copy_boundary:
  assumes "segs (mem w) a = Some sg" "seg_text sg = Some t" "segment_text_ok t" "length t = 10000" "store_ok (mem w)"
  shows "\<exists>b m. queue_copy a (e, w) = (e\<lparr>text_queue := text_queue e @ [b]\<rparr>, w\<lparr>mem := m\<rparr>) \<and> segs m b = None"
proof -
  obtain b m where b: "alloc_segment sg (mem w) = (b, m)" by force
  have m: "segs m b = Some sg" using alloc_facts [OF assms(5) b] by simp
  have "tts_streaming_engine_queue_segment (Some b) (e, w\<lparr>mem := m\<rparr>) =
      (False, e\<lparr>text_queue := text_queue e @ [b]\<rparr>, w\<lparr>mem := m\<rparr>)"
    using m assms(2,4) by (simp add: tts_streaming_engine_queue_segment_def read_segment_def Let_def)
  moreover have "speakable sg" using assms(2,3) by (simp add: speakable_def)
  ultimately have "queue_copy a (e, w) =
      (e\<lparr>text_queue := text_queue e @ [b]\<rparr>, w\<lparr>mem := tts_text_segment_free (Some b) m\<rparr>)"
    using assms(1,2) b segment_copy [of sg] by (simp add: queue_copy_def read_segment_def Let_def)
  moreover have "segs (tts_text_segment_free (Some b) m) b = None" using m by (simp add: free_allocated)
  ultimately show ?thesis by blast
qed

lemma stop_with_dangling_queue:
  assumes "streaming_engine (ctl s) = Some e" "stream_state e \<noteq> TTS_STREAMING_STATE_IDLE"
    "b \<in> set (text_queue e)" "segs (mem (world s)) b = None"
  shows "faults (mem (world (stop_session_body env s))) \<noteq> []"
proof -
  obtain ok e' w' where r: "tts_streaming_engine_stop env (e, world s) = (ok, e', w')" by (metis prod.collapse)
  have "mem w' = free_segments (text_queue e) (mem (world s))"
    using stop_mem [of "(e, world s)" env] assms(2) r by simp
  moreover have "world (stop_session_body env s) = w'"
    by (simp add: stop_session_world stop_streaming_session_def assms(1) r)
  ultimately show ?thesis using free_segments_dangling assms(3,4) by simp
qed

text \<open>
  One segment of exactly 10000 bytes is enough: the engine queues the copy and reports that it refused it,
  the controller frees the copy, and the next stop frees what is left in the queue, hence the copy again.
\<close>

theorem longest_text_freed_twice:
  assumes "seg_text sg = Some t" "segment_text_ok t" "length t = 10000" "store_ok (mem w)"
    and "env_pipe sp \<noteq> None" "0 < env_fork sp"
  shows "faults (mem (world (fold audio_exec [A_Start sp env [sg], A_Stop env'] (audio_init w)))) \<noteq> []"
proof -
  let ?s = "audio_init w"
  obtain l s1 where n: "new_list [sg] ?s = (l, s1)" by force
  have "owns (mem (world ?s)) [] []" using assms(4) by (simp add: audio_init_def owns_def owned_def holds_segments_def)
  then obtain m where s1: "s1 = upd_mem m ?s" and nl: "owns m [l] []" "carries m l [sg]"
    using new_list_owns [OF _ n] by blast
  have c: "text_segments (ctl s1) = None" "streaming_engine (ctl s1) = None" "audio_state (ctl s1) = TTS_AUDIO_STATE_STOPPED"
    by (simp_all add: s1 audio_init_def tts_audio_controller_new_def)
  have o1: "owns (mem (world s1)) [l] []" and c1: "carries (mem (world s1)) l [sg]"
    using nl by (simp_all add: s1)
  let ?b = "before_play env l s1"
  have bo: "world ?b = world s1" "audio_state (ctl ?b) = TTS_AUDIO_STATE_STOPPED" "streaming_engine (ctl ?b) = None"
    using set_first_position_world(1) [of "upd_ctl (\<lambda>c. c\<lparr>text_segments := Some l, current_page := - 1,
        current_segment := - 1\<rparr>) s1" l "[]" "[sg]"] o1 c1 c
    by (simp_all add: before_play_def Let_def set_first_position_fields)
  obtain s5 where s5: "set_state_body TTS_AUDIO_STATE_PLAYING ?b = (True, s5)" "world s5 = world ?b"
    "ctl s5 = (ctl ?b)\<lparr>audio_state := TTS_AUDIO_STATE_PLAYING\<rparr>"
    using set_state_playing [OF bo(2)] by blast
  let ?e0 = "tts_streaming_engine_new TTS_ENGINE_PIPER"
  have "fst (tts_streaming_engine_start sp (?e0, world s5))"
    by (rule start_succeeds) (use assms in \<open>simp_all add: tts_streaming_engine_new_def stream_command_def Let_def\<close>)
  then obtain e1 w1 where st: "tts_streaming_engine_start sp (?e0, world s5) = (True, e1, w1)"
    by (metis (full_types) prod.collapse)
  have e1: "stream_state e1 = TTS_STREAMING_STATE_ACTIVE"
    using start_engine(1) [OF st] by (simp add: tts_streaming_engine_new_def)
  have w1: "mem w1 = mem (world s1)" using start_world [OF st] s5 bo by simp
  obtain a where a: "seg_lists (mem w1) l = Some [a]" "segs (mem w1) a = Some sg"
    using c1 w1 by (auto simp: carries_def)
  have "store_ok (mem w1)" using o1 w1 by (simp add: owns_def)
  then obtain b m where q: "queue_copy a (e1, w1) = (e1\<lparr>text_queue := text_queue e1 @ [b]\<rparr>, w1\<lparr>mem := m\<rparr>)" "segs m b = None"
    using queue_copy_boundary [OF a(2) assms(1-3)] by blast
  have "w1\<lparr>mem := mem w1\<rparr> = w1" by simp
  then have "start_streaming_session sp l s5 =
      (True, s5\<lparr>ctl := (ctl s5)\<lparr>streaming_engine := Some (e1\<lparr>text_queue := text_queue e1 @ [b]\<rparr>)\<rparr>, world := w1\<lparr>mem := m\<rparr>\<rparr>)"
    using a(1) q(1) bo(3) by (simp add: start_streaming_session_def s5(3) st list_read_def)
  then have x: "audio_exec (A_Start sp env [sg]) ?s =
      s5\<lparr>ctl := (ctl s5)\<lparr>streaming_engine := Some (e1\<lparr>text_queue := text_queue e1 @ [b]\<rparr>)\<rparr>, world := w1\<lparr>mem := m\<rparr>\<rparr>"
    by (simp add: n start_session_before_play s5(1))
  have "faults (mem (world (stop_session_body env' (audio_exec (A_Start sp env [sg]) ?s)))) \<noteq> []"
    unfolding x by (rule stop_with_dangling_queue [where b = b and e = "e1\<lparr>text_queue := text_queue e1 @ [b]\<rparr>"]) (simp_all add: e1 q(2))
  then show ?thesis by simp
qed

lemma longest_text_freed_twice_witness:
  "segment_text_ok (replicate 10000 CHR ''a'') \<and>
   faults (mem (world (fold audio_exec [A_Start sample_spawn sample_reap [sample_segment (replicate 10000 CHR ''a'') 0 0],
     A_Stop sample_reap] (audio_init sample_world)))) \<noteq> []"
proof -
  have v: "g_utf8_validate (replicate n CHR ''a'')" for n
    by (induction n) (simp_all add: g_utf8_validate_def byte_def)
  then have ok: "segment_text_ok (replicate 10000 CHR ''a'')" by (simp add: segment_text_ok_def)
  show ?thesis
    using ok longest_text_freed_twice [OF _ ok _ sample_engine_ok(2), of "sample_segment (replicate 10000 CHR ''a'') 0 0" sample_spawn]
    by (simp add: sample_segment_def sample_spawn_def)
qed

text \<open>
  A controller that has never played anything accepts a resume: it reports success and the state playing,
  although it has neither segments nor an engine.
\<close>

theorem resume_without_session:
  "\<exists>s. tts_audio_controller_resume_session (Some (audio_init w)) = (True, Some s) \<and>
     tts_audio_controller_get_state (Some s) = TTS_AUDIO_STATE_PLAYING \<and> streaming_engine (ctl s) = None \<and>
     text_segments (ctl s) = None"
  by (simp add: tts_audio_controller_resume_session_def on_controller_def resume_session_body_def audio_init_def
      tts_audio_controller_new_def set_state_body_def valid_transition_def tts_audio_controller_get_state_def)

end
