(* ===== verification/Glib_Shell.thy ===== *)
theory Glib_Shell
  imports C_Strings
begin

text \<open>
  \<^verbatim>\<open>g_shell_parse_argv\<close> of the glib under \<^verbatim>\<open>src/glib-2.76.5/glib/gshell.c\<close>, through which the engines
  turn their command lines into argument vectors: removal of quotes, the tokenizer, quoting, and what they
  do to a word that is quoted. The error texts are left out, the error codes are kept.
\<close>

subsection \<open>Quotes\<close>

datatype g_shell_error = G_SHELL_ERROR_BAD_QUOTING | G_SHELL_ERROR_EMPTY_STRING

definition apostrophe :: char where
  "apostrophe = CHR 0x27"

definition double_quote :: char where
  "double_quote = CHR 0x22"

definition backslash :: char where
  "backslash = CHR 0x5C"

definition newline :: char where
  "newline = CHR 0x0A"

definition hash :: char where
  "hash = CHR 0x23"

lemmas shell_chars = apostrophe_def double_quote_def backslash_def newline_def hash_def

text \<open>
  The two loops of \<^verbatim>\<open>unquote_string_inplace\<close>, from behind the opening quote: the text up to the closing
  quote and what follows it, or nothing if there is no closing quote.
\<close>

definition escapable :: "char \<Rightarrow> bool" where
  "escapable c \<longleftrightarrow> c = double_quote \<or> c = backslash \<or> c = CHR 0x60 \<or> c = CHR ''$'' \<or> c = newline"

abbreviation cons_fst :: "char \<Rightarrow> (string \<times> string) option \<Rightarrow> (string \<times> string) option" where
  "cons_fst c \<equiv> map_option (map_prod (Cons c) id)"

fun unquote_double :: "string \<Rightarrow> (string \<times> string) option" where
  "unquote_double [] = None"
| "unquote_double (c # s) =
     (if c = double_quote then Some ([], s)
      else if c = backslash then
        (case s of
           [] \<Rightarrow> None
         | d # s' \<Rightarrow> if escapable d then cons_fst d (unquote_double s') else cons_fst backslash (unquote_double s))
      else cons_fst c (unquote_double s))"

fun unquote_single :: "string \<Rightarrow> (string \<times> string) option" where
  "unquote_single [] = None"
| "unquote_single (c # s) = (if c = apostrophe then Some ([], s) else cons_fst c (unquote_single s))"

definition unquote_string_inplace :: "string \<Rightarrow> (string \<times> string) option" where
  "unquote_string_inplace str =
     (case str of
        [] \<Rightarrow> None
      | quote_char # s \<Rightarrow>
          if quote_char = double_quote then unquote_double s
          else if quote_char = apostrophe then unquote_single s
          else None)"

declare unquote_double.simps(2) [simp del]

lemma unquote_double_step:
  "c = double_quote \<Longrightarrow> unquote_double (c # s) = Some ([], s)"
  "c \<noteq> double_quote \<Longrightarrow> c \<noteq> backslash \<Longrightarrow> unquote_double (c # s) = cons_fst c (unquote_double s)"
  "unquote_double [backslash] = None"
  "unquote_double (backslash # d # s) =
     (if escapable d then cons_fst d (unquote_double s) else cons_fst backslash (unquote_double (d # s)))"
  by (simp_all add: unquote_double.simps(2) shell_chars)

lemma cons_fst_Some: "cons_fst c x = Some r \<longleftrightarrow> (\<exists>t rest. x = Some (t, rest) \<and> r = (c # t, rest))"
  by (cases x) auto

lemma unquote_double_shorter: "unquote_double s = Some r \<Longrightarrow> length (snd r) < length s"
proof (induction "length s" arbitrary: s r rule: less_induct)
  case less
  have IH: "length rest < length s'" if "length s' < length s" "unquote_double s' = Some (t, rest)" for s' t rest
    using less.hyps [OF that] by simp
  consider (nil) "s = []" | (close) s' where "s = double_quote # s'"
    | (plain) c s' where "s = c # s'" "c \<noteq> double_quote" "c \<noteq> backslash"
    | (last) "s = [backslash]" | (esc) d s' where "s = backslash # d # s'"
    by (cases s; cases "tl s") auto
  then show ?case
  proof cases
    case plain
    then show ?thesis using less.prems IH [of s'] by (auto simp: unquote_double_step cons_fst_Some)
  next
    case esc
    then show ?thesis
      using less.prems IH [of s'] IH [of "d # s'"]
      by (auto simp: unquote_double_step(4) cons_fst_Some split: if_splits)
  qed (use less.prems in \<open>auto simp: unquote_double_step\<close>)
qed

lemma unquote_single_shorter: "unquote_single s = Some r \<Longrightarrow> length (snd r) < length s"
proof (induction s arbitrary: r)
  case (Cons c s)
  then show ?case by (fastforce simp: cons_fst_Some split: if_splits)
qed simp

lemma unquote_inplace_shorter: "unquote_string_inplace s = Some (t, rest) \<Longrightarrow> length rest < length s"
  by (auto simp: unquote_string_inplace_def split: list.splits if_splits
      dest!: unquote_double_shorter unquote_single_shorter)

function unquote_loop :: "string \<Rightarrow> string option" where
  "unquote_loop [] = Some []"
| "unquote_loop (c # s) =
     (if c = double_quote \<or> c = apostrophe then
        (case unquote_string_inplace (c # s) of
           None \<Rightarrow> None
         | Some (t, rest) \<Rightarrow> map_option (\<lambda>r. t @ r) (unquote_loop rest))
      else if c = backslash then
        (case s of
           [] \<Rightarrow> unquote_loop []
         | d # s' \<Rightarrow> map_option (\<lambda>r. if d \<noteq> newline then d # r else r) (unquote_loop s'))
      else map_option (Cons c) (unquote_loop s))"
  by pat_completeness auto

termination
  by (relation "measure length") (auto dest: unquote_inplace_shorter)

definition g_shell_unquote :: "string \<Rightarrow> string option" where
  "g_shell_unquote quoted_string = unquote_loop quoted_string"

fun quote_chars :: "string \<Rightarrow> string" where
  "quote_chars [] = []"
| "quote_chars (c # s) =
     (if c = apostrophe then [apostrophe, backslash, apostrophe, apostrophe] @ quote_chars s else c # quote_chars s)"

definition g_shell_quote :: "string \<Rightarrow> string" where
  "g_shell_quote unquoted_string = apostrophe # quote_chars unquoted_string @ [apostrophe]"

subsection \<open>The tokenizer\<close>

record tokenizer =
  current_quote :: "char option"
  quoted :: bool
  current_token :: "string option"
  retval :: "string list"

definition append_c :: "char \<Rightarrow> tokenizer \<Rightarrow> tokenizer" where
  "append_c c st =
     st\<lparr>current_token := Some ((case current_token st of None \<Rightarrow> [] | Some t \<Rightarrow> t) @ [c])\<rparr>"

definition delimit_token :: "tokenizer \<Rightarrow> tokenizer" where
  "delimit_token st =
     (case current_token st of
        None \<Rightarrow> st
      | Some t \<Rightarrow> st\<lparr>retval := t # retval st, current_token := None\<rparr>)"

text \<open>One character outside comments; \<open>prev\<close> is the character before it, if there is one.\<close>

definition tokenize_char :: "char option \<Rightarrow> char \<Rightarrow> tokenizer \<Rightarrow> tokenizer" where
  "tokenize_char prev c st =
     (case current_quote st of
        Some q \<Rightarrow>
          if q = backslash then
            (if c = newline then st else append_c c (append_c backslash st))\<lparr>current_quote := None\<rparr>
          else
            append_c c (if c = q \<and> \<not> (q = double_quote \<and> quoted st) then st\<lparr>current_quote := None\<rparr> else st)
      | None \<Rightarrow>
          if c = newline then delimit_token st
          else if c = CHR '' '' \<or> c = CHR 0x09 then
            (if current_token st \<noteq> None \<and> length (the (current_token st)) > 0 then delimit_token st else st)
          else if c = apostrophe \<or> c = double_quote then (append_c c st)\<lparr>current_quote := Some c\<rparr>
          else if c = backslash then st\<lparr>current_quote := Some c\<rparr>
          else if c = hash then
            (if prev = None \<or> prev = Some CHR '' '' \<or> prev = Some newline
             then st\<lparr>current_quote := Some c\<rparr> else append_c c st)
          else append_c c st)"

definition count_backslash :: "char \<Rightarrow> tokenizer \<Rightarrow> tokenizer" where
  "count_backslash c st = st\<lparr>quoted := (c = backslash \<and> \<not> quoted st)\<rparr>"

lemma dropWhile_Cons_shorter: "dropWhile P xs = d # ds \<Longrightarrow> length ds < length xs"
  using length_dropWhile_le [of P xs] by (metis Suc_le_lessD length_Cons)

function tokenize_loop :: "char option \<Rightarrow> tokenizer \<Rightarrow> string \<Rightarrow> tokenizer" where
  "tokenize_loop prev st [] = st"
| "tokenize_loop prev st (c # cs) =
     (if current_quote st = Some hash then
        (case dropWhile (\<lambda>c. c \<noteq> newline) (c # cs) of
           [] \<Rightarrow> st\<lparr>current_quote := None\<rparr>
         | d # ds \<Rightarrow> tokenize_loop (Some d) (count_backslash d (st\<lparr>current_quote := None\<rparr>)) ds)
      else tokenize_loop (Some c) (count_backslash c (tokenize_char prev c st)) cs)"
  by pat_completeness auto

termination
  by (relation "measure (\<lambda>(prev, st, cs). length cs)") (auto simp del: dropWhile.simps dest: dropWhile_Cons_shorter)

definition tokenizer_start :: tokenizer where
  "tokenizer_start = \<lparr>current_quote = None, quoted = False, current_token = None, retval = []\<rparr>"

definition tokenize_command_line :: "string \<Rightarrow> g_shell_error + string list" where
  "tokenize_command_line command_line =
     (let st = delimit_token (tokenize_loop None tokenizer_start command_line) in
      if current_quote st \<noteq> None then Inl G_SHELL_ERROR_BAD_QUOTING
      else if retval st = [] then Inl G_SHELL_ERROR_EMPTY_STRING
      else Inr (rev (retval st)))"

fun unquote_all :: "string list \<Rightarrow> g_shell_error + string list" where
  "unquote_all [] = Inr []"
| "unquote_all (t # ts) =
     (case g_shell_unquote t of
        None \<Rightarrow> Inl G_SHELL_ERROR_BAD_QUOTING
      | Some w \<Rightarrow> (case unquote_all ts of Inl e \<Rightarrow> Inl e | Inr ws \<Rightarrow> Inr (w # ws)))"

definition g_shell_parse_argv :: "string \<Rightarrow> g_shell_error + string list" where
  "g_shell_parse_argv command_line =
     (case tokenize_command_line command_line of Inl e \<Rightarrow> Inl e | Inr tokens \<Rightarrow> unquote_all tokens)"

declare tokenize_loop.simps(2) [simp del]

subsection \<open>Pieces of words\<close>

text \<open>
  A piece of a word: outside quotes the tokenizer takes it as it stands, whatever comes before and after, and
  unquoting it gives the second string.
\<close>

definition token_so_far :: "tokenizer \<Rightarrow> string" where
  "token_so_far st = (case current_token st of None \<Rightarrow> [] | Some t \<Rightarrow> t)"

definition after_piece :: "string \<Rightarrow> tokenizer \<Rightarrow> tokenizer" where
  "after_piece w st = st\<lparr>quoted := False, current_token := Some (token_so_far st @ w)\<rparr>"

definition shell_piece :: "string \<Rightarrow> string \<Rightarrow> bool" where
  "shell_piece w u \<longleftrightarrow> w \<noteq> [] \<and>
     (\<forall>prev st rest. current_quote st = None \<longrightarrow>
        tokenize_loop prev st (w @ rest) = tokenize_loop (Some (last w)) (after_piece w st) rest) \<and>
     (\<forall>rest. unquote_loop (w @ rest) = map_option (\<lambda>r. u @ r) (unquote_loop rest))"

lemma piece_append: "shell_piece w u \<Longrightarrow> shell_piece w' u' \<Longrightarrow> shell_piece (w @ w') (u @ u')"
proof -
  assume a: "shell_piece w u" "shell_piece w' u'"
  have "after_piece w' (after_piece w st) = after_piece (w @ w') st" for st
    by (simp add: after_piece_def token_so_far_def)
  moreover have "current_quote (after_piece w st) = current_quote st" for st by (simp add: after_piece_def)
  moreover have "map_option (\<lambda>r. u @ r) (map_option (\<lambda>r. u' @ r) x) = map_option (\<lambda>r. (u @ u') @ r) x" for x
    by (cases x) simp_all
  ultimately show ?thesis using a by (simp add: shell_piece_def)
qed

definition plain_char :: "char \<Rightarrow> bool" where
  "plain_char c \<longleftrightarrow> c \<noteq> apostrophe \<and> c \<noteq> double_quote \<and> c \<noteq> backslash \<and> c \<noteq> hash \<and> c \<noteq> newline \<and>
     c \<noteq> CHR '' '' \<and> c \<noteq> CHR 0x09"

lemma tokenize_step: "current_quote st \<noteq> Some hash \<Longrightarrow>
  tokenize_loop prev st (c # cs) = tokenize_loop (Some c) (count_backslash c (tokenize_char prev c st)) cs"
  by (simp add: tokenize_loop.simps(2))

lemma tokenizer_update_same [simp]: "current_quote st = q \<Longrightarrow> st\<lparr>current_quote := q\<rparr> = st"
  by (cases st) simp

lemma piece_plain_char: "plain_char c \<Longrightarrow> shell_piece [c] [c]"
proof -
  assume c: "plain_char c"
  have "count_backslash c (tokenize_char prev c st) = after_piece [c] st" if "current_quote st = None" for prev st
    using c that by (simp add: plain_char_def count_backslash_def tokenize_char_def append_c_def after_piece_def token_so_far_def)
  then show ?thesis
    using c by (simp add: shell_piece_def tokenize_step plain_char_def)
qed

lemma piece_plain: "w \<noteq> [] \<Longrightarrow> list_all plain_char w \<Longrightarrow> shell_piece w w"
proof (induction w)
  case (Cons c w)
  then show ?case
    using piece_plain_char [of c] piece_append [of "[c]" "[c]" w w] by (cases "w = []") simp_all
qed simp

text \<open>What the tokenizer does inside quotes until the quote closes.\<close>

lemma tokenize_in_single:
  "apostrophe \<notin> set t \<Longrightarrow> current_quote st = Some apostrophe \<Longrightarrow> current_token st = Some b \<Longrightarrow>
   tokenize_loop prev st (t @ apostrophe # rest) =
     tokenize_loop (Some apostrophe) (st\<lparr>current_quote := None, quoted := False, current_token := Some (b @ t @ [apostrophe])\<rparr>) rest"
proof (induction t arbitrary: prev st b)
  case Nil
  then show ?case
    by (cases st) (simp add: tokenize_step tokenize_char_def count_backslash_def append_c_def shell_chars)
next
  case (Cons c t)
  let ?st = "count_backslash c (tokenize_char prev c st)"
  have "current_quote ?st = Some apostrophe" "current_token ?st = Some (b @ [c])"
    "?st\<lparr>current_quote := None, quoted := False, current_token := x\<rparr> = st\<lparr>current_quote := None, quoted := False, current_token := x\<rparr>" for x
    using Cons.prems by (cases st; auto simp: tokenize_char_def count_backslash_def append_c_def shell_chars)+
  then show ?case using Cons by (simp add: tokenize_step shell_chars)
qed

lemma tokenize_in_double:
  "double_quote \<notin> set t \<Longrightarrow> backslash \<notin> set t \<Longrightarrow> current_quote st = Some double_quote \<Longrightarrow> \<not> quoted st \<Longrightarrow>
   current_token st = Some b \<Longrightarrow>
   tokenize_loop prev st (t @ double_quote # rest) =
     tokenize_loop (Some double_quote) (st\<lparr>current_quote := None, current_token := Some (b @ t @ [double_quote])\<rparr>) rest"
proof (induction t arbitrary: prev st b)
  case Nil
  then show ?case
    by (cases st) (simp add: tokenize_step tokenize_char_def count_backslash_def append_c_def shell_chars)
next
  case (Cons c t)
  let ?st = "count_backslash c (tokenize_char prev c st)"
  have "current_quote ?st = Some double_quote" "current_token ?st = Some (b @ [c])" "\<not> quoted ?st"
    "?st\<lparr>current_quote := None, current_token := x\<rparr> = st\<lparr>current_quote := None, current_token := x\<rparr>" for x
    using Cons.prems by (cases st; auto simp: tokenize_char_def count_backslash_def append_c_def shell_chars)+
  then show ?case using Cons by (simp add: tokenize_step shell_chars)
qed

lemma unquote_single_body: "apostrophe \<notin> set t \<Longrightarrow> unquote_single (t @ apostrophe # rest) = Some (t, rest)"
  by (induction t) auto

lemma unquote_double_body:
  "double_quote \<notin> set t \<Longrightarrow> backslash \<notin> set t \<Longrightarrow> unquote_double (t @ double_quote # rest) = Some (t, rest)"
  by (induction t) (auto simp: unquote_double_step)

lemma piece_single: "apostrophe \<notin> set t \<Longrightarrow> shell_piece (apostrophe # t @ [apostrophe]) t"
proof -
  assume t: "apostrophe \<notin> set t"
  have "tokenize_loop prev st ((apostrophe # t @ [apostrophe]) @ rest) =
      tokenize_loop (Some apostrophe) (after_piece (apostrophe # t @ [apostrophe]) st) rest"
    if q: "current_quote st = None" for prev st rest
  proof -
    let ?st = "count_backslash apostrophe (tokenize_char prev apostrophe st)"
    have st: "current_quote ?st = Some apostrophe" "current_token ?st = Some (token_so_far st @ [apostrophe])"
      "?st\<lparr>current_quote := None, quoted := False, current_token := x\<rparr> = st\<lparr>quoted := False, current_token := x\<rparr>" for x
      using q by (cases st; simp add: tokenize_char_def count_backslash_def append_c_def token_so_far_def shell_chars)+
    have "tokenize_loop prev st ((apostrophe # t @ [apostrophe]) @ rest) =
        tokenize_loop (Some apostrophe) ?st (t @ apostrophe # rest)"
      using q by (simp add: tokenize_step)
    also have "\<dots> = tokenize_loop (Some apostrophe)
        (?st\<lparr>current_quote := None, quoted := False, current_token := Some ((token_so_far st @ [apostrophe]) @ t @ [apostrophe])\<rparr>) rest"
      by (rule tokenize_in_single [OF t st(1,2)])
    finally show ?thesis by (simp add: st(3) after_piece_def)
  qed
  moreover have "unquote_loop ((apostrophe # t @ [apostrophe]) @ rest) = map_option (\<lambda>r. t @ r) (unquote_loop rest)" for rest
    using t by (simp add: unquote_string_inplace_def unquote_single_body) (simp add: shell_chars)
  ultimately show ?thesis by (simp add: shell_piece_def)
qed

lemma piece_double: "double_quote \<notin> set t \<Longrightarrow> backslash \<notin> set t \<Longrightarrow> shell_piece (double_quote # t @ [double_quote]) t"
proof -
  assume t: "double_quote \<notin> set t" "backslash \<notin> set t"
  have "tokenize_loop prev st ((double_quote # t @ [double_quote]) @ rest) =
      tokenize_loop (Some double_quote) (after_piece (double_quote # t @ [double_quote]) st) rest"
    if q: "current_quote st = None" for prev st rest
  proof -
    let ?st = "count_backslash double_quote (tokenize_char prev double_quote st)"
    have st: "current_quote ?st = Some double_quote" "\<not> quoted ?st" "current_token ?st = Some (token_so_far st @ [double_quote])"
      "?st\<lparr>current_quote := None, current_token := x\<rparr> = st\<lparr>quoted := False, current_token := x\<rparr>" for x
      using q by (cases st; simp add: tokenize_char_def count_backslash_def append_c_def token_so_far_def shell_chars)+
    have "tokenize_loop prev st ((double_quote # t @ [double_quote]) @ rest) =
        tokenize_loop (Some double_quote) ?st (t @ double_quote # rest)"
      using q by (simp add: tokenize_step)
    also have "\<dots> = tokenize_loop (Some double_quote)
        (?st\<lparr>current_quote := None, current_token := Some ((token_so_far st @ [double_quote]) @ t @ [double_quote])\<rparr>) rest"
      by (rule tokenize_in_double [OF t st(1,2,3)])
    finally show ?thesis by (simp add: st(4) after_piece_def)
  qed
  moreover have "unquote_loop ((double_quote # t @ [double_quote]) @ rest) = map_option (\<lambda>r. t @ r) (unquote_loop rest)" for rest
    using t by (simp add: unquote_string_inplace_def unquote_double_body)
  ultimately show ?thesis by (simp add: shell_piece_def)
qed

lemma piece_escaped_apostrophe: "shell_piece [backslash, apostrophe] [apostrophe]"
proof -
  have "count_backslash apostrophe (tokenize_char (Some backslash) apostrophe (count_backslash backslash (tokenize_char prev backslash st))) =
      after_piece [backslash, apostrophe] st" if "current_quote st = None" for prev st
    using that by (cases st; simp add: tokenize_char_def count_backslash_def append_c_def after_piece_def token_so_far_def shell_chars)
  moreover have "current_quote (count_backslash backslash (tokenize_char prev backslash st)) = Some backslash"
    if "current_quote st = None" for prev st
    using that by (simp add: tokenize_char_def count_backslash_def shell_chars)
  moreover have "backslash \<noteq> hash" "backslash \<noteq> double_quote" "backslash \<noteq> apostrophe" "apostrophe \<noteq> newline"
    by (simp_all add: shell_chars)
  ultimately show ?thesis by (simp add: shell_piece_def tokenize_step)
qed

subsection \<open>Command lines\<close>

fun join_words :: "string list \<Rightarrow> string" where
  "join_words [] = []"
| "join_words [w] = w"
| "join_words (w # v # ws) = w @ CHR '' '' # join_words (v # ws)"

lemma tokenize_words:
  "ws \<noteq> [] \<Longrightarrow> list_all2 shell_piece ws us \<Longrightarrow> current_quote st = None \<Longrightarrow> current_token st = None \<Longrightarrow>
   \<exists>st'. delimit_token (tokenize_loop prev st (join_words ws)) = st' \<and> current_quote st' = None \<and>
     retval st' = rev ws @ retval st"
proof (induction ws arbitrary: prev st us rule: join_words.induct)
  case (2 w)
  then obtain u where p: "shell_piece w u" by (auto simp: list_all2_Cons1)
  have "tokenize_loop prev st (w @ []) = after_piece w st"
    using p 2 unfolding shell_piece_def by (metis tokenize_loop.simps(1))
  then show ?case using 2 by (simp add: after_piece_def delimit_token_def token_so_far_def)
next
  case (3 w v ws)
  then obtain u us' where p: "shell_piece w u" "list_all2 shell_piece (v # ws) us'" by (auto simp: list_all2_Cons1)
  let ?st = "count_backslash CHR '' '' (tokenize_char (Some (last w)) CHR '' '' (after_piece w st))"
  have "tokenize_loop prev st (w @ CHR '' '' # join_words (v # ws)) =
      tokenize_loop (Some (last w)) (after_piece w st) (CHR '' '' # join_words (v # ws))"
    using p(1) 3 by (simp add: shell_piece_def)
  also have "\<dots> = tokenize_loop (Some CHR '' '') ?st (join_words (v # ws))"
    using 3 by (simp add: tokenize_step after_piece_def)
  finally have step: "tokenize_loop prev st (join_words (w # v # ws)) = tokenize_loop (Some CHR '' '') ?st (join_words (v # ws))"
    by simp
  have st: "current_quote ?st = None" "current_token ?st = None" "retval ?st = w # retval st"
    using 3 p(1) by (simp_all add: tokenize_char_def count_backslash_def after_piece_def token_so_far_def
        delimit_token_def shell_piece_def shell_chars)
  from 3(1) [OF _ p(2) st(1,2)] show ?case unfolding step by (simp add: st(3))
qed simp

lemma unquote_pieces: "list_all2 shell_piece ws us \<Longrightarrow> unquote_all ws = Inr us"
proof (induction ws us rule: list_all2_induct)
  case (Cons w ws u us)
  then have "unquote_loop (w @ []) = map_option (\<lambda>r. u @ r) (unquote_loop [])" unfolding shell_piece_def by blast
  then show ?case using Cons by (simp add: g_shell_unquote_def)
qed simp

lemma parse_words: "ws \<noteq> [] \<Longrightarrow> list_all2 shell_piece ws us \<Longrightarrow> g_shell_parse_argv (join_words ws) = Inr us"
proof -
  assume a: "ws \<noteq> []" "list_all2 shell_piece ws us"
  obtain st' where "delimit_token (tokenize_loop None tokenizer_start (join_words ws)) = st'"
    "current_quote st' = None" "retval st' = rev ws"
    using tokenize_words [OF a, of tokenizer_start None] by (auto simp: tokenizer_start_def)
  then show ?thesis
    using a by (simp add: g_shell_parse_argv_def tokenize_command_line_def unquote_pieces)
qed

lemma quote_chars_no_apostrophe: "apostrophe \<notin> set t \<Longrightarrow> quote_chars (t @ s) = t @ quote_chars s"
  by (induction t) auto

lemma piece_quote: "shell_piece (g_shell_quote s) s"
proof (induction "length s" arbitrary: s rule: less_induct)
  case less
  define t where "t = takeWhile (\<lambda>c. c \<noteq> apostrophe) s"
  have t: "apostrophe \<notin> set t" by (auto simp: t_def dest: set_takeWhileD)
  show ?case
  proof (cases "dropWhile (\<lambda>c. c \<noteq> apostrophe) s")
    case Nil
    then have "s = t" unfolding t_def by (metis append_Nil2 takeWhile_dropWhile_id)
    then show ?thesis
      using piece_single [OF t] quote_chars_no_apostrophe [OF t, of "[]"] by (simp add: g_shell_quote_def)
  next
    case (Cons c s')
    then have "c = apostrophe" using hd_dropWhile_not [of "\<lambda>c. c \<noteq> apostrophe" s] by simp
    then have s: "s = t @ apostrophe # s'" using Cons unfolding t_def by (metis takeWhile_dropWhile_id)
    have "g_shell_quote s = (apostrophe # t @ [apostrophe]) @ [backslash, apostrophe] @ g_shell_quote s'"
      by (simp add: g_shell_quote_def s quote_chars_no_apostrophe [OF t])
    moreover have "shell_piece (g_shell_quote s') s'" using less s by simp
    ultimately show ?thesis
      using piece_append [OF piece_single [OF t] piece_append [OF piece_escaped_apostrophe]] s by simp
  qed
qed

text \<open>
  C26. Quoting and parsing are inverse: words that are quoted with \<^verbatim>\<open>g_shell_quote\<close> and joined by blanks are
  parsed into exactly these words, whatever bytes they contain, and a single quoted word is unquoted to itself.
\<close>

theorem quoted_words_parse_back:
  assumes "us \<noteq> []"
  shows "g_shell_parse_argv (join_words (map g_shell_quote us)) = Inr us \<and> g_shell_unquote (g_shell_quote s) = Some s"
proof -
  have "list_all2 shell_piece (map g_shell_quote us) us"
    by (simp add: list_all2_map1 list_all2_refl piece_quote)
  then have "g_shell_parse_argv (join_words (map g_shell_quote us)) = Inr us"
    using assms by (intro parse_words) simp_all
  moreover have "unquote_loop (g_shell_quote s @ []) = map_option (\<lambda>r. s @ r) (unquote_loop [])"
    using piece_quote [of s] unfolding shell_piece_def by blast
  ultimately show ?thesis by (simp add: g_shell_unquote_def)
qed

lemma quoted_words_parse_back_witness:
  "g_shell_parse_argv (join_words [g_shell_quote ''echo'', g_shell_quote [CHR ''a'', apostrophe, CHR '' '', backslash]]) =
     Inr [''echo'', [CHR ''a'', apostrophe, CHR '' '', backslash]]"
  using quoted_words_parse_back [of "[''echo'', [CHR ''a'', apostrophe, CHR '' '', backslash]]"] by simp

subsection \<open>Unbalanced apostrophes\<close>

lemma quote_parity:
  "\<forall>c \<in> set s. c \<noteq> double_quote \<and> c \<noteq> backslash \<and> c \<noteq> hash \<Longrightarrow>
   current_quote st = (if b then Some apostrophe else None) \<Longrightarrow>
   current_quote (tokenize_loop prev st s) = (if b \<noteq> odd (count_list s apostrophe) then Some apostrophe else None)"
proof (induction s arbitrary: prev st b)
  case (Cons c s)
  let ?st = "count_backslash c (tokenize_char prev c st)"
  have "current_quote ?st = (if b \<noteq> (c = apostrophe) then Some apostrophe else None)"
    using Cons.prems
    by (auto simp: tokenize_char_def count_backslash_def append_c_def delimit_token_def shell_chars split: option.split)
  moreover have "current_quote st \<noteq> Some hash" using Cons.prems by (simp add: shell_chars)
  ultimately show ?case using Cons.IH [of ?st "b \<noteq> (c = apostrophe)"] Cons.prems(1) by (auto simp: tokenize_step)
qed simp

lemma odd_apostrophes_fail:
  assumes "\<forall>c \<in> set s. c \<noteq> double_quote \<and> c \<noteq> backslash \<and> c \<noteq> hash" "odd (count_list s apostrophe)"
  shows "g_shell_parse_argv s = Inl G_SHELL_ERROR_BAD_QUOTING"
proof -
  have "current_quote (tokenize_loop None tokenizer_start s) = Some apostrophe"
    using quote_parity [OF assms(1), of tokenizer_start False] assms(2) by (simp add: tokenizer_start_def)
  then have "current_quote (delimit_token (tokenize_loop None tokenizer_start s)) = Some apostrophe"
    by (simp add: delimit_token_def split: option.split)
  then show ?thesis by (simp add: g_shell_parse_argv_def tokenize_command_line_def)
qed

end
