(* ===== verification/Engine_Process.thy ===== *)
theory Engine_Process
  imports Glib_Shell Engine_Types Segment_Store C_Float
begin

text \<open>
  The processes that the speech engines start, stop, pause and reap: the operating system's table of children
  with the effect of the signals the engines send, waiting, and spawning a parsed command line. A call that
  waits for a child that never ends has no result.
\<close>

subsection \<open>Children and signals\<close>

text \<open>A stopped child keeps a termination signal pending until it is continued; a zombie waits to be reaped.\<close>

datatype child_state = Child_Running | Child_Stopped bool | Child_Zombie

datatype child_signal = Sig_Term | Sig_Kill | Sig_Stop | Sig_Cont | Sig_Null

record os =
  procs :: "int \<Rightarrow> child_state option"
  next_pid :: nat
  sent_signals :: "(int \<times> child_signal) list"
  spawned_argv :: "string list list"
  bad_frees :: "string list"

text \<open>\<open>obeys\<close> tells whether the child ends on a termination signal at once.\<close>

fun deliver :: "bool \<Rightarrow> child_signal \<Rightarrow> child_state \<Rightarrow> child_state" where
  "deliver obeys sig Child_Zombie = Child_Zombie"
| "deliver obeys Sig_Kill s = Child_Zombie"
| "deliver obeys Sig_Null s = s"
| "deliver obeys Sig_Term Child_Running = (if obeys then Child_Zombie else Child_Running)"
| "deliver obeys Sig_Term (Child_Stopped pending) = Child_Stopped True"
| "deliver obeys Sig_Stop Child_Running = Child_Stopped False"
| "deliver obeys Sig_Stop (Child_Stopped pending) = Child_Stopped pending"
| "deliver obeys Sig_Cont Child_Running = Child_Running"
| "deliver obeys Sig_Cont (Child_Stopped pending) = (if pending \<and> obeys then Child_Zombie else Child_Running)"

text \<open>\<^verbatim>\<open>kill\<close> returns 0 exactly if the process exists; a zombie still does.\<close>

definition kill_child :: "bool \<Rightarrow> int \<Rightarrow> child_signal \<Rightarrow> os \<Rightarrow> bool \<times> os" where
  "kill_child obeys pid sig w =
     (case procs w pid of
        None \<Rightarrow> (False, w)
      | Some s \<Rightarrow> (True, w\<lparr>procs := (procs w)(pid \<mapsto> deliver obeys sig s), sent_signals := sent_signals w @ [(pid, sig)]\<rparr>))"

text \<open>
  \<^verbatim>\<open>waitpid (pid, NULL, 0)\<close>: at once if there is no such child, otherwise when the child has ended, which a
  running speech command does by itself and a stopped one never does.
\<close>

definition wait_child :: "int \<Rightarrow> os \<Rightarrow> os option" where
  "wait_child pid w =
     (case procs w pid of
        None \<Rightarrow> Some w
      | Some (Child_Stopped pending) \<Rightarrow> None
      | Some _ \<Rightarrow> Some (w\<lparr>procs := (procs w)(pid := None)\<rparr>))"

definition poll_child :: "int \<Rightarrow> os \<Rightarrow> int \<times> os" where
  "poll_child pid w =
     (case procs w pid of
        None \<Rightarrow> (- 1, w)
      | Some Child_Zombie \<Rightarrow> (pid, w\<lparr>procs := (procs w)(pid := None)\<rparr>)
      | Some _ \<Rightarrow> (0, w))"

lemmas child_defs = kill_child_def wait_child_def poll_child_def

text \<open>What the outside decides during one call of an engine.\<close>

record engine_env =
  obeys_term :: bool
  spawn_works :: bool
  home_dir :: string
  current_dir :: string
  file_exists :: "string \<Rightarrow> bool"
  dir_names :: "string \<Rightarrow> string list option"

text \<open>\<^verbatim>\<open>g_shell_parse_argv\<close> and \<^verbatim>\<open>g_spawn_async\<close>: the new child, or nothing if either of them fails.\<close>

definition spawn_command :: "engine_env \<Rightarrow> string \<Rightarrow> os \<Rightarrow> int option \<times> os" where
  "spawn_command env command w =
     (case g_shell_parse_argv command of
        Inl e \<Rightarrow> (None, w)
      | Inr argv \<Rightarrow>
          if \<not> spawn_works env then (None, w)
          else (Some (int (next_pid w)),
                w\<lparr>procs := (procs w)(int (next_pid w) \<mapsto> Child_Running), next_pid := Suc (next_pid w),
                  spawned_argv := spawned_argv w @ [argv]\<rparr>))"

subsection \<open>What the engines share\<close>

text \<open>
  The three engines hold the same three fields about their child and treat them in the same way; the code has
  this part three times.
\<close>

record process_data =
  current_process :: int
  is_speaking :: bool
  child_paused :: bool

text \<open>Terminating a child: a termination signal, and if that could be sent, a kill if it is still there, and reaping it.\<close>

definition force_down :: "bool \<Rightarrow> int \<Rightarrow> os \<Rightarrow> (bool \<times> os) option" where
  "force_down obeys pid w =
     (case kill_child obeys pid Sig_Term w of
        (sent, w1) \<Rightarrow>
          if \<not> sent then Some (False, w1)
          else
            let w2 = (case kill_child obeys pid Sig_Null w1 of
                        (alive, w2) \<Rightarrow> if alive then snd (kill_child obeys pid Sig_Kill w2) else w2)
            in map_option (Pair True) (wait_child pid w2))"

text \<open>The shorter form of clean-up and of the Speech Dispatcher: a termination signal, then waiting.\<close>

definition term_and_wait :: "bool \<Rightarrow> int \<Rightarrow> os \<Rightarrow> os option" where
  "term_and_wait obeys pid w = wait_child pid (snd (kill_child obeys pid Sig_Term w))"

definition limited_text :: "string \<Rightarrow> string" where
  "limited_text text = (if length text > 500 then take 500 text else text)"

subsection \<open>The table of children\<close>

text \<open>All pids in use are positive and below the next one.\<close>

definition os_ok :: "os \<Rightarrow> bool" where
  "os_ok w \<longleftrightarrow> 0 < next_pid w \<and> (\<forall>pid. procs w pid \<noteq> None \<longrightarrow> 0 < pid \<and> pid < int (next_pid w))"

text \<open>
  What an engine knows of its child agrees with the table, where \<open>others\<close> are the children of everybody else:
  there is no child of its own, or exactly one, which is stopped only if the engine has paused it.
\<close>

definition tracks :: "(int \<Rightarrow> child_state option) \<Rightarrow> int \<Rightarrow> bool \<Rightarrow> os \<Rightarrow> bool" where
  "tracks others pid paused w \<longleftrightarrow> os_ok w \<and>
     (if pid = 0 then procs w = others
      else 0 < pid \<and> others pid = None \<and>
        (\<exists>s. procs w = others(pid \<mapsto> s) \<and>
           (case s of Child_Running \<Rightarrow> \<not> paused | Child_Stopped pending \<Rightarrow> paused \<and> \<not> pending | Child_Zombie \<Rightarrow> True)))"

lemma tracks_idle: "tracks others 0 paused w \<longleftrightarrow> os_ok w \<and> procs w = others"
  by (simp add: tracks_def)

lemma tracks_child:
  assumes "tracks others pid paused w" "0 < pid"
  obtains s where "procs w = others(pid \<mapsto> s)" "others pid = None" "os_ok w"
    "case s of Child_Running \<Rightarrow> \<not> paused | Child_Stopped pending \<Rightarrow> paused \<and> \<not> pending | Child_Zombie \<Rightarrow> True"
  using assms by (auto simp: tracks_def)

lemma os_ok_others: "os_ok w \<Longrightarrow> procs w = others(pid \<mapsto> s) \<Longrightarrow> others pid = None \<Longrightarrow>
  procs w' = others \<Longrightarrow> next_pid w' = next_pid w \<Longrightarrow> os_ok w'"
  unfolding os_ok_def by (metis fun_upd_apply)

lemma os_ok_same_child: "os_ok w \<Longrightarrow> procs w = others(pid \<mapsto> s) \<Longrightarrow>
  procs w' = others(pid \<mapsto> s') \<Longrightarrow> next_pid w' = next_pid w \<Longrightarrow> os_ok w'"
  unfolding os_ok_def by (metis fun_upd_apply option.distinct(1))

lemma others_restored: "others pid = None \<Longrightarrow> others(pid := None) = others"
  by (auto simp: fun_eq_iff)

lemma kill_child_of:
  "procs w = others(pid \<mapsto> s) \<Longrightarrow>
   kill_child obeys pid sig w =
     (True, w\<lparr>procs := others(pid \<mapsto> deliver obeys sig s), sent_signals := sent_signals w @ [(pid, sig)]\<rparr>)"
  by (simp add: kill_child_def)

lemma wait_child_of:
  "procs w = others(pid \<mapsto> s) \<Longrightarrow> others pid = None \<Longrightarrow>
   wait_child pid w = (case s of Child_Stopped pending \<Rightarrow> None | _ \<Rightarrow> Some (w\<lparr>procs := others\<rparr>))"
  by (simp add: wait_child_def others_restored split: child_state.split)

lemma deliver_kill [simp]: "deliver obeys Sig_Kill s = Child_Zombie"
  by (cases s) simp_all

lemma force_down_child:
  assumes "tracks others pid paused w" "0 < pid"
  shows "\<exists>w'. force_down obeys pid w = Some (True, w') \<and> tracks others 0 p w' \<and> spawned_argv w' = spawned_argv w"
proof -
  obtain s where s: "procs w = others(pid \<mapsto> s)" "others pid = None" "os_ok w" using tracks_child [OF assms] by blast
  obtain w' where w': "force_down obeys pid w = Some (True, w')" "procs w' = others" "next_pid w' = next_pid w"
    "spawned_argv w' = spawned_argv w"
    by (simp add: force_down_def kill_child_def wait_child_def s(1,2) Let_def others_restored)
  then show ?thesis using os_ok_others [OF s(3,1,2)] by (auto simp: tracks_idle)
qed

lemma term_and_wait_child:
  assumes "tracks others pid paused w" "0 < pid"
  shows "term_and_wait obeys pid w = None \<longleftrightarrow> (\<exists>pending. procs w pid = Some (Child_Stopped pending))"
    and "term_and_wait obeys pid w = Some w' \<Longrightarrow> tracks others 0 p w' \<and> spawned_argv w' = spawned_argv w"
proof -
  obtain s where s: "procs w = others(pid \<mapsto> s)" "others pid = None" "os_ok w" using tracks_child [OF assms] by blast
  have eq: "term_and_wait obeys pid w = (case s of Child_Stopped pending \<Rightarrow> None
      | _ \<Rightarrow> Some (w\<lparr>procs := others, sent_signals := sent_signals w @ [(pid, Sig_Term)]\<rparr>))"
    by (cases s) (simp_all add: term_and_wait_def kill_child_of [OF s(1)] wait_child_of [where others = others and pid = pid, OF _ s(2)])
  show "term_and_wait obeys pid w = None \<longleftrightarrow> (\<exists>pending. procs w pid = Some (Child_Stopped pending))"
    by (simp add: eq s(1) split: child_state.split)
  show "tracks others 0 p w' \<and> spawned_argv w' = spawned_argv w" if "term_and_wait obeys pid w = Some w'"
    using that os_ok_others [OF s(3,1,2), of w'] by (auto simp: eq tracks_idle split: child_state.splits)
qed

lemma spawn_tracks:
  assumes "tracks others 0 paused w" "spawn_command env command w = (child, w')"
  shows "case child of None \<Rightarrow> w' = w | Some pid \<Rightarrow> 0 < pid \<and> tracks others pid False w'"
proof (cases child)
  case None
  then show ?thesis using assms(2) by (auto simp: spawn_command_def split: sum.splits if_splits)
next
  case (Some pid)
  have ok: "os_ok w" "procs w = others" using assms(1) by (simp_all add: tracks_idle)
  have w': "pid = int (next_pid w)" "procs w' = others(pid \<mapsto> Child_Running)" "next_pid w' = Suc (next_pid w)"
    using assms(2) ok(2) Some by (auto simp: spawn_command_def split: sum.splits if_splits)
  have fresh: "others pid = None" using ok unfolding os_ok_def w'(1) by (metis less_irrefl)
  have "os_ok w'" using ok w' unfolding os_ok_def by (auto simp: less_Suc_eq intro: less_trans)
  then have "tracks others pid False w'" using fresh ok(1) w' by (auto simp: tracks_def os_ok_def)
  then show ?thesis using Some w'(1) ok(1) by (simp add: os_ok_def)
qed

end
