(* ===== verification/Speech_Engines.thy ===== *)
theory Speech_Engines
  imports Engine_Process
begin

text \<open>
  The three speech engines of \<^verbatim>\<open>tts-engine-piper.c\<close>, \<^verbatim>\<open>tts-engine-speechd.c\<close> and
  \<^verbatim>\<open>tts-engine-espeak.c\<close>: their data, and every function of their tables on an engine that is not NULL (the
  callers of the tables have tested that). The data behind the pointer \<^verbatim>\<open>engine_data\<close> is the type
  parameter of the engine, so no engine can be called with the data of another. An operation that may wait for
  a child for ever has an optional result.
\<close>

subsection \<open>Engines and voices\<close>

datatype tts_engine_state =
    TTS_ENGINE_STATE_IDLE
  | TTS_ENGINE_STATE_SPEAKING
  | TTS_ENGINE_STATE_PAUSED
  | TTS_ENGINE_STATE_ERROR

record tts_voice_info =
  voice_name :: string
  voice_language :: string
  voice_gender :: string
  voice_quality :: int

record tts_engine_config =
  cfg_speed :: c_float
  cfg_volume :: int
  cfg_voice_name :: "string option"
  cfg_pitch :: int

record 'd tts_engine =
  engine_type :: tts_engine_type
  engine_config :: tts_engine_config
  engine_state :: tts_engine_state
  engine_data :: "'d option"
  engine_name :: string
  engine_available :: bool

type_synonym 'd engine_result = "(bool \<times> zathura_error \<times> 'd tts_engine \<times> os) option"

definition tts_voice_info_new :: "string option \<Rightarrow> string option \<Rightarrow> string option \<Rightarrow> int \<Rightarrow> tts_voice_info option" where
  "tts_voice_info_new name language gender quality =
     (case name of
        None \<Rightarrow> None
      | Some n \<Rightarrow> Some \<lparr>voice_name = n,
          voice_language = (case language of None \<Rightarrow> ''unknown'' | Some l \<Rightarrow> l),
          voice_gender = (case gender of None \<Rightarrow> ''neutral'' | Some g \<Rightarrow> g), voice_quality = quality\<rparr>)"

definition put_data :: "'d \<Rightarrow> 'd tts_engine \<Rightarrow> 'd tts_engine" where
  "put_data d e = e\<lparr>engine_data := Some d\<rparr>"

text \<open>The guard on \<^verbatim>\<open>engine_data\<close> that begins every operation.\<close>

definition with_data :: "'d tts_engine \<Rightarrow> os \<Rightarrow> ('d \<Rightarrow> 'd engine_result) \<Rightarrow> 'd engine_result" where
  "with_data e w body =
     (case engine_data e of
        None \<Rightarrow> Some (False, ZATHURA_ERROR_INVALID_ARGUMENTS, e, w)
      | Some d \<Rightarrow> body d)"

subsection \<open>The parts the engines share\<close>

definition end_speech :: "engine_env \<Rightarrow> 'a process_data_scheme \<Rightarrow> os \<Rightarrow> ('a process_data_scheme \<times> os) option" where
  "end_speech env d w =
     (if current_process d > 0
      then map_option (\<lambda>(sent, w1). (d\<lparr>current_process := 0, is_speaking := False\<rparr>, w1))
             (force_down (obeys_term env) (current_process d) w)
      else Some (d, w))"

definition start_speech :: "engine_env \<Rightarrow> string \<Rightarrow> 'a process_data_scheme \<Rightarrow> 'a process_data_scheme tts_engine \<Rightarrow> os \<Rightarrow>
  'a process_data_scheme engine_result" where
  "start_speech env command d e w =
     (case spawn_command env command w of
        (child, w1) \<Rightarrow>
          (case child of
             None \<Rightarrow> Some (False, ZATHURA_ERROR_UNKNOWN, put_data d e, w1)
           | Some pid \<Rightarrow>
               Some (True, ZATHURA_ERROR_OK,
                 (put_data (d\<lparr>current_process := pid, is_speaking := True, child_paused := False\<rparr>) e)
                   \<lparr>engine_state := TTS_ENGINE_STATE_SPEAKING\<rparr>, w1)))"

definition pause_child :: "engine_env \<Rightarrow> bool \<Rightarrow> 'a process_data_scheme tts_engine \<Rightarrow> os \<Rightarrow>
  'a process_data_scheme engine_result" where
  "pause_child env pause e w = with_data e w (\<lambda>d.
     if current_process d > 0 then
       (case kill_child (obeys_term env) (current_process d) (if pause then Sig_Stop else Sig_Cont) w of
          (ok, w1) \<Rightarrow>
            if ok then
              Some (True, ZATHURA_ERROR_OK,
                (put_data (d\<lparr>child_paused := pause\<rparr>) e)
                  \<lparr>engine_state := (if pause then TTS_ENGINE_STATE_PAUSED else TTS_ENGINE_STATE_SPEAKING)\<rparr>, w1)
            else Some (False, ZATHURA_ERROR_UNKNOWN, e, w1))
     else Some (False, ZATHURA_ERROR_UNKNOWN, e, w))"

definition stop_child :: "engine_env \<Rightarrow> 'a process_data_scheme tts_engine \<Rightarrow> os \<Rightarrow> 'a process_data_scheme engine_result" where
  "stop_child env e w = with_data e w (\<lambda>d.
     let idle = (\<lambda>d w1. Some (True, ZATHURA_ERROR_OK,
           (put_data (d\<lparr>is_speaking := False, child_paused := False\<rparr>) e)\<lparr>engine_state := TTS_ENGINE_STATE_IDLE\<rparr>, w1))
     in if current_process d > 0 then
          (case force_down (obeys_term env) (current_process d) w of
             None \<Rightarrow> None
           | Some (sent, w1) \<Rightarrow> if sent then idle (d\<lparr>current_process := 0\<rparr>) w1 else idle d w1)
        else idle d w)"

definition poll_engine :: "'a process_data_scheme tts_engine \<Rightarrow> os \<Rightarrow>
  tts_engine_state \<times> 'a process_data_scheme tts_engine \<times> os" where
  "poll_engine e w =
     (case engine_data e of
        None \<Rightarrow> (TTS_ENGINE_STATE_ERROR, e, w)
      | Some d \<Rightarrow>
          if current_process d > 0 then
            (case poll_child (current_process d) w of
               (result, w1) \<Rightarrow>
                 if result = 0
                 then (if child_paused d then TTS_ENGINE_STATE_PAUSED else TTS_ENGINE_STATE_SPEAKING, e, w1)
                 else (TTS_ENGINE_STATE_IDLE,
                       (put_data (d\<lparr>current_process := 0, is_speaking := False, child_paused := False\<rparr>) e)
                         \<lparr>engine_state := TTS_ENGINE_STATE_IDLE\<rparr>, w1))
          else (TTS_ENGINE_STATE_IDLE, e, w))"

definition close_child :: "engine_env \<Rightarrow> 'a process_data_scheme tts_engine \<Rightarrow> os \<Rightarrow> ('a process_data_scheme tts_engine \<times> os) option" where
  "close_child env e w =
     (case engine_data e of
        None \<Rightarrow> Some (e, w)
      | Some d \<Rightarrow>
          map_option (Pair (e\<lparr>engine_data := None\<rparr>))
            (if current_process d > 0 then term_and_wait (obeys_term env) (current_process d) w else Some w))"

text \<open>Words in single quotes, as the format strings write them.\<close>

definition in_apostrophes :: "string \<Rightarrow> string" where
  "in_apostrophes s = apostrophe # s @ [apostrophe]"

definition in_double_quotes :: "string \<Rightarrow> string" where
  "in_double_quotes s = double_quote # s @ [double_quote]"

subsection \<open>Piper\<close>

record piper_engine_data = process_data +
  model_path :: "string option"
  config_path :: "string option"
  piper_voices :: "tts_voice_info list option"

definition user_voice :: "engine_env \<Rightarrow> string \<Rightarrow> string \<Rightarrow> string" where
  "user_voice env voice extension = home_dir env @ ''/.local/share/piper-voices/'' @ voice @ extension"

definition project_dir :: "engine_env \<Rightarrow> string" where
  "project_dir env = current_dir env @ ''/zathura-tts''"

definition piper_engine_init :: "engine_env \<Rightarrow> tts_engine_config option \<Rightarrow> piper_engine_data tts_engine \<Rightarrow>
  bool \<times> zathura_error \<times> piper_engine_data tts_engine" where
  "piper_engine_init env config e =
     (let paths = (case config of
            Some c \<Rightarrow> (case cfg_voice_name c of
                Some voice \<Rightarrow> (user_voice env voice ''.onnx'', user_voice env voice ''.onnx.json'')
              | None \<Rightarrow> (project_dir env @ ''/voices/en_US-lessac-medium.onnx'',
                         project_dir env @ ''/voices/en_US-lessac-medium.onnx.json''))
          | None \<Rightarrow> (project_dir env @ ''/voices/en_US-lessac-medium.onnx'',
                     project_dir env @ ''/voices/en_US-lessac-medium.onnx.json''))
      in (True, ZATHURA_ERROR_OK,
          (put_data \<lparr>current_process = 0, is_speaking = False, child_paused = False,
             model_path = Some (fst paths), config_path = Some (snd paths), piper_voices = None\<rparr> e)
            \<lparr>engine_state := TTS_ENGINE_STATE_IDLE\<rparr>))"

definition piper_engine_cleanup :: "engine_env \<Rightarrow> piper_engine_data tts_engine \<Rightarrow> os \<Rightarrow>
  (piper_engine_data tts_engine \<times> os) option" where
  "piper_engine_cleanup env e w = close_child env e w"

text \<open>What is handed to the shell, and the command line it is part of.\<close>

definition piper_script :: "engine_env \<Rightarrow> string \<Rightarrow> string \<Rightarrow> string" where
  "piper_script env text model =
     ''cd '' @ in_apostrophes (project_dir env) @ '' && echo '' @ in_apostrophes text @
     '' | poetry run piper --model '' @ in_apostrophes model @
     '' --output-raw | aplay -r 22050 -f S16_LE -t raw -''"

definition piper_command :: "engine_env \<Rightarrow> string \<Rightarrow> string \<Rightarrow> string" where
  "piper_command env text model = ''sh -c '' @ in_double_quotes (piper_script env text model)"

definition piper_engine_speak :: "engine_env \<Rightarrow> string \<Rightarrow> piper_engine_data tts_engine \<Rightarrow> os \<Rightarrow>
  piper_engine_data engine_result" where
  "piper_engine_speak env text e w = with_data e w (\<lambda>d.
     case end_speech env d w of
       None \<Rightarrow> None
     | Some (d1, w1) \<Rightarrow>
         (case model_path d1 of
            None \<Rightarrow> Some (False, ZATHURA_ERROR_UNKNOWN, put_data d1 e, w1)
          | Some model \<Rightarrow>
              if file_exists env model then start_speech env (piper_command env (limited_text text) model) d1 e w1
              else Some (False, ZATHURA_ERROR_UNKNOWN, put_data d1 e, w1)))"

definition piper_engine_pause :: "engine_env \<Rightarrow> bool \<Rightarrow> piper_engine_data tts_engine \<Rightarrow> os \<Rightarrow> piper_engine_data engine_result" where
  "piper_engine_pause env pause e w = pause_child env pause e w"

definition piper_engine_stop :: "engine_env \<Rightarrow> piper_engine_data tts_engine \<Rightarrow> os \<Rightarrow> piper_engine_data engine_result" where
  "piper_engine_stop env e w = stop_child env e w"

definition piper_engine_set_config :: "engine_env \<Rightarrow> tts_engine_config \<Rightarrow> piper_engine_data tts_engine \<Rightarrow> os \<Rightarrow>
  piper_engine_data engine_result" where
  "piper_engine_set_config env config e w = with_data e w (\<lambda>d.
     let d1 = (case cfg_voice_name config of
                 Some voice \<Rightarrow> d\<lparr>model_path := Some (user_voice env voice ''.onnx''),
                                config_path := Some (user_voice env voice ''.onnx.json'')\<rparr>
               | None \<Rightarrow> d)
     in Some (True, ZATHURA_ERROR_OK, (put_data d1 e)\<lparr>engine_config := config\<rparr>, w))"

definition piper_engine_get_state :: "piper_engine_data tts_engine \<Rightarrow> os \<Rightarrow>
  tts_engine_state \<times> piper_engine_data tts_engine \<times> os" where
  "piper_engine_get_state e w = poll_engine e w"

text \<open>
  The voices in one directory. After each directory the code frees its name; only the first of the names was
  allocated, the other two are string literals.
\<close>

definition voice_of_file :: "string \<Rightarrow> tts_voice_info option" where
  "voice_of_file filename =
     (if suffix ''.onnx'' filename
      then tts_voice_info_new (Some (take (length filename - 5) filename)) (Some ''en-US'') (Some ''neutral'') 85
      else None)"

definition voices_in :: "engine_env \<Rightarrow> string \<Rightarrow> tts_voice_info list" where
  "voices_in env dir = (case dir_names env dir of None \<Rightarrow> [] | Some names \<Rightarrow> List.map_filter voice_of_file names)"

definition literal_voice_dirs :: "string list" where
  "literal_voice_dirs = [''/usr/share/piper-voices'', ''/usr/local/share/piper-voices'']"

definition piper_engine_get_voices :: "engine_env \<Rightarrow> piper_engine_data tts_engine \<Rightarrow> os \<Rightarrow>
  tts_voice_info list option \<times> zathura_error \<times> piper_engine_data tts_engine \<times> os" where
  "piper_engine_get_voices env e w =
     (case engine_data e of
        None \<Rightarrow> (None, ZATHURA_ERROR_INVALID_ARGUMENTS, e, w)
      | Some d \<Rightarrow>
          (case piper_voices d of
             Some voices \<Rightarrow> (Some voices, ZATHURA_ERROR_OK, e, w)
           | None \<Rightarrow>
               let found = concat (map (voices_in env) ((home_dir env @ ''/.local/share/piper-voices'') # literal_voice_dirs));
                   w1 = w\<lparr>bad_frees := bad_frees w @ literal_voice_dirs\<rparr>;
                   voices = (if length found = 0
                     then [\<lparr>voice_name = ''default'', voice_language = ''en-US'', voice_gender = ''neutral'', voice_quality = 75\<rparr>]
                     else found)
               in (Some voices, ZATHURA_ERROR_OK, put_data (d\<lparr>piper_voices := Some voices\<rparr>) e, w1)))"

subsection \<open>Speech Dispatcher\<close>

record speech_dispatcher_engine_data = process_data +
  spd_voice :: "string option"
  spd_voices :: "tts_voice_info list option"

definition speech_dispatcher_engine_init :: "tts_engine_config option \<Rightarrow> speech_dispatcher_engine_data tts_engine \<Rightarrow>
  bool \<times> zathura_error \<times> speech_dispatcher_engine_data tts_engine" where
  "speech_dispatcher_engine_init config e =
     (True, ZATHURA_ERROR_OK,
      (put_data \<lparr>current_process = 0, is_speaking = False, child_paused = False,
         spd_voice = (case config of None \<Rightarrow> None | Some c \<Rightarrow> cfg_voice_name c), spd_voices = None\<rparr> e)
        \<lparr>engine_state := TTS_ENGINE_STATE_IDLE\<rparr>)"

definition speech_dispatcher_engine_cleanup :: "engine_env \<Rightarrow> speech_dispatcher_engine_data tts_engine \<Rightarrow> os \<Rightarrow>
  (speech_dispatcher_engine_data tts_engine \<times> os) option" where
  "speech_dispatcher_engine_cleanup env e w = close_child env e w"

definition spd_command :: "string option \<Rightarrow> string \<Rightarrow> string" where
  "spd_command voice text =
     (case voice of
        Some v \<Rightarrow> ''spd-say -v '' @ in_apostrophes v @ '' '' @ in_apostrophes text
      | None \<Rightarrow> ''spd-say '' @ in_apostrophes text)"

definition speech_dispatcher_engine_speak :: "engine_env \<Rightarrow> string \<Rightarrow> speech_dispatcher_engine_data tts_engine \<Rightarrow> os \<Rightarrow>
  speech_dispatcher_engine_data engine_result" where
  "speech_dispatcher_engine_speak env text e w = with_data e w (\<lambda>d.
     if current_process d > 0 then
       (case term_and_wait (obeys_term env) (current_process d) w of
          None \<Rightarrow> None
        | Some w1 \<Rightarrow> start_speech env (spd_command (spd_voice d) (limited_text text)) (d\<lparr>current_process := 0\<rparr>) e w1)
     else start_speech env (spd_command (spd_voice d) (limited_text text)) d e w)"

definition speech_dispatcher_engine_pause :: "engine_env \<Rightarrow> bool \<Rightarrow> speech_dispatcher_engine_data tts_engine \<Rightarrow> os \<Rightarrow>
  speech_dispatcher_engine_data engine_result" where
  "speech_dispatcher_engine_pause env pause e w = pause_child env pause e w"

definition speech_dispatcher_engine_stop :: "engine_env \<Rightarrow> speech_dispatcher_engine_data tts_engine \<Rightarrow> os \<Rightarrow>
  speech_dispatcher_engine_data engine_result" where
  "speech_dispatcher_engine_stop env e w = stop_child env e w"

definition speech_dispatcher_engine_set_config :: "tts_engine_config \<Rightarrow> speech_dispatcher_engine_data tts_engine \<Rightarrow> os \<Rightarrow>
  speech_dispatcher_engine_data engine_result" where
  "speech_dispatcher_engine_set_config config e w = with_data e w (\<lambda>d.
     Some (True, ZATHURA_ERROR_OK,
       (put_data (d\<lparr>spd_voice := cfg_voice_name config\<rparr>) e)\<lparr>engine_config := config\<rparr>, w))"

definition speech_dispatcher_engine_get_state :: "speech_dispatcher_engine_data tts_engine \<Rightarrow> os \<Rightarrow>
  tts_engine_state \<times> speech_dispatcher_engine_data tts_engine \<times> os" where
  "speech_dispatcher_engine_get_state e w = poll_engine e w"

definition spd_common_voices :: "string list" where
  "spd_common_voices = [''male1'', ''male2'', ''male3'', ''female1'', ''female2'', ''female3'']"

definition speech_dispatcher_engine_get_voices :: "speech_dispatcher_engine_data tts_engine \<Rightarrow>
  tts_voice_info list option \<times> zathura_error \<times> speech_dispatcher_engine_data tts_engine" where
  "speech_dispatcher_engine_get_voices e =
     (case engine_data e of
        None \<Rightarrow> (None, ZATHURA_ERROR_INVALID_ARGUMENTS, e)
      | Some d \<Rightarrow>
          (case spd_voices d of
             Some voices \<Rightarrow> (Some voices, ZATHURA_ERROR_OK, e)
           | None \<Rightarrow>
               let voices = List.map_filter (\<lambda>v. tts_voice_info_new (Some v) (Some ''en-US'')
                     (Some (if prefix ''male'' v then ''male'' else ''female'')) 70) spd_common_voices
               in (Some voices, ZATHURA_ERROR_OK, put_data (d\<lparr>spd_voices := Some voices\<rparr>) e)))"

subsection \<open>espeak-ng\<close>

record espeak_engine_data = process_data +
  espeak_voice :: "string option"
  espeak_voices :: "tts_voice_info list option"

definition espeak_engine_init :: "tts_engine_config option \<Rightarrow> espeak_engine_data tts_engine \<Rightarrow>
  bool \<times> zathura_error \<times> espeak_engine_data tts_engine" where
  "espeak_engine_init config e =
     (True, ZATHURA_ERROR_OK,
      (put_data \<lparr>current_process = 0, is_speaking = False, child_paused = False,
         espeak_voice = (case config of None \<Rightarrow> None | Some c \<Rightarrow> cfg_voice_name c), espeak_voices = None\<rparr> e)
        \<lparr>engine_state := TTS_ENGINE_STATE_IDLE\<rparr>)"

definition espeak_engine_cleanup :: "engine_env \<Rightarrow> espeak_engine_data tts_engine \<Rightarrow> os \<Rightarrow>
  (espeak_engine_data tts_engine \<times> os) option" where
  "espeak_engine_cleanup env e w = close_child env e w"

text \<open>
  The speed in words per minute: the product is a \<^verbatim>\<open>float\<close>, and the conversion to \<^verbatim>\<open>int\<close> cuts off the
  fraction. What does not fit in an \<^verbatim>\<open>int\<close> has no defined conversion; the value here is that of x86-64.
\<close>

definition float_to_int :: "c_float \<Rightarrow> int" where
  "float_to_int x =
     (case x of
        Fin r \<Rightarrow>
          let i = (if r < 0 then \<lceil>r\<rceil> else \<lfloor>r\<rfloor>)
          in if - (2 ^ 31) \<le> i \<and> i < 2 ^ 31 then i else - (2 ^ 31)
      | _ \<Rightarrow> - (2 ^ 31))"

definition espeak_speed :: "c_float \<Rightarrow> int" where
  "espeak_speed speed = float_to_int (case speed of Fin r \<Rightarrow> double_to_float (Fin (r * 175)) | _ \<Rightarrow> speed)"

definition espeak_command :: "string option \<Rightarrow> c_float \<Rightarrow> string \<Rightarrow> string" where
  "espeak_command voice speed text =
     (case voice of
        Some v \<Rightarrow> ''espeak-ng -v '' @ in_apostrophes v @ '' -s '' @ fmt_int (espeak_speed speed) @ '' '' @ in_apostrophes text
      | None \<Rightarrow> ''espeak-ng -s '' @ fmt_int (espeak_speed speed) @ '' '' @ in_apostrophes text)"

definition espeak_engine_speak :: "engine_env \<Rightarrow> string \<Rightarrow> espeak_engine_data tts_engine \<Rightarrow> os \<Rightarrow>
  espeak_engine_data engine_result" where
  "espeak_engine_speak env text e w = with_data e w (\<lambda>d.
     case end_speech env d w of
       None \<Rightarrow> None
     | Some (d1, w1) \<Rightarrow>
         start_speech env (espeak_command (espeak_voice d1) (cfg_speed (engine_config e)) (limited_text text)) d1 e w1)"

definition espeak_engine_pause :: "engine_env \<Rightarrow> bool \<Rightarrow> espeak_engine_data tts_engine \<Rightarrow> os \<Rightarrow> espeak_engine_data engine_result" where
  "espeak_engine_pause env pause e w = pause_child env pause e w"

definition espeak_engine_stop :: "engine_env \<Rightarrow> espeak_engine_data tts_engine \<Rightarrow> os \<Rightarrow> espeak_engine_data engine_result" where
  "espeak_engine_stop env e w = stop_child env e w"

definition espeak_engine_set_config :: "tts_engine_config \<Rightarrow> espeak_engine_data tts_engine \<Rightarrow> os \<Rightarrow>
  espeak_engine_data engine_result" where
  "espeak_engine_set_config config e w = with_data e w (\<lambda>d.
     Some (True, ZATHURA_ERROR_OK,
       (put_data (d\<lparr>espeak_voice := cfg_voice_name config\<rparr>) e)\<lparr>engine_config := config\<rparr>, w))"

definition espeak_engine_get_state :: "espeak_engine_data tts_engine \<Rightarrow> os \<Rightarrow>
  tts_engine_state \<times> espeak_engine_data tts_engine \<times> os" where
  "espeak_engine_get_state e w = poll_engine e w"

definition espeak_common_voices :: "string list" where
  "espeak_common_voices = [''en'', ''en-us'', ''en-gb'', ''en-au'', ''es'', ''fr'', ''de'', ''it'', ''pt'']"

definition espeak_engine_get_voices :: "espeak_engine_data tts_engine \<Rightarrow>
  tts_voice_info list option \<times> zathura_error \<times> espeak_engine_data tts_engine" where
  "espeak_engine_get_voices e =
     (case engine_data e of
        None \<Rightarrow> (None, ZATHURA_ERROR_INVALID_ARGUMENTS, e)
      | Some d \<Rightarrow>
          (case espeak_voices d of
             Some voices \<Rightarrow> (Some voices, ZATHURA_ERROR_OK, e)
           | None \<Rightarrow>
               let voices = List.map_filter (\<lambda>v. tts_voice_info_new (Some v) (Some v) (Some ''neutral'') 60)
                     espeak_common_voices
               in (Some voices, ZATHURA_ERROR_OK, put_data (d\<lparr>espeak_voices := Some voices\<rparr>) e)))"

end
