(* ===== verification/Ui_Controller.thy ===== *)
theory Ui_Controller
  imports Audio_Memory Page_Extract Tts_Error Speech_Engines
begin

text \<open>
  The user interface controller of \<^verbatim>\<open>tts-ui-controller.c\<close>: its state, the status line with its
  timeout, the table of shortcuts and the registrations, the visual feedback, the notifications and the
  callbacks that the audio controller and the error handling invoke. The controller is held in the record
  \<open>desk\<close>, together with what its pointers lead to and with what it does to the outside: the audio controller,
  the document, the messages given to \<^verbatim>\<open>girara_notify\<close>, and the timeout sources of the main loop. A
  function with a controller that is NULL does nothing, and returns false where it has a result. Girara,
  GTK and the document are not part of the repository: whether girara accepts a registration and what the
  document answers are arguments. The wish to print a number with one digit takes the decimal point of the
  locale.
\<close>

subsection \<open>State\<close>

datatype tts_shortcut_action =
    TTS_SHORTCUT_TOGGLE
  | TTS_SHORTCUT_PAUSE_RESUME
  | TTS_SHORTCUT_STOP
  | TTS_SHORTCUT_NEXT_SEGMENT
  | TTS_SHORTCUT_PREV_SEGMENT
  | TTS_SHORTCUT_SPEED_UP
  | TTS_SHORTCUT_SPEED_DOWN
  | TTS_SHORTCUT_VOLUME_UP
  | TTS_SHORTCUT_VOLUME_DOWN
  | TTS_SHORTCUT_SETTINGS

datatype gdk_modifier = GDK_CONTROL_MASK | GDK_SHIFT_MASK | GDK_MOD1_MASK

datatype gdk_key = GDK_KEY_t | GDK_KEY_r | GDK_KEY_Right | GDK_KEY_Left | GDK_KEY_equal | GDK_KEY_minus | GDK_KEY_s

record tts_shortcut_info =
  info_modifiers :: "gdk_modifier list"
  info_key :: gdk_key
  info_sequence :: "string option"
  info_action :: tts_shortcut_action
  info_description :: "string option"

record tts_ui_controller =
  session_available :: bool
  shortcuts_registered :: bool
  registered_shortcuts :: "tts_shortcut_info list"
  tts_active :: bool
  show_status :: bool
  status_message :: "string option"
  status_timeout_id :: nat

record zathura_document =
  doc_current_page :: nat
  doc_number_of_pages :: nat
  doc_get_page :: "nat \<Rightarrow> zathura_page option"

record desk =
  ui :: tts_ui_controller
  desk_audio :: "audio option"
  document :: "zathura_document option"
  desk_errors :: error_world
  notices :: "string list"
  timers :: "nat list"
  next_timer :: nat

record ui_env =
  decimal_point :: char
  env_spawn :: spawn_env
  env_reap :: reap_env
  accepts_shortcut :: "tts_shortcut_action \<Rightarrow> bool"
  accepts_command :: "string \<Rightarrow> bool"

abbreviation upd_ui :: "(tts_ui_controller \<Rightarrow> tts_ui_controller) \<Rightarrow> desk \<Rightarrow> desk" where
  "upd_ui f d \<equiv> d\<lparr>ui := f (ui d)\<rparr>"

definition shortcut :: "gdk_modifier list \<Rightarrow> gdk_key \<Rightarrow> tts_shortcut_action \<Rightarrow> string \<Rightarrow> tts_shortcut_info" where
  "shortcut mods key action description =
     \<lparr>info_modifiers = mods, info_key = key, info_sequence = None, info_action = action, info_description = Some description\<rparr>"

definition default_shortcuts :: "tts_shortcut_info list" where
  "default_shortcuts =
     [shortcut [GDK_CONTROL_MASK] GDK_KEY_t TTS_SHORTCUT_TOGGLE ''Toggle TTS on/off'',
      shortcut [GDK_CONTROL_MASK] GDK_KEY_r TTS_SHORTCUT_PAUSE_RESUME ''Pause/resume TTS'',
      shortcut [GDK_CONTROL_MASK, GDK_SHIFT_MASK] GDK_KEY_t TTS_SHORTCUT_STOP ''Stop TTS'',
      shortcut [GDK_CONTROL_MASK, GDK_SHIFT_MASK] GDK_KEY_Right TTS_SHORTCUT_NEXT_SEGMENT ''Next text segment'',
      shortcut [GDK_CONTROL_MASK, GDK_SHIFT_MASK] GDK_KEY_Left TTS_SHORTCUT_PREV_SEGMENT ''Previous text segment'',
      shortcut [GDK_CONTROL_MASK, GDK_SHIFT_MASK] GDK_KEY_equal TTS_SHORTCUT_SPEED_UP ''Increase TTS speed'',
      shortcut [GDK_CONTROL_MASK, GDK_SHIFT_MASK] GDK_KEY_minus TTS_SHORTCUT_SPEED_DOWN ''Decrease TTS speed'',
      shortcut [GDK_CONTROL_MASK, GDK_MOD1_MASK] GDK_KEY_equal TTS_SHORTCUT_VOLUME_UP ''Increase TTS volume'',
      shortcut [GDK_CONTROL_MASK, GDK_MOD1_MASK] GDK_KEY_minus TTS_SHORTCUT_VOLUME_DOWN ''Decrease TTS volume'',
      shortcut [GDK_CONTROL_MASK, GDK_SHIFT_MASK] GDK_KEY_s TTS_SHORTCUT_SETTINGS ''TTS settings'']"

definition tts_shortcut_info_new :: "gdk_modifier list \<Rightarrow> gdk_key \<Rightarrow> string option \<Rightarrow> tts_shortcut_action \<Rightarrow> string option \<Rightarrow>
  tts_shortcut_info" where
  "tts_shortcut_info_new mods key sequence action description =
     \<lparr>info_modifiers = mods, info_key = key, info_sequence = sequence, info_action = action, info_description = description\<rparr>"

definition tts_ui_controller_new :: "bool \<Rightarrow> tts_ui_controller" where
  "tts_ui_controller_new session =
     \<lparr>session_available = session, shortcuts_registered = False, registered_shortcuts = [], tts_active = False,
      show_status = True, status_message = None, status_timeout_id = 0\<rparr>"

subsection \<open>The status line\<close>

definition g_source_remove :: "nat \<Rightarrow> desk \<Rightarrow> desk" where
  "g_source_remove i d = d\<lparr>timers := removeAll i (timers d)\<rparr>"

definition g_timeout_add :: "desk \<Rightarrow> nat \<times> desk" where
  "g_timeout_add d = (next_timer d, d\<lparr>timers := timers d @ [next_timer d], next_timer := Suc (next_timer d)\<rparr>)"

definition clear_timeout :: "desk \<Rightarrow> desk" where
  "clear_timeout d =
     (if status_timeout_id (ui d) > 0
      then upd_ui (\<lambda>c. c\<lparr>status_timeout_id := 0\<rparr>) (g_source_remove (status_timeout_id (ui d)) d)
      else d)"

definition girara_notify :: "string \<Rightarrow> desk \<Rightarrow> desk" where
  "girara_notify message d = (if session_available (ui d) then d\<lparr>notices := notices d @ [message]\<rparr> else d)"

definition tts_ui_controller_show_status :: "string option \<Rightarrow> int \<Rightarrow> desk \<Rightarrow> desk" where
  "tts_ui_controller_show_status message timeout_ms d =
     (case message of
        None \<Rightarrow> d
      | Some m \<Rightarrow>
          if \<not> show_status (ui d) then d
          else
            let d1 = clear_timeout d;
                d2 = upd_ui (\<lambda>c. c\<lparr>status_message := Some m\<rparr>) d1;
                d3 = girara_notify (''TTS: '' @ m) d2
            in if timeout_ms > 0
               then (case g_timeout_add d3 of (i, d4) \<Rightarrow> upd_ui (\<lambda>c. c\<lparr>status_timeout_id := i\<rparr>) d4)
               else d3)"

definition tts_ui_controller_clear_status :: "desk \<Rightarrow> desk" where
  "tts_ui_controller_clear_status d =
     girara_notify [] (upd_ui (\<lambda>c. c\<lparr>status_message := None\<rparr>) (clear_timeout d))"

text \<open>The main loop runs the callback of a source that is due, and drops the source, because it returns false.\<close>

definition status_timeout_callback :: "nat \<Rightarrow> desk \<Rightarrow> desk" where
  "status_timeout_callback i d =
     (if i \<in> set (timers d) then g_source_remove i (tts_ui_controller_clear_status d) else d)"

abbreviation status :: "string \<Rightarrow> int \<Rightarrow> desk \<Rightarrow> desk" where
  "status m \<equiv> tts_ui_controller_show_status (Some m)"

subsection \<open>Registrations\<close>

definition tts_ui_controller_check_shortcut_conflicts :: "desk \<Rightarrow> bool" where
  "tts_ui_controller_check_shortcut_conflicts d = True"

fun register_loop :: "ui_env \<Rightarrow> tts_shortcut_info list \<Rightarrow> bool \<Rightarrow> desk \<Rightarrow> bool \<times> desk" where
  "register_loop env [] all_registered d = (all_registered, d)"
| "register_loop env (s # ss) all_registered d =
     (let info = tts_shortcut_info_new (info_modifiers s) (info_key s) (info_sequence s) (info_action s) (info_description s)
      in if accepts_shortcut env (info_action s)
         then register_loop env ss all_registered
                (upd_ui (\<lambda>c. c\<lparr>registered_shortcuts := registered_shortcuts c @ [info]\<rparr>) d)
         else register_loop env ss False d)"

definition tts_ui_controller_register_shortcuts :: "ui_env \<Rightarrow> desk \<Rightarrow> bool \<times> desk" where
  "tts_ui_controller_register_shortcuts env d =
     (if \<not> session_available (ui d) then (False, d)
      else if shortcuts_registered (ui d) then (True, d)
      else
        let d0 = (if \<not> tts_ui_controller_check_shortcut_conflicts d
                  then status ''TTS: Some shortcuts conflict with existing bindings'' 3000 d else d)
        in case register_loop env default_shortcuts True d0 of
             (all_registered, d1) \<Rightarrow>
               let d2 = upd_ui (\<lambda>c. c\<lparr>shortcuts_registered := True\<rparr>) d1
               in (all_registered,
                   if all_registered then status ''TTS: Keyboard shortcuts registered'' 2000 d2
                   else status ''TTS: Some shortcuts failed to register'' 3000 d2))"

definition tts_ui_controller_unregister_shortcuts :: "desk \<Rightarrow> desk" where
  "tts_ui_controller_unregister_shortcuts d =
     (if \<not> shortcuts_registered (ui d) then d
      else upd_ui (\<lambda>c. c\<lparr>registered_shortcuts := [], shortcuts_registered := False\<rparr>) d)"

definition command_names :: "string list" where
  "command_names = [''tts'', ''tts-stop'', ''tts-speed'', ''tts-volume'', ''tts-voice'', ''tts-engine'', ''tts-config'', ''tts-status'']"

definition tts_ui_controller_register_commands :: "ui_env \<Rightarrow> desk \<Rightarrow> bool \<times> desk" where
  "tts_ui_controller_register_commands env d =
     (if \<not> session_available (ui d) then (False, d)
      else
        let all_registered = list_all (accepts_command env) command_names
        in (all_registered,
            if all_registered then status ''TTS: Commands registered'' 2000 d
            else status ''TTS: Some commands failed to register'' 3000 d))"

text \<open>
  Freeing the controller: what is left is the world without it. The callbacks that the audio controller and the error
  handling were given stay where they are.
\<close>

definition tts_ui_controller_free :: "desk \<Rightarrow> desk" where
  "tts_ui_controller_free d =
     (let d1 = tts_ui_controller_unregister_shortcuts d
      in if status_timeout_id (ui d1) > 0 then g_source_remove (status_timeout_id (ui d1)) d1 else d1)"

subsection \<open>Numbers in messages\<close>

definition fmt_1f :: "char \<Rightarrow> c_float \<Rightarrow> string" where
  "fmt_1f point x =
     (case x of
        Fin r \<Rightarrow>
          let t = nat (round_half_even (\<bar>r\<bar> * 10))
          in (if r < 0 then ''-'' else '''') @ fmt_nat (t div 10) @ [point, digit_char (t mod 10)]
      | PInf \<Rightarrow> ''inf''
      | NInf \<Rightarrow> ''-inf''
      | NotANumber \<Rightarrow> ''nan'')"

definition to_float :: "rat \<Rightarrow> c_float" where
  "to_float r = double_to_float (Fin r)"

fun fl_add :: "c_float \<Rightarrow> c_float \<Rightarrow> c_float" where
  "fl_add (Fin a) (Fin b) = to_float (a + b)"
| "fl_add NotANumber y = NotANumber"
| "fl_add x NotANumber = NotANumber"
| "fl_add PInf NInf = NotANumber"
| "fl_add NInf PInf = NotANumber"
| "fl_add PInf y = PInf"
| "fl_add NInf y = NInf"
| "fl_add x PInf = PInf"
| "fl_add x NInf = NInf"

fun fl_neg :: "c_float \<Rightarrow> c_float" where
  "fl_neg (Fin a) = Fin (- a)"
| "fl_neg PInf = NInf"
| "fl_neg NInf = PInf"
| "fl_neg NotANumber = NotANumber"

text \<open>The progress in per cent, with each step rounded to a \<^verbatim>\<open>float\<close>; the operands are finite and positive.\<close>

definition fl_value :: "c_float \<Rightarrow> rat" where
  "fl_value x = (case x of Fin r \<Rightarrow> r | _ \<Rightarrow> 0)"

definition progress_percent :: "int \<Rightarrow> int \<Rightarrow> c_float" where
  "progress_percent segment segments =
     (let a = fl_value (to_float (of_int (segment + 1)));
          b = fl_value (to_float (of_int segments))
      in to_float (fl_value (to_float (a / b)) * 100))"

subsection \<open>Visual feedback\<close>

definition tts_ui_controller_update_progress :: "char \<Rightarrow> int \<Rightarrow> int \<Rightarrow> desk \<Rightarrow> desk" where
  "tts_ui_controller_update_progress point segment segments d =
     (if segments \<le> 0 then d
      else status (''TTS: Reading segment '' @ fmt_int (segment + 1) @ ''/'' @ fmt_int segments @ '' ('' @
             fmt_1f point (progress_percent segment segments) @ ''%)'') 1500 d)"

definition note_sign :: string where
  "note_sign = [CHR 0xE2, CHR 0x99, CHR 0xAA]"

definition tts_ui_controller_show_tts_indicator :: "bool \<Rightarrow> desk \<Rightarrow> desk" where
  "tts_ui_controller_show_tts_indicator active d =
     (if \<not> session_available (ui d) then d
      else
        let d1 = upd_ui (\<lambda>c. c\<lparr>tts_active := active\<rparr>) d
        in if active then status (''TTS: '' @ note_sign @ '' Active'') 0 d1 else tts_ui_controller_clear_status d1)"

definition tts_ui_controller_highlight_current_text :: "string option \<Rightarrow> desk \<Rightarrow> bool \<times> desk" where
  "tts_ui_controller_highlight_current_text text d =
     (case text of
        None \<Rightarrow> (False, d)
      | Some t \<Rightarrow>
          (case document d of
             None \<Rightarrow> (False, d)
           | Some doc \<Rightarrow>
               (case doc_get_page doc (doc_current_page doc) of
                  None \<Rightarrow> (False, d)
                | Some page \<Rightarrow>
                    let shown = (if length t > 50 then take 47 t @ ''...'' else t)
                    in (True, status (''TTS: '' @ in_double_quotes shown) 3000 d))))"

definition tts_ui_controller_show_enhanced_status :: "string option \<Rightarrow> string option \<Rightarrow> int \<Rightarrow> desk \<Rightarrow> desk" where
  "tts_ui_controller_show_enhanced_status action details timeout_ms d =
     (case action of
        None \<Rightarrow> d
      | Some a \<Rightarrow>
          status (case details of
              Some t \<Rightarrow> ''TTS '' @ a @ '': '' @ t
            | None \<Rightarrow> ''TTS '' @ a) timeout_ms d)"

text \<open>The two getters of the audio controller are called while it is unlocked; the event says what they answer.\<close>

definition tts_ui_controller_show_document_progress :: "audio_event \<Rightarrow> desk \<Rightarrow> desk" where
  "tts_ui_controller_show_document_progress ev d =
     (case desk_audio d of
        None \<Rightarrow> d
      | Some s \<Rightarrow>
          if event_page ev \<ge> 0 then
            (case document d of
               None \<Rightarrow> d
             | Some doc \<Rightarrow>
                 tts_ui_controller_show_enhanced_status (Some ''Reading'')
                   (Some (''Page '' @ fmt_int (event_page ev + 1) @ ''/'' @ fmt_int (to_int32 (int (doc_number_of_pages doc))) @
                     '', Segment '' @ fmt_int (event_segment ev + 1))) 2000 d)
          else d)"

fun state_icon :: "tts_audio_state \<Rightarrow> string" where
  "state_icon TTS_AUDIO_STATE_PLAYING = [CHR 0xE2, CHR 0x96, CHR 0xB6]"
| "state_icon TTS_AUDIO_STATE_PAUSED = [CHR 0xE2, CHR 0x8F, CHR 0xB8]"
| "state_icon TTS_AUDIO_STATE_STOPPED = [CHR 0xE2, CHR 0x8F, CHR 0xB9]"
| "state_icon TTS_AUDIO_STATE_ERROR = [CHR 0xE2, CHR 0x9A, CHR 0xA0]"

fun state_text :: "tts_audio_state \<Rightarrow> string" where
  "state_text TTS_AUDIO_STATE_PLAYING = ''Playing''"
| "state_text TTS_AUDIO_STATE_PAUSED = ''Paused''"
| "state_text TTS_AUDIO_STATE_STOPPED = ''Stopped''"
| "state_text TTS_AUDIO_STATE_ERROR = ''Error''"

definition tts_ui_controller_update_visual_state :: "tts_audio_state \<Rightarrow> desk \<Rightarrow> desk" where
  "tts_ui_controller_update_visual_state st d =
     status (''TTS '' @ state_icon st @ '' '' @ state_text st)
       (if st = TTS_AUDIO_STATE_STOPPED \<or> st = TTS_AUDIO_STATE_ERROR then 2000 else 0) d"

definition is_active_state :: "tts_audio_state \<Rightarrow> bool" where
  "is_active_state st \<longleftrightarrow> st = TTS_AUDIO_STATE_PLAYING \<or> st = TTS_AUDIO_STATE_PAUSED"

definition tts_audio_state_change_callback :: "audio_event \<Rightarrow> desk \<Rightarrow> desk" where
  "tts_audio_state_change_callback ev d =
     (let d1 = tts_ui_controller_update_visual_state (event_new ev) d;
          d2 = (if event_new ev = TTS_AUDIO_STATE_PLAYING then tts_ui_controller_show_document_progress ev d1 else d1)
      in upd_ui (\<lambda>c. c\<lparr>tts_active := is_active_state (event_new ev)\<rparr>) d2)"

subsection \<open>Notifications\<close>

definition tts_ui_controller_notify_engine_switch :: "string option \<Rightarrow> string option \<Rightarrow> string option \<Rightarrow> desk \<Rightarrow> desk" where
  "tts_ui_controller_notify_engine_switch from_engine to_engine reason d =
     status (case (from_engine, to_engine, reason) of
         (Some f, Some t, Some r) \<Rightarrow> ''TTS: Switched from '' @ f @ '' to '' @ t @ '' ('' @ r @ '')''
       | (Some f, Some t, None) \<Rightarrow> ''TTS: Switched from '' @ f @ '' to '' @ t
       | (None, Some t, _) \<Rightarrow> ''TTS: Using '' @ t @ '' engine''
       | (_, None, _) \<Rightarrow> ''TTS: Engine switched'') 4000 d"

definition tts_ui_controller_notify_content_unavailable :: "string option \<Rightarrow> string option \<Rightarrow> desk \<Rightarrow> desk" where
  "tts_ui_controller_notify_content_unavailable content_type suggestion d =
     status (case (content_type, suggestion) of
         (Some c, Some s) \<Rightarrow> ''TTS: '' @ c @ '' not available. '' @ s
       | (Some c, None) \<Rightarrow> ''TTS: '' @ c @ '' not available''
       | (None, _) \<Rightarrow> ''TTS: Content not available for reading'') 4000 d"

definition tts_ui_controller_notify_feature_unavailable :: "string option \<Rightarrow> string option \<Rightarrow> desk \<Rightarrow> desk" where
  "tts_ui_controller_notify_feature_unavailable feature_name reason d =
     status (case (feature_name, reason) of
         (Some f, Some r) \<Rightarrow> ''TTS: '' @ f @ '' unavailable - '' @ r
       | (Some f, None) \<Rightarrow> ''TTS: '' @ f @ '' is not available''
       | (None, _) \<Rightarrow> ''TTS: Feature not available'') 3000 d"

definition tts_ui_controller_notify_state_change :: "tts_audio_state \<Rightarrow> tts_audio_state \<Rightarrow> string option \<Rightarrow> desk \<Rightarrow> desk" where
  "tts_ui_controller_notify_state_change old_state new_state additional_info d =
     status (''TTS '' @ state_icon new_state @ '' '' @ state_text new_state @
         (case additional_info of Some i \<Rightarrow> '' - '' @ i | None \<Rightarrow> []))
       (if new_state = TTS_AUDIO_STATE_ERROR then 5000
        else if new_state = TTS_AUDIO_STATE_PLAYING then 1500 else 2000) d"

definition tts_ui_controller_notify_progress_detailed :: "int \<Rightarrow> int \<Rightarrow> int \<Rightarrow> int \<Rightarrow> string option \<Rightarrow> desk \<Rightarrow> desk" where
  "tts_ui_controller_notify_progress_detailed page pages segment segments preview d =
     (let progress = ''TTS: Page '' @ fmt_int (page + 1) @ ''/'' @ fmt_int pages @ '', Segment '' @
            fmt_int (segment + 1) @ ''/'' @ fmt_int segments
      in status (case preview of
           Some p \<Rightarrow>
             if length p > 0 then
               progress @ '' - '' @ in_double_quotes (if length p > 30 then take 27 p @ ''...'' else p)
             else progress
         | None \<Rightarrow> progress) 2000 d)"

definition tts_ui_controller_notify_config_change :: "string option \<Rightarrow> string option \<Rightarrow> string option \<Rightarrow> desk \<Rightarrow> desk" where
  "tts_ui_controller_notify_config_change setting_name old_value new_value d =
     (case setting_name of
        None \<Rightarrow> d
      | Some n \<Rightarrow>
          status (case (old_value, new_value) of
              (Some old, Some new) \<Rightarrow> ''TTS: '' @ n @ '' changed from '' @ old @ '' to '' @ new
            | (None, Some new) \<Rightarrow> ''TTS: '' @ n @ '' set to '' @ new
            | (_, None) \<Rightarrow> ''TTS: '' @ n @ '' updated'') 3000 d)"

definition tts_ui_controller_notify_system_status :: "string option \<Rightarrow> string option \<Rightarrow> bool \<Rightarrow> desk \<Rightarrow> desk" where
  "tts_ui_controller_notify_system_status component st is_error d =
     (let prefix = (if is_error then state_icon TTS_AUDIO_STATE_ERROR @ '' TTS'' else ''TTS'')
      in status (case (component, st) of
           (Some c, Some s) \<Rightarrow> prefix @ '': '' @ c @ '' - '' @ s
         | (None, Some s) \<Rightarrow> prefix @ '': '' @ s
         | (_, None) \<Rightarrow> prefix @ '': System status update'') (if is_error then 5000 else 3000) d)"

text \<open>What is added to the notification of a change of state.\<close>

definition additional_info :: "tts_audio_state \<Rightarrow> tts_audio_state \<Rightarrow> string option" where
  "additional_info old_state new_state =
     (if new_state = TTS_AUDIO_STATE_PLAYING \<and> old_state = TTS_AUDIO_STATE_STOPPED then Some ''Started reading''
      else if new_state = TTS_AUDIO_STATE_PAUSED \<and> old_state = TTS_AUDIO_STATE_PLAYING then Some ''Playback paused''
      else if new_state = TTS_AUDIO_STATE_PLAYING \<and> old_state = TTS_AUDIO_STATE_PAUSED then Some ''Playback resumed''
      else if new_state = TTS_AUDIO_STATE_STOPPED then Some ''Playback stopped''
      else if new_state = TTS_AUDIO_STATE_ERROR then Some ''An error occurred''
      else None)"

definition tts_audio_state_change_callback_enhanced :: "audio_event \<Rightarrow> desk \<Rightarrow> desk" where
  "tts_audio_state_change_callback_enhanced ev d =
     (let d1 = tts_ui_controller_update_visual_state (event_new ev) d;
          d2 = tts_ui_controller_notify_state_change (event_old ev) (event_new ev)
                 (additional_info (event_old ev) (event_new ev)) d1;
          d3 = (if event_new ev = TTS_AUDIO_STATE_PLAYING then tts_ui_controller_show_document_progress ev d2 else d2)
      in upd_ui (\<lambda>c. c\<lparr>tts_active := is_active_state (event_new ev)\<rparr>) d3)"

fun severity_timeout :: "tts_error_severity \<Rightarrow> int" where
  "severity_timeout TTS_ERROR_SEVERITY_INFO = 2000"
| "severity_timeout TTS_ERROR_SEVERITY_WARNING = 4000"
| "severity_timeout TTS_ERROR_SEVERITY_ERROR = 5000"
| "severity_timeout TTS_ERROR_SEVERITY_CRITICAL = 8000"

definition tts_ui_error_callback :: "tts_error_context option \<Rightarrow> desk \<Rightarrow> desk" where
  "tts_ui_error_callback error_context d =
     (case error_context of
        None \<Rightarrow> d
      | Some c \<Rightarrow>
          status (tts_error_get_user_message (ec_error_code c) (ec_details c)) (severity_timeout (ec_severity c)) d)"

end
