(* ===== verification/Ui_Handlers.thy ===== *)
theory Ui_Handlers
  imports Ui_Controller
begin

text \<open>
  The handlers of \<^verbatim>\<open>tts-ui-controller.c\<close>: the shortcut functions and the commands, which call the audio
  controller, and through it, for every change of the playback state, the callback that the controller
  registered. An operation of the audio controller and the callbacks it makes are one step: the audio
  controller records its changes of state in order, and each is handed to the callback. The segments a page
  yields are values here; the list that is handed to the audio controller is allocated in its memory.
\<close>

subsection \<open>The callbacks\<close>

definition visual_feedback_callback :: nat where
  "visual_feedback_callback = 1"

definition notifications_callback :: nat where
  "notifications_callback = 2"

definition error_callback :: nat where
  "error_callback = 3"

text \<open>The pointer to the controller, as the user data of the callbacks.\<close>

definition controller_pointer :: nat where
  "controller_pointer = 1"

definition set_callback :: "nat \<Rightarrow> desk \<Rightarrow> desk" where
  "set_callback callback d = d\<lparr>desk_audio := tts_audio_controller_set_state_change_callback (Some callback) (desk_audio d)\<rparr>"

definition tts_ui_controller_init_visual_feedback :: "desk \<Rightarrow> bool \<times> desk" where
  "tts_ui_controller_init_visual_feedback d =
     (if desk_audio d = None then (False, d) else (True, set_callback visual_feedback_callback d))"

definition tts_ui_controller_init_error_handling :: "desk \<Rightarrow> bool \<times> desk" where
  "tts_ui_controller_init_error_handling d =
     (True, d\<lparr>desk_errors := tts_error_set_callback (Some error_callback) (Some controller_pointer) (desk_errors d)\<rparr>)"

definition tts_ui_controller_init_notifications :: "desk \<Rightarrow> bool \<times> desk" where
  "tts_ui_controller_init_notifications d =
     (if desk_audio d = None then (False, d)
      else
        let d1 = set_callback notifications_callback d;
            d2 = snd (tts_ui_controller_init_error_handling d1)
        in (True, tts_ui_controller_notify_system_status (Some ''Notifications'') (Some ''Initialized'') False d2))"

definition deliver_event :: "nat option \<Rightarrow> audio_event \<Rightarrow> desk \<Rightarrow> desk" where
  "deliver_event callback ev d =
     (if callback = Some visual_feedback_callback then tts_audio_state_change_callback ev d
      else if callback = Some notifications_callback then tts_audio_state_change_callback_enhanced ev d
      else d)"

definition events_of :: "audio option \<Rightarrow> audio_event list" where
  "events_of a = (case a of None \<Rightarrow> [] | Some s \<Rightarrow> audio_events s)"

definition callback_of :: "audio option \<Rightarrow> nat option" where
  "callback_of a = (case a of None \<Rightarrow> None | Some s \<Rightarrow> state_change_callback (ctl s))"

text \<open>An operation of the audio controller, and the callbacks for the events it adds.\<close>

definition with_audio :: "(audio option \<Rightarrow> 'r \<times> audio option) \<Rightarrow> desk \<Rightarrow> 'r \<times> desk" where
  "with_audio operation d =
     (case operation (desk_audio d) of
        (r, a) \<Rightarrow>
          (r, fold (deliver_event (callback_of a)) (drop (length (events_of (desk_audio d))) (events_of a))
                (d\<lparr>desk_audio := a\<rparr>)))"

subsection \<open>Reading pages\<close>

definition pages_to_read :: nat where
  "pages_to_read = 3"

definition copy_segment :: "tts_text_segment \<Rightarrow> tts_text_segment option" where
  "copy_segment sg =
     (if seg_text sg = None then None
      else tts_text_segment_new (seg_text sg) (seg_bounds sg) (seg_page_number sg) (seg_id sg) (seg_type sg))"

definition page_copies :: "zathura_page option \<Rightarrow> tts_text_segment list" where
  "page_copies page =
     (case page of
        None \<Rightarrow> []
      | Some p \<Rightarrow>
          (case snd (tts_extract_text_segments (Some p)) of
             None \<Rightarrow> []
           | Some sgs \<Rightarrow> if length sgs > 0 then List.map_filter copy_segment sgs else []))"

text \<open>The page numbers are 32 bits wide and unsigned.\<close>

function collect_pages :: "zathura_document \<Rightarrow> nat \<Rightarrow> tts_text_segment list" where
  "collect_pages doc i =
     (let page_num = (doc_current_page doc + i) mod 2 ^ 32
      in if i < pages_to_read \<and> page_num < doc_number_of_pages doc
         then page_copies (doc_get_page doc page_num) @ collect_pages doc (i + 1)
         else [])"
  by auto

termination
  by (relation "measure (\<lambda>(doc, i). pages_to_read - i)") (auto simp: pages_to_read_def)

declare collect_pages.simps [simp del]

subsection \<open>Shortcut functions\<close>

text \<open>The controller is found in a global variable; without it, or without an audio controller, the functions fail.\<close>

definition on_desk :: "(audio \<Rightarrow> desk \<Rightarrow> bool \<times> desk) \<Rightarrow> desk option \<Rightarrow> bool \<times> desk option" where
  "on_desk body controller =
     (case controller of
        None \<Rightarrow> (False, None)
      | Some d \<Rightarrow>
          (case desk_audio d of
             None \<Rightarrow> (False, Some d)
           | Some s \<Rightarrow> (case body s d of (r, d1) \<Rightarrow> (r, Some d1))))"

definition set_active :: "bool \<Rightarrow> desk \<Rightarrow> desk" where
  "set_active active d = upd_ui (\<lambda>c. c\<lparr>tts_active := active\<rparr>) d"

definition stop_reading :: "ui_env \<Rightarrow> desk \<Rightarrow> bool \<times> desk" where
  "stop_reading env d =
     (case with_audio (\<lambda>a. ((), tts_audio_controller_stop_session (env_reap env) a)) d of
        (_, d1) \<Rightarrow> (True, status ''TTS: Stopped'' 2000 (set_active False d1)))"

definition start_reading :: "ui_env \<Rightarrow> tts_text_segment list \<Rightarrow> audio \<Rightarrow> desk \<Rightarrow> bool \<times> desk" where
  "start_reading env sgs s d =
     (case new_list sgs s of
        (l, s1) \<Rightarrow>
          (case with_audio (tts_audio_controller_start_session (env_spawn env) (env_reap env) (Some l)) (d\<lparr>desk_audio := Some s1\<rparr>) of
             (ok, d1) \<Rightarrow>
               if ok then (True, status ''TTS: Started reading'' 2000 (set_active True d1))
               else
                 let d2 = status ''TTS: Failed to start session'' 2000 d1
                 in (False, d2\<lparr>desk_audio := map_option (\<lambda>a. upd_mem (list_free l (mem (world a))) a) (desk_audio d2)\<rparr>)))"

definition toggle_body :: "ui_env \<Rightarrow> audio \<Rightarrow> desk \<Rightarrow> bool \<times> desk" where
  "toggle_body env s d =
     (if tts_audio_controller_get_state (desk_audio d) = TTS_AUDIO_STATE_STOPPED then
        (case document d of
           None \<Rightarrow> (False, status ''TTS: No document loaded'' 2000 d)
         | Some doc \<Rightarrow>
             (case doc_get_page doc (doc_current_page doc) of
                None \<Rightarrow> (False, status ''TTS: Cannot access current page'' 2000 d)
              | Some page \<Rightarrow>
                  let sgs = collect_pages doc 0
                  in if length sgs = 0 then (False, status ''TTS: No readable text found'' 2000 d)
                     else start_reading env sgs s d))
      else stop_reading env d)"

definition sc_tts_toggle :: "ui_env \<Rightarrow> desk option \<Rightarrow> bool \<times> desk option" where
  "sc_tts_toggle env = on_desk (toggle_body env)"

definition pause_resume_body :: "audio \<Rightarrow> desk \<Rightarrow> bool \<times> desk" where
  "pause_resume_body s d =
     (case tts_audio_controller_get_state (desk_audio d) of
        TTS_AUDIO_STATE_PLAYING \<Rightarrow>
          (case with_audio tts_audio_controller_pause_session d of
             (ok, d1) \<Rightarrow>
               if ok then (True, status ''TTS: Paused'' 2000 d1) else (False, status ''TTS: Failed to pause'' 2000 d1))
      | TTS_AUDIO_STATE_PAUSED \<Rightarrow>
          (case with_audio tts_audio_controller_resume_session d of
             (ok, d1) \<Rightarrow>
               if ok then (True, status ''TTS: Resumed'' 2000 d1) else (False, status ''TTS: Failed to resume'' 2000 d1))
      | TTS_AUDIO_STATE_STOPPED \<Rightarrow> (True, status ''TTS: Start TTS first (Ctrl+T)'' 3000 d)
      | TTS_AUDIO_STATE_ERROR \<Rightarrow> (False, status ''TTS: Not active'' 2000 d))"

definition sc_tts_pause_resume :: "ui_env \<Rightarrow> desk option \<Rightarrow> bool \<times> desk option" where
  "sc_tts_pause_resume env = on_desk pause_resume_body"

definition sc_tts_stop :: "ui_env \<Rightarrow> desk option \<Rightarrow> bool \<times> desk option" where
  "sc_tts_stop env = on_desk (\<lambda>s. stop_reading env)"

definition segment_stub :: "string \<Rightarrow> audio \<Rightarrow> desk \<Rightarrow> bool \<times> desk" where
  "segment_stub message s d =
     (if \<not> tts_active (ui d) then (False, status ''TTS: Not active'' 2000 d) else (True, status message 2000 d))"

definition sc_tts_next_segment :: "ui_env \<Rightarrow> desk option \<Rightarrow> bool \<times> desk option" where
  "sc_tts_next_segment env = on_desk (segment_stub ''TTS: Next segment (not implemented)'')"

definition sc_tts_prev_segment :: "ui_env \<Rightarrow> desk option \<Rightarrow> bool \<times> desk option" where
  "sc_tts_prev_segment env = on_desk (segment_stub ''TTS: Previous segment (not implemented)'')"

definition set_speed_and_tell :: "ui_env \<Rightarrow> string \<Rightarrow> string \<Rightarrow> c_float \<Rightarrow> desk \<Rightarrow> bool \<times> desk" where
  "set_speed_and_tell env done failed new_speed d =
     (case with_audio (tts_audio_controller_set_speed new_speed) d of
        (ok, d1) \<Rightarrow>
          if ok then (True, status (done @ fmt_1f (decimal_point env) new_speed @ ''x'') 2000 d1)
          else (False, status failed 2000 d1))"

definition set_volume_and_tell :: "string \<Rightarrow> string \<Rightarrow> int \<Rightarrow> desk \<Rightarrow> bool \<times> desk" where
  "set_volume_and_tell done failed new_volume d =
     (case with_audio (tts_audio_controller_set_volume new_volume) d of
        (ok, d1) \<Rightarrow>
          if ok then (True, status (done @ fmt_int new_volume @ ''%'') 2000 d1)
          else (False, status failed 2000 d1))"

definition tenth :: c_float where
  "tenth = to_float (1 / 10)"

definition speed_up_body :: "ui_env \<Rightarrow> audio \<Rightarrow> desk \<Rightarrow> bool \<times> desk" where
  "speed_up_body env s d =
     (let new_speed = fl_add (tts_audio_controller_get_speed (desk_audio d)) tenth
      in set_speed_and_tell env ''TTS: Speed '' ''TTS: Failed to change speed''
           (if fl_less (Fin 3) new_speed then Fin 3 else new_speed) d)"

definition speed_down_body :: "ui_env \<Rightarrow> audio \<Rightarrow> desk \<Rightarrow> bool \<times> desk" where
  "speed_down_body env s d =
     (let new_speed = fl_add (tts_audio_controller_get_speed (desk_audio d)) (fl_neg tenth)
      in set_speed_and_tell env ''TTS: Speed '' ''TTS: Failed to change speed''
           (if fl_less new_speed (Fin (1 / 2)) then Fin (1 / 2) else new_speed) d)"

definition volume_up_body :: "audio \<Rightarrow> desk \<Rightarrow> bool \<times> desk" where
  "volume_up_body s d =
     (let new_volume = tts_audio_controller_get_volume (desk_audio d) + 10
      in set_volume_and_tell ''TTS: Volume '' ''TTS: Failed to change volume''
           (if new_volume > 100 then 100 else new_volume) d)"

definition volume_down_body :: "audio \<Rightarrow> desk \<Rightarrow> bool \<times> desk" where
  "volume_down_body s d =
     (let new_volume = tts_audio_controller_get_volume (desk_audio d) - 10
      in set_volume_and_tell ''TTS: Volume '' ''TTS: Failed to change volume''
           (if new_volume < 0 then 0 else new_volume) d)"

definition sc_tts_speed_up :: "ui_env \<Rightarrow> desk option \<Rightarrow> bool \<times> desk option" where
  "sc_tts_speed_up env = on_desk (speed_up_body env)"

definition sc_tts_speed_down :: "ui_env \<Rightarrow> desk option \<Rightarrow> bool \<times> desk option" where
  "sc_tts_speed_down env = on_desk (speed_down_body env)"

definition sc_tts_volume_up :: "ui_env \<Rightarrow> desk option \<Rightarrow> bool \<times> desk option" where
  "sc_tts_volume_up env = on_desk volume_up_body"

definition sc_tts_volume_down :: "ui_env \<Rightarrow> desk option \<Rightarrow> bool \<times> desk option" where
  "sc_tts_volume_down env = on_desk volume_down_body"

definition sc_tts_settings :: "ui_env \<Rightarrow> desk option \<Rightarrow> bool \<times> desk option" where
  "sc_tts_settings env controller =
     (case controller of
        None \<Rightarrow> (False, None)
      | Some d \<Rightarrow>
          (True, Some
            (if desk_audio d \<noteq> None then
               status (''TTS: '' @ state_text (tts_audio_controller_get_state (desk_audio d)) @ '' | Speed: '' @
                   fmt_1f (decimal_point env) (tts_audio_controller_get_speed (desk_audio d)) @ ''x | Volume: '' @
                   fmt_int (tts_audio_controller_get_volume (desk_audio d)) @ ''%'') 5000 d
             else status ''TTS: Settings - Audio controller not available'' 3000 d)))"

subsection \<open>Commands\<close>

text \<open>The arguments of a command are a list that may be NULL, of strings that may be NULL.\<close>

type_synonym arguments = "string option list option"

definition no_arguments :: "arguments \<Rightarrow> bool" where
  "no_arguments args \<longleftrightarrow> (case args of None \<Rightarrow> True | Some l \<Rightarrow> length l = 0)"

definition first_argument :: "arguments \<Rightarrow> string option" where
  "first_argument args = hd (the args)"

definition cmd_tts_toggle :: "ui_env \<Rightarrow> arguments \<Rightarrow> desk option \<Rightarrow> bool \<times> desk option" where
  "cmd_tts_toggle env args controller = (if controller = None then (False, None) else sc_tts_toggle env controller)"

definition cmd_tts_stop :: "ui_env \<Rightarrow> arguments \<Rightarrow> desk option \<Rightarrow> bool \<times> desk option" where
  "cmd_tts_stop env args controller = (if controller = None then (False, None) else sc_tts_stop env controller)"

definition cmd_tts_status :: "ui_env \<Rightarrow> arguments \<Rightarrow> desk option \<Rightarrow> bool \<times> desk option" where
  "cmd_tts_status env args controller = (if controller = None then (False, None) else sc_tts_settings env controller)"

definition speed_command_body :: "ui_env \<Rightarrow> arguments \<Rightarrow> audio \<Rightarrow> desk \<Rightarrow> bool \<times> desk" where
  "speed_command_body env args s d =
     (if no_arguments args then
        (True, status (''TTS: Current speed '' @ fmt_1f (decimal_point env) (tts_audio_controller_get_speed (desk_audio d)) @ ''x'') 3000 d)
      else
        (case first_argument args of
           None \<Rightarrow> (False, status ''TTS: Invalid speed argument'' 2000 d)
         | Some speed_str \<Rightarrow>
             let new_speed = double_to_float (g_ascii_strtod speed_str)
             in if fl_less new_speed (Fin (1 / 2)) \<or> fl_less (Fin 3) new_speed
                then (False, status ''TTS: Speed must be between 0.5 and 3.0'' 2000 d)
                else set_speed_and_tell env ''TTS: Speed set to '' ''TTS: Failed to set speed'' new_speed d))"

definition cmd_tts_speed :: "ui_env \<Rightarrow> arguments \<Rightarrow> desk option \<Rightarrow> bool \<times> desk option" where
  "cmd_tts_speed env args = on_desk (speed_command_body env args)"

definition volume_command_body :: "arguments \<Rightarrow> audio \<Rightarrow> desk \<Rightarrow> bool \<times> desk" where
  "volume_command_body args s d =
     (if no_arguments args then
        (True, status (''TTS: Current volume '' @ fmt_int (tts_audio_controller_get_volume (desk_audio d)) @ ''%'') 3000 d)
      else
        (case first_argument args of
           None \<Rightarrow> (False, status ''TTS: Invalid volume argument'' 2000 d)
         | Some volume_str \<Rightarrow>
             let new_volume = c_atoi volume_str
             in if new_volume < 0 \<or> new_volume > 100
                then (False, status ''TTS: Volume must be between 0 and 100'' 2000 d)
                else set_volume_and_tell ''TTS: Volume set to '' ''TTS: Failed to set volume'' new_volume d))"

definition cmd_tts_volume :: "ui_env \<Rightarrow> arguments \<Rightarrow> desk option \<Rightarrow> bool \<times> desk option" where
  "cmd_tts_volume env args = on_desk (volume_command_body args)"

definition voice_command_body :: "arguments \<Rightarrow> desk \<Rightarrow> bool \<times> desk" where
  "voice_command_body args d =
     (if no_arguments args then
        (True, status (''TTS: Available voices: default (use '' @ in_apostrophes ''tts-voice <name>'' @ '' to select)'') 4000 d)
      else
        (case first_argument args of
           None \<Rightarrow> (False, status ''TTS: Invalid voice argument'' 2000 d)
         | Some voice \<Rightarrow>
             (True, status (''TTS: Voice set to '' @ in_apostrophes voice @ '' (restart TTS to apply)'') 3000 d)))"

definition engine_command_body :: "arguments \<Rightarrow> desk \<Rightarrow> bool \<times> desk" where
  "engine_command_body args d =
     (if no_arguments args then
        (True, status ''TTS: Available engines: piper, speech_dispatcher, espeak'' 4000 d)
      else
        (case first_argument args of
           None \<Rightarrow> (False, status ''TTS: Invalid engine argument'' 2000 d)
         | Some name \<Rightarrow>
             if name \<noteq> ''piper'' \<and> name \<noteq> ''speech_dispatcher'' \<and> name \<noteq> ''espeak''
             then (False, status ''TTS: Invalid engine. Use: piper, speech_dispatcher, or espeak'' 3000 d)
             else (True, status (''TTS: Engine set to '' @ in_apostrophes name @ '' (restart TTS to apply)'') 3000 d)))"

text \<open>Commands that need no audio controller.\<close>

definition on_ui :: "(desk \<Rightarrow> bool \<times> desk) \<Rightarrow> desk option \<Rightarrow> bool \<times> desk option" where
  "on_ui body controller =
     (case controller of None \<Rightarrow> (False, None) | Some d \<Rightarrow> (case body d of (r, d1) \<Rightarrow> (r, Some d1)))"

definition cmd_tts_voice :: "ui_env \<Rightarrow> arguments \<Rightarrow> desk option \<Rightarrow> bool \<times> desk option" where
  "cmd_tts_voice env args = on_ui (voice_command_body args)"

definition cmd_tts_engine :: "ui_env \<Rightarrow> arguments \<Rightarrow> desk option \<Rightarrow> bool \<times> desk option" where
  "cmd_tts_engine env args = on_ui (engine_command_body args)"

text \<open>The sub-command gets the second argument as its only one, or none if there is no second one.\<close>

definition second_argument :: "arguments \<Rightarrow> arguments" where
  "second_argument args = (if length (the args) < 2 then None else Some [the args ! 1])"

definition cmd_tts_config :: "ui_env \<Rightarrow> arguments \<Rightarrow> desk option \<Rightarrow> bool \<times> desk option" where
  "cmd_tts_config env args controller =
     (if controller = None then (False, None)
      else if no_arguments args then
        (True, map_option (status (''TTS: Config options: speed, volume, engine, voice. Use '' @
           in_apostrophes ''tts-config <option> <value>'') 5000) controller)
      else
        (case first_argument args of
           None \<Rightarrow> (False, map_option (status ''TTS: Invalid config option'' 2000) controller)
         | Some opt \<Rightarrow>
             if opt = ''speed'' then cmd_tts_speed env (second_argument args) controller
             else if opt = ''volume'' then cmd_tts_volume env (second_argument args) controller
             else if opt = ''engine'' then cmd_tts_engine env (second_argument args) controller
             else if opt = ''voice'' then cmd_tts_voice env (second_argument args) controller
             else (False, map_option (status ''TTS: Unknown config option. Use: speed, volume, engine, voice'' 3000) controller)))"

subsection \<open>What girara calls\<close>

text \<open>The functions bound to the shortcuts and to the commands when they were registered.\<close>

fun shortcut_function :: "tts_shortcut_action \<Rightarrow> ui_env \<Rightarrow> desk option \<Rightarrow> bool \<times> desk option" where
  "shortcut_function TTS_SHORTCUT_TOGGLE = sc_tts_toggle"
| "shortcut_function TTS_SHORTCUT_PAUSE_RESUME = sc_tts_pause_resume"
| "shortcut_function TTS_SHORTCUT_STOP = sc_tts_stop"
| "shortcut_function TTS_SHORTCUT_NEXT_SEGMENT = sc_tts_next_segment"
| "shortcut_function TTS_SHORTCUT_PREV_SEGMENT = sc_tts_prev_segment"
| "shortcut_function TTS_SHORTCUT_SPEED_UP = sc_tts_speed_up"
| "shortcut_function TTS_SHORTCUT_SPEED_DOWN = sc_tts_speed_down"
| "shortcut_function TTS_SHORTCUT_VOLUME_UP = sc_tts_volume_up"
| "shortcut_function TTS_SHORTCUT_VOLUME_DOWN = sc_tts_volume_down"
| "shortcut_function TTS_SHORTCUT_SETTINGS = sc_tts_settings"

definition command_function :: "string \<Rightarrow> (ui_env \<Rightarrow> arguments \<Rightarrow> desk option \<Rightarrow> bool \<times> desk option) option" where
  "command_function =
     map_of (zip command_names
       [cmd_tts_toggle, cmd_tts_stop, cmd_tts_speed, cmd_tts_volume, cmd_tts_voice, cmd_tts_engine, cmd_tts_config, cmd_tts_status])"

end
