(* ===== verification/Ui_Machine.thy ===== *)
theory Ui_Machine
  imports Ui_Handlers Float_Format
begin

text \<open>
  The user interface as a machine: shortcuts, commands, timeouts, reported errors and rounds of the feeder in
  any order. Its invariant covers the pending timeout of the status line, the flag that says whether something
  is being read, the settings, and the agreement of audio controller and engine.
\<close>

subsection \<open>The invariant\<close>

text \<open>At most one timeout is pending: the one whose source the controller knows.\<close>

definition timer_ok :: "desk \<Rightarrow> bool" where
  "timer_ok d \<longleftrightarrow> timers d = (if status_timeout_id (ui d) = 0 then [] else [status_timeout_id (ui d)]) \<and> 0 < next_timer d"

definition speed_ok :: "c_float \<Rightarrow> bool" where
  "speed_ok x \<longleftrightarrow> x = NotANumber \<or> (\<exists>r. x = Fin r \<and> 1 / 2 \<le> r \<and> r \<le> 3)"

definition settings_ok :: "audio \<Rightarrow> bool" where
  "settings_ok s \<longleftrightarrow> speed_ok (speed_multiplier (ctl s)) \<and> is_float (speed_multiplier (ctl s)) \<and>
     0 \<le> volume_level (ctl s) \<and> volume_level (ctl s) \<le> 100"

definition active_ok :: "bool \<Rightarrow> audio \<Rightarrow> bool" where
  "active_ok active s \<longleftrightarrow> active = is_active_state (audio_state (ctl s)) \<and> controller_in_step s \<and> settings_ok s"

definition ui_ok :: "desk \<Rightarrow> bool" where
  "ui_ok d \<longleftrightarrow> timer_ok d \<and> (\<exists>s. desk_audio d = Some s \<and> active_ok (tts_active (ui d)) s)"

subsection \<open>What the status line touches\<close>

text \<open>Functions that only show something.\<close>

definition only_shows :: "(desk \<Rightarrow> desk) \<Rightarrow> bool" where
  "only_shows f \<longleftrightarrow> (\<forall>d. desk_audio (f d) = desk_audio d \<and> document (f d) = document d \<and>
     tts_active (ui (f d)) = tts_active (ui d) \<and> desk_errors (f d) = desk_errors d \<and> (timer_ok d \<longrightarrow> timer_ok (f d)))"

lemma only_shows_id: "only_shows (\<lambda>d. d)"
  by (simp add: only_shows_def)

lemma only_shows_comp: "only_shows f \<Longrightarrow> only_shows g \<Longrightarrow> only_shows (\<lambda>d. f (g d))"
  by (simp add: only_shows_def)

lemma clear_timeout_shows: "only_shows clear_timeout"
  by (auto simp: only_shows_def clear_timeout_def g_source_remove_def timer_ok_def)

lemma clear_timeout_id: "status_timeout_id (ui (clear_timeout d)) = 0"
  by (simp add: clear_timeout_def)

lemma notify_shows: "only_shows (girara_notify m)"
  by (auto simp: only_shows_def girara_notify_def timer_ok_def)

lemma clear_timeout_facts:
  "timer_ok d \<Longrightarrow> timers (clear_timeout d) = []" "next_timer (clear_timeout d) = next_timer d"
  "status_timeout_id (ui (clear_timeout d)) = 0" "show_status (ui (clear_timeout d)) = show_status (ui d)"
  by (auto simp: timer_ok_def clear_timeout_def g_source_remove_def split: if_splits)

lemma show_status_shows: "only_shows (tts_ui_controller_show_status m t)"
proof -
  have "timer_ok (tts_ui_controller_show_status m t d)" if "timer_ok d" for d
    using that clear_timeout_facts(1) [OF that]
    by (cases m)
      (simp_all add: timer_ok_def tts_ui_controller_show_status_def Let_def girara_notify_def g_timeout_add_def clear_timeout_facts)
  then show ?thesis
    using clear_timeout_shows
    by (simp add: only_shows_def tts_ui_controller_show_status_def Let_def girara_notify_def g_timeout_add_def split: option.split)
qed

lemma clear_status_shows: "only_shows tts_ui_controller_clear_status"
proof -
  have "only_shows (upd_ui (\<lambda>c. c\<lparr>status_message := None\<rparr>))" by (simp add: only_shows_def timer_ok_def)
  from only_shows_comp [OF notify_shows only_shows_comp [OF this clear_timeout_shows]]
  show ?thesis by (simp add: tts_ui_controller_clear_status_def [abs_def])
qed

lemma shows_facts:
  assumes "only_shows f"
  shows "desk_audio (f d) = desk_audio d" "document (f d) = document d" "tts_active (ui (f d)) = tts_active (ui d)"
    "desk_errors (f d) = desk_errors d" "timer_ok d \<Longrightarrow> timer_ok (f d)"
  using assms by (simp_all add: only_shows_def)

lemmas status_facts [simp] = shows_facts [OF show_status_shows]

lemma timeout_shows: "timer_ok d \<Longrightarrow> timer_ok (status_timeout_callback i d)"
  "desk_audio (status_timeout_callback i d) = desk_audio d" "tts_active (ui (status_timeout_callback i d)) = tts_active (ui d)"
proof -
  note c = shows_facts [OF clear_status_shows]
  have "status_timeout_id (ui (tts_ui_controller_clear_status d)) = 0" for d
    by (simp add: tts_ui_controller_clear_status_def girara_notify_def clear_timeout_id)
  then show "timer_ok d \<Longrightarrow> timer_ok (status_timeout_callback i d)"
    using c(5) [of d] by (auto simp: status_timeout_callback_def g_source_remove_def timer_ok_def)
  show "desk_audio (status_timeout_callback i d) = desk_audio d" "tts_active (ui (status_timeout_callback i d)) = tts_active (ui d)"
    using c by (simp_all add: status_timeout_callback_def g_source_remove_def)
qed

subsection \<open>Delivery of events\<close>

lemma progress_shows: "only_shows (tts_ui_controller_show_document_progress ev)"
  by (simp add: only_shows_def tts_ui_controller_show_document_progress_def tts_ui_controller_show_enhanced_status_def
      split: option.split)

lemma timer_ok_active [simp]: "timer_ok (d\<lparr>ui := (ui d')\<lparr>tts_active := b\<rparr>\<rparr>) = timer_ok (d\<lparr>ui := ui d'\<rparr>)"
  by (simp add: timer_ok_def)

lemma deliver_event_facts:
  "desk_audio (deliver_event cb ev d) = desk_audio d" "document (deliver_event cb ev d) = document d"
  "timer_ok d \<Longrightarrow> timer_ok (deliver_event cb ev d)"
  "tts_active (ui (deliver_event cb ev d)) =
     (if cb = Some visual_feedback_callback \<or> cb = Some notifications_callback then is_active_state (event_new ev)
      else tts_active (ui d))"
  using shows_facts [OF progress_shows]
  by (simp_all add: deliver_event_def tts_audio_state_change_callback_def tts_audio_state_change_callback_enhanced_def Let_def
      tts_ui_controller_update_visual_state_def tts_ui_controller_notify_state_change_def del: state_icon.simps state_text.simps)

lemma deliver_events_facts:
  "desk_audio (fold (deliver_event cb) evs d) = desk_audio d" "document (fold (deliver_event cb) evs d) = document d"
  "timer_ok d \<Longrightarrow> timer_ok (fold (deliver_event cb) evs d)"
  "tts_active (ui (fold (deliver_event cb) evs d)) =
     (if (cb = Some visual_feedback_callback \<or> cb = Some notifications_callback) \<and> evs \<noteq> []
      then is_active_state (event_new (last evs)) else tts_active (ui d))"
  by (induction evs arbitrary: d) (auto simp: deliver_event_facts)

subsection \<open>The events of the audio controller\<close>

text \<open>What an operation adds to the record of events: the new states, if a callback is set, which it leaves.\<close>

definition tells :: "tts_audio_state list \<Rightarrow> audio \<Rightarrow> audio \<Rightarrow> bool" where
  "tells sts s s' \<longleftrightarrow> state_change_callback (ctl s') = state_change_callback (ctl s) \<and>
     (\<exists>evs. audio_events s' = audio_events s @ evs \<and>
        map event_new evs = (if state_change_callback (ctl s) = None then [] else sts))"

lemma tells_refl: "tells [] s s"
  by (simp add: tells_def)

lemma tells_same: "state_change_callback (ctl s') = state_change_callback (ctl s) \<Longrightarrow> audio_events s' = audio_events s \<Longrightarrow> tells [] s s'"
  by (simp add: tells_def)

lemma tells_trans: "tells sts s s' \<Longrightarrow> tells sts' s' s'' \<Longrightarrow> tells (sts @ sts') s s''"
  by (fastforce simp: tells_def)

lemma tells_set_state: "tells (if valid_transition (audio_state (ctl s)) st then [st] else []) s (snd (set_state_body st s))"
  by (auto simp: tells_def set_state_body_def Let_def)

lemma stop_streaming_quiet: "tells [] s (stop_streaming_session env s)"
  by (rule tells_same) (simp_all add: stop_streaming_session_def split: option.split prod.split)

lemma stop_session_tells:
  "tells (if audio_state (ctl s) = TTS_AUDIO_STATE_STOPPED then [] else [TTS_AUDIO_STATE_STOPPED]) s (stop_session_body env s)"
proof -
  let ?s1 = "upd_ctl (\<lambda>c. c\<lparr>current_page := - 1, current_segment := - 1\<rparr>) s"
  let ?s2 = "stop_streaming_session env ?s1"
  have a: "tells [] s ?s2" using tells_trans [OF tells_same [of ?s1 s] stop_streaming_quiet] by simp
  have "audio_state (ctl ?s2) = audio_state (ctl s)" by (simp add: stop_streaming_fields)
  then have "(if valid_transition (audio_state (ctl ?s2)) TTS_AUDIO_STATE_STOPPED then [TTS_AUDIO_STATE_STOPPED] else []) =
      (if audio_state (ctl s) = TTS_AUDIO_STATE_STOPPED then [] else [TTS_AUDIO_STATE_STOPPED])"
    by (cases "audio_state (ctl s)") (simp_all add: valid_transition_def)
  then show ?thesis
    using tells_trans [OF a tells_set_state [of ?s2 TTS_AUDIO_STATE_STOPPED]] by (simp add: stop_session_body_def Let_def)
qed

lemma before_play_quiet: "audio_state (ctl s) = TTS_AUDIO_STATE_STOPPED \<Longrightarrow> tells [] s (before_play env l s)"
  by (rule tells_same)
    (simp_all add: before_play_def Let_def set_first_position_def split: option.split prod.split list.split)

lemma start_streaming_quiet: "start_streaming_session sp l s = (ok, s') \<Longrightarrow> tells [] s s'"
  by (rule tells_same) (auto simp: start_streaming_session_def Let_def split: option.splits prod.splits if_splits)

lemma start_session_tells:
  assumes "controller_in_step s" "audio_state (ctl s) = TTS_AUDIO_STATE_STOPPED"
    "start_session_body sp env (Some l) s = (ok, s')"
  shows "tells (if ok then [TTS_AUDIO_STATE_PLAYING] else [TTS_AUDIO_STATE_PLAYING, TTS_AUDIO_STATE_ERROR]) s s'"
proof -
  let ?b = "before_play env l s"
  note b = before_play_in_step [OF assms(1), of env l]
  obtain s5 where s5: "set_state_body TTS_AUDIO_STATE_PLAYING ?b = (True, s5)"
    using set_state_fields(1) [of TTS_AUDIO_STATE_PLAYING ?b] b(1)
    by (cases "set_state_body TTS_AUDIO_STATE_PLAYING ?b") (simp add: valid_transition_def)
  have t5: "tells [TTS_AUDIO_STATE_PLAYING] s s5"
    using tells_trans [OF before_play_quiet [OF assms(2)] tells_set_state [of ?b TTS_AUDIO_STATE_PLAYING]] b(1) s5
    by (simp add: valid_transition_def)
  have c5: "audio_state (ctl s5) = TTS_AUDIO_STATE_PLAYING"
    using set_state_fields(2) [of TTS_AUDIO_STATE_PLAYING ?b] b(1) s5 by (simp add: valid_transition_def)
  obtain r s6 where s6: "start_streaming_session sp l s5 = (r, s6)" by force
  have t6: "tells [TTS_AUDIO_STATE_PLAYING] s s6" using tells_trans [OF t5 start_streaming_quiet [OF s6]] by simp
  have "audio_state (ctl s6) = audio_state (ctl s5)"
    using s6 by (auto simp: start_streaming_session_def Let_def split: option.splits prod.splits if_splits)
  then have "tells [TTS_AUDIO_STATE_PLAYING, TTS_AUDIO_STATE_ERROR] s (snd (set_state_body TTS_AUDIO_STATE_ERROR s6))"
    using tells_trans [OF t6 tells_set_state [of s6 TTS_AUDIO_STATE_ERROR]] c5 by (simp add: valid_transition_def)
  then show ?thesis
    using assms(3) t6 by (auto simp: start_session_before_play s5 s6 split: if_splits)
qed

lemma pause_tells:
  "audio_state (ctl s) = TTS_AUDIO_STATE_PLAYING \<Longrightarrow> pause_session_body s = (ok, s') \<Longrightarrow>
   tells (if ok then [TTS_AUDIO_STATE_PAUSED] else []) s s' \<and>
   audio_state (ctl s') = (if ok then TTS_AUDIO_STATE_PAUSED else TTS_AUDIO_STATE_PLAYING)"
  by (auto simp: pause_session_body_def Let_def set_state_body_def valid_transition_def tells_def
      split: option.splits prod.splits if_splits)

lemma resume_tells:
  "audio_state (ctl s) = TTS_AUDIO_STATE_PAUSED \<Longrightarrow> resume_session_body s = (ok, s') \<Longrightarrow>
   tells (if ok then [TTS_AUDIO_STATE_PLAYING] else []) s s' \<and>
   audio_state (ctl s') = (if ok then TTS_AUDIO_STATE_PLAYING else TTS_AUDIO_STATE_PAUSED)"
  by (auto simp: resume_session_body_def Let_def set_state_body_def valid_transition_def tells_def
      split: option.splits prod.splits if_splits)

text \<open>An operation that tells its changes of state, seen from the desk.\<close>

lemma with_audio_tells:
  assumes "desk_audio d = Some s" "operation (Some s) = (r, Some s')" "tells sts s s'"
  shows "\<exists>d'. with_audio operation d = (r, d') \<and> desk_audio d' = Some s' \<and> document d' = document d \<and>
    (timer_ok d \<longrightarrow> timer_ok d') \<and>
    (tts_active (ui d') = tts_active (ui d) \<or> (sts \<noteq> [] \<and> tts_active (ui d') = is_active_state (last sts)))"
proof -
  obtain evs where evs: "audio_events s' = audio_events s @ evs"
    "map event_new evs = (if state_change_callback (ctl s) = None then [] else sts)"
    "state_change_callback (ctl s') = state_change_callback (ctl s)"
    using assms(3) by (auto simp: tells_def)
  let ?d = "d\<lparr>desk_audio := Some s'\<rparr>"
  let ?f = "fold (deliver_event (state_change_callback (ctl s'))) evs ?d"
  have w: "with_audio operation d = (r, ?f)"
    using assms(1,2) evs(1) by (simp add: with_audio_def events_of_def callback_of_def)
  note f = deliver_events_facts [where cb = "state_change_callback (ctl s')" and evs = evs and d = ?d]
  have "timer_ok ?d = timer_ok d" by (simp add: timer_ok_def)
  moreover have "sts \<noteq> [] \<and> event_new (last evs) = last sts" if "evs \<noteq> []"
    using that evs(2) by (cases "state_change_callback (ctl s) = None") (simp_all add: last_map [symmetric], auto)
  ultimately show ?thesis using w f by (intro exI [of _ ?f]) auto
qed

subsection \<open>Speeds\<close>

lemma to_float_range:
  assumes "pow2 m \<le> r" "r < pow2 2" "- 126 \<le> m" "m \<le> 2" "lo = of_int l * pow2 (- 22)" "hi = of_int h * pow2 (- 22)"
    "lo \<le> r" "r \<le> hi" "hi \<le> 4"
  shows "\<exists>v. to_float r = Fin v \<and> lo \<le> v \<and> v \<le> hi"
proof -
  have "hi < pow2 (127 + 1)" using assms(9) by (simp add: pow2_def)
  then show ?thesis
    using round_to_range [of m r 2 "- 126" 127 lo l 24 hi h] assms by (auto simp: to_float_def double_to_float_def)
qed

lemma tenth_value: "tenth = Fin (13421773 / 134217728)"
  by code_simp

lemma speed_up_range:
  assumes "1 / 2 \<le> r" "r \<le> 3"
  shows "\<exists>v. fl_add (Fin r) tenth = Fin v \<and> 1 / 2 \<le> v \<and> v \<le> 4"
proof -
  have "\<exists>v. to_float (r + 13421773 / 134217728) = Fin v \<and> 1 / 2 \<le> v \<and> v \<le> 4"
    by (rule to_float_range [where m = "- 1" and l = "2 ^ 21" and h = "2 ^ 24"]) (use assms in \<open>simp_all add: pow2_def\<close>)
  then show ?thesis by (simp add: tenth_value)
qed

lemma speed_down_range:
  assumes "1 / 2 \<le> r" "r \<le> 3"
  shows "\<exists>v. fl_add (Fin r) (fl_neg tenth) = Fin v \<and> v \<le> 3"
proof -
  have "\<exists>v. to_float (r + - (13421773 / 134217728)) = Fin v \<and> 1 / 4 \<le> v \<and> v \<le> 3"
    by (rule to_float_range [where m = "- 2" and l = "2 ^ 20" and h = "3 * 2 ^ 22"]) (use assms in \<open>simp_all add: pow2_def\<close>)
  then show ?thesis by (auto simp: tenth_value)
qed

definition faster :: "c_float \<Rightarrow> c_float" where
  "faster x = (let y = fl_add x tenth in if fl_less (Fin 3) y then Fin 3 else y)"

definition slower :: "c_float \<Rightarrow> c_float" where
  "slower x = (let y = fl_add x (fl_neg tenth) in if fl_less y (Fin (1 / 2)) then Fin (1 / 2) else y)"

lemma speed_ok_moves: "speed_ok x \<Longrightarrow> speed_ok (faster x)" "speed_ok x \<Longrightarrow> speed_ok (slower x)"
proof -
  assume x: "speed_ok x"
  have nan: "speed_ok (faster NotANumber)" "speed_ok (slower NotANumber)"
    by (simp_all add: speed_ok_def faster_def slower_def tenth_value)
  have "speed_ok (faster x) \<and> speed_ok (slower x)"
  proof (cases "x = NotANumber")
    case False
    then obtain r where r: "x = Fin r" "1 / 2 \<le> r" "r \<le> 3" using x by (auto simp: speed_ok_def)
    obtain u where u: "fl_add x tenth = Fin u" "1 / 2 \<le> u" using speed_up_range [OF r(2,3)] r(1) by blast
    obtain v where v: "fl_add x (fl_neg tenth) = Fin v" "v \<le> 3" using speed_down_range [OF r(2,3)] r(1) by blast
    have "speed_ok (faster x)" using u(2) by (simp add: faster_def u(1) speed_ok_def not_less)
    moreover have "speed_ok (slower x)"
    proof (cases "v < 1 / 2")
      case True
      then have "slower x = Fin (1 / 2)" by (simp add: slower_def v(1))
      then show ?thesis by (auto simp: speed_ok_def intro!: exI [of _ "1 / 2"])
    next
      case False
      then have "slower x = Fin v" by (simp add: slower_def v(1))
      then show ?thesis using False v(2) by (simp add: speed_ok_def not_less)
    qed
    ultimately show ?thesis by blast
  qed (use nan in simp)
  then show "speed_ok (faster x)" "speed_ok (slower x)" by simp_all
qed

lemma speed_ok_checked: "\<not> fl_less x (Fin (1 / 2)) \<Longrightarrow> \<not> fl_less (Fin 3) x \<Longrightarrow> speed_ok x"
  by (cases x) (auto simp: speed_ok_def)

lemma is_float_add: "is_float (fl_add x y)"
  by (cases x; cases y) (simp_all add: to_float_def is_float_double_to_float)

lemma is_float_moves: "is_float (faster x)" "is_float (slower x)"
  using is_floatI [of 1 "- 1"] is_float_int [of 3]
  by (simp_all add: faster_def slower_def Let_def is_float_add) (simp_all add: pow2_def)

lemma speed_ok_accepted: "speed_ok x \<Longrightarrow> \<not> (fl_le x (Fin 0) \<or> fl_less (Fin 5) x)"
  by (auto simp: speed_ok_def)

subsection \<open>The handlers keep the invariant\<close>

lemma ui_ok_status [simp]: "ui_ok d \<Longrightarrow> ui_ok (tts_ui_controller_show_status m t d)"
  by (simp add: ui_ok_def)

text \<open>A step: the audio controller does something, its changes of state are told, and the flag is set or not.\<close>

lemma ui_ok_step:
  assumes d: "ui_ok d" "desk_audio d = Some s" and op: "operation (Some s) = (r, Some s')" "tells sts s s'"
    and s': "controller_in_step s'" "settings_ok s'"
  shows "\<exists>d'. with_audio operation d = (r, d') \<and> desk_audio d' = Some s' \<and> document d' = document d \<and> timer_ok d' \<and>
    (is_active_state (audio_state (ctl s')) = is_active_state (audio_state (ctl s)) \<and>
       (sts = [] \<or> last sts = audio_state (ctl s')) \<longrightarrow> ui_ok d') \<and>
    (\<forall>b. b = is_active_state (audio_state (ctl s')) \<longrightarrow> ui_ok (set_active b d'))"
proof -
  obtain d' where d': "with_audio operation d = (r, d')" "desk_audio d' = Some s'" "document d' = document d" "timer_ok d'"
    "tts_active (ui d') = tts_active (ui d) \<or> (sts \<noteq> [] \<and> tts_active (ui d') = is_active_state (last sts))"
    using with_audio_tells [where operation = operation, OF d(2) op] d(1) by (auto simp: ui_ok_def)
  have "tts_active (ui d) = is_active_state (audio_state (ctl s))" using d by (simp add: ui_ok_def active_ok_def)
  then have "ui_ok d'" if "is_active_state (audio_state (ctl s')) = is_active_state (audio_state (ctl s))"
      "sts = [] \<or> last sts = audio_state (ctl s')"
    using that d' s' by (auto simp: ui_ok_def active_ok_def)
  moreover have "ui_ok (set_active b d')" if "b = is_active_state (audio_state (ctl s'))" for b
    using that d'(2,4) s' by (simp add: ui_ok_def active_ok_def set_active_def)
  ultimately show ?thesis using d'(1-4) by blast
qed

lemma ui_ok_step_returns:
  assumes "ui_ok d" "desk_audio d = Some s" "operation (Some s) = (r, Some s')" "tells sts s s'"
    "controller_in_step s'" "settings_ok s'" "with_audio operation d = (r', d')"
  shows "r' = r" "desk_audio d' = Some s'" "document d' = document d" "timer_ok d'"
    "is_active_state (audio_state (ctl s')) = is_active_state (audio_state (ctl s)) \<Longrightarrow>
       sts = [] \<or> last sts = audio_state (ctl s') \<Longrightarrow> ui_ok d'"
    "b = is_active_state (audio_state (ctl s')) \<Longrightarrow> ui_ok (set_active b d')"
  using ui_ok_step [where operation = operation, OF assms(1-6)] assms(7) by auto

lemma ui_ok_audio: "ui_ok d \<Longrightarrow> desk_audio d = Some s \<Longrightarrow> controller_in_step s \<and> settings_ok s"
  by (simp add: ui_ok_def active_ok_def)

lemma settings_ok_stop: "settings_ok s \<Longrightarrow> settings_ok (stop_session_body env s)"
  by (simp add: settings_ok_def stop_session_ctl)

lemma stop_reading_step:
  assumes "ui_ok d" "desk_audio d = Some s"
  shows "\<exists>d'. stop_reading env d = (True, d') \<and> ui_ok d' \<and> desk_audio d' = Some (stop_session_body (env_reap env) s) \<and>
    document d' = document d \<and> \<not> tts_active (ui d')"
proof -
  let ?op = "\<lambda>a. ((), tts_audio_controller_stop_session (env_reap env) a)"
  let ?s = "stop_session_body (env_reap env) s"
  have op: "?op (Some s) = ((), Some ?s)" by (simp add: tts_audio_controller_stop_session_def)
  note a = ui_ok_audio [OF assms]
  have s': "controller_in_step ?s" "settings_ok ?s" using a by (simp_all add: stop_session_in_step settings_ok_stop)
  obtain d' where w: "with_audio ?op d = ((), d')" by (cases "with_audio ?op d") simp
  note x = ui_ok_step_returns [where operation = ?op, OF assms op stop_session_tells s' w]
  have "ui_ok (set_active False d')"
    by (rule x(6)) (simp add: stop_session_ctl is_active_state_def)
  then show ?thesis
    using x(2,3) w by (simp add: stop_reading_def) (simp add: set_active_def)
qed

lemma before_play_settings:
  "audio_state (ctl s) = TTS_AUDIO_STATE_STOPPED \<Longrightarrow> settings_ok (before_play env l s) = settings_ok s"
  by (simp add: settings_ok_def before_play_def Let_def set_first_position_fields split: option.split)

lemma start_session_settings:
  assumes "controller_in_step s" "audio_state (ctl s) = TTS_AUDIO_STATE_STOPPED" "settings_ok s"
    "start_session_body sp env (Some l) s = (ok, s')"
  shows "settings_ok s'" "audio_state (ctl s') = (if ok then TTS_AUDIO_STATE_PLAYING else TTS_AUDIO_STATE_ERROR)"
  using start_session_outcome [OF assms(1,4)] before_play_settings [OF assms(2), of env l] assms(3)
  by (auto simp: settings_ok_def)

lemma ui_ok_memory: "ui_ok d \<Longrightarrow> desk_audio d = Some s \<Longrightarrow> ui_ok (d\<lparr>desk_audio := Some (upd_mem m s)\<rparr>)"
  by (simp add: ui_ok_def active_ok_def timer_ok_def controller_in_step_def settings_ok_def)

lemma start_reading_ok:
  assumes "ui_ok d" "desk_audio d = Some s" "audio_state (ctl s) = TTS_AUDIO_STATE_STOPPED"
  shows "ui_ok (snd (start_reading env sgs s d))"
proof -
  obtain l s1 where n: "new_list sgs s = (l, s1)" by force
  have c: "ctl s1 = ctl s" using new_list_ctl [of sgs s] n by simp
  let ?d = "d\<lparr>desk_audio := Some s1\<rparr>"
  let ?op = "tts_audio_controller_start_session (env_spawn env) (env_reap env) (Some l)"
  have a: "controller_in_step s" "settings_ok s" "controller_in_step s1" "settings_ok s1" "audio_state (ctl s1) = TTS_AUDIO_STATE_STOPPED"
    using ui_ok_audio [OF assms(1,2)] assms(3) c by (simp_all add: controller_in_step_def settings_ok_def)
  have d: "ui_ok ?d" "desk_audio ?d = Some s1"
    using assms a c by (simp_all add: ui_ok_def active_ok_def timer_ok_def)
  obtain ok s' where r: "start_session_body (env_spawn env) (env_reap env) (Some l) s1 = (ok, s')" by force
  note s' = start_session_settings [OF a(3,5,4) r]
  have op: "?op (Some s1) = (ok, Some s')" by (simp add: tts_audio_controller_start_session_def on_controller_def r)
  have i: "controller_in_step s'" using start_session_in_step [OF a(3), of "env_spawn env" "env_reap env" "Some l"] r by simp
  obtain r' d' where w: "with_audio ?op ?d = (r', d')" by force
  note x = ui_ok_step_returns [where operation = ?op, OF d op start_session_tells [OF a(3,5) r] i s'(1) w]
  show ?thesis
  proof (cases ok)
    case True
    have "ui_ok (set_active True d')" by (rule x(6)) (simp add: s' True is_active_state_def)
    then show ?thesis using True x(1) w by (simp add: start_reading_def n)
  next
    case False
    have "ui_ok d'" by (rule x(5)) (simp_all add: s' False a is_active_state_def)
    then show ?thesis using False x(1,2) w by (simp add: start_reading_def n Let_def ui_ok_memory)
  qed
qed

lemma toggle_ok: "ui_ok d \<Longrightarrow> desk_audio d = Some s \<Longrightarrow> ui_ok (snd (toggle_body env s d))"
  using stop_reading_step [of d s env] start_reading_ok [of d s env]
  by (auto simp: toggle_body_def tts_audio_controller_get_state_def Let_def split: option.split)

lemma pause_resume_ok:
  assumes "ui_ok d" "desk_audio d = Some s"
  shows "ui_ok (snd (pause_resume_body s d))"
proof (cases "audio_state (ctl s)")
  case TTS_AUDIO_STATE_PLAYING
  obtain ok s' where p: "pause_session_body s = (ok, s')" by force
  note t = pause_tells [OF TTS_AUDIO_STATE_PLAYING p]
  have op: "tts_audio_controller_pause_session (Some s) = (ok, Some s')"
    by (simp add: tts_audio_controller_pause_session_def on_controller_def p)
  have i: "controller_in_step s'" using pause_in_step [of s] ui_ok_audio [OF assms] p by simp
  have se: "settings_ok s'"
    using ui_ok_audio [OF assms] p
    by (auto simp: settings_ok_def pause_session_body_def Let_def set_state_body_def split: option.splits prod.splits if_splits)
  obtain r d' where w: "with_audio tts_audio_controller_pause_session d = (r, d')" by force
  note x = ui_ok_step_returns [where operation = tts_audio_controller_pause_session, OF assms op conjunct1 [OF t] i se w]
  have "ui_ok d'" by (rule x(5)) (use t TTS_AUDIO_STATE_PLAYING in \<open>auto simp: is_active_state_def\<close>)
  then show ?thesis using w assms(2) TTS_AUDIO_STATE_PLAYING
    by (simp add: pause_resume_body_def tts_audio_controller_get_state_def)
next
  case TTS_AUDIO_STATE_PAUSED
  obtain ok s' where p: "resume_session_body s = (ok, s')" by force
  note t = resume_tells [OF TTS_AUDIO_STATE_PAUSED p]
  have op: "tts_audio_controller_resume_session (Some s) = (ok, Some s')"
    by (simp add: tts_audio_controller_resume_session_def on_controller_def p)
  have i: "controller_in_step s'" using resume_in_step [of s] ui_ok_audio [OF assms] p by simp
  have se: "settings_ok s'"
    using ui_ok_audio [OF assms] p
    by (auto simp: settings_ok_def resume_session_body_def Let_def set_state_body_def split: option.splits prod.splits if_splits)
  obtain r d' where w: "with_audio tts_audio_controller_resume_session d = (r, d')" by force
  note x = ui_ok_step_returns [where operation = tts_audio_controller_resume_session, OF assms op conjunct1 [OF t] i se w]
  have "ui_ok d'" by (rule x(5)) (use t TTS_AUDIO_STATE_PAUSED in \<open>auto simp: is_active_state_def\<close>)
  then show ?thesis using w assms(2) TTS_AUDIO_STATE_PAUSED
    by (simp add: pause_resume_body_def tts_audio_controller_get_state_def)
qed (use assms in \<open>simp_all add: pause_resume_body_def tts_audio_controller_get_state_def\<close>)

text \<open>A change of the settings tells nothing.\<close>

lemma set_speed_effect:
  assumes "desk_audio d = Some s" "speed_ok x"
  shows "set_speed_and_tell env done failed x d =
    (True, status (done @ fmt_1f (decimal_point env) x @ ''x'') 2000
      (d\<lparr>desk_audio := Some (upd_ctl (\<lambda>c. c\<lparr>speed_multiplier := x\<rparr>) s)\<rparr>))"
  using speed_ok_accepted [OF assms(2)]
  by (simp add: set_speed_and_tell_def with_audio_def tts_audio_controller_set_speed_def assms(1) events_of_def callback_of_def)

lemma set_volume_effect:
  assumes "desk_audio d = Some s" "0 \<le> v" "v \<le> 100"
  shows "set_volume_and_tell done failed v d =
    (True, status (done @ fmt_int v @ ''%'') 2000
      (d\<lparr>desk_audio := Some (upd_ctl (\<lambda>c. c\<lparr>volume_level := v\<rparr>) s)\<rparr>))"
  using assms(2,3)
  by (simp add: set_volume_and_tell_def with_audio_def tts_audio_controller_set_volume_def assms(1) events_of_def callback_of_def)

lemma ui_ok_settings:
  assumes "ui_ok d" "desk_audio d = Some s"
  shows "speed_ok x \<Longrightarrow> is_float x \<Longrightarrow> ui_ok (d\<lparr>desk_audio := Some (upd_ctl (\<lambda>c. c\<lparr>speed_multiplier := x\<rparr>) s)\<rparr>)"
    and "0 \<le> v \<Longrightarrow> v \<le> 100 \<Longrightarrow> ui_ok (d\<lparr>desk_audio := Some (upd_ctl (\<lambda>c. c\<lparr>volume_level := v\<rparr>) s)\<rparr>)"
  using assms by (simp_all add: ui_ok_def active_ok_def timer_ok_def controller_in_step_def settings_ok_def)

lemma speed_bodies:
  assumes "desk_audio d = Some s"
  shows "speed_up_body env s d = set_speed_and_tell env ''TTS: Speed '' ''TTS: Failed to change speed'' (faster (speed_multiplier (ctl s))) d"
    and "speed_down_body env s d = set_speed_and_tell env ''TTS: Speed '' ''TTS: Failed to change speed'' (slower (speed_multiplier (ctl s))) d"
  by (simp_all add: speed_up_body_def speed_down_body_def tts_audio_controller_get_speed_def assms faster_def slower_def Let_def)

lemma speed_up_down_ok:
  assumes "ui_ok d" "desk_audio d = Some s"
  shows "ui_ok (snd (speed_up_body env s d))" "ui_ok (snd (speed_down_body env s d))"
proof -
  have "speed_ok (speed_multiplier (ctl s))" using ui_ok_audio [OF assms] by (simp add: settings_ok_def)
  note o = speed_ok_moves [OF this]
  show "ui_ok (snd (speed_up_body env s d))" "ui_ok (snd (speed_down_body env s d))"
    by (simp_all add: speed_bodies [OF assms(2)] set_speed_effect [OF assms(2)] o is_float_moves ui_ok_settings [OF assms])
qed

lemma volume_up_down_ok:
  assumes "ui_ok d" "desk_audio d = Some s"
  shows "ui_ok (snd (volume_up_body s d))" "ui_ok (snd (volume_down_body s d))"
proof -
  have "0 \<le> volume_level (ctl s)" "volume_level (ctl s) \<le> 100" using ui_ok_audio [OF assms] by (simp_all add: settings_ok_def)
  then show "ui_ok (snd (volume_up_body s d))" "ui_ok (snd (volume_down_body s d))"
    by (simp_all add: volume_up_body_def volume_down_body_def tts_audio_controller_get_volume_def assms(2)
        set_volume_effect [OF assms(2)] ui_ok_settings [OF assms] Let_def)
qed

lemma speed_command_ok:
  assumes "ui_ok d" "desk_audio d = Some s"
  shows "ui_ok (snd (speed_command_body env args s d))"
  using assms speed_ok_checked
  by (auto simp: speed_command_body_def set_speed_effect [OF assms(2)] ui_ok_settings [OF assms] is_float_double_to_float Let_def
      split: option.split)

lemma volume_command_ok:
  assumes "ui_ok d" "desk_audio d = Some s"
  shows "ui_ok (snd (volume_command_body args s d))"
  using assms
  by (auto simp: volume_command_body_def set_volume_effect [OF assms(2)] ui_ok_settings [OF assms] Let_def split: option.split)

subsection \<open>The machine\<close>

datatype ui_op =
    U_Shortcut ui_env tts_shortcut_action
  | U_Command ui_env string "string option list option"
  | U_Timeout nat
  | U_Error "tts_error_context option"
  | U_Feed write_env

fun ui_exec :: "ui_op \<Rightarrow> desk \<Rightarrow> desk" where
  "ui_exec (U_Shortcut env action) d = the (snd (shortcut_function action env (Some d)))"
| "ui_exec (U_Command env name args) d =
     (case command_function name of None \<Rightarrow> d | Some f \<Rightarrow> the (snd (f env args (Some d))))"
| "ui_exec (U_Timeout i) d = status_timeout_callback i d"
| "ui_exec (U_Error c) d = tts_ui_error_callback c d"
| "ui_exec (U_Feed env) d = d\<lparr>desk_audio := map_option (feed_body env) (desk_audio d)\<rparr>"

lemma on_desk_ok:
  "ui_ok d \<Longrightarrow> (\<And>s. desk_audio d = Some s \<Longrightarrow> ui_ok (snd (body s d))) \<Longrightarrow> ui_ok (the (snd (on_desk body (Some d))))"
  by (cases "desk_audio d") (auto simp: on_desk_def case_prod_beta)

lemma on_ui_ok: "(ui_ok (snd (body d))) \<Longrightarrow> ui_ok (the (snd (on_ui body (Some d))))"
  by (simp add: on_ui_def case_prod_beta)

lemma settings_ok': "ui_ok d \<Longrightarrow> ui_ok (the (snd (sc_tts_settings env (Some d))))"
  by (simp add: sc_tts_settings_def)

lemma shortcut_ok:
  assumes "ui_ok d"
  shows "ui_ok (the (snd (shortcut_function action env (Some d))))"
proof (cases action)
  case TTS_SHORTCUT_STOP
  then show ?thesis
    using on_desk_ok [OF assms, of "\<lambda>s. stop_reading env"] stop_reading_step [OF assms, of _ env]
    by (simp add: sc_tts_stop_def) (metis snd_conv)
next
  case TTS_SHORTCUT_NEXT_SEGMENT
  then show ?thesis using on_desk_ok [OF assms] assms by (simp add: sc_tts_next_segment_def segment_stub_def)
next
  case TTS_SHORTCUT_PREV_SEGMENT
  then show ?thesis using on_desk_ok [OF assms] assms by (simp add: sc_tts_prev_segment_def segment_stub_def)
qed (use on_desk_ok [OF assms] toggle_ok [OF assms] pause_resume_ok [OF assms] speed_up_down_ok [OF assms]
      volume_up_down_ok [OF assms] settings_ok' [OF assms] in
    \<open>simp_all add: sc_tts_toggle_def sc_tts_pause_resume_def sc_tts_speed_up_def sc_tts_speed_down_def
       sc_tts_volume_up_def sc_tts_volume_down_def\<close>)

lemma plain_command_ok: "ui_ok d \<Longrightarrow> ui_ok (snd (voice_command_body args d))" "ui_ok d \<Longrightarrow> ui_ok (snd (engine_command_body args d))"
  by (simp_all add: voice_command_body_def engine_command_body_def split: option.split)

lemma option_commands_ok:
  assumes "ui_ok d"
  shows "ui_ok (the (snd (cmd_tts_speed env args (Some d))))" "ui_ok (the (snd (cmd_tts_volume env args (Some d))))"
    "ui_ok (the (snd (cmd_tts_voice env args (Some d))))" "ui_ok (the (snd (cmd_tts_engine env args (Some d))))"
  using on_desk_ok [OF assms] speed_command_ok [OF assms] volume_command_ok [OF assms] on_ui_ok plain_command_ok [OF assms]
  by (simp_all add: cmd_tts_speed_def cmd_tts_volume_def cmd_tts_voice_def cmd_tts_engine_def)

lemma command_ok:
  assumes "ui_ok d" "command_function name = Some f"
  shows "ui_ok (the (snd (f env args (Some d))))"
proof -
  have "f \<in> {cmd_tts_toggle, cmd_tts_stop, cmd_tts_speed, cmd_tts_volume, cmd_tts_voice, cmd_tts_engine, cmd_tts_config, cmd_tts_status}"
    using assms(2) by (auto simp: command_function_def command_names_def split: if_splits)
  moreover have "ui_ok (the (snd (cmd_tts_toggle env args (Some d))))" "ui_ok (the (snd (cmd_tts_stop env args (Some d))))"
    "ui_ok (the (snd (cmd_tts_status env args (Some d))))"
    using shortcut_ok [OF assms(1), of TTS_SHORTCUT_TOGGLE env] shortcut_ok [OF assms(1), of TTS_SHORTCUT_STOP env]
      settings_ok' [OF assms(1)]
    by (simp_all add: cmd_tts_toggle_def cmd_tts_stop_def cmd_tts_status_def)
  moreover have "ui_ok (the (snd (cmd_tts_config env args (Some d))))"
    using option_commands_ok [OF assms(1)] assms(1) by (auto simp: cmd_tts_config_def split: option.split)
  ultimately show ?thesis using option_commands_ok [OF assms(1)] by blast
qed

lemma feed_fields:
  "audio_state (ctl (feed_body env s)) = audio_state (ctl s)" "settings_ok (feed_body env s) = settings_ok s"
  by (simp_all add: feed_body_def settings_ok_def split: option.split prod.split)

interpretation ui: op_machine ui_exec ui_ok
proof
  fix d op
  assume d: "ui_ok d"
  show "ui_ok (ui_exec op d)"
  proof (cases op)
    case (U_Command env name args)
    then show ?thesis using d command_ok [OF d, of name _ env args] by (simp split: option.split)
  next
    case (U_Timeout i)
    then show ?thesis using d timeout_shows by (simp add: ui_ok_def)
  next
    case (U_Error c)
    then show ?thesis using d by (simp add: tts_ui_error_callback_def split: option.split)
  next
    case (U_Feed env)
    then show ?thesis
      using d by (auto simp: ui_ok_def active_ok_def timer_ok_def feed_fields feed_in_step)
  qed (use shortcut_ok [OF d] in simp)
qed

text \<open>The desk after the plugin has set up its user interface.\<close>

definition ui_start :: "bool \<Rightarrow> stream_world \<Rightarrow> zathura_document option \<Rightarrow> error_world \<Rightarrow> desk" where
  "ui_start session w doc errors =
     \<lparr>ui = tts_ui_controller_new session, desk_audio = Some (audio_init w), document = doc, desk_errors = errors,
      notices = [], timers = [], next_timer = 1\<rparr>"

definition ui_setup :: "ui_env \<Rightarrow> desk \<Rightarrow> desk" where
  "ui_setup env d =
     (let d1 = snd (tts_ui_controller_register_shortcuts env d);
          d2 = snd (tts_ui_controller_register_commands env d1);
          d3 = snd (tts_ui_controller_init_visual_feedback d2)
      in snd (tts_ui_controller_init_notifications d3))"

lemma ui_ok_start: "ui_ok (ui_start session w doc errors)"
  using audio_init_in_step [of w] is_float_int [of 1]
  by (simp add: ui_ok_def ui_start_def timer_ok_def tts_ui_controller_new_def active_ok_def audio_init_def is_active_state_def
      settings_ok_def speed_ok_def tts_audio_controller_new_def)

lemma register_loop_ok: "ui_ok d \<Longrightarrow> ui_ok (snd (register_loop env ss b d))"
proof (induction ss arbitrary: b d)
  case (Cons s ss)
  have "ui_ok (upd_ui (\<lambda>c. c\<lparr>registered_shortcuts := rs\<rparr>) d)" for rs
    using Cons.prems by (simp add: ui_ok_def timer_ok_def)
  then show ?case using Cons by (simp add: Let_def)
qed simp

lemma ui_ok_setup: "ui_ok d \<Longrightarrow> ui_ok (ui_setup env d)"
proof -
  assume d: "ui_ok d"
  have reg: "ui_ok (upd_ui (\<lambda>c. c\<lparr>shortcuts_registered := True\<rparr>) e)" if "ui_ok e" for e
    using that by (simp add: ui_ok_def timer_ok_def)
  have 1: "ui_ok (snd (tts_ui_controller_register_shortcuts env e))" if e: "ui_ok e" for e
  proof -
    obtain b e1 where l: "register_loop env default_shortcuts True e = (b, e1)" by force
    then have "ui_ok e1" using register_loop_ok [OF e, of env default_shortcuts True] by simp
    then show ?thesis
      using e reg by (simp add: tts_ui_controller_register_shortcuts_def tts_ui_controller_check_shortcut_conflicts_def Let_def l)
  qed
  have 2: "ui_ok (snd (tts_ui_controller_register_commands env e))" if "ui_ok e" for e
    using that by (simp add: tts_ui_controller_register_commands_def Let_def)
  have cb: "ui_ok (set_callback cb e)" if "ui_ok e" for cb e
    using that
    by (auto simp: set_callback_def tts_audio_controller_set_state_change_callback_def ui_ok_def active_ok_def timer_ok_def
        controller_in_step_def settings_ok_def)
  have 3: "ui_ok (snd (tts_ui_controller_init_visual_feedback e))" if "ui_ok e" for e
    using that cb by (simp add: tts_ui_controller_init_visual_feedback_def)
  have er: "ui_ok (e\<lparr>desk_errors := x\<rparr>)" if "ui_ok e" for e x
    using that by (simp add: ui_ok_def timer_ok_def)
  have 4: "ui_ok (snd (tts_ui_controller_init_notifications e))" if "ui_ok e" for e
    using that cb er
    by (simp add: tts_ui_controller_init_notifications_def tts_ui_controller_init_error_handling_def Let_def
        tts_ui_controller_notify_system_status_def)
  show ?thesis using 1 2 3 4 d by (simp add: ui_setup_def Let_def)
qed

subsection \<open>What holds after every session of use\<close>

text \<open>
  C31. The user interface stays consistent: after it has been set up, and after any sequence of shortcuts,
  commands, timeouts, reported errors and rounds of the feeder, the flag that says that something is being
  read agrees with the playback state, the playback state agrees with the streaming engine, at most one
  timeout is pending and it is the one the controller will cancel, the volume is between 0 and 100, and the speed is
  a number that single precision can hold, between 0.5 and 3.0, or not a number.
\<close>

theorem ui_stays_consistent:
  "\<exists>s. desk_audio (fold ui_exec ops (ui_setup env (ui_start session w doc errors))) = Some s \<and>
     tts_active (ui (fold ui_exec ops (ui_setup env (ui_start session w doc errors)))) = is_active_state (audio_state (ctl s)) \<and>
     controller_in_step s \<and> speed_ok (speed_multiplier (ctl s)) \<and> is_float (speed_multiplier (ctl s)) \<and> 0 \<le> volume_level (ctl s) \<and> volume_level (ctl s) \<le> 100 \<and>
     timer_ok (fold ui_exec ops (ui_setup env (ui_start session w doc errors)))"
  using ui.inv_run [OF ui_ok_setup [OF ui_ok_start, of env session w doc errors], of ops]
  unfolding ui.run_def by (auto simp: ui_ok_def active_ok_def settings_ok_def)

end
