(* ===== verification/Ui_Properties.thy ===== *)
theory Ui_Properties
  imports Ui_Machine
begin

text \<open>
  What the handlers of the user interface do: which pages a toggle reads, what a start that fails leaves
  behind, the speeds the commands and shortcuts can set, the registrations, and the commands that are
  shorthands of others.
\<close>

subsection \<open>The pages that are read\<close>

lemma copy_segment_same: "speakable sg \<Longrightarrow> copy_segment sg = Some sg"
  by (auto simp: copy_segment_def speakable_def tts_text_segment_new_Some split: option.splits)

lemma extracted_speakable:
  "tts_extract_text_segments (Some p) = (err, Some sgs) \<Longrightarrow> list_all speakable sgs"
proof -
  have s: "list_all speakable (sentences_to_segments b n i ss)" for b n i ss
    by (induction ss arbitrary: i) (auto simp: tts_text_segment_new_Some speakable_def)
  show "tts_extract_text_segments (Some p) = (err, Some sgs) \<Longrightarrow> list_all speakable sgs"
    using s by (auto simp: tts_extract_text_segments_def split: prod.splits option.splits if_splits)
qed

lemma map_filter_copies: "list_all speakable sgs \<Longrightarrow> List.map_filter copy_segment sgs = sgs"
  by (induction sgs) (simp_all add: copy_segment_same)

definition segments_of_page :: "zathura_page option \<Rightarrow> tts_text_segment list" where
  "segments_of_page page =
     (case page of None \<Rightarrow> [] | Some p \<Rightarrow> (case snd (tts_extract_text_segments (Some p)) of None \<Rightarrow> [] | Some sgs \<Rightarrow> sgs))"

lemma page_copies_all: "page_copies page = segments_of_page page"
proof (cases page)
  case (Some p)
  obtain err r where x: "tts_extract_text_segments (Some p) = (err, r)" by force
  show ?thesis
  proof (cases r)
    case (Some sgs)
    then show ?thesis
      using extracted_speakable [of p err sgs] x map_filter_copies [of sgs] \<open>page = Some p\<close>
      by (simp add: page_copies_def segments_of_page_def)
  qed (simp add: page_copies_def segments_of_page_def \<open>page = Some p\<close> x)
qed (simp add: page_copies_def segments_of_page_def)

lemma collect_pages_upto:
  assumes "doc_current_page doc + 2 < 2 ^ 32" "i \<le> 3"
  shows "collect_pages doc i =
    concat (map (\<lambda>n. segments_of_page (doc_get_page doc n)) [doc_current_page doc + i ..< min (doc_current_page doc + 3) (doc_number_of_pages doc)])"
  using assms(2)
proof (induction "3 - i" arbitrary: i)
  case 0
  then have "i = 3" by simp
  then show ?case by (simp add: collect_pages.simps [of doc 3] pages_to_read_def)
next
  case (Suc k)
  then have i: "i < 3" by simp
  let ?n = "doc_current_page doc + i"
  have m: "?n mod 2 ^ 32 = ?n" using assms(1) i by simp
  have IH: "collect_pages doc (i + 1) =
    concat (map (\<lambda>n. segments_of_page (doc_get_page doc n)) [Suc ?n ..< min (doc_current_page doc + 3) (doc_number_of_pages doc)])"
    using Suc.hyps(1) [of "i + 1"] Suc.hyps(2) i by simp
  show ?case
  proof (cases "?n < doc_number_of_pages doc")
    case True
    then have "[?n ..< min (doc_current_page doc + 3) (doc_number_of_pages doc)] =
        ?n # [Suc ?n ..< min (doc_current_page doc + 3) (doc_number_of_pages doc)]"
      using i by (intro upt_conv_Cons) simp
    then show ?thesis
      using True i m IH by (simp add: collect_pages.simps [of doc i] pages_to_read_def page_copies_all Let_def)
  next
    case False
    then show ?thesis using m by (simp add: collect_pages.simps [of doc i] pages_to_read_def Let_def)
  qed
qed

text \<open>The segments of the current page and of the two after it.\<close>

definition next_three_pages :: "zathura_document \<Rightarrow> tts_text_segment list" where
  "next_three_pages doc =
     concat (map (\<lambda>n. segments_of_page (doc_get_page doc n))
       [doc_current_page doc ..< min (doc_current_page doc + 3) (doc_number_of_pages doc)])"

lemma start_reading_effect:
  assumes d: "ui_ok d" "desk_audio d = Some s" "audio_state (ctl s) = TTS_AUDIO_STATE_STOPPED"
    and a: "audio_ok s" and nb: "list_all not_boundary sgs"
    and r: "start_reading env sgs s d = (ok, d')"
  shows "\<exists>s' l. desk_audio d' = Some s' \<and> text_segments (ctl s') = Some l \<and>
    audio_state (ctl s') = (if ok then TTS_AUDIO_STATE_PLAYING else TTS_AUDIO_STATE_ERROR) \<and>
    (ok \<longrightarrow> audio_ok s' \<and> carries (mem (world s')) l sgs \<and>
       map (segs (mem (world s'))) (queue_of (streaming_engine (ctl s'))) = map Some (filter speakable sgs)) \<and>
    (\<not> ok \<longrightarrow> seg_lists (mem (world s')) l = None)"
proof -
  obtain l s1 where n: "new_list sgs s = (l, s1)" by force
  have c: "ctl s1 = ctl s" using new_list_ctl [of sgs s] n by simp
  let ?d = "d\<lparr>desk_audio := Some s1\<rparr>"
  let ?op = "tts_audio_controller_start_session (env_spawn env) (env_reap env) (Some l)"
  have x: "controller_in_step s1" "audio_state (ctl s1) = TTS_AUDIO_STATE_STOPPED" "settings_ok s1"
    using ui_ok_audio [OF d(1,2)] d(3) c by (simp_all add: controller_in_step_def settings_ok_def)
  have d1: "ui_ok ?d" "desk_audio ?d = Some s1"
    using d x c by (auto simp: ui_ok_def active_ok_def timer_ok_def)
  obtain ok' s' where st: "start_session_body (env_spawn env) (env_reap env) (Some l) s1 = (ok', s')" by force
  have op: "?op (Some s1) = (ok', Some s')" by (simp add: tts_audio_controller_start_session_def on_controller_def st)
  have i: "controller_in_step s'" using start_session_in_step [OF x(1), of "env_spawn env" "env_reap env" "Some l"] st by simp
  obtain r' d2 where w: "with_audio ?op ?d = (r', d2)" by force
  note y = ui_ok_step_returns [where operation = ?op, OF d1 op start_session_tells [OF x(1,2) st] i
      start_session_settings(1) [OF x st] w]
  note z = start_ok [OF a nb n st]
  show ?thesis
  proof (cases ok')
    case True
    then show ?thesis using r y(1,2) w z by (auto simp: start_reading_def n set_active_def)
  next
    case False
    then have "d' = (status ''TTS: Failed to start session'' 2000 d2)\<lparr>desk_audio := Some (upd_mem (list_free l (mem (world s'))) s')\<rparr>"
      "\<not> ok" using r y(1,2) w by (auto simp: start_reading_def n Let_def)
    moreover have "seg_lists (list_free l (mem (world s'))) l = None"
      by (simp add: list_free_def raise_fault_def split: option.split)
    ultimately show ?thesis using z False by simp
  qed
qed

lemma toggle_stopped:
  assumes "desk_audio d = Some s" "audio_state (ctl s) = TTS_AUDIO_STATE_STOPPED" "document d = Some doc"
    "doc_get_page doc (doc_current_page doc) = Some p" "doc_current_page doc + 2 < 2 ^ 32"
  shows "toggle_body env s d =
    (if next_three_pages doc = [] then (False, status ''TTS: No readable text found'' 2000 d)
     else start_reading env (next_three_pages doc) s d)"
proof -
  have "collect_pages doc 0 = next_three_pages doc"
    using collect_pages_upto [OF assms(5), of 0] by (simp add: next_three_pages_def)
  then show ?thesis
    using assms(2,3,4) by (simp add: toggle_body_def tts_audio_controller_get_state_def assms(1) Let_def)
qed

lemma next_three_speakable: "list_all speakable (next_three_pages doc)"
proof -
  have "list_all speakable (segments_of_page page)" for page
    using extracted_speakable [of _ "fst (tts_extract_text_segments (Some (the page)))"]
    by (cases page; cases "tts_extract_text_segments (Some (the page))"; auto simp: segments_of_page_def split: option.split)
  then show ?thesis by (simp add: next_three_pages_def list_all_iff)
qed

text \<open>
  C32. What the toggle shortcut reads: when nothing is playing and the current page is there, it collects the
  segments of the current page and of the next two pages, as far as the document has them, in order and each
  page complete; if there are none it fails and leaves the audio controller alone; otherwise it starts a session,
  and if that succeeds the list of the session and the queue of the engine hold exactly these segments and the
  controller is playing and shown as active. This holds whenever no text is exactly 10000 bytes long.
\<close>

theorem toggle_reads_next_pages:
  assumes "ui_ok d" "desk_audio d = Some s" "audio_ok s" "audio_state (ctl s) = TTS_AUDIO_STATE_STOPPED"
    "document d = Some doc" "doc_get_page doc (doc_current_page doc) = Some p" "doc_current_page doc + 2 < 2 ^ 32"
    "list_all not_boundary (next_three_pages doc)" "sc_tts_toggle env (Some d) = (ok, Some d')"
  shows "if next_three_pages doc = [] then \<not> ok \<and> desk_audio d' = Some s
    else \<exists>s' l. desk_audio d' = Some s' \<and> text_segments (ctl s') = Some l \<and>
      audio_state (ctl s') = (if ok then TTS_AUDIO_STATE_PLAYING else TTS_AUDIO_STATE_ERROR) \<and>
      tts_active (ui d') = ok \<and>
      (if ok then carries (mem (world s')) l (next_three_pages doc) \<and>
         map (segs (mem (world s'))) (queue_of (streaming_engine (ctl s'))) = map Some (next_three_pages doc)
       else seg_lists (mem (world s')) l = None)"
proof (cases "next_three_pages doc = []")
  case True
  then show ?thesis
    using assms(9) toggle_stopped [OF assms(2,4-7), of env]
    by (auto simp: sc_tts_toggle_def on_desk_def assms(2))
next
  case False
  have r: "start_reading env (next_three_pages doc) s d = (ok, d')"
    using assms(9) toggle_stopped [OF assms(2,4-7), of env] False by (auto simp: sc_tts_toggle_def on_desk_def assms(2) split: prod.splits)
  have f: "filter speakable (next_three_pages doc) = next_three_pages doc"
    using next_three_speakable [of doc] by (simp add: list_all_iff)
  note e = start_reading_effect [OF assms(1,2,4,3,8) r]
  have "ui_ok d'" using start_reading_ok [OF assms(1,2,4), of env "next_three_pages doc"] r by simp
  then show ?thesis using e f False by (auto simp: ui_ok_def active_ok_def is_active_state_def)
qed

definition sample_document :: zathura_document where
  "sample_document = \<lparr>doc_current_page = 0, doc_number_of_pages = 1, doc_get_page = (\<lambda>n. if n = 0 then Some sample_page else None)\<rparr>"

definition sample_errors :: error_world where
  "sample_errors = \<lparr>g_error_callback = None, g_error_callback_user_data = None, stderr_lines = [], callback_calls = []\<rparr>"

definition sample_desk :: desk where
  "sample_desk = ui_start True sample_world (Some sample_document) sample_errors"

definition sample_ui_env :: "spawn_env \<Rightarrow> ui_env" where
  "sample_ui_env sp = \<lparr>decimal_point = CHR ''.'', env_spawn = sp, env_reap = sample_reap,
     accepts_shortcut = (\<lambda>action. True), accepts_command = (\<lambda>name. True)\<rparr>"

lemma sample_desk_facts:
  "ui_ok sample_desk" "desk_audio sample_desk = Some (audio_init sample_world)" "audio_ok (audio_init sample_world)"
  "audio_state (ctl (audio_init sample_world)) = TTS_AUDIO_STATE_STOPPED" "document sample_desk = Some sample_document"
  using ui_ok_start audio_init_ok [OF sample_engine_ok(2)]
  by (simp_all add: sample_desk_def ui_start_def audio_init_def tts_audio_controller_new_def)

lemma sample_page_segments:
  "\<exists>sgs. segments_of_page (Some sample_page) = sgs \<and> sgs \<noteq> [] \<and> list_all not_boundary sgs"
proof -
  have "tts_extract_text_segments (Some sample_page) =
      (ZATHURA_ERROR_OK, Some [\<lparr>seg_text = Some ''Stop.'', seg_bounds = get_full_page_rectangle (Some sample_page), seg_page_number = 4,
         seg_id = 0, seg_type = TTS_CONTENT_NORMAL\<rparr>, \<lparr>seg_text = Some ''Go on.'', seg_bounds = get_full_page_rectangle (Some sample_page),
         seg_page_number = 4, seg_id = 1, seg_type = TTS_CONTENT_NORMAL\<rparr>])"
    by code_simp
  then show ?thesis by (simp add: segments_of_page_def not_boundary_def)
qed

lemma sample_next_pages: "next_three_pages sample_document \<noteq> []" "list_all not_boundary (next_three_pages sample_document)"
proof -
  have "next_three_pages sample_document = segments_of_page (Some sample_page)"
    by (simp add: next_three_pages_def sample_document_def)
  then show "next_three_pages sample_document \<noteq> []" "list_all not_boundary (next_three_pages sample_document)"
    using sample_page_segments by auto
qed

lemma toggle_reads_next_pages_witness:
  "\<exists>ok d' s'. sc_tts_toggle (sample_ui_env sample_spawn) (Some sample_desk) = (ok, Some d') \<and> desk_audio d' = Some s' \<and>
     tts_active (ui d') = ok \<and> text_segments (ctl s') \<noteq> None"
proof -
  obtain ok d' where "toggle_body (sample_ui_env sample_spawn) (audio_init sample_world) sample_desk = (ok, d')" by force
  then have t: "sc_tts_toggle (sample_ui_env sample_spawn) (Some sample_desk) = (ok, Some d')"
    by (simp add: sc_tts_toggle_def on_desk_def sample_desk_facts)
  show ?thesis
    using toggle_reads_next_pages [OF sample_desk_facts _ _ sample_next_pages(2) t, of sample_page] sample_next_pages(1) t
    by (auto simp: sample_document_def)
qed

subsection \<open>A start that fails\<close>

lemma free_segments_lists: "seg_lists (free_segments as m) = seg_lists m"
  by (induction as arbitrary: m) (auto simp: tts_text_segment_free_def raise_fault_def split: option.split)

lemma stop_session_lists: "seg_lists (mem (world (stop_session_body env s))) = seg_lists (mem (world s))"
proof (cases "streaming_engine (ctl s)")
  case (Some e)
  obtain ok e' w' where r: "tts_streaming_engine_stop env (e, world s) = (ok, e', w')" by (metis prod.collapse)
  have "seg_lists (mem w') = seg_lists (mem (world s))"
    using stop_mem [of "(e, world s)" env] stop_idle [of "(e, world s)" env] r
    by (cases "stream_state e = TTS_STREAMING_STATE_IDLE") (simp_all add: free_segments_lists)
  then show ?thesis by (simp add: stop_session_world stop_streaming_session_def Some r)
qed (simp add: stop_session_world stop_streaming_session_def)

text \<open>
  A start that fails is followed by a double free: when the toggle shortcut cannot start the engine, it
  frees the list of segments it has handed to the audio controller, which keeps it; freeing the audio controller frees
  the list again.
\<close>

theorem failed_start_freed_twice:
  assumes "ui_ok d" "desk_audio d = Some s" "audio_ok s" "audio_state (ctl s) = TTS_AUDIO_STATE_STOPPED"
    "document d = Some doc" "doc_get_page doc (doc_current_page doc) = Some p" "doc_current_page doc + 2 < 2 ^ 32"
    "list_all not_boundary (next_three_pages doc)" "next_three_pages doc \<noteq> []"
    "sc_tts_toggle env (Some d) = (False, Some d')"
  shows "\<exists>w engine. tts_audio_controller_free reap (desk_audio d') = Some (w, engine) \<and> faults (mem w) \<noteq> []"
proof -
  have r: "start_reading env (next_three_pages doc) s d = (False, d')"
    using assms(10) toggle_stopped [OF assms(2,4-7), of env] assms(9) by (auto simp: sc_tts_toggle_def on_desk_def assms(2) split: prod.splits)
  obtain s' l where s': "desk_audio d' = Some s'" "text_segments (ctl s') = Some l" "seg_lists (mem (world s')) l = None"
    using start_reading_effect [OF assms(1,2,4,3,8) r] by auto
  let ?t = "stop_session_body reap s'"
  have "text_segments (ctl ?t) = Some l" "seg_lists (mem (world ?t)) l = None"
    using s' by (simp_all add: stop_session_ctl stop_session_lists)
  then show ?thesis
    by (simp add: tts_audio_controller_free_def s'(1) Let_def list_free_def raise_fault_def)
qed

lemma no_pipe_no_session:
  assumes "env_pipe sp = None"
  shows "\<not> fst (start_session_body sp env l s)"
proof -
  have "\<not> fst (tts_streaming_engine_start sp st)" for st
    by (cases "tts_streaming_engine_set_state TTS_STREAMING_STATE_STARTING st")
      (simp add: tts_streaming_engine_start_def tts_streaming_engine_spawn_process_def assms split: prod.split)
  then have "\<not> fst (start_streaming_session sp k t)" for k t
    by (simp add: start_streaming_session_def Let_def case_prod_beta)
  then show ?thesis by (cases l) (auto simp: start_session_body_def Let_def case_prod_beta)
qed

lemma failed_start_freed_twice_witness:
  "\<exists>d' w engine. sc_tts_toggle (sample_ui_env (sample_spawn\<lparr>env_pipe := None\<rparr>)) (Some sample_desk) = (False, Some d') \<and>
     tts_audio_controller_free sample_reap (desk_audio d') = Some (w, engine) \<and> faults (mem w) \<noteq> []"
proof -
  let ?env = "sample_ui_env (sample_spawn\<lparr>env_pipe := None\<rparr>)"
  have "\<not> fst (start_reading ?env sgs s d)" for sgs s d
    using no_pipe_no_session [of "sample_spawn\<lparr>env_pipe := None\<rparr>"]
    by (simp add: start_reading_def with_audio_def tts_audio_controller_start_session_def on_controller_def Let_def
        case_prod_beta sample_ui_env_def)
  moreover have "toggle_body ?env (audio_init sample_world) sample_desk =
      start_reading ?env (next_three_pages sample_document) (audio_init sample_world) sample_desk"
    using toggle_stopped [OF sample_desk_facts(2,4,5), of sample_page ?env] sample_next_pages(1)
    by (simp add: sample_document_def)
  ultimately obtain d' where "toggle_body ?env (audio_init sample_world) sample_desk = (False, d')"
    by (metis prod.collapse)
  then have t: "sc_tts_toggle ?env (Some sample_desk) = (False, Some d')"
    by (simp add: sc_tts_toggle_def on_desk_def sample_desk_facts)
  show ?thesis
    using failed_start_freed_twice [OF sample_desk_facts _ _ sample_next_pages(2,1) t, of sample_page sample_reap] t
    by (auto simp: sample_document_def)
qed

subsection \<open>Speeds\<close>

lemma speed_ok_iff: "speed_ok x \<longleftrightarrow> \<not> fl_less x (Fin (1 / 2)) \<and> \<not> fl_less (Fin 3) x"
  using speed_ok_checked by (auto simp: speed_ok_def)

lemma speed_command_effect:
  assumes "desk_audio d = Some s" "x = double_to_float (g_ascii_strtod arg)"
  shows "\<exists>d'. cmd_tts_speed env (Some [Some arg]) (Some d) = (speed_ok x, Some d') \<and>
    desk_audio d' = Some (if speed_ok x then upd_ctl (\<lambda>c. c\<lparr>speed_multiplier := x\<rparr>) s else s)"
proof (cases "speed_ok x")
  case True
  then show ?thesis
    using set_speed_effect [OF assms(1) True, of env "''TTS: Speed set to ''" "''TTS: Failed to set speed''"] speed_ok_iff [of x]
    by (simp add: cmd_tts_speed_def on_desk_def assms(1) speed_command_body_def no_arguments_def first_argument_def assms(2) [symmetric] Let_def)
next
  case False
  then show ?thesis
    using speed_ok_iff [of x]
    by (auto simp: cmd_tts_speed_def on_desk_def assms(1) speed_command_body_def no_arguments_def first_argument_def assms(2) [symmetric] Let_def)
qed

lemma nan_moves: "faster NotANumber = NotANumber" "slower NotANumber = NotANumber"
  by (simp_all add: faster_def slower_def tenth_value)

lemma speed_shortcuts_nan:
  assumes "desk_audio d = Some s" "speed_multiplier (ctl s) = NotANumber"
  shows "\<exists>d2. sc_tts_speed_up env (Some d) = (True, Some d2) \<and> desk_audio d2 = desk_audio d"
    "\<exists>d2. sc_tts_speed_down env (Some d) = (True, Some d2) \<and> desk_audio d2 = desk_audio d"
proof -
  have ok: "speed_ok NotANumber" by (simp add: speed_ok_def)
  have same: "upd_ctl (\<lambda>c. c\<lparr>speed_multiplier := NotANumber\<rparr>) s = s" using assms(2) by (cases s, cases "ctl s") simp
  show "\<exists>d2. sc_tts_speed_up env (Some d) = (True, Some d2) \<and> desk_audio d2 = desk_audio d"
    "\<exists>d2. sc_tts_speed_down env (Some d) = (True, Some d2) \<and> desk_audio d2 = desk_audio d"
    using same
    by (simp_all add: sc_tts_speed_up_def sc_tts_speed_down_def on_desk_def assms speed_bodies [OF assms(1)] nan_moves
        set_speed_effect [OF assms(1) ok])
qed

text \<open>
  The speed command accepts exactly the numbers from 0.5 to 3.0 and what is not a number, and then sets the
  speed to it; everything else is refused and changes nothing. So \<^verbatim>\<open>tts-speed nan\<close> succeeds, and from then on
  the shortcuts that make the speech faster or slower report success and leave the speed as it is.
\<close>

theorem speed_command_accepts_nan:
  assumes "desk_audio d = Some s"
  shows "(\<exists>d'. cmd_tts_speed env (Some [Some arg]) (Some d) = (speed_ok (double_to_float (g_ascii_strtod arg)), Some d') \<and>
        desk_audio d' = Some (if speed_ok (double_to_float (g_ascii_strtod arg))
          then upd_ctl (\<lambda>c. c\<lparr>speed_multiplier := double_to_float (g_ascii_strtod arg)\<rparr>) s else s)) \<and>
    (\<exists>d' d2 d3. cmd_tts_speed env (Some [Some ''nan'']) (Some d) = (True, Some d') \<and>
        tts_audio_controller_get_speed (desk_audio d') = NotANumber \<and>
        sc_tts_speed_up env (Some d') = (True, Some d2) \<and> desk_audio d2 = desk_audio d' \<and>
        sc_tts_speed_down env (Some d') = (True, Some d3) \<and> desk_audio d3 = desk_audio d')"
proof
  show "\<exists>d'. cmd_tts_speed env (Some [Some arg]) (Some d) = (speed_ok (double_to_float (g_ascii_strtod arg)), Some d') \<and>
        desk_audio d' = Some (if speed_ok (double_to_float (g_ascii_strtod arg))
          then upd_ctl (\<lambda>c. c\<lparr>speed_multiplier := double_to_float (g_ascii_strtod arg)\<rparr>) s else s)"
    by (rule speed_command_effect [OF assms refl])
  have "double_to_float (g_ascii_strtod ''nan'') = NotANumber" by code_simp
  then obtain d' where d': "cmd_tts_speed env (Some [Some ''nan'']) (Some d) = (True, Some d')"
      "desk_audio d' = Some (upd_ctl (\<lambda>c. c\<lparr>speed_multiplier := NotANumber\<rparr>) s)"
    using speed_command_effect [OF assms refl, of env "''nan''"] by (auto simp: speed_ok_def)
  then show "\<exists>d' d2 d3. cmd_tts_speed env (Some [Some ''nan'']) (Some d) = (True, Some d') \<and>
        tts_audio_controller_get_speed (desk_audio d') = NotANumber \<and>
        sc_tts_speed_up env (Some d') = (True, Some d2) \<and> desk_audio d2 = desk_audio d' \<and>
        sc_tts_speed_down env (Some d') = (True, Some d3) \<and> desk_audio d3 = desk_audio d'"
    using speed_shortcuts_nan [OF d'(2), of env] by (auto simp: tts_audio_controller_get_speed_def)
qed

lemma speed_command_accepts_nan_witness:
  "\<exists>d'. cmd_tts_speed (sample_ui_env sample_spawn) (Some [Some ''nan'']) (Some sample_desk) = (True, Some d') \<and>
     tts_audio_controller_get_speed (desk_audio d') = NotANumber"
  using speed_command_accepts_nan [OF sample_desk_facts(2), of "sample_ui_env sample_spawn" "''nan''"] by blast

subsection \<open>Registrations and shorthands\<close>

lemma register_loop_effect:
  "register_loop env ss b d =
    (b \<and> list_all (\<lambda>s. accepts_shortcut env (info_action s)) ss,
     upd_ui (\<lambda>c. c\<lparr>registered_shortcuts := registered_shortcuts c @ filter (\<lambda>s. accepts_shortcut env (info_action s)) ss\<rparr>) d)"
proof (induction ss arbitrary: b d)
  case Nil
  then show ?case by (cases d; cases "ui d") simp
next
  case (Cons s ss)
  have "tts_shortcut_info_new (info_modifiers s) (info_key s) (info_sequence s) (info_action s) (info_description s) = s"
    by (cases s) (simp add: tts_shortcut_info_new_def)
  then show ?case using Cons by (simp add: Let_def)
qed

lemma default_actions: "set (map info_action default_shortcuts) = UNIV" "distinct (map info_action default_shortcuts)"
proof -
  have "x \<in> set (map info_action default_shortcuts)" for x
    by (cases x) (simp_all add: default_shortcuts_def shortcut_def)
  then show "set (map info_action default_shortcuts) = UNIV" by blast
  show "distinct (map info_action default_shortcuts)" by (simp add: default_shortcuts_def shortcut_def)
qed

lemma status_registered [simp]:
  "registered_shortcuts (ui (tts_ui_controller_show_status m t d)) = registered_shortcuts (ui d)"
  "shortcuts_registered (ui (tts_ui_controller_show_status m t d)) = shortcuts_registered (ui d)"
  "session_available (ui (tts_ui_controller_show_status m t d)) = session_available (ui d)"
  by (simp_all add: tts_ui_controller_show_status_def Let_def girara_notify_def g_timeout_add_def clear_timeout_def
      g_source_remove_def split: option.split)

text \<open>
  Registration: the table has every action exactly once and no key combination twice; registering the
  shortcuts with a session for the first time registers exactly those that girara accepts and says whether these
  were all; a second registration registers nothing and reports success, also where the first one failed.
\<close>

theorem registration_complete:
  assumes "session_available (ui d)" "\<not> shortcuts_registered (ui d)" "registered_shortcuts (ui d) = []"
  shows "set (map info_action default_shortcuts) = UNIV \<and> distinct (map info_action default_shortcuts) \<and>
    distinct (map (\<lambda>s. (set (info_modifiers s), info_key s)) default_shortcuts) \<and>
    (\<exists>d'. tts_ui_controller_register_shortcuts env d = (list_all (\<lambda>s. accepts_shortcut env (info_action s)) default_shortcuts, d') \<and>
       registered_shortcuts (ui d') = filter (\<lambda>s. accepts_shortcut env (info_action s)) default_shortcuts \<and>
       tts_ui_controller_register_shortcuts env2 d' = (True, d'))"
proof (intro conjI default_actions)
  have "GDK_CONTROL_MASK \<noteq> GDK_SHIFT_MASK" by simp
  then show "distinct (map (\<lambda>s. (set (info_modifiers s), info_key s)) default_shortcuts)"
    by (simp add: default_shortcuts_def shortcut_def insert_eq_iff doubleton_eq_iff) blast?
  show "\<exists>d'. tts_ui_controller_register_shortcuts env d = (list_all (\<lambda>s. accepts_shortcut env (info_action s)) default_shortcuts, d') \<and>
       registered_shortcuts (ui d') = filter (\<lambda>s. accepts_shortcut env (info_action s)) default_shortcuts \<and>
       tts_ui_controller_register_shortcuts env2 d' = (True, d')"
    using assms
    by (auto simp: tts_ui_controller_register_shortcuts_def tts_ui_controller_check_shortcut_conflicts_def register_loop_effect Let_def)
qed

lemma registration_complete_witness:
  "\<exists>d'. tts_ui_controller_register_shortcuts (sample_ui_env sample_spawn) sample_desk = (True, d') \<and>
     registered_shortcuts (ui d') = default_shortcuts"
proof -
  have d: "session_available (ui sample_desk)" "\<not> shortcuts_registered (ui sample_desk)" "registered_shortcuts (ui sample_desk) = []"
    by (simp_all add: sample_desk_def ui_start_def tts_ui_controller_new_def)
  have "filter (\<lambda>s. True) default_shortcuts = default_shortcuts" by simp
  then show ?thesis
    using registration_complete [OF d, of "sample_ui_env sample_spawn"] by (simp add: sample_ui_env_def list_all_iff) blast
qed

text \<open>
  The configuration command is a shorthand: \<^verbatim>\<open>tts-config\<close> with speed, volume, engine or voice and a
  value does what the command of that name does with the value, and without a value what it does without
  arguments; and the commands for toggling, stopping and the status do what the shortcuts do.
\<close>

theorem commands_are_shorthands:
  "cmd_tts_config env (Some [Some ''speed'', v]) c = cmd_tts_speed env (Some [v]) c \<and>
   cmd_tts_config env (Some [Some ''volume'', v]) c = cmd_tts_volume env (Some [v]) c \<and>
   cmd_tts_config env (Some [Some ''engine'', v]) c = cmd_tts_engine env (Some [v]) c \<and>
   cmd_tts_config env (Some [Some ''voice'', v]) c = cmd_tts_voice env (Some [v]) c \<and>
   cmd_tts_config env (Some [Some ''speed'']) c = cmd_tts_speed env None c \<and>
   cmd_tts_config env (Some [Some ''volume'']) c = cmd_tts_volume env None c \<and>
   cmd_tts_config env (Some [Some ''engine'']) c = cmd_tts_engine env None c \<and>
   cmd_tts_config env (Some [Some ''voice'']) c = cmd_tts_voice env None c \<and>
   cmd_tts_toggle env args c = sc_tts_toggle env c \<and> cmd_tts_stop env args c = sc_tts_stop env c \<and>
   cmd_tts_status env args c = sc_tts_settings env c"
  by (cases c)
    (simp_all add: cmd_tts_config_def no_arguments_def first_argument_def second_argument_def cmd_tts_speed_def cmd_tts_volume_def
      cmd_tts_engine_def cmd_tts_voice_def on_desk_def on_ui_def cmd_tts_toggle_def cmd_tts_stop_def cmd_tts_status_def
      sc_tts_toggle_def sc_tts_stop_def sc_tts_settings_def)

end
