(* ===== verification/Tts_Engine.thy ===== *)
theory Tts_Engine
  imports Speech_Engines
begin

text \<open>
  The engine interface of \<^verbatim>\<open>tts-engine.c\<close>: the tables of operations, creating and freeing engines, the
  calls through the tables with their guards, finding out which engines are available, names, voices and
  configurations. The table of an engine stands beside the engine, because it depends on the engine's type
  alone; an entry that is NULL is \<open>None\<close>.
\<close>

subsection \<open>The tables\<close>

record 'd tts_engine_functions =
  fn_init :: "(engine_env \<Rightarrow> tts_engine_config option \<Rightarrow> 'd tts_engine \<Rightarrow> bool \<times> zathura_error \<times> 'd tts_engine) option"
  fn_cleanup :: "(engine_env \<Rightarrow> 'd tts_engine \<Rightarrow> os \<Rightarrow> ('d tts_engine \<times> os) option) option"
  fn_speak :: "(engine_env \<Rightarrow> string \<Rightarrow> 'd tts_engine \<Rightarrow> os \<Rightarrow> 'd engine_result) option"
  fn_pause :: "(engine_env \<Rightarrow> bool \<Rightarrow> 'd tts_engine \<Rightarrow> os \<Rightarrow> 'd engine_result) option"
  fn_stop :: "(engine_env \<Rightarrow> 'd tts_engine \<Rightarrow> os \<Rightarrow> 'd engine_result) option"
  fn_set_config :: "(engine_env \<Rightarrow> tts_engine_config \<Rightarrow> 'd tts_engine \<Rightarrow> os \<Rightarrow> 'd engine_result) option"
  fn_get_state :: "('d tts_engine \<Rightarrow> os \<Rightarrow> tts_engine_state \<times> 'd tts_engine \<times> os) option"
  fn_get_voices :: "(engine_env \<Rightarrow> 'd tts_engine \<Rightarrow> os \<Rightarrow>
    tts_voice_info list option \<times> zathura_error \<times> 'd tts_engine \<times> os) option"

definition piper_functions :: "piper_engine_data tts_engine_functions" where
  "piper_functions = \<lparr>fn_init = Some piper_engine_init, fn_cleanup = Some piper_engine_cleanup,
     fn_speak = Some piper_engine_speak, fn_pause = Some piper_engine_pause, fn_stop = Some piper_engine_stop,
     fn_set_config = Some piper_engine_set_config, fn_get_state = Some piper_engine_get_state,
     fn_get_voices = Some piper_engine_get_voices\<rparr>"

definition speech_dispatcher_functions :: "speech_dispatcher_engine_data tts_engine_functions" where
  "speech_dispatcher_functions = \<lparr>fn_init = Some (\<lambda>env. speech_dispatcher_engine_init),
     fn_cleanup = Some speech_dispatcher_engine_cleanup, fn_speak = Some speech_dispatcher_engine_speak,
     fn_pause = Some speech_dispatcher_engine_pause, fn_stop = Some speech_dispatcher_engine_stop,
     fn_set_config = Some (\<lambda>env. speech_dispatcher_engine_set_config),
     fn_get_state = Some speech_dispatcher_engine_get_state,
     fn_get_voices = Some (\<lambda>env e w. case speech_dispatcher_engine_get_voices e of (vs, err, e') \<Rightarrow> (vs, err, e', w))\<rparr>"

definition espeak_functions :: "espeak_engine_data tts_engine_functions" where
  "espeak_functions = \<lparr>fn_init = Some (\<lambda>env. espeak_engine_init),
     fn_cleanup = Some espeak_engine_cleanup, fn_speak = Some espeak_engine_speak,
     fn_pause = Some espeak_engine_pause, fn_stop = Some espeak_engine_stop,
     fn_set_config = Some (\<lambda>env. espeak_engine_set_config), fn_get_state = Some espeak_engine_get_state,
     fn_get_voices = Some (\<lambda>env e w. case espeak_engine_get_voices e of (vs, err, e') \<Rightarrow> (vs, err, e', w))\<rparr>"

definition no_functions :: "unit tts_engine_functions" where
  "no_functions = \<lparr>fn_init = None, fn_cleanup = None, fn_speak = None, fn_pause = None, fn_stop = None,
     fn_set_config = None, fn_get_state = None, fn_get_voices = None\<rparr>"

subsection \<open>Creating engines\<close>

text \<open>
  \<^verbatim>\<open>command_exists\<close> asks the shell for the command: \<open>which\<close> gives the exit status.
\<close>

definition command_exists :: "(string \<Rightarrow> int) \<Rightarrow> string option \<Rightarrow> bool" where
  "command_exists exit_status command =
     (case command of
        None \<Rightarrow> False
      | Some c \<Rightarrow> exit_status (''which '' @ c @ '' > /dev/null 2>&1'') = 0)"

definition new_engine :: "tts_engine_type \<Rightarrow> string \<Rightarrow> bool \<Rightarrow> 'd tts_engine" where
  "new_engine ty name available =
     \<lparr>engine_type = ty, engine_config = \<lparr>cfg_speed = Fin 1, cfg_volume = 80, cfg_voice_name = None, cfg_pitch = 0\<rparr>,
      engine_state = TTS_ENGINE_STATE_IDLE, engine_data = None, engine_name = name, engine_available = available\<rparr>"

datatype any_engine =
    Piper_Engine "piper_engine_data tts_engine"
  | Speech_Dispatcher_Engine "speech_dispatcher_engine_data tts_engine"
  | Espeak_Engine "espeak_engine_data tts_engine"
  | System_Engine "unit tts_engine"

fun any_available :: "any_engine \<Rightarrow> bool" where
  "any_available (Piper_Engine e) = engine_available e"
| "any_available (Speech_Dispatcher_Engine e) = engine_available e"
| "any_available (Espeak_Engine e) = engine_available e"
| "any_available (System_Engine e) = engine_available e"

definition piper_available :: "engine_env \<Rightarrow> (string \<Rightarrow> int) \<Rightarrow> bool" where
  "piper_available env exit_status =
     (let piper_command_exists = command_exists exit_status (Some ''poetry'') \<or> command_exists exit_status (Some ''piper'')
      in piper_command_exists \<and>
         (if piper_command_exists
          then file_exists env (home_dir env @ ''/.local/share/piper-voices/default.onnx'') \<or>
               file_exists env (current_dir env @ ''/zathura-tts/voices/en_US-lessac-medium.onnx'')
          else False))"

definition tts_engine_new :: "engine_env \<Rightarrow> (string \<Rightarrow> int) \<Rightarrow> tts_engine_type \<Rightarrow> zathura_error \<times> any_engine option" where
  "tts_engine_new env exit_status ty =
     (case ty of
        TTS_ENGINE_NONE \<Rightarrow> (ZATHURA_ERROR_INVALID_ARGUMENTS, None)
      | TTS_ENGINE_PIPER \<Rightarrow>
          (ZATHURA_ERROR_OK, Some (Piper_Engine (new_engine ty ''Piper-TTS'' (piper_available env exit_status))))
      | TTS_ENGINE_SPEECH_DISPATCHER \<Rightarrow>
          (ZATHURA_ERROR_OK, Some (Speech_Dispatcher_Engine (new_engine ty ''Speech Dispatcher''
             (command_exists exit_status (Some ''spd-say'')))))
      | TTS_ENGINE_ESPEAK \<Rightarrow>
          (ZATHURA_ERROR_OK, Some (Espeak_Engine (new_engine ty ''espeak-ng''
             (command_exists exit_status (Some ''espeak-ng'') \<or> command_exists exit_status (Some ''espeak'')))))
      | TTS_ENGINE_SYSTEM \<Rightarrow> (ZATHURA_ERROR_OK, Some (System_Engine (new_engine ty ''System TTS'' False))))"

subsection \<open>Calls through the tables\<close>

text \<open>A call of \<^verbatim>\<open>init\<close> through a NULL entry has no result; so has a call that waits for ever.\<close>

definition tts_engine_init :: "'d tts_engine_functions \<Rightarrow> engine_env \<Rightarrow> 'd tts_engine option \<Rightarrow> tts_engine_config option \<Rightarrow>
  (bool \<times> zathura_error \<times> 'd tts_engine option) option" where
  "tts_engine_init functions env engine config =
     (case engine of
        None \<Rightarrow> Some (False, ZATHURA_ERROR_INVALID_ARGUMENTS, None)
      | Some e \<Rightarrow>
          if \<not> engine_available e then Some (False, ZATHURA_ERROR_UNKNOWN, engine)
          else
            let e1 = (case config of None \<Rightarrow> e | Some c \<Rightarrow> e\<lparr>engine_config := c\<rparr>)
            in map_option (\<lambda>init. case init env (Some (engine_config e1)) e1 of (ok, err, e2) \<Rightarrow> (ok, err, Some e2))
                 (fn_init functions))"

definition tts_engine_cleanup :: "'d tts_engine_functions \<Rightarrow> engine_env \<Rightarrow> 'd tts_engine option \<Rightarrow> os \<Rightarrow>
  ('d tts_engine option \<times> os) option" where
  "tts_engine_cleanup functions env engine w =
     (case (engine, fn_cleanup functions) of
        (Some e, Some cleanup) \<Rightarrow>
          map_option (\<lambda>(e1, w1). (Some (e1\<lparr>engine_state := TTS_ENGINE_STATE_IDLE\<rparr>), w1)) (cleanup env e w)
      | _ \<Rightarrow> Some (engine, w))"

text \<open>Freeing: an engine that is not idle is cleaned up first. What remains of the world is returned.\<close>

definition tts_engine_free :: "'d tts_engine_functions \<Rightarrow> engine_env \<Rightarrow> 'd tts_engine option \<Rightarrow> os \<Rightarrow> os option" where
  "tts_engine_free functions env engine w =
     (case engine of
        None \<Rightarrow> Some w
      | Some e \<Rightarrow>
          if engine_state e \<noteq> TTS_ENGINE_STATE_IDLE
          then map_option snd (tts_engine_cleanup functions env engine w)
          else Some w)"

type_synonym 'd call_result = "(bool \<times> zathura_error \<times> 'd tts_engine option \<times> os) option"

text \<open>The two guards of every call, and the call.\<close>

definition through_table :: "'d tts_engine option \<Rightarrow> os \<Rightarrow> bool \<Rightarrow> ('d tts_engine \<Rightarrow> 'd engine_result) option \<Rightarrow> 'd call_result" where
  "through_table engine w arguments_ok entry =
     (case engine of
        None \<Rightarrow> Some (False, ZATHURA_ERROR_INVALID_ARGUMENTS, None, w)
      | Some e \<Rightarrow>
          if \<not> arguments_ok then Some (False, ZATHURA_ERROR_INVALID_ARGUMENTS, engine, w)
          else (case entry of
                  None \<Rightarrow> Some (False, ZATHURA_ERROR_UNKNOWN, engine, w)
                | Some f \<Rightarrow> map_option (\<lambda>(ok, err, e1, w1). (ok, err, Some e1, w1)) (f e)))"

definition tts_engine_speak :: "'d tts_engine_functions \<Rightarrow> engine_env \<Rightarrow> 'd tts_engine option \<Rightarrow> string option \<Rightarrow> os \<Rightarrow> 'd call_result" where
  "tts_engine_speak functions env engine text w =
     through_table engine w (text \<noteq> None) (map_option (\<lambda>speak e. speak env (the text) e w) (fn_speak functions))"

definition tts_engine_pause :: "'d tts_engine_functions \<Rightarrow> engine_env \<Rightarrow> 'd tts_engine option \<Rightarrow> bool \<Rightarrow> os \<Rightarrow> 'd call_result" where
  "tts_engine_pause functions env engine pause w =
     through_table engine w True (map_option (\<lambda>f e. f env pause e w) (fn_pause functions))"

definition tts_engine_stop :: "'d tts_engine_functions \<Rightarrow> engine_env \<Rightarrow> 'd tts_engine option \<Rightarrow> os \<Rightarrow> 'd call_result" where
  "tts_engine_stop functions env engine w =
     through_table engine w True (map_option (\<lambda>f e. f env e w) (fn_stop functions))"

definition tts_engine_set_config :: "'d tts_engine_functions \<Rightarrow> engine_env \<Rightarrow> 'd tts_engine option \<Rightarrow> tts_engine_config option \<Rightarrow> os \<Rightarrow>
  'd call_result" where
  "tts_engine_set_config functions env engine config w =
     through_table engine w (config \<noteq> None) (map_option (\<lambda>f e. f env (the config) e w) (fn_set_config functions))"

definition tts_engine_get_state :: "'d tts_engine_functions \<Rightarrow> 'd tts_engine option \<Rightarrow> os \<Rightarrow> tts_engine_state \<times> 'd tts_engine option \<times> os" where
  "tts_engine_get_state functions engine w =
     (case engine of
        None \<Rightarrow> (TTS_ENGINE_STATE_ERROR, None, w)
      | Some e \<Rightarrow>
          (case fn_get_state functions of
             None \<Rightarrow> (engine_state e, engine, w)
           | Some f \<Rightarrow> (case f e w of (st, e1, w1) \<Rightarrow> (st, Some e1, w1))))"

definition tts_engine_get_voices :: "'d tts_engine_functions \<Rightarrow> engine_env \<Rightarrow> 'd tts_engine option \<Rightarrow> os \<Rightarrow>
  tts_voice_info list option \<times> zathura_error \<times> 'd tts_engine option \<times> os" where
  "tts_engine_get_voices functions env engine w =
     (case engine of
        None \<Rightarrow> (None, ZATHURA_ERROR_INVALID_ARGUMENTS, None, w)
      | Some e \<Rightarrow>
          (case fn_get_voices functions of
             None \<Rightarrow> (None, ZATHURA_ERROR_UNKNOWN, engine, w)
           | Some f \<Rightarrow> (case f env e w of (voices, err, e1, w1) \<Rightarrow> (voices, err, Some e1, w1))))"

subsection \<open>Which engines there are\<close>

definition engine_order :: "tts_engine_type list" where
  "engine_order = [TTS_ENGINE_PIPER, TTS_ENGINE_SPEECH_DISPATCHER, TTS_ENGINE_ESPEAK, TTS_ENGINE_SYSTEM]"

definition type_available :: "engine_env \<Rightarrow> (string \<Rightarrow> int) \<Rightarrow> tts_engine_type \<Rightarrow> bool" where
  "type_available env exit_status ty =
     (case snd (tts_engine_new env exit_status ty) of None \<Rightarrow> False | Some e \<Rightarrow> any_available e)"

fun detect_loop :: "engine_env \<Rightarrow> (string \<Rightarrow> int) \<Rightarrow> tts_engine_type list \<Rightarrow> tts_engine_type list \<Rightarrow> tts_engine_type list" where
  "detect_loop env exit_status [] found = found"
| "detect_loop env exit_status (ty # tys) found =
     detect_loop env exit_status tys (if type_available env exit_status ty then found @ [ty] else found)"

definition tts_engine_detect_available :: "engine_env \<Rightarrow> (string \<Rightarrow> int) \<Rightarrow> zathura_error \<times> tts_engine_type list" where
  "tts_engine_detect_available env exit_status = (ZATHURA_ERROR_OK, detect_loop env exit_status engine_order [])"

fun preferred_loop :: "engine_env \<Rightarrow> (string \<Rightarrow> int) \<Rightarrow> tts_engine_type list \<Rightarrow> zathura_error \<times> tts_engine_type" where
  "preferred_loop env exit_status [] = (ZATHURA_ERROR_UNKNOWN, TTS_ENGINE_NONE)"
| "preferred_loop env exit_status (ty # tys) =
     (if type_available env exit_status ty then (ZATHURA_ERROR_OK, ty) else preferred_loop env exit_status tys)"

definition tts_engine_get_preferred_type :: "engine_env \<Rightarrow> (string \<Rightarrow> int) \<Rightarrow> zathura_error \<times> tts_engine_type" where
  "tts_engine_get_preferred_type env exit_status = preferred_loop env exit_status engine_order"

fun tts_engine_type_to_string :: "tts_engine_type \<Rightarrow> string" where
  "tts_engine_type_to_string TTS_ENGINE_PIPER = ''Piper-TTS''"
| "tts_engine_type_to_string TTS_ENGINE_SPEECH_DISPATCHER = ''Speech Dispatcher''"
| "tts_engine_type_to_string TTS_ENGINE_ESPEAK = ''espeak-ng''"
| "tts_engine_type_to_string TTS_ENGINE_SYSTEM = ''System TTS''"
| "tts_engine_type_to_string TTS_ENGINE_NONE = ''None''"

definition tts_engine_config_new :: tts_engine_config where
  "tts_engine_config_new = \<lparr>cfg_speed = Fin 1, cfg_volume = 80, cfg_voice_name = None, cfg_pitch = 0\<rparr>"

definition tts_engine_config_copy :: "tts_engine_config option \<Rightarrow> tts_engine_config option" where
  "tts_engine_config_copy config =
     map_option (\<lambda>c. tts_engine_config_new\<lparr>cfg_speed := cfg_speed c, cfg_volume := cfg_volume c,
       cfg_pitch := cfg_pitch c, cfg_voice_name := cfg_voice_name c\<rparr>) config"

end
