(* ===== verification/Engine_Contract.thy ===== *)
theory Engine_Contract
  imports Tts_Engine
begin

text \<open>
  What a speech engine promises through its table, as a contract that the three engines meet: an engine has
  at most one child, it touches no other child, a successful speak leaves exactly the new one, and a stop
  always comes back and leaves none. What follows for every sequence of calls is proved once. Where an engine
  does wait for ever, and what it makes of the text it is given, is proved for each engine.
\<close>

subsection \<open>An engine and its child\<close>

text \<open>
  The engine knows of all its children: none, or the one whose pid it keeps, which it has paused if it is
  stopped. An engine that says it is idle has none.
\<close>

definition owner :: "(int \<Rightarrow> child_state option) \<Rightarrow> 'a process_data_scheme tts_engine \<Rightarrow> os \<Rightarrow> bool" where
  "owner others e w \<longleftrightarrow> (\<exists>d. engine_data e = Some d \<and> tracks others (current_process d) (child_paused d) w \<and>
     (engine_state e = TTS_ENGINE_STATE_IDLE \<longrightarrow> current_process d = 0))"

text \<open>No child, and said to be idle.\<close>

definition engine_silent :: "(int \<Rightarrow> child_state option) \<Rightarrow> 'a process_data_scheme tts_engine \<Rightarrow> os \<Rightarrow> bool" where
  "engine_silent others e w \<longleftrightarrow> engine_state e = TTS_ENGINE_STATE_IDLE \<and> os_ok w \<and> procs w = others \<and>
     (\<exists>d. engine_data e = Some d \<and> current_process d = 0 \<and> \<not> is_speaking d \<and> \<not> child_paused d)"

text \<open>One child of its own, which runs.\<close>

definition engine_speaking :: "(int \<Rightarrow> child_state option) \<Rightarrow> 'a process_data_scheme tts_engine \<Rightarrow> os \<Rightarrow> bool" where
  "engine_speaking others e w \<longleftrightarrow> engine_state e = TTS_ENGINE_STATE_SPEAKING \<and>
     (\<exists>d. engine_data e = Some d \<and> 0 < current_process d \<and> others (current_process d) = None \<and>
        procs w = others(current_process d \<mapsto> Child_Running))"

lemma silent_owner: "engine_silent others e w \<Longrightarrow> owner others e w"
  by (auto simp: engine_silent_def owner_def tracks_idle)

lemma owner_pid: "tracks others pid paused w \<Longrightarrow> 0 \<le> pid"
  by (auto simp: tracks_def split: if_splits)

lemma end_speech_tracks:
  assumes "tracks others (current_process d) (child_paused d) w"
  shows "\<exists>d' w'. end_speech env d w = Some (d', w') \<and> current_process d' = 0 \<and> tracks others 0 p w' \<and>
    spawned_argv w' = spawned_argv w \<and> process_data.more d' = process_data.more d"
proof (cases "current_process d > 0")
  case True
  obtain w' where "force_down (obeys_term env) (current_process d) w = Some (True, w')" "tracks others 0 p w'"
    "spawned_argv w' = spawned_argv w"
    using force_down_child [OF assms True] by blast
  then show ?thesis by (simp add: end_speech_def True)
next
  case False
  then have "current_process d = 0" using owner_pid [OF assms] by simp
  then show ?thesis using assms by (auto simp: end_speech_def tracks_def)
qed

lemma start_speech_owner:
  assumes "current_process d = 0" "tracks others 0 (child_paused d) w" "start_speech env command d e w = Some (ok, err, e', w')"
  shows "owner others e' w'" "ok \<longleftrightarrow> err = ZATHURA_ERROR_OK" "ok \<Longrightarrow> engine_speaking others e' w'"
    "\<not> ok \<Longrightarrow> procs w' = others"
proof -
  obtain child w1 where sp: "spawn_command env command w = (child, w1)" by force
  note t = spawn_tracks [OF assms(2) sp]
  have "owner others e' w' \<and> (ok \<longleftrightarrow> err = ZATHURA_ERROR_OK) \<and> (ok \<longrightarrow> engine_speaking others e' w') \<and>
    (\<not> ok \<longrightarrow> procs w' = others)"
  proof (cases child)
    case None
    then show ?thesis
      using assms t by (auto simp: start_speech_def sp owner_def put_data_def tracks_def)
  next
    case (Some pid)
    have w': "procs w1 = others(pid \<mapsto> Child_Running)" "others pid = None"
      using assms(2) sp t Some
      by (auto simp: spawn_command_def tracks_def split: sum.splits if_splits)
    show ?thesis
      using assms(3) t Some w' by (auto simp: start_speech_def sp owner_def engine_speaking_def put_data_def)
  qed
  then show "owner others e' w'" "ok \<longleftrightarrow> err = ZATHURA_ERROR_OK" "ok \<Longrightarrow> engine_speaking others e' w'"
    "\<not> ok \<Longrightarrow> procs w' = others" by blast+
qed

lemma start_speech_returns: "\<exists>r. start_speech env command d e w = Some r"
  by (auto simp: start_speech_def split: prod.split option.split)

lemma tracks_same_child:
  assumes "tracks others pid paused w" "0 < pid" "procs w = others(pid \<mapsto> s)" "procs w' = others(pid \<mapsto> s')"
    "next_pid w' = next_pid w"
    "case s' of Child_Running \<Rightarrow> \<not> paused' | Child_Stopped pending \<Rightarrow> paused' \<and> \<not> pending | Child_Zombie \<Rightarrow> True"
  shows "tracks others pid paused' w'"
proof -
  have "os_ok w" "others pid = None" using assms(1,2) by (auto simp: tracks_def)
  then show ?thesis
    using os_ok_same_child [OF _ assms(3,4,5)] assms(2,4,6) by (auto simp: tracks_def)
qed

lemma pause_child_owner:
  assumes "owner others e w"
  shows "\<exists>ok err e' w'. pause_child env pause e w = Some (ok, err, e', w') \<and> owner others e' w'"
proof -
  obtain d where d: "engine_data e = Some d" "tracks others (current_process d) (child_paused d) w"
    using assms by (auto simp: owner_def)
  show ?thesis
  proof (cases "current_process d > 0")
    case True
    obtain s where s: "procs w = others(current_process d \<mapsto> s)" "others (current_process d) = None"
      "case s of Child_Running \<Rightarrow> \<not> child_paused d | Child_Stopped pending \<Rightarrow> child_paused d \<and> \<not> pending | Child_Zombie \<Rightarrow> True"
      using tracks_child [OF d(2) True] by blast
    let ?sig = "if pause then Sig_Stop else Sig_Cont"
    obtain w1 where k: "kill_child (obeys_term env) (current_process d) ?sig w = (True, w1)"
      "procs w1 = others(current_process d \<mapsto> deliver (obeys_term env) ?sig s)" "next_pid w1 = next_pid w"
      by (simp add: kill_child_of [OF s(1)])
    have "tracks others (current_process d) pause w1"
      by (rule tracks_same_child [OF d(2) True s(1) k(2,3)]) (use s(3) in \<open>cases s; auto\<close>)
    then show ?thesis using True by (auto simp: pause_child_def with_data_def d(1) k(1) owner_def put_data_def)
  next
    case False
    then show ?thesis using assms d by (auto simp: pause_child_def with_data_def)
  qed
qed

lemma stop_child_silent:
  assumes "owner others e w"
  shows "\<exists>e' w'. stop_child env e w = Some (True, ZATHURA_ERROR_OK, e', w') \<and> engine_silent others e' w'"
proof -
  obtain d where d: "engine_data e = Some d" "tracks others (current_process d) (child_paused d) w"
    using assms by (auto simp: owner_def)
  show ?thesis
  proof (cases "current_process d > 0")
    case True
    obtain w1 where "force_down (obeys_term env) (current_process d) w = Some (True, w1)" "tracks others 0 False w1"
      using force_down_child [OF d(2) True] by blast
    then show ?thesis
      using True by (simp add: stop_child_def with_data_def d(1) Let_def engine_silent_def put_data_def tracks_idle)
  next
    case False
    then have "current_process d = 0" using owner_pid [OF d(2)] by simp
    then show ?thesis
      using d by (simp add: stop_child_def with_data_def Let_def engine_silent_def put_data_def tracks_def)
  qed
qed

lemma poll_engine_owner:
  assumes "owner others e w" "poll_engine e w = (st, e', w')"
  shows "owner others e' w'" "st \<in> {TTS_ENGINE_STATE_IDLE, TTS_ENGINE_STATE_SPEAKING, TTS_ENGINE_STATE_PAUSED}"
    "st = TTS_ENGINE_STATE_IDLE \<longleftrightarrow> procs w' = others"
proof -
  obtain d where d: "engine_data e = Some d" "tracks others (current_process d) (child_paused d) w"
    using assms(1) by (auto simp: owner_def)
  have "owner others e' w' \<and> st \<in> {TTS_ENGINE_STATE_IDLE, TTS_ENGINE_STATE_SPEAKING, TTS_ENGINE_STATE_PAUSED} \<and>
    (st = TTS_ENGINE_STATE_IDLE \<longleftrightarrow> procs w' = others)"
  proof (cases "current_process d > 0")
    case True
    obtain s where s: "procs w = others(current_process d \<mapsto> s)" "others (current_process d) = None" "os_ok w"
      using tracks_child [OF d(2) True] by blast
    have ne: "procs w \<noteq> others" using s by (metis fun_upd_same option.distinct(1))
    show ?thesis
    proof (cases s)
      case Child_Zombie
      have "os_ok (w\<lparr>procs := others\<rparr>)" by (rule os_ok_others [OF s(3,1,2)]) simp_all
      then show ?thesis
        using True assms(2) Child_Zombie
        by (auto simp: poll_engine_def d(1) poll_child_def s(1,2) others_restored owner_def put_data_def tracks_idle)
    qed (use True assms ne in \<open>auto simp: poll_engine_def d(1) poll_child_def s(1) split: if_splits\<close>)
  next
    case False
    then have "current_process d = 0" using owner_pid [OF d(2)] by simp
    then show ?thesis using assms d by (auto simp: poll_engine_def tracks_def)
  qed
  then show "owner others e' w'" "st \<in> {TTS_ENGINE_STATE_IDLE, TTS_ENGINE_STATE_SPEAKING, TTS_ENGINE_STATE_PAUSED}"
    "st = TTS_ENGINE_STATE_IDLE \<longleftrightarrow> procs w' = others" by blast+
qed

subsection \<open>The contract\<close>

datatype engine_op =
    E_Speak engine_env string
  | E_Pause engine_env bool
  | E_Stop engine_env
  | E_Set_Config engine_env tts_engine_config
  | E_Get_State
  | E_Child_Ends

text \<open>The child of an engine comes to its end by itself.\<close>

definition child_ends :: "'a process_data_scheme tts_engine \<Rightarrow> os \<Rightarrow> os" where
  "child_ends e w =
     (case engine_data e of
        None \<Rightarrow> w
      | Some d \<Rightarrow>
          if procs w (current_process d) = Some Child_Running
          then w\<lparr>procs := (procs w)(current_process d \<mapsto> Child_Zombie)\<rparr> else w)"

definition keep_engine :: "'d call_result \<Rightarrow> ('d tts_engine \<times> os) option" where
  "keep_engine r = map_option (\<lambda>(ok, err, engine, w). (the engine, w)) r"

fun engine_exec :: "'a process_data_scheme tts_engine_functions \<Rightarrow> engine_op \<Rightarrow> 'a process_data_scheme tts_engine \<times> os \<Rightarrow>
  ('a process_data_scheme tts_engine \<times> os) option" where
  "engine_exec functions (E_Speak env text) (e, w) = keep_engine (tts_engine_speak functions env (Some e) (Some text) w)"
| "engine_exec functions (E_Pause env pause) (e, w) = keep_engine (tts_engine_pause functions env (Some e) pause w)"
| "engine_exec functions (E_Stop env) (e, w) = keep_engine (tts_engine_stop functions env (Some e) w)"
| "engine_exec functions (E_Set_Config env config) (e, w) = keep_engine (tts_engine_set_config functions env (Some e) (Some config) w)"
| "engine_exec functions E_Get_State (e, w) =
     (case tts_engine_get_state functions (Some e) w of (st, engine, w1) \<Rightarrow> Some (the engine, w1))"
| "engine_exec functions E_Child_Ends (e, w) = Some (e, child_ends e w)"

text \<open>A run has a result if every call returns.\<close>

fun engine_run :: "'a process_data_scheme tts_engine_functions \<Rightarrow> engine_op list \<Rightarrow> 'a process_data_scheme tts_engine \<times> os \<Rightarrow>
  ('a process_data_scheme tts_engine \<times> os) option" where
  "engine_run functions [] s = Some s"
| "engine_run functions (op # ops) s = (case engine_exec functions op s of None \<Rightarrow> None | Some s1 \<Rightarrow> engine_run functions ops s1)"

text \<open>
  What all engines have in common: their own child and nobody else's, also where a stop does not return. \<open>speech_engine\<close> adds
  that it does.
\<close>

locale child_owner_engine =
  fixes vtable :: "'a process_data_scheme tts_engine_functions"
    and speak :: "engine_env \<Rightarrow> string \<Rightarrow> 'a process_data_scheme tts_engine \<Rightarrow> os \<Rightarrow> 'a process_data_scheme engine_result"
    and pause :: "engine_env \<Rightarrow> bool \<Rightarrow> 'a process_data_scheme tts_engine \<Rightarrow> os \<Rightarrow> 'a process_data_scheme engine_result"
    and stop :: "engine_env \<Rightarrow> 'a process_data_scheme tts_engine \<Rightarrow> os \<Rightarrow> 'a process_data_scheme engine_result"
    and set_config :: "engine_env \<Rightarrow> tts_engine_config \<Rightarrow> 'a process_data_scheme tts_engine \<Rightarrow> os \<Rightarrow> 'a process_data_scheme engine_result"
    and get_state :: "'a process_data_scheme tts_engine \<Rightarrow> os \<Rightarrow> tts_engine_state \<times> 'a process_data_scheme tts_engine \<times> os"
  assumes table: "fn_speak vtable = Some speak" "fn_pause vtable = Some pause" "fn_stop vtable = Some stop"
      "fn_set_config vtable = Some set_config" "fn_get_state vtable = Some get_state"
    and speak_owner: "owner others e w \<Longrightarrow> speak env text e w = Some (ok, err, e', w') \<Longrightarrow>
      owner others e' w' \<and> (ok \<longrightarrow> engine_speaking others e' w') \<and> (\<not> ok \<longrightarrow> procs w' = others)"
    and pause_owner: "owner others e w \<Longrightarrow> \<exists>ok err e' w'. pause env p e w = Some (ok, err, e', w') \<and> owner others e' w'"
    and stop_owner: "owner others e w \<Longrightarrow> stop env e w = Some (ok, err, e', w') \<Longrightarrow> ok \<and> engine_silent others e' w'"
    and config_owner: "owner others e w \<Longrightarrow>
      \<exists>e'. set_config env c e w = Some (True, ZATHURA_ERROR_OK, e', w) \<and> owner others e' w"
    and state_owner: "owner others e w \<Longrightarrow> get_state e w = (st, e', w') \<Longrightarrow>
      owner others e' w' \<and> (st = TTS_ENGINE_STATE_IDLE \<longleftrightarrow> procs w' = others)"
begin

lemma child_ends_owner: "owner others e w \<Longrightarrow> owner others e (child_ends e w)"
proof -
  assume "owner others e w"
  then obtain d where d: "engine_data e = Some d" "tracks others (current_process d) (child_paused d) w"
    "engine_state e = TTS_ENGINE_STATE_IDLE \<longrightarrow> current_process d = 0"
    by (auto simp: owner_def)
  show ?thesis
  proof (cases "0 < current_process d \<and> procs w (current_process d) = Some Child_Running")
    case True
    obtain s where s: "procs w = others(current_process d \<mapsto> s)" using tracks_child [OF d(2)] True by blast
    have "tracks others (current_process d) (child_paused d) (child_ends e w)"
      by (rule tracks_same_child [OF d(2) _ s, where s' = Child_Zombie]) (use True d s in \<open>simp_all add: child_ends_def\<close>)
    then show ?thesis using d by (auto simp: owner_def)
  next
    case False
    have "procs w (current_process d) \<noteq> Some Child_Running"
    proof (cases "current_process d = 0")
      case True
      then have "os_ok w" using d(2) by (simp add: tracks_def)
      then show ?thesis using True by (auto simp: os_ok_def)
    next
      case n: False
      then show ?thesis using False owner_pid [OF d(2)] by auto
    qed
    then show ?thesis using \<open>owner others e w\<close> by (simp add: child_ends_def d(1))
  qed
qed

lemma exec_owner: "owner others e w \<Longrightarrow> engine_exec vtable op (e, w) = Some (e', w') \<Longrightarrow> owner others e' w'"
proof (cases op)
  case (E_Speak env t)
  assume o: "owner others e w" and x: "engine_exec vtable op (e, w) = Some (e', w')"
  show ?thesis
    using x speak_owner [OF o] E_Speak
    by (auto simp: keep_engine_def tts_engine_speak_def through_table_def table)
next
  case (E_Pause env p)
  assume o: "owner others e w" and x: "engine_exec vtable op (e, w) = Some (e', w')"
  show ?thesis
    using x pause_owner [OF o, of env p] E_Pause
    by (auto simp: keep_engine_def tts_engine_pause_def through_table_def table)
next
  case (E_Stop env)
  assume o: "owner others e w" and x: "engine_exec vtable op (e, w) = Some (e', w')"
  show ?thesis
    using x stop_owner [OF o, of env] E_Stop silent_owner
    by (fastforce simp: keep_engine_def tts_engine_stop_def through_table_def table)
next
  case (E_Set_Config env c)
  assume o: "owner others e w" and x: "engine_exec vtable op (e, w) = Some (e', w')"
  show ?thesis
    using x config_owner [OF o, of env c] E_Set_Config
    by (auto simp: keep_engine_def tts_engine_set_config_def through_table_def table)
next
  case E_Get_State
  assume o: "owner others e w" and x: "engine_exec vtable op (e, w) = Some (e', w')"
  show ?thesis
    using x state_owner [OF o] E_Get_State by (auto simp: tts_engine_get_state_def table split: prod.splits)
next
  case E_Child_Ends
  assume "owner others e w" "engine_exec vtable op (e, w) = Some (e', w')"
  then show ?thesis using child_ends_owner E_Child_Ends by auto
qed

lemma run_owner: "owner others e w \<Longrightarrow> engine_run vtable ops (e, w) = Some (e', w') \<Longrightarrow> owner others e' w'"
  by (induction ops arbitrary: e w) (auto split: option.splits dest: exec_owner)

lemma speak_after_run:
  assumes "owner others e w" "engine_run vtable ops (e, w) = Some (e1, w1)"
    "tts_engine_speak vtable env (Some e1) (Some text) w1 = Some (ok, err, engine, w')"
  shows "\<exists>e'. engine = Some e' \<and> owner others e' w' \<and> (if ok then engine_speaking others e' w' else procs w' = others)"
  using speak_owner [OF run_owner [OF assms(1,2)]] assms(3)
  by (auto simp: tts_engine_speak_def through_table_def table)

lemma state_after_run:
  "owner others e w \<Longrightarrow> engine_run vtable ops (e, w) = Some (e1, w1) \<Longrightarrow>
   tts_engine_get_state vtable (Some e1) w1 = (st, engine, w2) \<Longrightarrow> st = TTS_ENGINE_STATE_IDLE \<longleftrightarrow> procs w2 = others"
  using state_owner [OF run_owner] by (fastforce simp: tts_engine_get_state_def table split: prod.splits)

lemma stop_call_after_run:
  "owner others e w \<Longrightarrow> engine_run vtable ops (e, w) = Some (e1, w1) \<Longrightarrow>
   tts_engine_stop vtable env (Some e1) w1 = Some (ok, err, Some e2, w2) \<Longrightarrow> ok \<and> engine_silent others e2 w2"
  using stop_owner [OF run_owner] by (fastforce simp: tts_engine_stop_def through_table_def table)

end

locale speech_engine = child_owner_engine +
  assumes stop_silent: "owner others e w \<Longrightarrow>
      \<exists>e' w'. stop env e w = Some (True, ZATHURA_ERROR_OK, e', w') \<and> engine_silent others e' w'"
begin

lemma stop_after_run:
  "owner others e w \<Longrightarrow> engine_run vtable ops (e, w) = Some (e1, w1) \<Longrightarrow>
   \<exists>e' w'. tts_engine_stop vtable env (Some e1) w1 = Some (True, ZATHURA_ERROR_OK, Some e', w') \<and> engine_silent others e' w'"
  using stop_silent [OF run_owner] by (fastforce simp: tts_engine_stop_def through_table_def table)

end

subsection \<open>The three engines meet it\<close>

lemma poll_engine_law:
  "owner others e w \<Longrightarrow> poll_engine e w = (st, e', w') \<Longrightarrow>
   owner others e' w' \<and> (st = TTS_ENGINE_STATE_IDLE \<longleftrightarrow> procs w' = others)"
  using poll_engine_owner by blast

lemma stop_child_owner:
  "owner others e w \<Longrightarrow> stop_child env e w = Some (ok, err, e', w') \<Longrightarrow> ok \<and> engine_silent others e' w'"
  using stop_child_silent [of others e w env] by auto

text \<open>Ending the old speech and starting the new one, as Piper and espeak do it.\<close>

lemma restart_owner:
  assumes "engine_data e = Some d" "tracks others (current_process d) (child_paused d) w"
    "end_speech env d w = Some (d1, w1)" "start_speech env command d1 e w1 = Some (ok, err, e', w')"
  shows "owner others e' w' \<and> (ok \<longrightarrow> engine_speaking others e' w') \<and> (\<not> ok \<longrightarrow> procs w' = others)"
proof -
  have "current_process d1 = 0" "tracks others 0 (child_paused d1) w1"
    using end_speech_tracks [OF assms(2), of env "child_paused d1"] assms(3) by auto
  from start_speech_owner [OF this assms(4)] show ?thesis by blast
qed

lemma give_up_owner:
  assumes "tracks others (current_process d) (child_paused d) w" "end_speech env d w = Some (d1, w1)"
  shows "owner others (put_data d1 e) w1" "procs w1 = others"
  using end_speech_tracks [OF assms(1), of env "child_paused d1"] assms(2)
  by (auto simp: owner_def put_data_def tracks_def)

lemma piper_speak_owner:
  assumes "owner others e w" "piper_engine_speak env t e w = Some (ok, err, e', w')"
  shows "owner others e' w' \<and> (ok \<longrightarrow> engine_speaking others e' w') \<and> (\<not> ok \<longrightarrow> procs w' = others)"
proof -
  obtain d where d: "engine_data e = Some d" "tracks others (current_process d) (child_paused d) w"
    using assms(1) by (auto simp: owner_def)
  obtain d1 w1 where x: "end_speech env d w = Some (d1, w1)" using end_speech_tracks [OF d(2)] by blast
  show ?thesis
    using assms(2) restart_owner [OF d x] give_up_owner [OF d(2) x]
    by (auto simp: piper_engine_speak_def with_data_def d(1) x split: option.splits if_splits)
qed

lemma espeak_speak_owner:
  assumes "owner others e w" "espeak_engine_speak env t e w = Some (ok, err, e', w')"
  shows "owner others e' w' \<and> (ok \<longrightarrow> engine_speaking others e' w') \<and> (\<not> ok \<longrightarrow> procs w' = others)"
proof -
  obtain d where d: "engine_data e = Some d" "tracks others (current_process d) (child_paused d) w"
    using assms(1) by (auto simp: owner_def)
  obtain d1 w1 where x: "end_speech env d w = Some (d1, w1)" using end_speech_tracks [OF d(2)] by blast
  show ?thesis
    using assms(2) restart_owner [OF d x] by (auto simp: espeak_engine_speak_def with_data_def d(1) x)
qed

lemma spd_speak_owner:
  assumes "owner others e w" "speech_dispatcher_engine_speak env t e w = Some (ok, err, e', w')"
  shows "owner others e' w' \<and> (ok \<longrightarrow> engine_speaking others e' w') \<and> (\<not> ok \<longrightarrow> procs w' = others)"
proof -
  obtain d where d: "engine_data e = Some d" "tracks others (current_process d) (child_paused d) w"
    using assms(1) by (auto simp: owner_def)
  let ?d1 = "d\<lparr>current_process := 0\<rparr>"
  obtain w1 where w1: "tracks others 0 (child_paused d) w1"
    "start_speech env (spd_command (spd_voice d) (limited_text t)) ?d1 e w1 = Some (ok, err, e', w')"
  proof (cases "current_process d > 0")
    case True
    then obtain w1 where t: "term_and_wait (obeys_term env) (current_process d) w = Some w1"
        "start_speech env (spd_command (spd_voice d) (limited_text t)) ?d1 e w1 = Some (ok, err, e', w')"
      using assms(2) by (auto simp: speech_dispatcher_engine_speak_def with_data_def d(1) split: option.splits)
    show ?thesis by (rule that [OF _ t(2)]) (use term_and_wait_child(2) [OF d(2) True t(1)] in blast)
  next
    case False
    then have "current_process d = 0" using owner_pid [OF d(2)] by simp
    then have eq: "?d1 = d" by (cases d) simp
    show ?thesis
      using that [of w] d(2) assms(2) False eq \<open>current_process d = 0\<close>
      by (auto simp: speech_dispatcher_engine_speak_def with_data_def d(1))
  qed
  from w1(1) have "tracks others 0 (child_paused ?d1) w1" by simp
  from start_speech_owner [OF _ this w1(2)] show ?thesis by simp
qed

interpretation piper: speech_engine piper_functions piper_engine_speak piper_engine_pause piper_engine_stop
  piper_engine_set_config piper_engine_get_state
proof unfold_locales
  show "\<exists>e'. piper_engine_set_config env c e w = Some (True, ZATHURA_ERROR_OK, e', w) \<and> owner others e' w"
    if "owner others e w" for others e w env c
    using that by (auto simp: piper_engine_set_config_def with_data_def owner_def put_data_def Let_def split: option.split)
qed (simp add: piper_functions_def | erule (1) piper_speak_owner | (unfold piper_engine_pause_def, erule pause_child_owner)
    | (unfold piper_engine_stop_def, erule (1) stop_child_owner) | erule stop_child_silent | (unfold piper_engine_get_state_def, erule (1) poll_engine_law))+

interpretation spd: speech_engine speech_dispatcher_functions speech_dispatcher_engine_speak speech_dispatcher_engine_pause
  speech_dispatcher_engine_stop "\<lambda>env. speech_dispatcher_engine_set_config" speech_dispatcher_engine_get_state
proof unfold_locales
  show "\<exists>e'. speech_dispatcher_engine_set_config c e w = Some (True, ZATHURA_ERROR_OK, e', w) \<and> owner others e' w"
    if "owner others e w" for others e w c
    using that by (auto simp: speech_dispatcher_engine_set_config_def with_data_def owner_def put_data_def)
qed (simp add: speech_dispatcher_functions_def | erule (1) spd_speak_owner | (unfold speech_dispatcher_engine_pause_def, erule pause_child_owner)
    | (unfold speech_dispatcher_engine_stop_def, erule (1) stop_child_owner) | erule stop_child_silent | (unfold speech_dispatcher_engine_get_state_def, erule (1) poll_engine_law))+

interpretation espeak: speech_engine espeak_functions espeak_engine_speak espeak_engine_pause espeak_engine_stop
  "\<lambda>env. espeak_engine_set_config" espeak_engine_get_state
proof unfold_locales
  show "\<exists>e'. espeak_engine_set_config c e w = Some (True, ZATHURA_ERROR_OK, e', w) \<and> owner others e' w"
    if "owner others e w" for others e w c
    using that by (auto simp: espeak_engine_set_config_def with_data_def owner_def put_data_def)
qed (simp add: espeak_functions_def | erule (1) espeak_speak_owner | (unfold espeak_engine_pause_def, erule pause_child_owner)
    | (unfold espeak_engine_stop_def, erule (1) stop_child_owner) | erule stop_child_silent | (unfold espeak_engine_get_state_def, erule (1) poll_engine_law))+

subsection \<open>The contract as a whole\<close>

text \<open>
  What holds after every run that returns, for an engine that starts with no child or one child of its own:
  the children of the others are as they were, a stop succeeds and leaves the engine without a child, a speak
  that succeeds leaves exactly one, which runs, and one that fails leaves none; the reported state is idle
  exactly if there is no child; and freeing the engine, if it returns, leaves no child behind.
\<close>

definition one_child_contract :: "'a process_data_scheme tts_engine_functions \<Rightarrow> bool" where
  "one_child_contract functions \<longleftrightarrow>
     (\<forall>others e w ops e1 w1 env text. owner others e w \<longrightarrow> engine_run functions ops (e, w) = Some (e1, w1) \<longrightarrow>
        owner others e1 w1 \<and>
        (\<exists>e2 w2. tts_engine_stop functions env (Some e1) w1 = Some (True, ZATHURA_ERROR_OK, Some e2, w2) \<and>
           engine_silent others e2 w2) \<and>
        (\<forall>ok err e2 w2. tts_engine_speak functions env (Some e1) (Some text) w1 = Some (ok, err, Some e2, w2) \<longrightarrow>
           (if ok then engine_speaking others e2 w2 else procs w2 = others)) \<and>
        (\<forall>st e2 w2. tts_engine_get_state functions (Some e1) w1 = (st, Some e2, w2) \<longrightarrow>
           (st = TTS_ENGINE_STATE_IDLE \<longleftrightarrow> procs w2 = others)) \<and>
        (\<forall>w2. tts_engine_free functions env (Some e1) w1 = Some w2 \<longrightarrow> procs w2 = others))"

lemma close_child_owner:
  assumes "owner others e w" "close_child env e w = Some (e', w')"
  shows "procs w' = others"
proof -
  obtain d where d: "engine_data e = Some d" "tracks others (current_process d) (child_paused d) w"
    using assms(1) by (auto simp: owner_def)
  show ?thesis
  proof (cases "current_process d > 0")
    case True
    then show ?thesis
      using assms(2) d term_and_wait_child(2) [OF d(2) True, of "obeys_term env" w' False]
      by (auto simp: close_child_def tracks_idle)
  next
    case False
    then show ?thesis using owner_pid [OF d(2)] assms(2) d by (auto simp: close_child_def tracks_def)
  qed
qed

lemma free_owner:
  assumes "fn_cleanup functions = Some close_child" "owner others e w" "tts_engine_free functions env (Some e) w = Some w'"
  shows "procs w' = others"
proof (cases "engine_state e = TTS_ENGINE_STATE_IDLE")
  case True
  then have "w' = w" "procs w = others" using assms(2,3) by (auto simp: tts_engine_free_def owner_def tracks_def)
  then show ?thesis by simp
next
  case False
  then show ?thesis
    using assms(1,3) close_child_owner [OF assms(2)]
    by (auto simp: tts_engine_free_def tts_engine_cleanup_def)
qed

lemma cleanup_entries:
  "fn_cleanup piper_functions = Some close_child" "fn_cleanup speech_dispatcher_functions = Some close_child"
  "fn_cleanup espeak_functions = Some close_child"
  by (simp_all add: piper_functions_def speech_dispatcher_functions_def espeak_functions_def fun_eq_iff
      piper_engine_cleanup_def speech_dispatcher_engine_cleanup_def espeak_engine_cleanup_def)

context speech_engine
begin

lemma contract:
  assumes "fn_cleanup vtable = Some close_child"
  shows "one_child_contract vtable"
  unfolding one_child_contract_def
proof (intro allI impI)
  fix others e w ops e1 w1 env t
  assume o: "owner others e w" and r: "engine_run vtable ops (e, w) = Some (e1, w1)"
  note oe = run_owner [OF o r]
  show "owner others e1 w1 \<and>
        (\<exists>e2 w2. tts_engine_stop vtable env (Some e1) w1 = Some (True, ZATHURA_ERROR_OK, Some e2, w2) \<and>
           engine_silent others e2 w2) \<and>
        (\<forall>ok err e2 w2. tts_engine_speak vtable env (Some e1) (Some t) w1 = Some (ok, err, Some e2, w2) \<longrightarrow>
           (if ok then engine_speaking others e2 w2 else procs w2 = others)) \<and>
        (\<forall>st e2 w2. tts_engine_get_state vtable (Some e1) w1 = (st, Some e2, w2) \<longrightarrow>
           (st = TTS_ENGINE_STATE_IDLE \<longleftrightarrow> procs w2 = others)) \<and>
        (\<forall>w2. tts_engine_free vtable env (Some e1) w1 = Some w2 \<longrightarrow> procs w2 = others)"
    using oe stop_after_run [OF o r, of env] speak_after_run [OF o r, of env t] state_after_run [OF o r]
      free_owner [OF assms oe, of env]
    by (intro conjI) blast+
qed

end

text \<open>
  C20. The contract of the speech engines: after any sequence of speak, pause, resume, stop, reconfigure and
  state calls that returns, with the child possibly ending by itself at any time, Piper, the Speech Dispatcher
  and espeak-ng each own at most one child process and have left every other child alone; stop succeeds and
  leaves no child; a successful speak leaves exactly one running child and a failed one none; the state is
  reported idle exactly if there is no child; and freeing an engine, if it returns, leaves no child behind.
\<close>

theorem engines_own_one_child:
  "one_child_contract piper_functions \<and> one_child_contract speech_dispatcher_functions \<and>
   one_child_contract espeak_functions"
  using piper.contract spd.contract espeak.contract cleanup_entries by blast

subsection \<open>Which calls may wait for ever\<close>

definition child_stopped :: "'a process_data_scheme tts_engine \<Rightarrow> os \<Rightarrow> bool" where
  "child_stopped e w =
     (case engine_data e of
        None \<Rightarrow> False
      | Some d \<Rightarrow> (case procs w (current_process d) of Some (Child_Stopped pending) \<Rightarrow> True | _ \<Rightarrow> False))"

locale prompt_engine = speech_engine +
  assumes speak_returns: "owner others e w \<Longrightarrow> \<exists>ok err e' w'. speak env text e w = Some (ok, err, e', w')"
begin

lemma exec_returns: "owner others e w \<Longrightarrow> \<exists>e' w'. engine_exec vtable op (e, w) = Some (e', w')"
proof (cases op)
  case (E_Speak env t)
  assume "owner others e w"
  then show ?thesis
    using speak_returns [of others e w env t] E_Speak by (auto simp: keep_engine_def tts_engine_speak_def through_table_def table)
next
  case (E_Pause env p)
  assume "owner others e w"
  then show ?thesis
    using pause_owner [of others e w env p] E_Pause by (auto simp: keep_engine_def tts_engine_pause_def through_table_def table)
next
  case (E_Stop env)
  assume "owner others e w"
  then show ?thesis
    using stop_silent [of others e w env] E_Stop by (auto simp: keep_engine_def tts_engine_stop_def through_table_def table)
next
  case (E_Set_Config env c)
  assume "owner others e w"
  then show ?thesis
    using config_owner [of others e w env c] E_Set_Config
    by (auto simp: keep_engine_def tts_engine_set_config_def through_table_def table)
qed (auto simp: tts_engine_get_state_def table split: prod.split)

lemma run_returns: "owner others e w \<Longrightarrow> \<exists>e' w'. engine_run vtable ops (e, w) = Some (e', w')"
proof (induction ops arbitrary: e w)
  case (Cons op ops)
  obtain e1 w1 where x: "engine_exec vtable op (e, w) = Some (e1, w1)" using exec_returns [OF Cons.prems] by blast
  then show ?case using Cons.IH [OF exec_owner [OF Cons.prems x]] by simp
qed simp

end

lemma piper_speak_returns: "owner others e w \<Longrightarrow> \<exists>ok err e' w'. piper_engine_speak env t e w = Some (ok, err, e', w')"
proof -
  assume "owner others e w"
  then obtain d where d: "engine_data e = Some d" "tracks others (current_process d) (child_paused d) w"
    by (auto simp: owner_def)
  obtain d1 w1 where x: "end_speech env d w = Some (d1, w1)" using end_speech_tracks [OF d(2)] by blast
  show ?thesis
    using start_speech_returns by (auto simp: piper_engine_speak_def with_data_def d(1) x split: option.split)
qed

lemma espeak_speak_returns: "owner others e w \<Longrightarrow> \<exists>ok err e' w'. espeak_engine_speak env t e w = Some (ok, err, e', w')"
proof -
  assume "owner others e w"
  then obtain d where d: "engine_data e = Some d" "tracks others (current_process d) (child_paused d) w"
    by (auto simp: owner_def)
  obtain d1 w1 where x: "end_speech env d w = Some (d1, w1)" using end_speech_tracks [OF d(2)] by blast
  show ?thesis using start_speech_returns by (auto simp: espeak_engine_speak_def with_data_def d(1) x)
qed

interpretation prompt_piper: prompt_engine piper_functions piper_engine_speak piper_engine_pause piper_engine_stop
  piper_engine_set_config piper_engine_get_state
  by unfold_locales (rule piper_speak_returns)

interpretation prompt_espeak: prompt_engine espeak_functions espeak_engine_speak espeak_engine_pause espeak_engine_stop
  "\<lambda>env. espeak_engine_set_config" espeak_engine_get_state
  by unfold_locales (rule espeak_speak_returns)

lemma wait_stopped:
  assumes "owner others e w" "engine_data e = Some d"
  shows "0 < current_process d \<Longrightarrow> term_and_wait obeys (current_process d) w = None \<longleftrightarrow> child_stopped e w"
    and "current_process d \<le> 0 \<Longrightarrow> \<not> child_stopped e w"
proof -
  have t: "tracks others (current_process d) (child_paused d) w" using assms by (simp add: owner_def)
  show "term_and_wait obeys (current_process d) w = None \<longleftrightarrow> child_stopped e w" if "0 < current_process d"
    using term_and_wait_child(1) [OF t that, of obeys] assms(2)
    by (auto simp: child_stopped_def split: option.split child_state.split)
  show "\<not> child_stopped e w" if "current_process d \<le> 0"
    using t owner_pid [OF t] that assms(2) by (auto simp: tracks_def os_ok_def child_stopped_def split: option.split)
qed

lemma cleanup_stopped:
  assumes "fn_cleanup functions = Some close_child" "owner others e w"
  shows "tts_engine_cleanup functions env (Some e) w = None \<longleftrightarrow> child_stopped e w"
proof -
  obtain d where d: "engine_data e = Some d" using assms(2) by (auto simp: owner_def)
  show ?thesis
    using wait_stopped [OF assms(2) d] assms(1)
    by (cases "0 < current_process d") (auto simp: tts_engine_cleanup_def close_child_def d)
qed

lemma spd_speak_stopped:
  assumes "owner others e w"
  shows "tts_engine_speak speech_dispatcher_functions env (Some e) (Some t) w = None \<longleftrightarrow> child_stopped e w"
proof -
  obtain d where d: "engine_data e = Some d" using assms by (auto simp: owner_def)
  have r: "start_speech env command d' e w' \<noteq> None" for command d' w' using start_speech_returns by fastforce
  show ?thesis
    using wait_stopped [OF assms d]
    by (cases "0 < current_process d")
      (auto simp: tts_engine_speak_def through_table_def speech_dispatcher_functions_def
        speech_dispatcher_engine_speak_def with_data_def d r split: option.splits)
qed


definition sample_env :: engine_env where
  "sample_env = \<lparr>obeys_term = True, spawn_works = True, home_dir = ''/home/me'', current_dir = ''/tmp'',
     file_exists = (\<lambda>path. True), dir_names = (\<lambda>path. None)\<rparr>"

definition sample_os :: os where
  "sample_os = \<lparr>procs = (\<lambda>pid. None), next_pid = 1, sent_signals = [], spawned_argv = [], bad_frees = []\<rparr>"

definition sample_piper :: "piper_engine_data tts_engine" where
  "sample_piper = snd (snd (piper_engine_init sample_env None (new_engine TTS_ENGINE_PIPER ''Piper-TTS'' True)))"

definition sample_spd :: "speech_dispatcher_engine_data tts_engine" where
  "sample_spd = snd (snd (speech_dispatcher_engine_init None (new_engine TTS_ENGINE_SPEECH_DISPATCHER ''Speech Dispatcher'' True)))"

definition sample_espeak :: "espeak_engine_data tts_engine" where
  "sample_espeak = snd (snd (espeak_engine_init None (new_engine TTS_ENGINE_ESPEAK ''espeak-ng'' True)))"

lemmas sample_defs = sample_env_def sample_os_def sample_piper_def sample_spd_def sample_espeak_def
  piper_engine_init_def speech_dispatcher_engine_init_def espeak_engine_init_def new_engine_def put_data_def

lemma sample_owners:
  "owner (\<lambda>pid. None) sample_piper sample_os" "owner (\<lambda>pid. None) sample_spd sample_os"
  "owner (\<lambda>pid. None) sample_espeak sample_os"
  by (simp_all add: owner_def tracks_def os_ok_def sample_defs Let_def)

lemma sample_pause:
  "\<exists>s w. engine_run speech_dispatcher_functions [E_Speak sample_env ''hi'', E_Pause sample_env True] (sample_spd, sample_os) =
     Some (s, w) \<and> child_stopped s w \<and> engine_state s = TTS_ENGINE_STATE_PAUSED"
proof -
  have "g_shell_parse_argv (spd_command None (limited_text ''hi'')) = Inr [''spd-say'', ''hi'']" by code_simp
  then have "spawn_command sample_env (spd_command None (limited_text ''hi'')) sample_os =
      (Some 1, sample_os\<lparr>procs := [1 \<mapsto> Child_Running], next_pid := 2, spawned_argv := [[''spd-say'', ''hi'']]\<rparr>)"
    by (simp add: spawn_command_def sample_defs)
  then show ?thesis
    by (simp add: keep_engine_def tts_engine_speak_def tts_engine_pause_def through_table_def speech_dispatcher_functions_def
        speech_dispatcher_engine_speak_def speech_dispatcher_engine_pause_def with_data_def start_speech_def pause_child_def
        kill_child_def child_stopped_def sample_spd_def speech_dispatcher_engine_init_def new_engine_def put_data_def)
qed


end
