(* ===== verification/Engine_Commands.thy ===== *)
theory Engine_Commands
  imports Engine_Contract
begin

text \<open>
  What becomes of a text on its way to a speech command, and which engine is taken: the command lines of the
  three engines as the argument vectors they are parsed to, texts with apostrophes, the selection of the
  preferred engine, and the cached voices.
\<close>

subsection \<open>Command lines\<close>

lemma plain_words [simp]:
  "shell_piece ''spd-say'' ''spd-say''" "shell_piece ''espeak-ng'' ''espeak-ng''" "shell_piece ''-v'' ''-v''"
  "shell_piece ''-s'' ''-s''" "shell_piece ''sh'' ''sh''" "shell_piece ''-c'' ''-c''"
  by (rule piece_plain; simp add: plain_char_def shell_chars)+

lemma piece_apostrophes: "apostrophe \<notin> set t \<Longrightarrow> shell_piece (in_apostrophes t) t"
  unfolding in_apostrophes_def by (rule piece_single)

lemma piece_double_quotes: "double_quote \<notin> set t \<Longrightarrow> backslash \<notin> set t \<Longrightarrow> shell_piece (in_double_quotes t) t"
  unfolding in_double_quotes_def by (rule piece_double)

lemma plain_digit: "c_isdigit c \<Longrightarrow> plain_char c"
  by (auto simp: plain_char_def shell_chars c_isdigit_def byte_def)

lemma piece_fmt_int: "shell_piece (fmt_int i) (fmt_int i)"
proof (rule piece_plain)
  have "plain_char CHR ''-''" by (simp add: plain_char_def shell_chars)
  then show "list_all plain_char (fmt_int i)"
    by (auto simp: fmt_int_def list_all_iff intro: plain_digit fmt_nat_digits)
qed (simp add: fmt_int_def fmt_nat_not_Nil)

lemma limited_text_prefix: "length (limited_text t) \<le> 500" "prefix (limited_text t) t"
  by (simp_all add: limited_text_def take_is_prefix)

lemma limited_text_set: "c \<in> set (limited_text t) \<Longrightarrow> c \<in> set t"
  by (auto simp: limited_text_def dest: in_set_takeD split: if_splits)

definition voice_args :: "string option \<Rightarrow> string list" where
  "voice_args voice = (case voice of None \<Rightarrow> [] | Some v \<Rightarrow> [''-v'', v])"

definition voice_plain :: "string option \<Rightarrow> bool" where
  "voice_plain voice \<longleftrightarrow> (case voice of None \<Rightarrow> True | Some v \<Rightarrow> apostrophe \<notin> set v)"

lemma spd_command_parsed:
  assumes "shell_piece piece t'" "voice_plain voice"
  shows "g_shell_parse_argv (join_words (''spd-say'' # (case voice of None \<Rightarrow> [piece] | Some v \<Rightarrow> [''-v'', in_apostrophes v, piece]))) =
    Inr (''spd-say'' # voice_args voice @ [t'])"
  by (rule parse_words) (use assms in \<open>auto simp: voice_args_def voice_plain_def piece_apostrophes split: option.splits\<close>)

lemma spd_command_words:
  "spd_command voice t =
     join_words (''spd-say'' # (case voice of None \<Rightarrow> [in_apostrophes t] | Some v \<Rightarrow> [''-v'', in_apostrophes v, in_apostrophes t]))"
  by (simp add: spd_command_def split: option.split)

lemma espeak_command_words:
  "espeak_command voice speed t =
     join_words (''espeak-ng'' # (case voice of None \<Rightarrow> [] | Some v \<Rightarrow> [''-v'', in_apostrophes v]) @
       [''-s'', fmt_int (espeak_speed speed), in_apostrophes t])"
  by (simp add: espeak_command_def split: option.split)



subsection \<open>Apostrophes\<close>

text \<open>
  A text can end its own quotation: what stands between two apostrophes of a text, if it is a plain word,
  becomes an argument of its own of the speech command, so a document can hand options to \<^verbatim>\<open>spd-say\<close> and to
  \<^verbatim>\<open>espeak-ng\<close>.
\<close>

theorem text_can_add_options:
  assumes "apostrophe \<notin> set u" "apostrophe \<notin> set v" "option \<noteq> []" "list_all plain_char option" "voice_plain voice"
  shows "g_shell_parse_argv (spd_command voice (u @ [apostrophe] @ '' '' @ option @ '' '' @ [apostrophe] @ v)) =
      Inr (''spd-say'' # voice_args voice @ [u, option, v]) \<and>
    g_shell_parse_argv (espeak_command voice speed (u @ [apostrophe] @ '' '' @ option @ '' '' @ [apostrophe] @ v)) =
      Inr (''espeak-ng'' # voice_args voice @ [''-s'', fmt_int (espeak_speed speed), u, option, v])"
proof -
  have words: "in_apostrophes (u @ [apostrophe] @ '' '' @ option @ '' '' @ [apostrophe] @ v) =
      join_words [in_apostrophes u, option, in_apostrophes v]"
    by (simp add: in_apostrophes_def)
  note p = piece_apostrophes [OF assms(1)] piece_apostrophes [OF assms(2)] piece_plain [OF assms(3,4)]
  have "spd_command voice (u @ [apostrophe] @ '' '' @ option @ '' '' @ [apostrophe] @ v) =
      join_words (''spd-say'' # (case voice of None \<Rightarrow> [] | Some w \<Rightarrow> [''-v'', in_apostrophes w]) @
        [in_apostrophes u, option, in_apostrophes v])"
    unfolding spd_command_words words by (simp split: option.split)
  moreover have "g_shell_parse_argv \<dots> = Inr (''spd-say'' # voice_args voice @ [u, option, v])"
    by (rule parse_words)
      (use p assms(5) in \<open>auto simp: voice_args_def voice_plain_def piece_apostrophes split: option.splits\<close>)
  moreover have "espeak_command voice speed (u @ [apostrophe] @ '' '' @ option @ '' '' @ [apostrophe] @ v) =
      join_words (''espeak-ng'' # (case voice of None \<Rightarrow> [] | Some w \<Rightarrow> [''-v'', in_apostrophes w]) @
        [''-s'', fmt_int (espeak_speed speed), in_apostrophes u, option, in_apostrophes v])"
    unfolding espeak_command_words words by (simp split: option.split)
  moreover have "g_shell_parse_argv \<dots> = Inr (''espeak-ng'' # voice_args voice @ [''-s'', fmt_int (espeak_speed speed), u, option, v])"
    by (rule parse_words)
      (use p assms(5) in \<open>auto simp: voice_args_def voice_plain_def piece_apostrophes piece_fmt_int split: option.splits\<close>)
  ultimately show ?thesis by simp
qed

lemma text_can_add_options_witness:
  "g_shell_parse_argv (spd_command None (''Stop'' @ [apostrophe] @ '' --pipe-mode '' @ [apostrophe] @ ''now'')) =
     Inr [''spd-say'', ''Stop'', ''--pipe-mode'', ''now'']"
  using text_can_add_options [of "''Stop''" "''now''" "''--pipe-mode''" None]
  by (simp add: plain_char_def shell_chars voice_plain_def voice_args_def)

definition quote_safe :: "string \<Rightarrow> bool" where
  "quote_safe s \<longleftrightarrow> double_quote \<notin> set s \<and> backslash \<notin> set s \<and> hash \<notin> set s"

lemma quote_safe_append [simp]: "quote_safe (s @ t) \<longleftrightarrow> quote_safe s \<and> quote_safe t"
  by (auto simp: quote_safe_def)

lemma quote_safe_plain: "list_all plain_char s \<Longrightarrow> quote_safe s"
  by (auto simp: quote_safe_def plain_char_def list_all_iff)

lemma count_apostrophes_plain: "list_all plain_char s \<Longrightarrow> count_list s apostrophe = 0"
  by (induction s) (auto simp: plain_char_def)

lemma fmt_int_plain: "list_all plain_char (fmt_int i)"
proof -
  have "plain_char CHR ''-''" by (simp add: plain_char_def shell_chars)
  then show ?thesis by (auto simp: fmt_int_def list_all_iff intro: plain_digit fmt_nat_digits)
qed

lemma odd_spd_command:
  assumes "quote_safe t" "odd (count_list t apostrophe)"
  shows "g_shell_parse_argv (spd_command None t) = Inl G_SHELL_ERROR_BAD_QUOTING"
    and "g_shell_parse_argv (espeak_command None speed t) = Inl G_SHELL_ERROR_BAD_QUOTING"
proof -
  have c: "count_list ''spd-say '' apostrophe = 0" "count_list ''espeak-ng -s '' apostrophe = 0"
    "CHR '' '' \<noteq> apostrophe"
    by (simp_all add: shell_chars)
  have safe: "quote_safe ''spd-say ''" "quote_safe ''espeak-ng -s ''" "quote_safe [CHR '' '']" "quote_safe (in_apostrophes t)"
    using assms(1) by (simp_all add: quote_safe_def shell_chars in_apostrophes_def)
  have q: "g_shell_parse_argv s = Inl G_SHELL_ERROR_BAD_QUOTING"
    if "quote_safe s" "odd (count_list s apostrophe)" for s
    by (rule odd_apostrophes_fail) (use that in \<open>auto simp: quote_safe_def\<close>)
  show "g_shell_parse_argv (spd_command None t) = Inl G_SHELL_ERROR_BAD_QUOTING"
    by (rule q) (use assms(2) c safe in \<open>simp_all add: spd_command_def in_apostrophes_def del: append_Cons\<close>)
  show "g_shell_parse_argv (espeak_command None speed t) = Inl G_SHELL_ERROR_BAD_QUOTING"
    by (rule q) (use assms(2) c safe quote_safe_plain [OF fmt_int_plain] count_apostrophes_plain [OF fmt_int_plain] in
        \<open>simp_all add: espeak_command_def in_apostrophes_def del: append_Cons\<close>)
qed

lemma start_speech_unparsed:
  "g_shell_parse_argv command = Inl ge \<Longrightarrow> start_speech env command d e w = Some (False, ZATHURA_ERROR_UNKNOWN, put_data d e, w)"
  by (simp add: start_speech_def spawn_command_def)



subsection \<open>The preferred engine\<close>

lemma detect_loop_filter: "detect_loop env st tys found = found @ filter (type_available env st) tys"
  by (induction tys arbitrary: found) simp_all

lemma preferred_loop_first:
  "preferred_loop env st tys =
     (case filter (type_available env st) tys of [] \<Rightarrow> (ZATHURA_ERROR_UNKNOWN, TTS_ENGINE_NONE) | ty # _ \<Rightarrow> (ZATHURA_ERROR_OK, ty))"
  by (induction tys) simp_all

lemma type_available_iff:
  "type_available env st TTS_ENGINE_PIPER \<longleftrightarrow> piper_available env st"
  "type_available env st TTS_ENGINE_SPEECH_DISPATCHER \<longleftrightarrow> st ''which spd-say > /dev/null 2>&1'' = 0"
  "type_available env st TTS_ENGINE_ESPEAK \<longleftrightarrow>
     st ''which espeak-ng > /dev/null 2>&1'' = 0 \<or> st ''which espeak > /dev/null 2>&1'' = 0"
  "\<not> type_available env st TTS_ENGINE_SYSTEM" "\<not> type_available env st TTS_ENGINE_NONE"
  by (simp_all add: type_available_def tts_engine_new_def new_engine_def command_exists_def)


subsection \<open>Voices and configurations\<close>

lemma config_copy_same: "tts_engine_config_copy config = config"
  by (cases config) (simp_all add: tts_engine_config_copy_def)

text \<open>
  Voices are found once: asking an initialised engine for its voices a second time gives the same list and
  changes nothing. Piper always offers at least one voice. The first time, Piper hands the two fixed directory
  names, which are string literals, to \<^verbatim>\<open>g_free\<close>.
\<close>

theorem voices_are_cached:
  assumes "engine_data p = Some dp" "engine_data s = Some ds" "engine_data x = Some dx"
  shows "(\<exists>vs p1 w1. tts_engine_get_voices piper_functions env (Some p) w = (Some vs, ZATHURA_ERROR_OK, Some p1, w1) \<and>
        (piper_voices dp = None \<longrightarrow> vs \<noteq> [] \<and> bad_frees w1 = bad_frees w @ literal_voice_dirs) \<and>
        tts_engine_get_voices piper_functions env2 (Some p1) w1 = (Some vs, ZATHURA_ERROR_OK, Some p1, w1)) \<and>
    (\<exists>vs s1. tts_engine_get_voices speech_dispatcher_functions env (Some s) w = (Some vs, ZATHURA_ERROR_OK, Some s1, w) \<and>
        tts_engine_get_voices speech_dispatcher_functions env2 (Some s1) w = (Some vs, ZATHURA_ERROR_OK, Some s1, w)) \<and>
    (\<exists>vs x1. tts_engine_get_voices espeak_functions env (Some x) w = (Some vs, ZATHURA_ERROR_OK, Some x1, w) \<and>
        tts_engine_get_voices espeak_functions env2 (Some x1) w = (Some vs, ZATHURA_ERROR_OK, Some x1, w))"
proof (intro conjI)
  show "\<exists>vs p1 w1. tts_engine_get_voices piper_functions env (Some p) w = (Some vs, ZATHURA_ERROR_OK, Some p1, w1) \<and>
        (piper_voices dp = None \<longrightarrow> vs \<noteq> [] \<and> bad_frees w1 = bad_frees w @ literal_voice_dirs) \<and>
        tts_engine_get_voices piper_functions env2 (Some p1) w1 = (Some vs, ZATHURA_ERROR_OK, Some p1, w1)"
    by (cases "piper_voices dp")
      (auto simp: tts_engine_get_voices_def piper_functions_def piper_engine_get_voices_def assms(1) Let_def put_data_def)
  show "\<exists>vs s1. tts_engine_get_voices speech_dispatcher_functions env (Some s) w = (Some vs, ZATHURA_ERROR_OK, Some s1, w) \<and>
        tts_engine_get_voices speech_dispatcher_functions env2 (Some s1) w = (Some vs, ZATHURA_ERROR_OK, Some s1, w)"
    by (cases "spd_voices ds")
      (auto simp: tts_engine_get_voices_def speech_dispatcher_functions_def speech_dispatcher_engine_get_voices_def
        assms(2) Let_def put_data_def)
  show "\<exists>vs x1. tts_engine_get_voices espeak_functions env (Some x) w = (Some vs, ZATHURA_ERROR_OK, Some x1, w) \<and>
        tts_engine_get_voices espeak_functions env2 (Some x1) w = (Some vs, ZATHURA_ERROR_OK, Some x1, w)"
    by (cases "espeak_voices dx")
      (auto simp: tts_engine_get_voices_def espeak_functions_def espeak_engine_get_voices_def assms(3) Let_def put_data_def)
qed

lemma voices_are_cached_witness:
  "\<exists>vs p1 w1. tts_engine_get_voices piper_functions sample_env (Some sample_piper) sample_os =
     (Some vs, ZATHURA_ERROR_OK, Some p1, w1) \<and> vs \<noteq> [] \<and> bad_frees w1 = literal_voice_dirs"
proof -
  obtain dp ds dx where d: "engine_data sample_piper = Some dp" "engine_data sample_spd = Some ds"
      "engine_data sample_espeak = Some dx" "piper_voices dp = None"
    by (simp add: sample_defs Let_def)
  have "bad_frees sample_os = []" by (simp add: sample_os_def)
  then show ?thesis
    using voices_are_cached [OF d(1,2,3), of sample_env sample_os sample_env] d(4) append_Nil by metis
qed

end
