(* ===== verification/Plugin.thy ===== *)
theory Plugin
  imports Ui_Properties Engine_Commands Config_File
begin

text \<open>
  The plugin of \<^verbatim>\<open>plugin.c\<close>: what initialisation creates and in which order, and what clean-up takes down. The global
  variable is the first component of the state, \<open>None\<close> for NULL; the second is what outlives the plugin: the
  files, the children of the engine, the memory and the processes of the audio side, the main loop, the
  registered error callback, and the calls of a callback whose user interface is gone. Initialisation and
  clean-up have no result if they wait for ever.
\<close>

subsection \<open>State\<close>

record tts_session =
  s_config :: "tts_config option"
  s_engine :: "piper_engine_data tts_engine option"
  s_audio :: "audio option"
  s_ui :: "tts_ui_controller option"
  s_active :: bool

record tts_plugin =
  plugin_name :: "string option"
  plugin_version :: "string option"
  p_session :: "tts_session option"
  initialized :: bool

record plugin_world =
  w_files :: files
  w_os :: os
  w_stream :: stream_world
  w_document :: "zathura_document option"
  w_errors :: error_world
  w_notices :: "string list"
  w_timers :: "nat list"
  w_next_timer :: nat
  stale_events :: "audio_event list"

type_synonym plugin_state = "tts_plugin option \<times> plugin_world"

record plugin_env =
  penv_ui :: ui_env
  penv_engine :: engine_env
  penv_status :: "string \<Rightarrow> int"
  penv_session :: bool
  penv_now :: nat
  penv_mkdir_ok :: bool
  penv_fopen_ok :: bool

text \<open>The user interface with what it reaches, and back.\<close>

definition desk_of :: "tts_ui_controller \<Rightarrow> audio option \<Rightarrow> plugin_world \<Rightarrow> desk" where
  "desk_of c a w =
     \<lparr>ui = c, desk_audio = a, document = w_document w, desk_errors = w_errors w, notices = w_notices w,
      timers = w_timers w, next_timer = w_next_timer w\<rparr>"

definition world_after :: "desk \<Rightarrow> plugin_world \<Rightarrow> plugin_world" where
  "world_after d w =
     w\<lparr>w_document := document d, w_errors := desk_errors d, w_notices := notices d, w_timers := timers d,
       w_next_timer := next_timer d\<rparr>"

subsection \<open>Clean-up\<close>

definition cleanup_ui :: "tts_session \<times> plugin_world \<Rightarrow> tts_session \<times> plugin_world" where
  "cleanup_ui x =
     (case x of (s, w) \<Rightarrow>
        case s_ui s of
          None \<Rightarrow> (s, w)
        | Some c \<Rightarrow>
            let d1 = tts_ui_controller_unregister_shortcuts (desk_of c (s_audio s) w);
                d2 = tts_ui_controller_free d1
            in (s\<lparr>s_ui := None\<rparr>, world_after d2 w))"

text \<open>
  Stopping the session calls the callback that the user interface has registered; the user interface is gone by
  then. Freeing the audio controller stops the session once more.
\<close>

definition cleanup_audio :: "reap_env \<Rightarrow> tts_session \<times> plugin_world \<Rightarrow> tts_session \<times> plugin_world" where
  "cleanup_audio env x =
     (case x of (s, w) \<Rightarrow>
        case s_audio s of
          None \<Rightarrow> (s, w)
        | Some a \<Rightarrow>
            let a1 = stop_session_body env a;
                stale = drop (length (audio_events a)) (audio_events a1);
                freed = the (tts_audio_controller_free env (Some a1))
            in (s\<lparr>s_audio := None\<rparr>, w\<lparr>stale_events := stale_events w @ stale, w_stream := fst freed\<rparr>))"

definition cleanup_engine :: "engine_env \<Rightarrow> tts_session \<times> plugin_world \<Rightarrow> (tts_session \<times> plugin_world) option" where
  "cleanup_engine env x =
     (case x of (s, w) \<Rightarrow>
        case s_engine s of
          None \<Rightarrow> Some (s, w)
        | Some e \<Rightarrow>
            (case tts_engine_cleanup piper_functions env (Some e) (w_os w) of
               None \<Rightarrow> None
             | Some (e1, os1) \<Rightarrow>
                 map_option (\<lambda>os2. (s\<lparr>s_engine := None\<rparr>, w\<lparr>w_os := os2\<rparr>)) (tts_engine_free piper_functions env e1 os1)))"

definition cleanup_config :: "plugin_env \<Rightarrow> tts_session \<times> plugin_world \<Rightarrow> tts_session \<times> plugin_world" where
  "cleanup_config env x =
     (case x of (s, w) \<Rightarrow>
        case s_config s of
          None \<Rightarrow> (s, w)
        | Some c \<Rightarrow>
            (s\<lparr>s_config := None\<rparr>,
             if tts_config_is_modified (Some c)
             then w\<lparr>w_files := snd (tts_config_save_default (decimal_point (penv_ui env)) (penv_mkdir_ok env) (penv_fopen_ok env)
                      (w_files w) (home_dir (penv_engine env)) (Some c))\<rparr>
             else w))"

definition tts_plugin_cleanup :: "plugin_env \<Rightarrow> plugin_state \<Rightarrow> plugin_state option" where
  "tts_plugin_cleanup env st =
     (case st of (plugin, w) \<Rightarrow>
        case plugin of
          None \<Rightarrow> Some (None, w)
        | Some p \<Rightarrow>
            (case p_session p of
               None \<Rightarrow> Some (None, w)
             | Some s \<Rightarrow>
                 map_option (\<lambda>x. (None, snd (cleanup_config env x)))
                   (cleanup_engine (penv_engine env)
                     (cleanup_audio (env_reap (penv_ui env)) (cleanup_ui (s\<lparr>s_active := False\<rparr>, w))))))"

subsection \<open>Initialisation\<close>

definition new_plugin :: tts_plugin where
  "new_plugin = \<lparr>plugin_name = Some ''zathura-tts'', plugin_version = Some ''1.0.0'', p_session = None, initialized = False\<rparr>"

definition engine_config_of :: "tts_config \<Rightarrow> tts_engine_config" where
  "engine_config_of c =
     tts_engine_config_new\<lparr>cfg_speed := tts_config_get_default_speed (Some c), cfg_volume := tts_config_get_default_volume (Some c),
       cfg_pitch := tts_config_get_default_pitch (Some c), cfg_voice_name := tts_config_get_preferred_voice (Some c)\<rparr>"

text \<open>The controllers, once the engine is ready: creation, registrations, visual feedback and notifications.\<close>

definition set_up_controllers :: "plugin_env \<Rightarrow> tts_session \<Rightarrow> plugin_world \<Rightarrow> tts_session \<times> plugin_world" where
  "set_up_controllers env s w =
     (let a = audio_init (w_stream w);
          c = tts_ui_controller_new (penv_session env);
          d = ui_setup (penv_ui env) (desk_of c (Some a) w)
      in (s\<lparr>s_audio := desk_audio d, s_ui := Some (ui d), s_active := True\<rparr>, world_after d w))"

definition tts_plugin_init :: "plugin_env \<Rightarrow> bool \<Rightarrow> plugin_state \<Rightarrow> (bool \<times> plugin_state) option" where
  "tts_plugin_init env zathura st =
     (case st of (plugin, w) \<Rightarrow>
        if \<not> zathura then Some (False, st)
        else
          let p = (case plugin of None \<Rightarrow> new_plugin | Some p \<Rightarrow> p)
          in if initialized p then Some (True, Some p, w)
             else if \<not> penv_session env then Some (False, Some p, w)
             else
               let c = the (snd (tts_config_load_default (decimal_point (penv_ui env)) (penv_now env) (w_files w)
                              (home_dir (penv_engine env)) (Some tts_config_new)));
                   s0 = \<lparr>s_config = Some c, s_engine = None, s_audio = None, s_ui = None, s_active = False\<rparr>
               in case snd (tts_engine_new (penv_engine env) (penv_status env) TTS_ENGINE_PIPER) of
                    Some (Piper_Engine e) \<Rightarrow>
                      (case tts_engine_init piper_functions (penv_engine env) (Some e) (Some (engine_config_of c)) of
                         None \<Rightarrow> None
                       | Some (ok, err, e1) \<Rightarrow>
                           let s1 = s0\<lparr>s_engine := e1\<rparr>
                           in if \<not> ok
                              then map_option (Pair False) (tts_plugin_cleanup env (Some (p\<lparr>p_session := Some s1\<rparr>), w))
                              else
                                (case set_up_controllers env s1 w of
                                   (s2, w2) \<Rightarrow> Some (True, Some (p\<lparr>p_session := Some s2, initialized := True\<rparr>), w2)))
                  | _ \<Rightarrow> map_option (Pair False) (tts_plugin_cleanup env (Some (p\<lparr>p_session := Some s0\<rparr>), w)))"

definition tts_plugin_is_initialized :: "plugin_state \<Rightarrow> bool" where
  "tts_plugin_is_initialized st = (case fst st of None \<Rightarrow> False | Some p \<Rightarrow> initialized p)"

definition tts_plugin_get_instance :: "plugin_state \<Rightarrow> tts_plugin option" where
  "tts_plugin_get_instance st = fst st"

text \<open>Using the plugin: an operation of its user interface.\<close>

definition plugin_use :: "ui_op \<Rightarrow> plugin_state \<Rightarrow> plugin_state" where
  "plugin_use op st =
     (case st of (plugin, w) \<Rightarrow>
        case plugin of
          None \<Rightarrow> st
        | Some p \<Rightarrow>
            (case p_session p of
               None \<Rightarrow> st
             | Some s \<Rightarrow>
                 (case s_ui s of
                    None \<Rightarrow> st
                  | Some c \<Rightarrow>
                      let d = ui_exec op (desk_of c (s_audio s) w)
                      in (Some (p\<lparr>p_session := Some (s\<lparr>s_ui := Some (ui d), s_audio := desk_audio d\<rparr>)\<rparr>), world_after d w))))"

subsection \<open>What the user interface leaves alone\<close>

definition keeps_callbacks :: "desk \<Rightarrow> desk \<Rightarrow> bool" where
  "keeps_callbacks d d' \<longleftrightarrow> callback_of (desk_audio d') = callback_of (desk_audio d) \<and> desk_errors d' = desk_errors d"

lemma keeps_callbacks_trans: "keeps_callbacks d d' \<Longrightarrow> keeps_callbacks d' d'' \<Longrightarrow> keeps_callbacks d d''"
  by (simp add: keeps_callbacks_def)

lemma keeps_callbacks_status [simp]: "keeps_callbacks d (tts_ui_controller_show_status m t d') = keeps_callbacks d d'"
  by (simp add: keeps_callbacks_def)

lemma keeps_callbacks_refl [simp]: "keeps_callbacks d d"
  by (simp add: keeps_callbacks_def)

lemma keeps_callbacks_ui [simp]: "keeps_callbacks d (d'\<lparr>ui := x\<rparr>) = keeps_callbacks d d'"
  by (simp add: keeps_callbacks_def)

lemma keeps_callbacks_active [simp]: "keeps_callbacks d (set_active b d') = keeps_callbacks d d'"
  by (simp add: set_active_def)

lemma deliver_event_errors: "desk_errors (deliver_event cb ev d) = desk_errors d"
  using shows_facts(4) [OF progress_shows]
  by (simp add: deliver_event_def tts_audio_state_change_callback_def tts_audio_state_change_callback_enhanced_def Let_def
      tts_ui_controller_update_visual_state_def tts_ui_controller_notify_state_change_def del: state_icon.simps state_text.simps)

lemma deliver_events_errors: "desk_errors (fold (deliver_event cb) evs d) = desk_errors d"
  by (induction evs arbitrary: d) (simp_all add: deliver_event_errors)

lemma with_audio_keeps:
  "callback_of (snd (operation (desk_audio d))) = callback_of (desk_audio d) \<Longrightarrow> keeps_callbacks d (snd (with_audio operation d))"
  by (simp add: with_audio_def keeps_callbacks_def case_prod_beta deliver_events_facts deliver_events_errors)

lemma set_state_callback: "state_change_callback (ctl (snd (set_state_body st s))) = state_change_callback (ctl s)"
  by (simp add: set_state_fields)

lemma stop_session_callback: "state_change_callback (ctl (stop_session_body env s)) = state_change_callback (ctl s)"
  by (simp add: stop_session_ctl)

lemma start_streaming_callback: "state_change_callback (ctl (snd (start_streaming_session sp l s))) = state_change_callback (ctl s)"
  by (simp add: start_streaming_session_def Let_def case_prod_beta)

lemma before_play_callback: "state_change_callback (ctl (before_play env l s)) = state_change_callback (ctl s)"
  by (simp add: before_play_def set_first_position_def Let_def stop_session_ctl split: option.split prod.split list.split)

lemma start_session_callback: "state_change_callback (ctl (snd (start_session_body sp env l s))) = state_change_callback (ctl s)"
  by (cases l) (simp_all add: start_session_body_def [of sp env None] start_session_before_play case_prod_beta set_state_callback
      start_streaming_callback before_play_callback)

lemma pause_resume_callback:
  "state_change_callback (ctl (snd (pause_session_body s))) = state_change_callback (ctl s)"
  "state_change_callback (ctl (snd (resume_session_body s))) = state_change_callback (ctl s)"
  by (simp_all add: pause_session_body_def resume_session_body_def Let_def case_prod_beta set_state_callback split: option.split)

lemma audio_operations_keep:
  "callback_of (snd (tts_audio_controller_start_session sp env l a)) = callback_of a"
  "callback_of (tts_audio_controller_stop_session env a) = callback_of a"
  "callback_of (snd (tts_audio_controller_pause_session a)) = callback_of a"
  "callback_of (snd (tts_audio_controller_resume_session a)) = callback_of a"
  "callback_of (snd (tts_audio_controller_set_speed x a)) = callback_of a"
  "callback_of (snd (tts_audio_controller_set_volume v a)) = callback_of a"
  by (simp_all add: callback_of_def tts_audio_controller_start_session_def tts_audio_controller_stop_session_def
      tts_audio_controller_pause_session_def tts_audio_controller_resume_session_def tts_audio_controller_set_speed_def
      tts_audio_controller_set_volume_def on_controller_def case_prod_beta start_session_callback stop_session_callback
      pause_resume_callback split: option.split)

lemma callback_upd_mem: "callback_of (map_option (\<lambda>a. upd_mem (f a) a) a) = callback_of a"
  by (simp add: callback_of_def split: option.split)

lemma new_list_callback: "desk_audio d = Some s \<Longrightarrow> keeps_callbacks d (d\<lparr>desk_audio := Some (snd (new_list sgs s))\<rparr>)"
  by (simp add: keeps_callbacks_def callback_of_def new_list_ctl)

lemma stop_reading_keeps: "keeps_callbacks d (snd (stop_reading env d))"
  using with_audio_keeps [of "\<lambda>a. ((), tts_audio_controller_stop_session (env_reap env) a)" d]
  by (simp add: stop_reading_def case_prod_beta audio_operations_keep)

lemma start_reading_keeps: "desk_audio d = Some s \<Longrightarrow> keeps_callbacks d (snd (start_reading env sgs s d))"
proof -
  assume d: "desk_audio d = Some s"
  let ?d = "d\<lparr>desk_audio := Some (snd (new_list sgs s))\<rparr>"
  let ?op = "tts_audio_controller_start_session (env_spawn env) (env_reap env) (Some (fst (new_list sgs s)))"
  have k: "keeps_callbacks d (snd (with_audio ?op ?d))"
    by (rule keeps_callbacks_trans [OF new_list_callback [OF d] with_audio_keeps]) (simp add: audio_operations_keep)
  then show ?thesis
    by (simp add: start_reading_def case_prod_beta Let_def) (simp add: keeps_callbacks_def callback_upd_mem)
qed

lemma settings_keep:
  "keeps_callbacks d (snd (set_speed_and_tell env m m' x d))" "keeps_callbacks d (snd (set_volume_and_tell m m' v d))"
  using with_audio_keeps [of "tts_audio_controller_set_speed x" d] with_audio_keeps [of "tts_audio_controller_set_volume v" d]
  by (simp_all add: set_speed_and_tell_def set_volume_and_tell_def case_prod_beta audio_operations_keep)

lemma toggle_keeps: "desk_audio d = Some s \<Longrightarrow> keeps_callbacks d (snd (toggle_body env s d))"
  using stop_reading_keeps start_reading_keeps by (simp add: toggle_body_def Let_def split: option.split)

lemma pause_resume_keeps: "keeps_callbacks d (snd (pause_resume_body s d))"
  using with_audio_keeps [of tts_audio_controller_pause_session d] with_audio_keeps [of tts_audio_controller_resume_session d]
  by (simp add: pause_resume_body_def case_prod_beta audio_operations_keep split: tts_audio_state.split)

lemma on_desk_keeps:
  "(\<And>s. desk_audio d = Some s \<Longrightarrow> keeps_callbacks d (snd (body s d))) \<Longrightarrow> keeps_callbacks d (the (snd (on_desk body (Some d))))"
  by (cases "desk_audio d") (auto simp: on_desk_def case_prod_beta)

lemma plain_bodies_keep:
  "keeps_callbacks d (snd (segment_stub m s d))" "keeps_callbacks d (snd (speed_up_body env s d))"
  "keeps_callbacks d (snd (speed_down_body env s d))" "keeps_callbacks d (snd (volume_up_body s d))"
  "keeps_callbacks d (snd (volume_down_body s d))" "keeps_callbacks d (snd (speed_command_body env args s d))"
  "keeps_callbacks d (snd (volume_command_body args s d))" "keeps_callbacks d (the (snd (sc_tts_settings env (Some d))))"
  "keeps_callbacks d (the (snd (cmd_tts_voice env args (Some d))))" "keeps_callbacks d (the (snd (cmd_tts_engine env args (Some d))))"
  by (simp_all add: segment_stub_def speed_up_body_def speed_down_body_def volume_up_body_def volume_down_body_def
      speed_command_body_def volume_command_body_def sc_tts_settings_def cmd_tts_voice_def cmd_tts_engine_def on_ui_def
      voice_command_body_def engine_command_body_def settings_keep Let_def case_prod_beta split: option.split)

lemma shortcut_keeps: "keeps_callbacks d (the (snd (shortcut_function action env (Some d))))"
proof (cases action)
  case TTS_SHORTCUT_STOP
  then show ?thesis using on_desk_keeps [of d "\<lambda>s. stop_reading env"] stop_reading_keeps by (simp add: sc_tts_stop_def)
qed (simp_all add: sc_tts_toggle_def sc_tts_pause_resume_def sc_tts_next_segment_def sc_tts_prev_segment_def
    sc_tts_speed_up_def sc_tts_speed_down_def sc_tts_volume_up_def sc_tts_volume_down_def on_desk_keeps toggle_keeps
    pause_resume_keeps plain_bodies_keep)

lemma command_keeps:
  assumes "command_function name = Some f"
  shows "keeps_callbacks d (the (snd (f env args (Some d))))"
proof -
  have "f \<in> {cmd_tts_toggle, cmd_tts_stop, cmd_tts_speed, cmd_tts_volume, cmd_tts_voice, cmd_tts_engine, cmd_tts_config, cmd_tts_status}"
    using assms by (auto simp: command_function_def command_names_def split: if_splits)
  moreover have sv: "keeps_callbacks d (the (snd (cmd_tts_speed env a (Some d))))" "keeps_callbacks d (the (snd (cmd_tts_volume env a (Some d))))" for a
    by (simp_all add: cmd_tts_speed_def cmd_tts_volume_def on_desk_keeps plain_bodies_keep)
  moreover have "keeps_callbacks d (the (snd (cmd_tts_toggle env args (Some d))))" "keeps_callbacks d (the (snd (cmd_tts_stop env args (Some d))))"
    "keeps_callbacks d (the (snd (cmd_tts_status env args (Some d))))"
    using shortcut_keeps [of d TTS_SHORTCUT_TOGGLE env] shortcut_keeps [of d TTS_SHORTCUT_STOP env]
    by (simp_all add: cmd_tts_toggle_def cmd_tts_stop_def cmd_tts_status_def plain_bodies_keep)
  moreover have "keeps_callbacks d (the (snd (cmd_tts_config env args (Some d))))"
    by (simp add: cmd_tts_config_def sv plain_bodies_keep split: option.split)
  ultimately show ?thesis using plain_bodies_keep(9,10) by auto
qed

lemma ui_exec_keeps: "keeps_callbacks d (ui_exec op d)"
proof (cases op)
  case (U_Command env name args)
  then show ?thesis by (simp add: command_keeps split: option.split)
next
  case (U_Timeout i)
  then show ?thesis
    using shows_facts(1,4) [OF clear_status_shows] by (simp add: status_timeout_callback_def g_source_remove_def keeps_callbacks_def)
next
  case (U_Feed env)
  have "state_change_callback (ctl (feed_body env s)) = state_change_callback (ctl s)" for s
    by (simp add: feed_body_def split: option.split prod.split)
  then show ?thesis using U_Feed by (simp add: keeps_callbacks_def callback_of_def split: option.split)
qed (simp_all add: shortcut_keeps tts_ui_error_callback_def split: option.split)

subsection \<open>The life of the plugin\<close>

text \<open>A plugin that has been initialised and is in use.\<close>

definition plugin_ok :: "(int \<Rightarrow> child_state option) \<Rightarrow> files \<Rightarrow> plugin_state \<Rightarrow> bool" where
  "plugin_ok others fs st \<longleftrightarrow>
     (\<exists>p s c a e cfg. fst st = Some p \<and> initialized p \<and> p_session p = Some s \<and> s_active s \<and> s_ui s = Some c \<and>
        s_audio s = Some a \<and> s_engine s = Some e \<and> s_config s = Some cfg \<and> \<not> config_is_modified cfg \<and>
        ui_ok (desk_of c (Some a) (snd st)) \<and> state_change_callback (ctl a) = Some notifications_callback \<and>
        g_error_callback (w_errors (snd st)) = Some error_callback \<and>
        engine_silent others e (w_os (snd st)) \<and> w_files (snd st) = fs)"

lemma desk_again: "desk_of (ui d) (desk_audio d) (world_after d w) = d"
  by (cases d) (simp add: desk_of_def world_after_def)

lemma desk_of_fields:
  "ui (desk_of c a w) = c" "desk_audio (desk_of c a w) = a" "desk_errors (desk_of c a w) = w_errors w"
  "timers (desk_of c a w) = w_timers w"
  by (simp_all add: desk_of_def)

lemma world_after_fields:
  "w_os (world_after d w) = w_os w" "w_files (world_after d w) = w_files w" "w_errors (world_after d w) = desk_errors d"
  "w_timers (world_after d w) = timers d" "stale_events (world_after d w) = stale_events w"
  by (simp_all add: world_after_def)

lemma plugin_use_ok: "plugin_ok others fs st \<Longrightarrow> plugin_ok others fs (plugin_use op st)"
proof -
  assume "plugin_ok others fs st"
  then obtain p s c a e cfg w where st: "st = (Some p, w)" "initialized p" "p_session p = Some s" "s_active s" "s_ui s = Some c"
      "s_audio s = Some a" "s_engine s = Some e" "s_config s = Some cfg" "\<not> config_is_modified cfg"
      "ui_ok (desk_of c (Some a) w)" "state_change_callback (ctl a) = Some notifications_callback"
      "g_error_callback (w_errors w) = Some error_callback" "engine_silent others e (w_os w)" "w_files w = fs"
    by (cases st) (auto simp: plugin_ok_def)
  let ?d = "ui_exec op (desk_of c (Some a) w)"
  have d: "ui_ok ?d" by (rule ui.inv_exec [OF st(10)])
  then obtain a' where a': "desk_audio ?d = Some a'" by (auto simp: ui_ok_def)
  have k: "keeps_callbacks (desk_of c (Some a) w) ?d" by (rule ui_exec_keeps)
  have cb: "state_change_callback (ctl a') = Some notifications_callback" "desk_errors ?d = w_errors w"
    using k st(11) a' by (simp_all add: keeps_callbacks_def callback_of_def desk_of_fields)
  have u: "plugin_use op st = (Some (p\<lparr>p_session := Some (s\<lparr>s_ui := Some (ui ?d), s_audio := desk_audio ?d\<rparr>)\<rparr>), world_after ?d w)"
    using st(1,3,5,6) by (simp add: plugin_use_def Let_def)
  have "desk_of (ui ?d) (Some a') (world_after ?d w) = ?d" using desk_again [of ?d w] a' by simp
  then show ?thesis
    unfolding u plugin_ok_def using st d a' cb by (simp add: world_after_fields)
qed

lemma plugin_uses_ok: "plugin_ok others fs st \<Longrightarrow> plugin_ok others fs (fold plugin_use ops st)"
  by (induction ops arbitrary: st) (simp_all add: plugin_use_ok)

lemma idle_engine_goes:
  assumes "engine_state e = TTS_ENGINE_STATE_IDLE" "\<forall>d. engine_data e = Some d \<longrightarrow> current_process d = 0"
  shows "cleanup_engine env (s\<lparr>s_engine := Some e\<rparr>, w) = Some (s\<lparr>s_engine := None\<rparr>, w)"
proof -
  have "close_child env e v = Some (e\<lparr>engine_data := None\<rparr>, v)" for v
    using assms(2) by (cases e) (auto simp: close_child_def split: option.split)
  then show ?thesis
    using assms(1)
    by (simp add: cleanup_engine_def tts_engine_cleanup_def cleanup_entries tts_engine_free_def)
qed

lemma unmodified_config_stays: "\<not> config_is_modified c \<Longrightarrow>
  cleanup_config env (s\<lparr>s_config := Some c\<rparr>, w) = (s\<lparr>s_config := None\<rparr>, w)"
  by (simp add: cleanup_config_def tts_config_is_modified_def)

lemma cleanup_ui_effect:
  assumes "s_ui s = Some c" "timer_ok (desk_of c (s_audio s) w)"
  shows "\<exists>w'. cleanup_ui (s, w) = (s\<lparr>s_ui := None\<rparr>, w') \<and> w_timers w' = [] \<and> w_os w' = w_os w \<and> w_files w' = w_files w \<and>
    w_errors w' = w_errors w \<and> stale_events w' = stale_events w"
proof -
  let ?d1 = "tts_ui_controller_unregister_shortcuts (desk_of c (s_audio s) w)"
  have d1: "timer_ok ?d1" "desk_errors ?d1 = w_errors w" "tts_ui_controller_unregister_shortcuts ?d1 = ?d1"
    using assms(2) by (auto simp: tts_ui_controller_unregister_shortcuts_def timer_ok_def desk_of_def split: if_splits)
  have "timers (tts_ui_controller_free ?d1) = []" "desk_errors (tts_ui_controller_free ?d1) = w_errors w"
    using d1 by (auto simp: tts_ui_controller_free_def g_source_remove_def timer_ok_def Let_def split: if_splits)
  then show ?thesis
    using assms(1) by (simp add: cleanup_ui_def Let_def world_after_fields)
qed


lemma loaded_config:
  "\<exists>c. snd (tts_config_load_default point now fs home (Some tts_config_new)) = Some c \<and> \<not> config_is_modified c"
proof -
  have "\<not> config_is_modified tts_config_new" by (simp add: tts_config_new_def tts_config_set_defaults_def config_zero_def)
  then show ?thesis
    by (simp add: tts_config_load_default_def tts_config_load_from_file_def tts_config_clear_modified_def Let_def split: option.split)
qed

lemma setup_callbacks:
  assumes "desk_audio d = Some a"
  shows "\<exists>a'. desk_audio (ui_setup env d) = Some a' \<and> state_change_callback (ctl a') = Some notifications_callback \<and>
    g_error_callback (desk_errors (ui_setup env d)) = Some error_callback"
proof -
  have reg: "desk_audio (snd (tts_ui_controller_register_shortcuts env e)) = desk_audio e" for e
    by (simp add: tts_ui_controller_register_shortcuts_def tts_ui_controller_check_shortcut_conflicts_def register_loop_effect Let_def)
  have com: "desk_audio (snd (tts_ui_controller_register_commands env e)) = desk_audio e" for e
    by (simp add: tts_ui_controller_register_commands_def Let_def)
  show ?thesis
    using assms
    by (simp add: ui_setup_def Let_def reg com tts_ui_controller_init_visual_feedback_def tts_ui_controller_init_notifications_def
        set_callback_def tts_audio_controller_set_state_change_callback_def tts_ui_controller_init_error_handling_def
        tts_error_set_callback_def tts_ui_controller_notify_system_status_def)
qed

lemma piper_new:
  "snd (tts_engine_new env st TTS_ENGINE_PIPER) = Some (Piper_Engine (new_engine TTS_ENGINE_PIPER ''Piper-TTS'' (piper_available env st)))"
  by (simp add: tts_engine_new_def)

lemma piper_init_effect:
  "tts_engine_init piper_functions env (Some (new_engine TTS_ENGINE_PIPER n available)) (Some cfg) =
     (if available then
        Some (True, ZATHURA_ERROR_OK, Some (snd (snd (piper_engine_init env (Some cfg) ((new_engine TTS_ENGINE_PIPER n available)\<lparr>engine_config := cfg\<rparr>)))))
      else Some (False, ZATHURA_ERROR_UNKNOWN, Some (new_engine TTS_ENGINE_PIPER n available)))"
  by (simp add: tts_engine_init_def new_engine_def piper_functions_def Let_def piper_engine_init_def)

text \<open>
  C34. Initialisation: for the first time, with a session, it succeeds exactly if Piper is available, whatever
  other engines there are. Then the plugin is initialised, its session active, its user interface consistent,
  the callbacks for states and errors are registered, the engine idle, and a second initialisation succeeds
  and changes nothing. If Piper is not available everything is taken down again and nothing is left.
\<close>

theorem plugin_initialisation:
  assumes "penv_session env" "w_timers w = []" "0 < w_next_timer w" "os_ok (w_os w)"
  shows "if piper_available (penv_engine env) (penv_status env)
    then \<exists>st. tts_plugin_init env True (None, w) = Some (True, st) \<and> plugin_ok (procs (w_os w)) (w_files w) st \<and>
      tts_plugin_is_initialized st \<and> tts_plugin_init env2 True st = Some (True, st)
    else tts_plugin_init env True (None, w) = Some (False, (None, w))"
proof -
  obtain c where c: "snd (tts_config_load_default (decimal_point (penv_ui env)) (penv_now env) (w_files w)
      (home_dir (penv_engine env)) (Some tts_config_new)) = Some c" "\<not> config_is_modified c"
    using loaded_config by blast
  let ?fresh = "\<lparr>s_config = Some c, s_engine = None, s_audio = None, s_ui = None, s_active = False\<rparr>"
  let ?e = "new_engine TTS_ENGINE_PIPER ''Piper-TTS'' (piper_available (penv_engine env) (penv_status env)) :: piper_engine_data tts_engine"
  show ?thesis
  proof (cases "piper_available (penv_engine env) (penv_status env)")
    case False
    have "cleanup_engine (penv_engine env) (?fresh\<lparr>s_engine := Some ?e\<rparr>, w) = Some (?fresh\<lparr>s_engine := None\<rparr>, w)"
      by (rule idle_engine_goes) (simp_all add: new_engine_def)
    then have "tts_plugin_cleanup env (Some (new_plugin\<lparr>p_session := Some (?fresh\<lparr>s_engine := Some ?e\<rparr>)\<rparr>), w) = Some (None, w)"
      using unmodified_config_stays [OF c(2), of env ?fresh w]
      by (simp add: tts_plugin_cleanup_def cleanup_ui_def cleanup_audio_def)
    then show ?thesis
      using False assms(1) c(1) piper_init_effect [of "penv_engine env" "''Piper-TTS''" False "engine_config_of c"]
      by (simp add: tts_plugin_init_def new_plugin_def Let_def piper_new)
  next
    case True
    let ?ready = "snd (snd (piper_engine_init (penv_engine env) (Some (engine_config_of c)) (?e\<lparr>engine_config := engine_config_of c\<rparr>)))"
    let ?with_engine = "?fresh\<lparr>s_engine := Some ?ready\<rparr>"
    let ?start = "desk_of (tts_ui_controller_new True) (Some (audio_init (w_stream w))) w"
    let ?d = "ui_setup (penv_ui env) ?start"
    have "ui_ok ?start"
      using audio_init_in_step [of "w_stream w"] is_float_int [of 1] assms(2,3)
      by (simp add: ui_ok_def timer_ok_def desk_of_def tts_ui_controller_new_def active_ok_def audio_init_def is_active_state_def
          settings_ok_def speed_ok_def tts_audio_controller_new_def)
    then have d: "ui_ok ?d" by (rule ui_ok_setup)
    obtain a where a: "desk_audio ?d = Some a" "state_change_callback (ctl a) = Some notifications_callback"
        "g_error_callback (desk_errors ?d) = Some error_callback"
      using setup_callbacks [of ?start "audio_init (w_stream w)" "penv_ui env"] by (auto simp: desk_of_fields)
    let ?full = "?with_engine\<lparr>s_audio := Some a, s_ui := Some (ui ?d), s_active := True\<rparr>"
    let ?st = "(Some (new_plugin\<lparr>p_session := Some ?full, initialized := True\<rparr>), world_after ?d w)"
    have i: "tts_plugin_init env True (None, w) = Some (True, ?st)"
      using True assms(1) c(1) piper_init_effect [of "penv_engine env" "''Piper-TTS''" True "engine_config_of c"] a(1)
      by (simp add: tts_plugin_init_def new_plugin_def Let_def piper_new set_up_controllers_def)
    have "engine_silent (procs (w_os w)) ?ready (w_os w)"
      using assms(4) by (simp add: engine_silent_def piper_engine_init_def put_data_def Let_def)
    moreover have "desk_of (ui ?d) (Some a) (world_after ?d w) = ?d" using desk_again [of ?d w] a(1) by simp
    ultimately have "plugin_ok (procs (w_os w)) (w_files w) ?st"
      unfolding plugin_ok_def using d a c(2) by (simp add: world_after_fields)
    moreover have "tts_plugin_is_initialized ?st" by (simp add: tts_plugin_is_initialized_def)
    moreover have "tts_plugin_init env2 True ?st = Some (True, ?st)" by (simp add: tts_plugin_init_def Let_def)
    ultimately show ?thesis using True i by auto
  qed
qed

definition sample_plugin_env :: plugin_env where
  "sample_plugin_env = \<lparr>penv_ui = sample_ui_env sample_spawn, penv_engine = sample_env, penv_status = (\<lambda>command. 0),
     penv_session = True, penv_now = 0, penv_mkdir_ok = True, penv_fopen_ok = True\<rparr>"

definition sample_plugin_world :: plugin_world where
  "sample_plugin_world = \<lparr>w_files = (\<lambda>path. None), w_os = sample_os, w_stream = sample_world, w_document = Some sample_document,
     w_errors = sample_errors, w_notices = [], w_timers = [], w_next_timer = 1, stale_events = []\<rparr>"

lemma sample_plugin_facts:
  "penv_session sample_plugin_env" "w_timers sample_plugin_world = []" "0 < w_next_timer sample_plugin_world"
  "os_ok (w_os sample_plugin_world)" "piper_available (penv_engine sample_plugin_env) (penv_status sample_plugin_env)"
  by (simp_all add: sample_plugin_env_def sample_plugin_world_def sample_os_def os_ok_def piper_available_def command_exists_def
      sample_env_def)

lemma plugin_initialisation_witness:
  "\<exists>st. tts_plugin_init sample_plugin_env True (None, sample_plugin_world) = Some (True, st) \<and> tts_plugin_is_initialized st \<and>
     plugin_ok (\<lambda>pid. None) (\<lambda>path. None) st"
proof -
  have "procs (w_os sample_plugin_world) = (\<lambda>pid. None)" "w_files sample_plugin_world = (\<lambda>path. None)"
    by (simp_all add: sample_plugin_world_def sample_os_def)
  then show ?thesis
    using plugin_initialisation [OF sample_plugin_facts(1-4), of sample_plugin_env] sample_plugin_facts(5) by auto
qed

text \<open>An initialised plugin, for the clean-up.\<close>

definition sample_plugin_state :: plugin_state where
  "sample_plugin_state =
     (let d = ui_setup (sample_ui_env sample_spawn) sample_desk
      in (Some (new_plugin\<lparr>p_session := Some \<lparr>s_config = Some tts_config_new, s_engine = Some sample_piper,
            s_audio = desk_audio d, s_ui = Some (ui d), s_active = True\<rparr>, initialized := True\<rparr>),
          world_after d sample_plugin_world))"

lemma sample_plugin_ok: "plugin_ok (\<lambda>pid. None) (\<lambda>path. None) sample_plugin_state"
proof -
  let ?d = "ui_setup (sample_ui_env sample_spawn) sample_desk"
  have d: "ui_ok ?d" by (rule ui_ok_setup [OF sample_desk_facts(1)])
  obtain a where a: "desk_audio ?d = Some a" "state_change_callback (ctl a) = Some notifications_callback"
      "g_error_callback (desk_errors ?d) = Some error_callback"
    using setup_callbacks [OF sample_desk_facts(2)] by blast
  have "engine_silent (\<lambda>pid. None) sample_piper sample_os"
    by (simp add: engine_silent_def sample_defs os_ok_def Let_def)
  moreover have "desk_of (ui ?d) (Some a) (world_after ?d sample_plugin_world) = ?d"
    using desk_again [of ?d sample_plugin_world] a(1) by simp
  moreover have "\<not> config_is_modified tts_config_new" by (simp add: tts_config_new_def tts_config_set_defaults_def config_zero_def)
  ultimately show ?thesis
    using d a by (simp add: plugin_ok_def sample_plugin_state_def Let_def world_after_fields)
      (simp add: sample_plugin_world_def)
qed


end
