(* ===== verification/Reader_Refinement.thy ===== *)
theory Reader_Refinement
  imports Ui_Properties
begin

text \<open>
  The plugin as its user knows it: a reader that is stopped, playing, paused or broken, with texts it still has to
  say and what it has said. The user interface, the audio controller and the streaming engine together refine this
  reader.
\<close>

subsection \<open>The reader\<close>

text \<open>
  Whether the voice is held back is a field of its own: it is set by pausing and only taken back by resuming, not
  by stopping and starting again.
\<close>

record reader =
  phase :: tts_audio_state
  held :: bool
  unsaid :: "string list"
  said :: "string list"

definition silence :: "reader \<Rightarrow> reader" where
  "silence r = r\<lparr>phase := TTS_AUDIO_STATE_STOPPED, unsaid := []\<rparr>"

definition read_aloud :: "string list \<Rightarrow> reader \<Rightarrow> reader" where
  "read_aloud ts r = r\<lparr>phase := TTS_AUDIO_STATE_PLAYING, unsaid := ts\<rparr>"

definition hold_or_go_on :: "reader \<Rightarrow> reader" where
  "hold_or_go_on r =
     (case phase r of
        TTS_AUDIO_STATE_PLAYING \<Rightarrow> r\<lparr>phase := TTS_AUDIO_STATE_PAUSED, held := True\<rparr>
      | TTS_AUDIO_STATE_PAUSED \<Rightarrow> r\<lparr>phase := TTS_AUDIO_STATE_PLAYING, held := False\<rparr>
      | _ \<Rightarrow> r)"

definition say_next :: "write_env \<Rightarrow> reader \<Rightarrow> reader" where
  "say_next env r =
     (if held r then r
      else case unsaid r of [] \<Rightarrow> r | t # ts \<Rightarrow> r\<lparr>unsaid := ts, said := said r @ accepted env t\<rparr>)"

text \<open>The texts of the current page and of the two after it.\<close>

definition page_texts :: "zathura_document \<Rightarrow> string list" where
  "page_texts doc = map (\<lambda>sg. the (seg_text sg)) (next_three_pages doc)"

definition start_or_stop :: "zathura_document \<Rightarrow> reader \<Rightarrow> reader" where
  "start_or_stop doc r =
     (if phase r \<noteq> TTS_AUDIO_STATE_STOPPED then silence r
      else if doc_get_page doc (doc_current_page doc) = None \<or> page_texts doc = [] then r
      else read_aloud (page_texts doc) r)"

fun reader_exec :: "zathura_document \<Rightarrow> ui_op \<Rightarrow> reader \<Rightarrow> reader" where
  "reader_exec doc (U_Shortcut env action) r =
     (case action of
        TTS_SHORTCUT_TOGGLE \<Rightarrow> start_or_stop doc r
      | TTS_SHORTCUT_PAUSE_RESUME \<Rightarrow> hold_or_go_on r
      | TTS_SHORTCUT_STOP \<Rightarrow> silence r
      | _ \<Rightarrow> r)"
| "reader_exec doc (U_Command env name args) r =
     (if name = ''tts'' then start_or_stop doc r else if name = ''tts-stop'' then silence r else r)"
| "reader_exec doc (U_Timeout i) r = r"
| "reader_exec doc (U_Error c) r = r"
| "reader_exec doc (U_Feed env) r = say_next env r"

subsection \<open>The audio controller as a reader\<close>

definition voice_held :: "tts_streaming_engine option \<Rightarrow> bool" where
  "voice_held engine = (case engine of None \<Rightarrow> False | Some e \<Rightarrow> is_paused e)"

definition heard :: "audio \<Rightarrow> reader" where
  "heard s =
     \<lparr>phase = audio_state (ctl s), held = voice_held (streaming_engine (ctl s)),
      unsaid = map (text_at (mem (world s))) (queue_of (streaming_engine (ctl s))), said = channel_text (world s)\<rparr>"

text \<open>Texts that can be said wait in the queue, the engine is Piper's, and no start has failed.\<close>

definition piper_only :: "tts_streaming_engine option \<Rightarrow> bool" where
  "piper_only engine \<longleftrightarrow> (\<forall>e. engine = Some e \<longrightarrow> stream_engine_type e = TTS_ENGINE_PIPER)"

definition player_ok :: "audio \<Rightarrow> bool" where
  "player_ok s \<longleftrightarrow> audio_ok s \<and> queue_ready (mem (world s)) (queue_of (streaming_engine (ctl s))) \<and>
     piper_only (streaming_engine (ctl s)) \<and> audio_state (ctl s) \<noteq> TTS_AUDIO_STATE_ERROR \<and>
     (streaming_engine (ctl s) = None \<longrightarrow> audio_state (ctl s) = TTS_AUDIO_STATE_STOPPED)"

lemma player_stopped_quiet:
  "player_ok s \<Longrightarrow> audio_state (ctl s) = TTS_AUDIO_STATE_STOPPED \<Longrightarrow> queue_of (streaming_engine (ctl s)) = []"
  by (auto simp: player_ok_def audio_ok_def idle_queue_empty_def controller_in_step_def in_step_def queue_of_def
      split: option.splits)

text \<open>Changes of the settings, of the position or of the callback are not heard.\<close>

lemma heard_cong:
  "audio_state (ctl s') = audio_state (ctl s) \<Longrightarrow> streaming_engine (ctl s') = streaming_engine (ctl s) \<Longrightarrow> world s' = world s \<Longrightarrow>
   heard s' = heard s"
  by (simp add: heard_def)

lemma player_ok_cong:
  assumes "player_ok s" "audio_state (ctl s') = audio_state (ctl s)" "streaming_engine (ctl s') = streaming_engine (ctl s)"
    "world s' = world s" "text_segments (ctl s') = text_segments (ctl s)" "current_page (ctl s') = current_page (ctl s)"
    "current_segment (ctl s') = current_segment (ctl s)"
  shows "player_ok s'"
  using assms by (simp add: player_ok_def audio_ok_def controller_in_step_def lists_of_def position_ok_def)

lemma stop_said:
  assumes "stream_inv e" "tts_streaming_engine_stop env (e, w) = (ok, e', w')"
  shows "channel_text w' = channel_text w \<and> is_paused e' = is_paused e \<and> stream_engine_type e' = stream_engine_type e"
proof (cases "stream_state e = TTS_STREAMING_STATE_IDLE")
  case True
  then show ?thesis using assms stop_idle [of "(e, w)" env] by simp
next
  case False
  then have n: "stream_state (fst (e, w)) \<noteq> TTS_STREAMING_STATE_IDLE" by simp
  have cl: "channel_text (snd (tts_streaming_engine_cleanup_process env s)) = channel_text (snd s)" for s
    by (cases s) (simp add: tts_streaming_engine_cleanup_process_def Let_def close_fd_def split: option.split prod.split)
  have cq: "channel_text (snd (tts_streaming_engine_clear_queue s)) = channel_text (snd s)" for s
    by (cases s) (simp add: tts_streaming_engine_clear_queue_def)
  have "channel_text (snd (snd (tts_streaming_engine_stop env (e, w)))) = channel_text w"
    by (rule stop_world [OF n, of env]) (auto simp: cl cq)
  then show ?thesis
    using stop_engine [OF n, of env] stream_inv_range [OF assms(1)] assms(2) by simp
qed

lemma stop_heard:
  assumes p: "player_ok s"
  shows "heard (stop_session_body env s) = silence (heard s)" "player_ok (stop_session_body env s)"
proof -
  have a: "audio_ok s" using p by (simp add: player_ok_def)
  then have o: "owns (mem (world s)) (lists_of s) (queue_of (streaming_engine (ctl s)))" and i: "controller_in_step s"
    and q: "idle_queue_empty (streaming_engine (ctl s))" by (simp_all add: audio_ok_def)
  let ?t = "stop_session_body env s"
  note so = stop_session_owns [OF o i q, of env]
  have k: "channel_text (world ?t) = channel_text (world s) \<and>
      voice_held (streaming_engine (ctl ?t)) = voice_held (streaming_engine (ctl s)) \<and>
      piper_only (streaming_engine (ctl ?t)) \<and> (streaming_engine (ctl ?t) = None) = (streaming_engine (ctl s) = None)"
  proof (cases "streaming_engine (ctl s)")
    case (Some e)
    obtain ok e' w' where r: "tts_streaming_engine_stop env (e, world s) = (ok, e', w')" by (metis prod.collapse)
    have "stream_inv e" using i Some by (simp add: controller_in_step_def in_step_def)
    then show ?thesis
      using stop_said [OF _ r] p Some
      by (simp add: stop_session_world stop_session_engine stop_streaming_session_def r voice_held_def piper_only_def player_ok_def)
  qed (simp add: stop_session_world stop_session_engine stop_streaming_session_def voice_held_def piper_only_def)
  have st: "audio_state (ctl ?t) = TTS_AUDIO_STATE_STOPPED" by (simp add: stop_session_ctl)
  show "heard ?t = silence (heard s)" using so k st by (simp add: heard_def silence_def)
  show "player_ok ?t"
    using stop_session_ok [OF a, of env] so k st by (simp add: player_ok_def queue_ready_def holds_segments_def)
qed

lemma pause_heard:
  assumes p: "player_ok s" and st: "audio_state (ctl s) = TTS_AUDIO_STATE_PLAYING"
  shows "heard (snd (pause_session_body s)) = hold_or_go_on (heard s)" "player_ok (snd (pause_session_body s))"
proof -
  have a: "audio_ok s" using p by (simp add: player_ok_def)
  obtain e where e: "streaming_engine (ctl s) = Some e" "stream_state e = TTS_STREAMING_STATE_ACTIVE"
    using p st by (auto simp: player_ok_def audio_ok_def controller_in_step_def in_step_def split: option.splits)
  obtain e' w' where r: "tts_streaming_engine_pause (e, world s) = (True, e', w')"
      "e' = e\<lparr>is_paused := True, stream_state := TTS_STREAMING_STATE_PAUSED\<rparr>" "mem w' = mem (world s)" "channel_text w' = channel_text (world s)"
    using e(2) by (simp add: pause_cases tts_streaming_engine_set_state_def)
  let ?s = "s\<lparr>ctl := (ctl s)\<lparr>streaming_engine := Some e'\<rparr>, world := w'\<rparr>"
  have t: "snd (pause_session_body s) = snd (set_state_body TTS_AUDIO_STATE_PAUSED ?s)"
    by (simp add: pause_session_body_def e(1) r(1))
  have v: "valid_transition (audio_state (ctl ?s)) TTS_AUDIO_STATE_PAUSED" using st by (simp add: valid_transition_def)
  show "heard (snd (pause_session_body s)) = hold_or_go_on (heard s)"
    unfolding t using st e v by (simp add: heard_def hold_or_go_on_def set_state_fields r voice_held_def queue_of_def)
  show "player_ok (snd (pause_session_body s))"
    using pause_ok [OF a] p e v unfolding t
    by (simp add: player_ok_def set_state_fields r piper_only_def queue_of_def)
qed

lemma resume_heard:
  assumes p: "player_ok s" and st: "audio_state (ctl s) = TTS_AUDIO_STATE_PAUSED"
  shows "heard (snd (resume_session_body s)) = hold_or_go_on (heard s)" "player_ok (snd (resume_session_body s))"
proof -
  have a: "audio_ok s" using p by (simp add: player_ok_def)
  obtain e where e: "streaming_engine (ctl s) = Some e" "stream_state e = TTS_STREAMING_STATE_PAUSED"
    using p st by (auto simp: player_ok_def audio_ok_def controller_in_step_def in_step_def split: option.splits)
  obtain e' w' where r: "tts_streaming_engine_resume (e, world s) = (True, e', w')"
      "e' = e\<lparr>is_paused := False, stream_state := TTS_STREAMING_STATE_ACTIVE\<rparr>" "mem w' = mem (world s)" "channel_text w' = channel_text (world s)"
    using e(2) by (simp add: resume_cases tts_streaming_engine_set_state_def)
  let ?s = "s\<lparr>ctl := (ctl s)\<lparr>streaming_engine := Some e'\<rparr>, world := w'\<rparr>"
  have t: "snd (resume_session_body s) = snd (set_state_body TTS_AUDIO_STATE_PLAYING ?s)"
    by (simp add: resume_session_body_def e(1) r(1))
  have v: "valid_transition (audio_state (ctl ?s)) TTS_AUDIO_STATE_PLAYING" using st by (simp add: valid_transition_def)
  show "heard (snd (resume_session_body s)) = hold_or_go_on (heard s)"
    unfolding t using st e v by (simp add: heard_def hold_or_go_on_def set_state_fields r voice_held_def queue_of_def)
  show "player_ok (snd (resume_session_body s))"
    using resume_ok [OF a] p e v unfolding t
    by (simp add: player_ok_def set_state_fields r piper_only_def queue_of_def)
qed

text \<open>A round of the feeder says the next text, unless the voice is held or nothing is left.\<close>

lemma feeder_round_waits:
  "should_stop_feeding e \<or> text_queue e = [] \<or> is_paused e \<Longrightarrow> snd (feeder_round env (e, w)) = (e, w)"
  by (auto simp: feeder_round_def split: list.split)

lemma feed_heard:
  assumes p: "player_ok s"
  shows "heard (feed_body env s) = say_next env (heard s)" "player_ok (feed_body env s)"
proof -
  have "heard (feed_body env s) = say_next env (heard s) \<and> queue_ready (mem (world (feed_body env s)))
      (queue_of (streaming_engine (ctl (feed_body env s)))) \<and> piper_only (streaming_engine (ctl (feed_body env s))) \<and>
    (streaming_engine (ctl (feed_body env s)) = None) = (streaming_engine (ctl s) = None)"
  proof (cases "streaming_engine (ctl s)")
    case None
    then show ?thesis
      using p by (simp add: feed_body_def heard_def say_next_def queue_of_def player_ok_def)
  next
    case (Some e)
    have q: "queue_ready (mem (world s)) (text_queue e)" using p Some by (simp add: player_ok_def queue_of_def)
    show ?thesis
    proof (cases "text_queue e = [] \<or> is_paused e")
      case True
      then have "feed_body env s = s"
        using feeder_round_waits [of e env "world s"] Some by (auto simp: feed_body_def)
      then show ?thesis
        using True Some p by (auto simp: heard_def say_next_def queue_of_def voice_held_def player_ok_def)
    next
      case False
      then have "audio_state (ctl s) \<noteq> TTS_AUDIO_STATE_STOPPED"
        using player_stopped_quiet [OF p] Some by (auto simp: queue_of_def)
      then have f: "feeding e"
        using p Some False
        by (cases "audio_state (ctl s)")
          (auto simp: player_ok_def audio_ok_def controller_in_step_def in_step_def feeding_def stream_inv_def)
      obtain b bs where b: "text_queue e = b # bs" using False by (cases "text_queue e") auto
      obtain sg t where t: "segs (mem (world s)) b = Some sg" "seg_text sg = Some t" "segment_text_ok t" "text_at (mem (world s)) b = t"
        using queue_ready_hd [of "mem (world s)" b bs] q b by auto
      let ?m = "(mem (world s))\<lparr>segs := (segs (mem (world s)))(b := None)\<rparr>"
      let ?w = "(write_text env t (world s))\<lparr>mem := ?m\<rparr>"
      have r: "feed_body env s = s\<lparr>ctl := (ctl s)\<lparr>streaming_engine := Some (e\<lparr>text_queue := bs\<rparr>)\<rparr>, world := ?w\<rparr>"
        using feeder_round_ready [OF f b t(1-3), of env] Some by (simp add: feed_body_def)
      have o: "map (text_at ?m) bs = map (text_at (mem (world s))) bs"
        using q b by (auto simp: text_at_def queue_ready_def holds_segments_def)
      show ?thesis
        using r o b t Some False p queue_ready_tail [of "mem (world s)" b bs] q
        by (simp add: heard_def say_next_def queue_of_def voice_held_def channel_text_write piper_only_def player_ok_def)
    qed
  qed
  then show "heard (feed_body env s) = say_next env (heard s)" "player_ok (feed_body env s)"
    using p feed_ok [of s env] by (simp_all add: player_ok_def feed_fields)
qed

subsection \<open>Starting\<close>

text \<open>What the operating system has to grant for a start to succeed: a pipe and a child.\<close>

definition starts :: "spawn_env \<Rightarrow> bool" where
  "starts sp \<longleftrightarrow> env_pipe sp \<noteq> None \<and> 0 < env_fork sp"

lemma start_engine_said:
  assumes "starts sp" "stream_state e = TTS_STREAMING_STATE_IDLE" "stream_engine_type e = TTS_ENGINE_PIPER"
    and r: "tts_streaming_engine_start sp (e, w) = (ok, e', w')"
  shows "ok \<and> channel_text w' = channel_text w \<and> is_paused e' = is_paused e \<and> stream_engine_type e' = TTS_ENGINE_PIPER"
proof -
  let ?s = "tts_streaming_engine_set_state TTS_STREAMING_STATE_STARTING (e, w)"
  obtain r wr where p: "env_pipe sp = Some (r, wr)" using assms(1) by (auto simp: starts_def)
  obtain e1 w1 where s1: "?s = (e1, w1)" by (metis prod.collapse)
  have e1: "e1 = e\<lparr>stream_state := TTS_STREAMING_STATE_STARTING\<rparr>" "channel_text w1 = channel_text w"
    using s1 set_state_fst [of TTS_STREAMING_STATE_STARTING "(e, w)"] set_state_mem(5) [of TTS_STREAMING_STATE_STARTING "(e, w)"]
    by simp_all
  obtain c where c: "stream_command sp e1 = Some c"
    using assms(3) by (cases "env_pyproject sp") (simp_all add: stream_command_def e1 Let_def)
  obtain e2 w2 where sp: "tts_streaming_engine_spawn_process sp (e1, w1) = (True, e2, w2)" "channel_text w2 = channel_text w1"
    using p c assms(1) by (simp add: tts_streaming_engine_spawn_process_def starts_def Let_def close_fd_def)
  have "tts_streaming_engine_start sp (e, w) = (True, tts_streaming_engine_set_state TTS_STREAMING_STATE_ACTIVE
      (e2\<lparr>should_stop_feeding := False, feeder_thread := True, should_stop_audio := False, audio_thread := True\<rparr>, w2))"
    unfolding tts_streaming_engine_start_def s1 using assms(2) sp(1) by simp
  then have ok: "ok" "channel_text w' = channel_text w"
    using r e1 sp(2) by (auto simp: tts_streaming_engine_set_state_def split: if_splits)
  have i: "stream_state (fst (e, w)) = TTS_STREAMING_STATE_IDLE" using assms(2) by simp
  show ?thesis using ok start_engine(1) [OF r i ok(1)] assms(3) by (simp add: spawned_engine_def Let_def)
qed

lemma queue_copy_said: "channel_text (snd (queue_copy a st)) = channel_text (snd st)"
  by (cases st)
    (auto simp: queue_copy_def tts_streaming_engine_queue_segment_def Let_def split: option.split prod.split)

lemma queue_loop_said: "channel_text (snd (queue_loop as st)) = channel_text (snd st)"
  by (induction as st rule: queue_loop.induct) (simp_all add: queue_copy_said)

lemma same_engine_fields:
  "e\<lparr>text_queue := []\<rparr> = e'\<lparr>text_queue := []\<rparr> \<Longrightarrow> is_paused e = is_paused e' \<and> stream_engine_type e = stream_engine_type e'"
  by (cases e; cases e') simp

lemma start_streaming_said:
  assumes sp: "starts sp" and s: "in_step TTS_AUDIO_STATE_STOPPED (streaming_engine (ctl s))" "piper_only (streaming_engine (ctl s))"
    and r: "start_streaming_session sp l s = (ok, s')"
  shows "ok \<and> channel_text (world s') = channel_text (world s) \<and> piper_only (streaming_engine (ctl s')) \<and>
    voice_held (streaming_engine (ctl s')) = voice_held (streaming_engine (ctl s)) \<and> streaming_engine (ctl s') \<noteq> None"
proof -
  define e0 where "e0 = (case streaming_engine (ctl s) of None \<Rightarrow> tts_streaming_engine_new TTS_ENGINE_PIPER | Some e \<Rightarrow> e)"
  have e0: "stream_state e0 = TTS_STREAMING_STATE_IDLE" "stream_engine_type e0 = TTS_ENGINE_PIPER"
    "is_paused e0 = voice_held (streaming_engine (ctl s))"
    using s by (auto simp: e0_def in_step_def piper_only_def voice_held_def tts_streaming_engine_new_def split: option.splits)
  obtain started e1 w1 where st: "tts_streaming_engine_start sp (e0, world s) = (started, e1, w1)" by (metis prod.collapse)
  note x = start_engine_said [OF sp e0(1,2) st]
  obtain originals m where lr: "list_read l (mem w1) = (originals, m)" by force
  obtain e2 w2 where q: "queue_loop originals (e1, w1\<lparr>mem := m\<rparr>) = (e2, w2)" by force
  have s': "ok \<and> s' = s\<lparr>ctl := (ctl s)\<lparr>streaming_engine := Some e2\<rparr>, world := w2\<rparr>"
    using r x unfolding start_streaming_session_def e0_def [symmetric] Let_def st by (simp add: lr q)
  have "channel_text w2 = channel_text w1" using queue_loop_said [of originals "(e1, w1\<lparr>mem := m\<rparr>)"] q by simp
  moreover have "is_paused e2 = is_paused e1 \<and> stream_engine_type e2 = stream_engine_type e1"
    using queue_loop_engine [of originals "(e1, w1\<lparr>mem := m\<rparr>)"] q by (intro same_engine_fields) simp
  ultimately show ?thesis using s' x e0(3) by (simp add: piper_only_def voice_held_def)
qed

lemma before_play_said:
  "audio_state (ctl s) = TTS_AUDIO_STATE_STOPPED \<Longrightarrow>
   streaming_engine (ctl (before_play env l s)) = streaming_engine (ctl s) \<and>
   channel_text (world (before_play env l s)) = channel_text (world s)"
  by (simp add: before_play_def Let_def set_first_position_def split: option.split prod.split list.split)

lemma start_session_said:
  assumes sp: "starts sp" and i: "controller_in_step s" "audio_state (ctl s) = TTS_AUDIO_STATE_STOPPED"
    and po: "piper_only (streaming_engine (ctl s))" and r: "start_session_body sp env (Some l) s = (ok, s')"
  shows "ok \<and> channel_text (world s') = channel_text (world s) \<and> piper_only (streaming_engine (ctl s')) \<and>
    voice_held (streaming_engine (ctl s')) = voice_held (streaming_engine (ctl s)) \<and> streaming_engine (ctl s') \<noteq> None"
proof -
  let ?b = "before_play env l s"
  note b = before_play_in_step [OF i(1), of env l] and bs = before_play_said [OF i(2), of env l]
  obtain s5 where s5: "set_state_body TTS_AUDIO_STATE_PLAYING ?b = (True, s5)" "world s5 = world ?b"
    "ctl s5 = (ctl ?b)\<lparr>audio_state := TTS_AUDIO_STATE_PLAYING\<rparr>"
    using set_state_playing [OF b(1)] by blast
  obtain r6 s6 where s6: "start_streaming_session sp l s5 = (r6, s6)" by force
  have "in_step TTS_AUDIO_STATE_STOPPED (streaming_engine (ctl s5))" "piper_only (streaming_engine (ctl s5))"
    using b(2) bs po by (simp_all add: s5)
  note x = start_streaming_said [OF sp this s6]
  have "ok \<and> s' = s6" using r x by (simp add: start_session_before_play s5(1) s6)
  then show ?thesis using x bs by (simp add: s5)
qed

text \<open>Handing a new list to a stopped player makes it read the list aloud.\<close>

lemma start_heard:
  assumes p: "player_ok s" "audio_state (ctl s) = TTS_AUDIO_STATE_STOPPED" and sp: "starts sp"
    and sgs: "list_all not_boundary sgs" "list_all speakable sgs"
    and n: "new_list sgs s = (l, s1)" and r: "start_session_body sp env (Some l) s1 = (ok, s')"
  shows "ok" "heard s' = read_aloud (map (\<lambda>sg. the (seg_text sg)) sgs) (heard s)" "player_ok s'"
proof -
  have a: "audio_ok s" using p(1) by (simp add: player_ok_def)
  have c: "ctl s1 = ctl s" "channel_text (world s1) = channel_text (world s)"
    using new_list_ctl [of sgs s] n by (auto simp: new_list_def split: prod.splits)
  have i: "controller_in_step s1" "audio_state (ctl s1) = TTS_AUDIO_STATE_STOPPED" "piper_only (streaming_engine (ctl s1))"
    using p by (simp_all add: c player_ok_def audio_ok_def controller_in_step_def)
  note x = start_session_said [OF sp i r] and y = start_ok [OF a sgs(1) n r]
  let ?q = "queue_of (streaming_engine (ctl s'))"
  have "filter speakable sgs = sgs" using sgs(2) by (simp add: list_all_iff)
  then have q: "map (segs (mem (world s'))) ?q = map Some sgs" using x y by simp
  have "map (text_at (mem (world s'))) ?q = map (\<lambda>sg. the (seg_text (the sg))) (map (segs (mem (world s'))) ?q)"
    by (simp add: text_at_def)
  then have t: "map (text_at (mem (world s'))) ?q = map (\<lambda>sg. the (seg_text sg)) sgs" unfolding q by simp
  have "\<exists>sg t. segs (mem (world s')) b = Some sg \<and> seg_text sg = Some t \<and> segment_text_ok t" if "b \<in> set ?q" for b
  proof -
    have "segs (mem (world s')) b \<in> set (map Some sgs)" using that unfolding q [symmetric] by simp
    then show ?thesis using sgs(2) by (auto simp: list_all_iff speakable_def split: option.splits)
  qed
  moreover have "holds_segments (mem (world s')) ?q" using y by (auto simp: audio_ok_def owns_def holds_append)
  ultimately have "queue_ready (mem (world s')) ?q" unfolding queue_ready_def by blast
  then show "ok" "heard s' = read_aloud (map (\<lambda>sg. the (seg_text sg)) sgs) (heard s)" "player_ok s'"
    using x y t by (simp_all add: player_ok_def heard_def read_aloud_def c)
qed

subsection \<open>The handlers as the reader's operations\<close>

lemma with_audio_result:
  assumes "desk_audio d = Some s" "operation (Some s) = (r, Some s')"
  shows "\<exists>d'. with_audio operation d = (r, d') \<and> desk_audio d' = Some s' \<and> document d' = document d"
  using assms by (simp add: with_audio_def deliver_events_facts)

text \<open>What a step on the desk is to the reader.\<close>

definition acts_as :: "(reader \<Rightarrow> reader) \<Rightarrow> audio \<Rightarrow> desk \<Rightarrow> desk \<Rightarrow> bool" where
  "acts_as f s d d' \<longleftrightarrow> document d' = document d \<and> (\<exists>s'. desk_audio d' = Some s' \<and> player_ok s' \<and> heard s' = f (heard s))"

lemma acts_as_same:
  "player_ok s \<Longrightarrow> document d' = document d \<Longrightarrow> desk_audio d' = Some s \<Longrightarrow> acts_as (\<lambda>r. r) s d d'"
  by (simp add: acts_as_def)

lemma acts_as_status [simp]: "acts_as f s d (status m t d') = acts_as f s d d'"
  by (simp add: acts_as_def)

lemma acts_as_active [simp]: "acts_as f s d (set_active b d') = acts_as f s d d'"
  by (simp add: acts_as_def set_active_def)

lemma acts_as_id: "desk_audio d = Some s \<Longrightarrow> player_ok s \<Longrightarrow> acts_as (\<lambda>r. r) s d d"
  by (rule acts_as_same) simp_all

lemma stop_acts:
  assumes "desk_audio d = Some s" "player_ok s"
  shows "acts_as silence s d (snd (stop_reading env d))"
proof -
  let ?op = "\<lambda>a. ((), tts_audio_controller_stop_session (env_reap env) a)"
  have "?op (Some s) = ((), Some (stop_session_body (env_reap env) s))" by (simp add: tts_audio_controller_stop_session_def)
  from with_audio_result [where operation = ?op, OF assms(1) this]
  obtain d' where "with_audio ?op d = ((), d')" "desk_audio d' = Some (stop_session_body (env_reap env) s)" "document d' = document d"
    by blast
  then have "stop_reading env d = (True, status ''TTS: Stopped'' 2000 (set_active False d'))" "acts_as silence s d d'"
    using stop_heard [OF assms(2), of "env_reap env"] by (simp_all add: stop_reading_def acts_as_def)
  then show ?thesis by simp
qed

definition readable :: "zathura_document \<Rightarrow> bool" where
  "readable doc \<longleftrightarrow> doc_current_page doc + 2 < 2 ^ 32 \<and> list_all not_boundary (next_three_pages doc)"

lemma start_acts:
  assumes d: "desk_audio d = Some s" "player_ok s" "audio_state (ctl s) = TTS_AUDIO_STATE_STOPPED" and sp: "starts (env_spawn env)"
    and sgs: "list_all not_boundary sgs" "list_all speakable sgs"
  shows "acts_as (read_aloud (map (\<lambda>sg. the (seg_text sg)) sgs)) s d (snd (start_reading env sgs s d))"
proof -
  obtain l s1 where n: "new_list sgs s = (l, s1)" by force
  let ?op = "tts_audio_controller_start_session (env_spawn env) (env_reap env) (Some l)"
  obtain ok s' where r: "start_session_body (env_spawn env) (env_reap env) (Some l) s1 = (ok, s')" by force
  note h = start_heard [OF d(2,3) sp sgs n r]
  have "?op (Some s1) = (True, Some s')" using h(1) by (simp add: tts_audio_controller_start_session_def on_controller_def r)
  from with_audio_result [where operation = ?op, OF _ this, of "d\<lparr>desk_audio := Some s1\<rparr>"]
  obtain d' where w: "with_audio ?op (d\<lparr>desk_audio := Some s1\<rparr>) = (True, d')" "desk_audio d' = Some s'" "document d' = document d"
    by auto
  have "start_reading env sgs s d = (True, status ''TTS: Started reading'' 2000 (set_active True d'))"
    by (simp add: start_reading_def n w(1))
  moreover have "acts_as (read_aloud (map (\<lambda>sg. the (seg_text sg)) sgs)) s d d'"
    using w h by (simp add: acts_as_def)
  ultimately show ?thesis by simp
qed

lemma toggle_acts:
  assumes d: "desk_audio d = Some s" "player_ok s" "document d = Some doc" and doc: "readable doc" and sp: "starts (env_spawn env)"
  shows "acts_as (start_or_stop doc) s d (snd (toggle_body env s d))"
proof (cases "audio_state (ctl s) = TTS_AUDIO_STATE_STOPPED")
  case False
  then have "toggle_body env s d = stop_reading env d"
    by (simp add: toggle_body_def tts_audio_controller_get_state_def d(1))
  moreover have "start_or_stop doc (heard s) = silence (heard s)" using False by (simp add: start_or_stop_def heard_def)
  ultimately show ?thesis using stop_acts [OF d(1,2), of env] by (simp add: acts_as_def)
next
  case True
  have ph: "phase (heard s) = TTS_AUDIO_STATE_STOPPED" using True by (simp add: heard_def)
  show ?thesis
  proof (cases "doc_get_page doc (doc_current_page doc)")
    case None
    then have "snd (toggle_body env s d) = status ''TTS: Cannot access current page'' 2000 d"
      using True by (simp add: toggle_body_def tts_audio_controller_get_state_def d(1,3))
    moreover have "start_or_stop doc (heard s) = heard s" using None ph by (simp add: start_or_stop_def)
    ultimately show ?thesis using acts_as_id [OF d(1,2)] by (simp add: acts_as_def)
  next
    case (Some p)
    have t: "toggle_body env s d = (if next_three_pages doc = [] then (False, status ''TTS: No readable text found'' 2000 d)
        else start_reading env (next_three_pages doc) s d)"
      using toggle_stopped [OF d(1) True d(3) Some, of env] doc by (simp add: readable_def)
    show ?thesis
    proof (cases "next_three_pages doc = []")
      case True
      then have "start_or_stop doc (heard s) = heard s" using Some ph by (simp add: start_or_stop_def page_texts_def)
      then show ?thesis using acts_as_id [OF d(1,2)] t True by (simp add: acts_as_def)
    next
      case False
      then have "start_or_stop doc (heard s) = read_aloud (page_texts doc) (heard s)"
        using Some ph by (simp add: start_or_stop_def page_texts_def)
      moreover have "acts_as (read_aloud (page_texts doc)) s d (snd (start_reading env (next_three_pages doc) s d))"
        unfolding page_texts_def using start_acts [OF d(1,2) True sp _ next_three_speakable] doc by (simp add: readable_def)
      ultimately show ?thesis using t False by (simp add: acts_as_def)
    qed
  qed
qed

lemma pause_resume_acts:
  assumes d: "desk_audio d = Some s" "player_ok s"
  shows "acts_as hold_or_go_on s d (snd (pause_resume_body s d))"
proof (cases "audio_state (ctl s)")
  case TTS_AUDIO_STATE_PLAYING
  let ?op = tts_audio_controller_pause_session
  obtain ok s' where r: "pause_session_body s = (ok, s')" by force
  then have "?op (Some s) = (ok, Some s')" by (simp add: tts_audio_controller_pause_session_def on_controller_def)
  from with_audio_result [where operation = ?op, OF d(1) this]
  obtain d' where "with_audio ?op d = (ok, d')" "desk_audio d' = Some s'" "document d' = document d" by blast
  moreover from this have "acts_as hold_or_go_on s d d'"
    using pause_heard [OF d(2) TTS_AUDIO_STATE_PLAYING] by (simp add: acts_as_def r)
  ultimately show ?thesis
    by (simp add: pause_resume_body_def tts_audio_controller_get_state_def d(1) TTS_AUDIO_STATE_PLAYING)
next
  case TTS_AUDIO_STATE_PAUSED
  let ?op = tts_audio_controller_resume_session
  obtain ok s' where r: "resume_session_body s = (ok, s')" by force
  then have "?op (Some s) = (ok, Some s')" by (simp add: tts_audio_controller_resume_session_def on_controller_def)
  from with_audio_result [where operation = ?op, OF d(1) this]
  obtain d' where "with_audio ?op d = (ok, d')" "desk_audio d' = Some s'" "document d' = document d" by blast
  moreover from this have "acts_as hold_or_go_on s d d'"
    using resume_heard [OF d(2) TTS_AUDIO_STATE_PAUSED] by (simp add: acts_as_def r)
  ultimately show ?thesis
    by (simp add: pause_resume_body_def tts_audio_controller_get_state_def d(1) TTS_AUDIO_STATE_PAUSED)
qed (use d in \<open>simp_all add: pause_resume_body_def tts_audio_controller_get_state_def acts_as_def hold_or_go_on_def heard_def\<close>)

text \<open>Settings are changed in silence.\<close>

lemma settings_heard:
  assumes "player_ok s"
  shows "heard (upd_ctl (\<lambda>c. c\<lparr>speed_multiplier := x\<rparr>) s) = heard s" "player_ok (upd_ctl (\<lambda>c. c\<lparr>speed_multiplier := x\<rparr>) s)"
    "heard (upd_ctl (\<lambda>c. c\<lparr>volume_level := v\<rparr>) s) = heard s" "player_ok (upd_ctl (\<lambda>c. c\<lparr>volume_level := v\<rparr>) s)"
  by (rule heard_cong player_ok_cong [OF assms]; simp)+

lemma set_speed_acts:
  assumes d: "desk_audio d = Some s" "player_ok s"
  shows "acts_as (\<lambda>r. r) s d (snd (set_speed_and_tell env m1 m2 x d))"
proof -
  let ?op = "tts_audio_controller_set_speed x"
  obtain ok s' where op: "?op (Some s) = (ok, Some s')" "heard s' = heard s" "player_ok s'"
    using settings_heard(1,2) [OF d(2), of x] d(2)
    by (cases "fl_le x (Fin 0) \<or> fl_less (Fin 5) x") (auto simp: tts_audio_controller_set_speed_def)
  from with_audio_result [where operation = ?op, OF d(1) op(1)]
  obtain d' where "with_audio ?op d = (ok, d')" "desk_audio d' = Some s'" "document d' = document d" by blast
  then show ?thesis using op by (simp add: set_speed_and_tell_def acts_as_def)
qed

lemma set_volume_acts:
  assumes d: "desk_audio d = Some s" "player_ok s"
  shows "acts_as (\<lambda>r. r) s d (snd (set_volume_and_tell m1 m2 v d))"
proof -
  let ?op = "tts_audio_controller_set_volume v"
  obtain ok s' where op: "?op (Some s) = (ok, Some s')" "heard s' = heard s" "player_ok s'"
    using settings_heard(3,4) [OF d(2), of v] d(2)
    by (cases "v < 0 \<or> 100 < v") (auto simp: tts_audio_controller_set_volume_def)
  from with_audio_result [where operation = ?op, OF d(1) op(1)]
  obtain d' where "with_audio ?op d = (ok, d')" "desk_audio d' = Some s'" "document d' = document d" by blast
  then show ?thesis using op by (simp add: set_volume_and_tell_def acts_as_def)
qed

lemma on_desk_acts:
  "desk_audio d = Some s \<Longrightarrow> acts_as f s d (snd (body s d)) \<Longrightarrow> acts_as f s d (the (snd (on_desk body (Some d))))"
  by (simp add: on_desk_def case_prod_beta)

lemma on_ui_acts: "acts_as f s d (snd (body d)) \<Longrightarrow> acts_as f s d (the (snd (on_ui body (Some d))))"
  by (simp add: on_ui_def case_prod_beta)

lemma reader_exec_shortcut:
  "reader_exec doc (U_Shortcut env action) =
     (case action of
        TTS_SHORTCUT_TOGGLE \<Rightarrow> start_or_stop doc
      | TTS_SHORTCUT_PAUSE_RESUME \<Rightarrow> hold_or_go_on
      | TTS_SHORTCUT_STOP \<Rightarrow> silence
      | _ \<Rightarrow> (\<lambda>r. r))"
  by (rule ext) (simp split: tts_shortcut_action.split)

lemma shortcut_acts:
  assumes d: "desk_audio d = Some s" "player_ok s" "document d = Some doc" and doc: "readable doc" and sp: "starts (env_spawn env)"
  shows "acts_as (reader_exec doc (U_Shortcut env action)) s d (the (snd (shortcut_function action env (Some d))))"
proof -
  note same = acts_as_id [OF d(1,2)] and sound = set_speed_acts [OF d(1,2)] set_volume_acts [OF d(1,2)]
  have stub: "acts_as (\<lambda>r. r) s d (snd (segment_stub m s d))" for m using same by (simp add: segment_stub_def)
  have "acts_as (\<lambda>r. r) s d (snd (speed_up_body env s d))" "acts_as (\<lambda>r. r) s d (snd (speed_down_body env s d))"
    "acts_as (\<lambda>r. r) s d (snd (volume_up_body s d))" "acts_as (\<lambda>r. r) s d (snd (volume_down_body s d))"
    using sound by (simp_all add: speed_up_body_def speed_down_body_def volume_up_body_def volume_down_body_def Let_def)
  moreover have "acts_as (\<lambda>r. r) s d (the (snd (sc_tts_settings env (Some d))))"
    using same by (simp add: sc_tts_settings_def)
  ultimately show ?thesis
    using on_desk_acts [OF d(1)] stub toggle_acts [OF d doc sp] pause_resume_acts [OF d(1,2)] stop_acts [OF d(1,2), of env]
    by (cases action)
      (simp_all add: reader_exec_shortcut sc_tts_toggle_def sc_tts_pause_resume_def sc_tts_stop_def sc_tts_next_segment_def sc_tts_prev_segment_def
        sc_tts_speed_up_def sc_tts_speed_down_def sc_tts_volume_up_def sc_tts_volume_down_def)
qed

lemma option_commands_act:
  assumes d: "desk_audio d = Some s" "player_ok s"
  shows "acts_as (\<lambda>r. r) s d (the (snd (cmd_tts_speed env args (Some d))))"
    "acts_as (\<lambda>r. r) s d (the (snd (cmd_tts_volume env args (Some d))))"
    "acts_as (\<lambda>r. r) s d (the (snd (cmd_tts_voice env args (Some d))))"
    "acts_as (\<lambda>r. r) s d (the (snd (cmd_tts_engine env args (Some d))))"
proof -
  note same = acts_as_id [OF d] and sound = set_speed_acts [OF d] set_volume_acts [OF d]
  have "acts_as (\<lambda>r. r) s d (snd (speed_command_body env args s d))" "acts_as (\<lambda>r. r) s d (snd (volume_command_body args s d))"
    "acts_as (\<lambda>r. r) s d (snd (voice_command_body args d))" "acts_as (\<lambda>r. r) s d (snd (engine_command_body args d))"
    using same sound
    by (simp_all add: speed_command_body_def volume_command_body_def voice_command_body_def engine_command_body_def Let_def
        split: option.split)
  then show "acts_as (\<lambda>r. r) s d (the (snd (cmd_tts_speed env args (Some d))))"
    "acts_as (\<lambda>r. r) s d (the (snd (cmd_tts_volume env args (Some d))))"
    "acts_as (\<lambda>r. r) s d (the (snd (cmd_tts_voice env args (Some d))))"
    "acts_as (\<lambda>r. r) s d (the (snd (cmd_tts_engine env args (Some d))))"
    using on_desk_acts [OF d(1)] on_ui_acts
    by (simp_all add: cmd_tts_speed_def cmd_tts_volume_def cmd_tts_voice_def cmd_tts_engine_def)
qed

lemma command_acts:
  assumes d: "desk_audio d = Some s" "player_ok s" "document d = Some doc" and doc: "readable doc" and sp: "starts (env_spawn env)"
  shows "acts_as (reader_exec doc (U_Command env name args)) s d (ui_exec (U_Command env name args) d)"
proof (cases "command_function name")
  case None
  then have "name \<noteq> ''tts'' \<and> name \<noteq> ''tts-stop''" by (auto simp: command_function_def command_names_def split: if_splits)
  then show ?thesis using None acts_as_id [OF d(1,2)] by (simp add: acts_as_def)
next
  case (Some f)
  let ?n = "reader_exec doc (U_Command env name args)"
  have c: "(name = ''tts'' \<and> f = cmd_tts_toggle) \<or> (name = ''tts-stop'' \<and> f = cmd_tts_stop) \<or>
      (name \<noteq> ''tts'' \<and> name \<noteq> ''tts-stop'' \<and>
       f \<in> {cmd_tts_speed, cmd_tts_volume, cmd_tts_voice, cmd_tts_engine, cmd_tts_config, cmd_tts_status})"
    using Some by (auto simp: command_function_def command_names_def split: if_splits)
  have "acts_as (\<lambda>r. r) s d (the (snd (cmd_tts_config env args (Some d))))"
    using option_commands_act [OF d(1,2)] acts_as_id [OF d(1,2)] by (auto simp: cmd_tts_config_def split: option.split)
  moreover have "acts_as (\<lambda>r. r) s d (the (snd (cmd_tts_status env args (Some d))))"
    using shortcut_acts [OF d doc sp, of TTS_SHORTCUT_SETTINGS] by (simp add: cmd_tts_status_def reader_exec_shortcut)
  moreover have "acts_as (start_or_stop doc) s d (the (snd (cmd_tts_toggle env args (Some d))))"
    "acts_as silence s d (the (snd (cmd_tts_stop env args (Some d))))"
    using shortcut_acts [OF d doc sp, of TTS_SHORTCUT_TOGGLE] shortcut_acts [OF d doc sp, of TTS_SHORTCUT_STOP]
    by (simp_all add: cmd_tts_toggle_def cmd_tts_stop_def reader_exec_shortcut)
  ultimately have "acts_as (\<lambda>r. if name = ''tts'' then start_or_stop doc r else if name = ''tts-stop'' then silence r else r) s d
      (the (snd (f env args (Some d))))"
    using c option_commands_act [OF d(1,2)] by (auto simp: acts_as_def)
  then show ?thesis using Some by (simp add: acts_as_def)
qed

subsection \<open>The refinement\<close>

definition reads :: "zathura_document \<Rightarrow> desk \<Rightarrow> bool" where
  "reads doc d \<longleftrightarrow> readable doc \<and> document d = Some doc \<and> (\<exists>s. desk_audio d = Some s \<and> player_ok s)"

definition reader_of :: "desk \<Rightarrow> reader" where
  "reader_of d = heard (the (desk_audio d))"

text \<open>The operating system grants the pipe and the child of every start.\<close>

definition child_granted :: "ui_op \<Rightarrow> bool" where
  "child_granted op \<longleftrightarrow>
     (case op of U_Shortcut env action \<Rightarrow> starts (env_spawn env) | U_Command env name args \<Rightarrow> starts (env_spawn env) | _ \<Rightarrow> True)"

lemma ui_exec_acts:
  assumes d: "desk_audio d = Some s" "player_ok s" "document d = Some doc" and doc: "readable doc" and op: "child_granted op"
  shows "acts_as (reader_exec doc op) s d (ui_exec op d)"
proof (cases op)
  case (U_Shortcut env action)
  then show ?thesis using shortcut_acts [OF d doc, of env action] op by (simp add: child_granted_def)
next
  case (U_Command env name args)
  then show ?thesis using command_acts [OF d doc, of env name args] op by (simp add: child_granted_def)
next
  case (U_Timeout i)
  have "document (status_timeout_callback i d) = document d"
    using shows_facts(2) [OF clear_status_shows] by (simp add: status_timeout_callback_def g_source_remove_def)
  then show ?thesis using U_Timeout d by (simp add: acts_as_def timeout_shows)
next
  case (U_Error c)
  then show ?thesis using d by (simp add: acts_as_def tts_ui_error_callback_def split: option.split)
next
  case (U_Feed env)
  then show ?thesis using d feed_heard [OF d(2), of env] by (simp add: acts_as_def)
qed

interpretation reading: refined_machine ui_exec "reads doc" child_granted reader_of "reader_exec doc" for doc
proof
  fix d op
  assume "reads doc d" "child_granted op"
  then obtain s where s: "desk_audio d = Some s" "player_ok s" "document d = Some doc" "readable doc" by (auto simp: reads_def)
  from ui_exec_acts [OF s \<open>child_granted op\<close>]
  show "reads doc (ui_exec op d)" "reader_of (ui_exec op d) = reader_exec doc op (reader_of d)"
    using s by (auto simp: reads_def acts_as_def reader_of_def)
qed

definition new_reader :: "stream_world \<Rightarrow> reader" where
  "new_reader w = \<lparr>phase = TTS_AUDIO_STATE_STOPPED, held = False, unsaid = [], said = channel_text w\<rparr>"

lemma register_loop_acts: "acts_as f s d0 d \<Longrightarrow> acts_as f s d0 (snd (register_loop env ss b d))"
proof (induction ss arbitrary: b d)
  case (Cons x ss)
  then show ?case by (simp add: Let_def acts_as_def)
qed simp

lemma set_callback_acts:
  assumes "acts_as f s d0 d"
  shows "acts_as f s d0 (set_callback cb d)"
proof -
  from assms obtain s' where s': "document d = document d0" "desk_audio d = Some s'" "player_ok s'" "heard s' = f (heard s)"
    by (auto simp: acts_as_def)
  let ?s = "upd_ctl (\<lambda>c. c\<lparr>state_change_callback := Some cb\<rparr>) s'"
  have "player_ok ?s" "heard ?s = heard s'" by (rule player_ok_cong [OF s'(3)] heard_cong; simp)+
  then show ?thesis using s' by (simp add: acts_as_def set_callback_def tts_audio_controller_set_state_change_callback_def)
qed

lemma setup_acts:
  assumes d: "desk_audio d = Some s" "player_ok s"
  shows "acts_as (\<lambda>r. r) s d (ui_setup env d)"
proof -
  have 1: "acts_as (\<lambda>r. r) s d (snd (tts_ui_controller_register_shortcuts env e))" if "acts_as (\<lambda>r. r) s d e" for e
  proof -
    obtain b e1 where l: "register_loop env default_shortcuts True e = (b, e1)" by force
    then have "acts_as (\<lambda>r. r) s d e1" using register_loop_acts [OF that, of env default_shortcuts True] by simp
    then show ?thesis
      using that by (simp add: tts_ui_controller_register_shortcuts_def tts_ui_controller_check_shortcut_conflicts_def Let_def l acts_as_def)
  qed
  have 2: "acts_as (\<lambda>r. r) s d (snd (tts_ui_controller_register_commands env e))" if "acts_as (\<lambda>r. r) s d e" for e
    using that by (simp add: tts_ui_controller_register_commands_def Let_def)
  have 3: "acts_as (\<lambda>r. r) s d (snd (tts_ui_controller_init_visual_feedback e))" if "acts_as (\<lambda>r. r) s d e" for e
    using that set_callback_acts [OF that] by (simp add: tts_ui_controller_init_visual_feedback_def)
  have 4: "acts_as (\<lambda>r. r) s d (snd (tts_ui_controller_init_notifications e))" if "acts_as (\<lambda>r. r) s d e" for e
    using that set_callback_acts [OF that]
    by (simp add: tts_ui_controller_init_notifications_def tts_ui_controller_init_error_handling_def Let_def
        tts_ui_controller_notify_system_status_def) (simp add: acts_as_def)
  show ?thesis using 1 2 3 4 acts_as_id [OF d] by (simp add: ui_setup_def Let_def)
qed

lemma setup_reads:
  assumes "store_ok (mem w)" "readable doc"
  shows "reads doc (ui_setup env (ui_start session w (Some doc) errors))"
    "reader_of (ui_setup env (ui_start session w (Some doc) errors)) = new_reader w"
proof -
  let ?d = "ui_start session w (Some doc) errors"
  have d: "desk_audio ?d = Some (audio_init w)" by (simp add: ui_start_def)
  have h: "heard (audio_init w) = new_reader w"
    by (simp add: heard_def new_reader_def audio_init_def tts_audio_controller_new_def voice_held_def queue_of_def)
  have "player_ok (audio_init w)"
    using audio_init_ok [OF assms(1)]
    by (simp add: player_ok_def audio_init_def tts_audio_controller_new_def queue_of_def piper_only_def queue_ready_def holds_segments_def)
  from setup_acts [OF d this, of env] show "reads doc (ui_setup env ?d)" "reader_of (ui_setup env ?d) = new_reader w"
    using assms(2) h by (auto simp: acts_as_def reads_def reader_of_def ui_start_def)
qed

text \<open>
  C3. The plugin refines the reader: after it has been set up on a document, and after any sequence of shortcuts,
  commands, timeouts, reported errors and rounds of the feeder in which the operating system grants each start its pipe and its
  child, the playback state, whether the voice is held back, the texts that are still to be said and
  everything that has been written to the speech process are those of the reader after the same sequence.
  No text of the pages may be exactly 10000 bytes long.
\<close>

theorem plugin_refines_reader:
  assumes "store_ok (mem w)" "readable doc" "\<forall>op \<in> set ops. child_granted op"
  shows "reader_of (fold ui_exec ops (ui_setup env (ui_start session w (Some doc) errors))) =
    fold (reader_exec doc) ops (new_reader w)"
  using reading.abs_run [OF setup_reads(1) [OF assms(1,2)] assms(3)] setup_reads(2) [OF assms(1,2)] by simp

lemma sample_reader:
  "store_ok (mem sample_world)" "readable sample_document" "starts sample_spawn"
  using sample_engine_ok(2) sample_next_pages(2) by (simp_all add: readable_def sample_document_def starts_def sample_spawn_def)

lemma plugin_refines_reader_witness:
  "reader_of (fold ui_exec [U_Shortcut (sample_ui_env sample_spawn) TTS_SHORTCUT_TOGGLE, U_Feed all_normal]
     (ui_setup (sample_ui_env sample_spawn) (ui_start True sample_world (Some sample_document) sample_errors))) =
   say_next all_normal (start_or_stop sample_document (new_reader sample_world))"
  using plugin_refines_reader [OF sample_reader(1,2), of
      "[U_Shortcut (sample_ui_env sample_spawn) TTS_SHORTCUT_TOGGLE, U_Feed all_normal]"] sample_reader(3)
  by (simp add: child_granted_def sample_ui_env_def)

subsection \<open>Nothing is lost while reading\<close>

definition with_newline :: "string \<Rightarrow> string list" where
  "with_newline t = [t, [CHR 0x0A]]"

definition keeps_reading :: "ui_op \<Rightarrow> bool" where
  "keeps_reading op \<longleftrightarrow>
     (case op of
        U_Shortcut env action \<Rightarrow> action \<noteq> TTS_SHORTCUT_TOGGLE \<and> action \<noteq> TTS_SHORTCUT_STOP
      | U_Command env name args \<Rightarrow> name \<noteq> ''tts'' \<and> name \<noteq> ''tts-stop''
      | U_Feed env \<Rightarrow> text_status env = G_IO_STATUS_NORMAL \<and> text_refused env = 0 \<and> newline_status env = G_IO_STATUS_NORMAL
      | _ \<Rightarrow> True)"

definition whole_text :: "reader \<Rightarrow> string list" where
  "whole_text r = said r @ concat (map with_newline (unsaid r))"

lemma reader_keeps_text: "keeps_reading op \<Longrightarrow> whole_text (reader_exec doc op r) = whole_text r"
  by (cases op)
    (auto simp: keeps_reading_def whole_text_def hold_or_go_on_def say_next_def accepted_def with_newline_def
      split: tts_shortcut_action.split tts_audio_state.split list.split)

lemma reader_run_keeps_text: "\<forall>op \<in> set ops. keeps_reading op \<Longrightarrow> whole_text (fold (reader_exec doc) ops r) = whole_text r"
  by (induction ops arbitrary: r) (simp_all add: reader_keeps_text)

text \<open>
  C6. Nothing is lost, repeated or reordered while reading: after the toggle shortcut on a page with text, and
  after anything the user does that neither toggles nor stops, with pauses, resumes and changes of the settings at any
  time, and any number of rounds of the feeder whose texts and newlines the channel takes, what has been written to the speech process followed by what still waits is what
  had been written before, followed by the texts of the current page and of the two after it, each with a newline.
\<close>

theorem reading_loses_nothing:
  assumes "store_ok (mem w)" "readable doc" "doc_get_page doc (doc_current_page doc) \<noteq> None" "page_texts doc \<noteq> []"
    "starts (env_spawn env)" "\<forall>op \<in> set ops. child_granted op \<and> keeps_reading op"
  shows "whole_text (reader_of (fold ui_exec (U_Shortcut env TTS_SHORTCUT_TOGGLE # ops)
      (ui_setup env (ui_start session w (Some doc) errors)))) =
    channel_text w @ concat (map with_newline (page_texts doc))"
proof -
  let ?ops = "U_Shortcut env TTS_SHORTCUT_TOGGLE # ops"
  have g: "\<forall>op \<in> set ?ops. child_granted op" using assms(5,6) by (simp add: child_granted_def)
  have "reader_of (fold ui_exec ?ops (ui_setup env (ui_start session w (Some doc) errors))) =
      fold (reader_exec doc) ops (read_aloud (page_texts doc) (new_reader w))"
    using reading.abs_run [OF setup_reads(1) [OF assms(1,2)] g] setup_reads(2) [OF assms(1,2)] assms(3,4)
    by (simp add: start_or_stop_def new_reader_def)
  then show ?thesis
    using reader_run_keeps_text [of ops doc] assms(6) by (simp add: whole_text_def read_aloud_def new_reader_def)
qed

lemma reading_loses_nothing_witness:
  "whole_text (reader_of (fold ui_exec [U_Shortcut (sample_ui_env sample_spawn) TTS_SHORTCUT_TOGGLE, U_Feed all_normal]
     (ui_setup (sample_ui_env sample_spawn) (ui_start True sample_world (Some sample_document) sample_errors)))) =
   channel_text sample_world @ concat (map with_newline (page_texts sample_document))"
proof (rule reading_loses_nothing [OF sample_reader(1,2)])
  show "doc_get_page sample_document (doc_current_page sample_document) \<noteq> None" by (simp add: sample_document_def)
  show "page_texts sample_document \<noteq> []" using sample_next_pages(1) by (simp add: page_texts_def)
  show "starts (env_spawn (sample_ui_env sample_spawn))" using sample_reader(3) by (simp add: sample_ui_env_def)
  show "\<forall>op \<in> set [U_Feed all_normal]. child_granted op \<and> keeps_reading op"
    by (simp add: child_granted_def keeps_reading_def all_normal_def)
qed

end
