(* ===== verification/Glib_Queue.thy ===== *)
theory Glib_Queue
  imports Session_Machine "HOL-Library.Word" "HOL-Library.Monad_Syntax"
begin

text \<open>
  The queue of \<^verbatim>\<open>src/glib-2.76.5/glib/gqueue.c\<close> and the part of \<^verbatim>\<open>glist.c\<close> it is built on, on a heap of
  list nodes with their two links, as far as the plugin uses it and somewhat beyond: creating, freeing, clearing,
  both ends, and reversing. A step that follows a NULL link or touches a freed node has no result, and the length is
  a 32-bit number that wraps. The streaming engine keeps its queue of segments as a plain list; this is
  justified here by a simulation.
\<close>

subsection \<open>Nodes\<close>

record list_node =
  node_data :: "nat option"
  node_next :: "nat option"
  node_prev :: "nat option"

record node_heap =
  cells :: "nat \<Rightarrow> list_node option"
  fresh_node :: nat

definition load :: "nat option \<Rightarrow> node_heap \<Rightarrow> list_node option" where
  "load p h = (case p of None \<Rightarrow> None | Some a \<Rightarrow> cells h a)"

definition set_next :: "nat option \<Rightarrow> nat option \<Rightarrow> node_heap \<Rightarrow> node_heap option" where
  "set_next p v h = do { n \<leftarrow> load p h; Some (h\<lparr>cells := (cells h)(the p \<mapsto> n\<lparr>node_next := v\<rparr>)\<rparr>) }"

definition set_prev :: "nat option \<Rightarrow> nat option \<Rightarrow> node_heap \<Rightarrow> node_heap option" where
  "set_prev p v h = do { n \<leftarrow> load p h; Some (h\<lparr>cells := (cells h)(the p \<mapsto> n\<lparr>node_prev := v\<rparr>)\<rparr>) }"

definition new_node :: "nat option \<Rightarrow> nat option \<Rightarrow> nat option \<Rightarrow> node_heap \<Rightarrow> nat \<times> node_heap" where
  "new_node d nx pv h =
     (fresh_node h, h\<lparr>cells := (cells h)(fresh_node h \<mapsto> \<lparr>node_data = d, node_next = nx, node_prev = pv\<rparr>),
                      fresh_node := Suc (fresh_node h)\<rparr>)"

definition g_list_free_1 :: "nat option \<Rightarrow> node_heap \<Rightarrow> node_heap option" where
  "g_list_free_1 p h = do { n \<leftarrow> load p h; Some (h\<lparr>cells := (cells h)(the p := None)\<rparr>) }"

lemmas node_defs = load_def set_next_def set_prev_def new_node_def g_list_free_1_def

subsection \<open>Lists\<close>

partial_function (option) last_loop :: "nat option \<Rightarrow> node_heap \<Rightarrow> nat option option" where
  "last_loop p h = do { n \<leftarrow> load p h; (if node_next n = None then Some p else last_loop (node_next n) h) }"

definition g_list_last :: "nat option \<Rightarrow> node_heap \<Rightarrow> nat option option" where
  "g_list_last p h = (if p = None then Some None else last_loop p h)"

definition g_list_append :: "nat option \<Rightarrow> nat option \<Rightarrow> node_heap \<Rightarrow> (nat option \<times> node_heap) option" where
  "g_list_append p d h =
     (case new_node d None None h of
        (a, h1) \<Rightarrow>
          if p = None then Some (Some a, h1)
          else do { l \<leftarrow> g_list_last p h1; h2 \<leftarrow> set_next l (Some a) h1; h3 \<leftarrow> set_prev (Some a) l h2; Some (p, h3) })"

definition g_list_prepend :: "nat option \<Rightarrow> nat option \<Rightarrow> node_heap \<Rightarrow> (nat option \<times> node_heap) option" where
  "g_list_prepend p d h =
     (case new_node d p None h of
        (a, h1) \<Rightarrow>
          if p = None then Some (Some a, h1)
          else do {
            n \<leftarrow> load p h1;
            h2 \<leftarrow> set_prev (Some a) (node_prev n) h1;
            h3 \<leftarrow> (if node_prev n \<noteq> None then set_next (node_prev n) (Some a) h2 else Some h2);
            h4 \<leftarrow> set_prev p (Some a) h3;
            Some (Some a, h4) })"

partial_function (option) g_list_free :: "nat option \<Rightarrow> node_heap \<Rightarrow> node_heap option" where
  "g_list_free p h =
     (if p = None then Some h
      else do { n \<leftarrow> load p h; h1 \<leftarrow> g_list_free_1 p h; g_list_free (node_next n) h1 })"

partial_function (option) reverse_loop :: "nat option \<Rightarrow> nat option \<Rightarrow> node_heap \<Rightarrow> (nat option \<times> node_heap) option" where
  "reverse_loop back p h =
     (if p = None then Some (back, h)
      else do {
        n \<leftarrow> load p h;
        h1 \<leftarrow> set_next p (node_prev n) h;
        h2 \<leftarrow> set_prev p (node_next n) h1;
        reverse_loop p (node_next n) h2 })"

definition g_list_reverse :: "nat option \<Rightarrow> node_heap \<Rightarrow> (nat option \<times> node_heap) option" where
  "g_list_reverse p h = reverse_loop None p h"

subsection \<open>Queues\<close>

record g_queue =
  queue_head :: "nat option"
  queue_tail :: "nat option"
  queue_length :: "32 word"

definition g_queue_new :: g_queue where
  "g_queue_new = \<lparr>queue_head = None, queue_tail = None, queue_length = 0\<rparr>"

text \<open>A function of the queue behind a pointer that may be NULL.\<close>

type_synonym queue_state = "node_heap \<times> g_queue option"

definition on_queue :: "'r \<Rightarrow> (node_heap \<Rightarrow> g_queue \<Rightarrow> ('r \<times> node_heap \<times> g_queue) option) \<Rightarrow> queue_state \<Rightarrow> ('r \<times> queue_state) option" where
  "on_queue result_if_null body s =
     (case s of (h, queue) \<Rightarrow>
        case queue of
          None \<Rightarrow> Some (result_if_null, s)
        | Some q \<Rightarrow> do { (r, h1, q1) \<leftarrow> body h q; Some (r, h1, Some q1) })"

definition g_queue_free :: "queue_state \<Rightarrow> queue_state option" where
  "g_queue_free s =
     (case s of (h, queue) \<Rightarrow>
        case queue of None \<Rightarrow> Some s | Some q \<Rightarrow> do { h1 \<leftarrow> g_list_free (queue_head q) h; Some (h1, None) })"

definition g_queue_clear :: "queue_state \<Rightarrow> (unit \<times> queue_state) option" where
  "g_queue_clear = on_queue () (\<lambda>h q. do { h1 \<leftarrow> g_list_free (queue_head q) h; Some ((), h1, g_queue_new) })"

definition g_queue_is_empty :: "queue_state \<Rightarrow> (bool \<times> queue_state) option" where
  "g_queue_is_empty = on_queue True (\<lambda>h q. Some (queue_head q = None, h, q))"

definition g_queue_get_length :: "queue_state \<Rightarrow> (32 word \<times> queue_state) option" where
  "g_queue_get_length = on_queue 0 (\<lambda>h q. Some (queue_length q, h, q))"

definition g_queue_reverse :: "queue_state \<Rightarrow> (unit \<times> queue_state) option" where
  "g_queue_reverse = on_queue () (\<lambda>h q. do {
     (p, h1) \<leftarrow> g_list_reverse (queue_head q) h;
     Some ((), h1, q\<lparr>queue_tail := queue_head q, queue_head := p\<rparr>) })"

definition g_queue_push_head :: "nat option \<Rightarrow> queue_state \<Rightarrow> (unit \<times> queue_state) option" where
  "g_queue_push_head d = on_queue () (\<lambda>h q. do {
     (p, h1) \<leftarrow> g_list_prepend (queue_head q) d h;
     Some ((), h1, q\<lparr>queue_head := p, queue_tail := (if queue_tail q = None then p else queue_tail q),
                     queue_length := queue_length q + 1\<rparr>) })"

definition g_queue_push_tail :: "nat option \<Rightarrow> queue_state \<Rightarrow> (unit \<times> queue_state) option" where
  "g_queue_push_tail d = on_queue () (\<lambda>h q. do {
     (t, h1) \<leftarrow> g_list_append (queue_tail q) d h;
     n \<leftarrow> load t h1;
     let q1 = (if node_next n \<noteq> None then q\<lparr>queue_tail := node_next n\<rparr> else q\<lparr>queue_tail := t, queue_head := t\<rparr>);
     Some ((), h1, q1\<lparr>queue_length := queue_length q1 + 1\<rparr>) })"

definition g_queue_pop_head :: "queue_state \<Rightarrow> (nat option \<times> queue_state) option" where
  "g_queue_pop_head = on_queue None (\<lambda>h q.
     if queue_head q = None then Some (None, h, q)
     else do {
       n \<leftarrow> load (queue_head q) h;
       let q1 = q\<lparr>queue_head := node_next n\<rparr>;
       (h1, q2) \<leftarrow> (if queue_head q1 \<noteq> None then do { h1 \<leftarrow> set_prev (queue_head q1) None h; Some (h1, q1) }
                    else Some (h, q1\<lparr>queue_tail := None\<rparr>));
       h2 \<leftarrow> g_list_free_1 (queue_head q) h1;
       Some (node_data n, h2, q2\<lparr>queue_length := queue_length q2 - 1\<rparr>) })"

definition g_queue_pop_tail :: "queue_state \<Rightarrow> (nat option \<times> queue_state) option" where
  "g_queue_pop_tail = on_queue None (\<lambda>h q.
     if queue_tail q = None then Some (None, h, q)
     else do {
       n \<leftarrow> load (queue_tail q) h;
       let q1 = q\<lparr>queue_tail := node_prev n\<rparr>;
       (h1, q2) \<leftarrow> (if queue_tail q1 \<noteq> None then do { h1 \<leftarrow> set_next (queue_tail q1) None h; Some (h1, q1) }
                    else Some (h, q1\<lparr>queue_head := None\<rparr>));
       h2 \<leftarrow> g_list_free_1 (queue_tail q) h1;
       Some (node_data n, h2, q2\<lparr>queue_length := queue_length q2 - 1\<rparr>) })"

definition g_queue_peek_head :: "queue_state \<Rightarrow> (nat option \<times> queue_state) option" where
  "g_queue_peek_head = on_queue None (\<lambda>h q.
     if queue_head q = None then Some (None, h, q) else do { n \<leftarrow> load (queue_head q) h; Some (node_data n, h, q) })"

definition g_queue_peek_tail :: "queue_state \<Rightarrow> (nat option \<times> queue_state) option" where
  "g_queue_peek_tail = on_queue None (\<lambda>h q.
     if queue_tail q = None then Some (None, h, q) else do { n \<leftarrow> load (queue_tail q) h; Some (node_data n, h, q) })"

subsection \<open>What a queue looks like on the heap\<close>

definition first_of :: "nat list \<Rightarrow> nat option \<Rightarrow> nat option" where
  "first_of as n = (case as of [] \<Rightarrow> n | a # _ \<Rightarrow> Some a)"

definition last_of :: "nat option \<Rightarrow> nat list \<Rightarrow> nat option" where
  "last_of p as = (if as = [] then p else Some (last as))"

lemma end_simps [simp]:
  "first_of [] n = n" "first_of (a # as) n = Some a" "last_of p [] = p" "last_of p (as @ [a]) = Some a"
  "first_of (as @ bs) n = first_of as (first_of bs n)" "last_of p (as @ bs) = last_of (last_of p as) bs"
  "first_of as None = None \<longleftrightarrow> as = []" "last_of None as = None \<longleftrightarrow> as = []" "last_of p (a # as) = last_of (Some a) as"
  by (simp_all add: first_of_def last_of_def split: list.split)

text \<open>The nodes of a list piece, in order, between the node before it and the node after it.\<close>

fun dseg :: "(nat \<Rightarrow> list_node option) \<Rightarrow> nat option \<Rightarrow> nat list \<Rightarrow> nat option \<Rightarrow> bool" where
  "dseg c p [] n = True"
| "dseg c p (a # as) n =
     ((\<exists>d. c a = Some \<lparr>node_data = d, node_next = first_of as n, node_prev = p\<rparr>) \<and> dseg c (Some a) as n)"

lemma dseg_append: "dseg c p (as @ bs) n \<longleftrightarrow> dseg c p as (first_of bs n) \<and> dseg c (last_of p as) bs n"
  by (induction as arbitrary: p) auto

lemma dseg_frame: "dseg c p as n \<Longrightarrow> (\<And>a. a \<in> set as \<Longrightarrow> c' a = c a) \<Longrightarrow> dseg c' p as n"
  by (induction as arbitrary: p) auto

lemma dseg_allocated: "dseg c p as n \<Longrightarrow> a \<in> set as \<Longrightarrow> c a \<noteq> None"
  by (induction as arbitrary: p) auto

definition queue_nodes :: "(nat \<Rightarrow> list_node option) \<Rightarrow> node_heap \<Rightarrow> g_queue \<Rightarrow> nat list \<Rightarrow> bool" where
  "queue_nodes others h q as \<longleftrightarrow>
     distinct as \<and> dseg (cells h) None as None \<and> queue_head q = first_of as None \<and> queue_tail q = last_of None as \<and>
     queue_length q = of_nat (length as) \<and> (\<forall>a. a \<notin> set as \<longrightarrow> cells h a = others a) \<and> (\<forall>a \<in> set as. others a = None) \<and>
     (\<forall>a. cells h a \<noteq> None \<longrightarrow> a < fresh_node h)"

definition data_of :: "node_heap \<Rightarrow> nat list \<Rightarrow> nat option list" where
  "data_of h as = map (\<lambda>a. node_data (the (cells h a))) as"

lemma data_of_frame: "(\<And>a. a \<in> set as \<Longrightarrow> cells h' a = cells h a) \<Longrightarrow> data_of h' as = data_of h as"
  by (simp add: data_of_def)

lemma fresh_facts:
  assumes "queue_nodes others h q as"
  shows "cells h (fresh_node h) = None" "fresh_node h \<notin> set as" "others (fresh_node h) = None"
proof -
  show f: "cells h (fresh_node h) = None" using assms unfolding queue_nodes_def by blast
  show n: "fresh_node h \<notin> set as" using assms f dseg_allocated [of "cells h" None as None] unfolding queue_nodes_def by blast
  then show "others (fresh_node h) = None" using assms f unfolding queue_nodes_def by metis
qed

subsection \<open>What the functions do\<close>

lemma push_tail_effect:
  assumes i: "queue_nodes others h q as"
  shows "\<exists>h' q' a. g_queue_push_tail d (h, Some q) = Some ((), h', Some q') \<and> queue_nodes others h' q' (as @ [a]) \<and>
    data_of h' (as @ [a]) = data_of h as @ [d]"
proof -
  note f = fresh_facts [OF i]
  let ?a = "fresh_node h"
  show ?thesis
  proof (cases as rule: rev_cases)
    case Nil
    then show ?thesis
      using i f by (auto simp: g_queue_push_tail_def on_queue_def g_list_append_def new_node_def queue_nodes_def load_def data_of_def
          less_Suc_eq)
  next
    case (snoc bs l)
    obtain x where l: "cells h l = Some \<lparr>node_data = x, node_next = None, node_prev = last_of None bs\<rparr>"
      and bs: "dseg (cells h) None bs (Some l)"
      using i snoc by (auto simp: queue_nodes_def dseg_append)
    let ?c = "(cells h)(?a \<mapsto> \<lparr>node_data = d, node_next = None, node_prev = Some l\<rparr>,
                        l \<mapsto> \<lparr>node_data = x, node_next = Some ?a, node_prev = last_of None bs\<rparr>)"
    let ?h = "h\<lparr>cells := ?c, fresh_node := Suc ?a\<rparr>" and ?q = "q\<lparr>queue_tail := Some ?a, queue_length := queue_length q + 1\<rparr>"
    have la: "l \<noteq> ?a" "l \<notin> set bs" "?a \<notin> set bs" using f(2) snoc i by (auto simp: queue_nodes_def)
    have t: "queue_tail q = Some l" using i snoc by (simp add: queue_nodes_def)
    have r: "g_queue_push_tail d (h, Some q) = Some ((), ?h, Some ?q)"
      using la l t
      by (simp add: g_queue_push_tail_def on_queue_def g_list_append_def g_list_last_def last_loop.simps node_defs fun_upd_twist)
    have "dseg ?c None bs (Some l)" by (rule dseg_frame [OF bs]) (use la in auto)
    then have "dseg ?c None (as @ [?a]) None" using la snoc by (simp add: dseg_append)
    moreover have "queue_nodes others ?h ?q (as @ [?a])"
      using i f la l snoc calculation by (auto simp: queue_nodes_def less_Suc_eq)
    moreover have "data_of ?h (as @ [?a]) = data_of h as @ [d]" using la l snoc by (auto simp: data_of_def)
    ultimately show ?thesis using r by blast
  qed
qed

lemma pop_head_effect:
  assumes i: "queue_nodes others h q as"
  shows "\<exists>h' q'. g_queue_pop_head (h, Some q) = Some (case data_of h as of [] \<Rightarrow> None | d # _ \<Rightarrow> d, h', Some q') \<and>
    queue_nodes others h' q' (tl as) \<and> data_of h' (tl as) = tl (data_of h as)"
proof (cases as)
  case Nil
  then show ?thesis using i by (auto simp: g_queue_pop_head_def on_queue_def queue_nodes_def data_of_def)
next
  case (Cons a bs)
  obtain x where a: "cells h a = Some \<lparr>node_data = x, node_next = first_of bs None, node_prev = None\<rparr>"
    and bs: "dseg (cells h) (Some a) bs None" "a \<notin> set bs" "distinct bs"
    using i Cons by (auto simp: queue_nodes_def)
  have hd: "queue_head q = Some a" using i Cons by (simp add: queue_nodes_def)
  have len: "queue_length q - 1 = of_nat (length bs)" using i Cons by (simp add: queue_nodes_def)
  show ?thesis
  proof (cases bs)
    case Nil
    let ?h = "h\<lparr>cells := (cells h)(a := None)\<rparr>" and ?q = "q\<lparr>queue_head := None, queue_tail := None, queue_length := queue_length q - 1\<rparr>"
    have "g_queue_pop_head (h, Some q) = Some (x, ?h, Some ?q)"
      using a hd Nil by (simp add: g_queue_pop_head_def on_queue_def node_defs)
    moreover have "queue_nodes others ?h ?q []" using i Cons Nil len by (auto simp: queue_nodes_def)
    ultimately show ?thesis using a Cons Nil by (auto simp: data_of_def)
  next
    case (Cons b cs)
    obtain y where b: "cells h b = Some \<lparr>node_data = y, node_next = first_of cs None, node_prev = Some a\<rparr>"
      and cs: "dseg (cells h) (Some b) cs None" using bs Cons by auto
    let ?c = "(cells h)(b \<mapsto> \<lparr>node_data = y, node_next = first_of cs None, node_prev = None\<rparr>, a := None)"
    let ?h = "h\<lparr>cells := ?c\<rparr>" and ?q = "q\<lparr>queue_head := Some b, queue_length := queue_length q - 1\<rparr>"
    have ab: "a \<noteq> b" "b \<notin> set cs" "a \<notin> set cs" using bs Cons by auto
    have r: "g_queue_pop_head (h, Some q) = Some (x, ?h, Some ?q)"
      using a b ab hd Cons by (simp add: g_queue_pop_head_def on_queue_def node_defs)
    have "dseg ?c (Some b) cs None" by (rule dseg_frame [OF cs]) (use ab in auto)
    moreover have "queue_tail q = last_of None bs" using i \<open>as = a # bs\<close> Cons by (simp add: queue_nodes_def)
    ultimately have "queue_nodes others ?h ?q bs"
      using i \<open>as = a # bs\<close> Cons ab bs len b by (auto simp: queue_nodes_def)
    moreover have "data_of ?h bs = data_of h bs" using Cons ab b by (auto simp: data_of_def)
    ultimately show ?thesis using r a \<open>as = a # bs\<close> by (auto simp: data_of_def)
  qed
qed

lemma push_head_effect:
  assumes i: "queue_nodes others h q as"
  shows "\<exists>h' q' a. g_queue_push_head d (h, Some q) = Some ((), h', Some q') \<and> queue_nodes others h' q' (a # as) \<and>
    data_of h' (a # as) = d # data_of h as"
proof -
  note f = fresh_facts [OF i]
  let ?a = "fresh_node h"
  show ?thesis
  proof (cases as)
    case Nil
    then show ?thesis
      using i f by (auto simp: g_queue_push_head_def on_queue_def g_list_prepend_def new_node_def queue_nodes_def data_of_def
          less_Suc_eq)
  next
    case (Cons b bs)
    obtain x where b: "cells h b = Some \<lparr>node_data = x, node_next = first_of bs None, node_prev = None\<rparr>"
      and bs: "dseg (cells h) (Some b) bs None"
      using i Cons by (auto simp: queue_nodes_def)
    let ?c = "(cells h)(?a \<mapsto> \<lparr>node_data = d, node_next = Some b, node_prev = None\<rparr>,
                        b \<mapsto> \<lparr>node_data = x, node_next = first_of bs None, node_prev = Some ?a\<rparr>)"
    let ?h = "h\<lparr>cells := ?c, fresh_node := Suc ?a\<rparr>" and ?q = "q\<lparr>queue_head := Some ?a, queue_length := queue_length q + 1\<rparr>"
    have ba: "b \<noteq> ?a" "b \<notin> set bs" "?a \<notin> set bs" using f(2) Cons i by (auto simp: queue_nodes_def)
    have t: "queue_head q = Some b" "queue_tail q = last_of None as" "queue_tail q \<noteq> None"
      using i Cons by (auto simp: queue_nodes_def last_of_def)
    have r: "g_queue_push_head d (h, Some q) = Some ((), ?h, Some ?q)"
      using ba b t by (auto simp: g_queue_push_head_def on_queue_def g_list_prepend_def node_defs fun_upd_twist)
    have "dseg ?c (Some b) bs None" by (rule dseg_frame [OF bs]) (use ba in auto)
    then have "queue_nodes others ?h ?q (?a # as)"
      using i f ba b Cons t by (auto simp: queue_nodes_def less_Suc_eq)
    moreover have "data_of ?h (?a # as) = d # data_of h as" using ba b Cons by (auto simp: data_of_def)
    ultimately show ?thesis using r by blast
  qed
qed

lemma pop_tail_effect:
  assumes i: "queue_nodes others h q as"
  shows "\<exists>h' q'. g_queue_pop_tail (h, Some q) = Some (if as = [] then None else last (data_of h as), h', Some q') \<and>
    queue_nodes others h' q' (butlast as) \<and> data_of h' (butlast as) = butlast (data_of h as)"
proof (cases as rule: rev_cases)
  case Nil
  then show ?thesis using i by (auto simp: g_queue_pop_tail_def on_queue_def queue_nodes_def data_of_def)
next
  case (snoc bs a)
  obtain x where a: "cells h a = Some \<lparr>node_data = x, node_next = None, node_prev = last_of None bs\<rparr>"
    and bs: "dseg (cells h) None bs (Some a)" "a \<notin> set bs" "distinct bs"
    using i snoc by (auto simp: queue_nodes_def dseg_append)
  have tl: "queue_tail q = Some a" using i snoc by (simp add: queue_nodes_def)
  have len: "queue_length q - 1 = of_nat (length bs)" using i snoc by (simp add: queue_nodes_def)
  show ?thesis
  proof (cases bs rule: rev_cases)
    case Nil
    let ?h = "h\<lparr>cells := (cells h)(a := None)\<rparr>" and ?q = "q\<lparr>queue_tail := None, queue_head := None, queue_length := queue_length q - 1\<rparr>"
    have "g_queue_pop_tail (h, Some q) = Some (x, ?h, Some ?q)"
      using a tl Nil by (simp add: g_queue_pop_tail_def on_queue_def node_defs)
    moreover have "queue_nodes others ?h ?q []" using i snoc Nil len by (auto simp: queue_nodes_def)
    ultimately show ?thesis using a snoc Nil by (auto simp: data_of_def)
  next
    case (snoc cs b)
    obtain y where b: "cells h b = Some \<lparr>node_data = y, node_next = Some a, node_prev = last_of None cs\<rparr>"
      and cs: "dseg (cells h) None cs (Some b)" using bs snoc by (auto simp: dseg_append)
    let ?c = "(cells h)(b \<mapsto> \<lparr>node_data = y, node_next = None, node_prev = last_of None cs\<rparr>, a := None)"
    let ?h = "h\<lparr>cells := ?c\<rparr>" and ?q = "q\<lparr>queue_tail := Some b, queue_length := queue_length q - 1\<rparr>"
    have ab: "a \<noteq> b" "b \<notin> set cs" "a \<notin> set cs" using bs snoc by auto
    have r: "g_queue_pop_tail (h, Some q) = Some (x, ?h, Some ?q)"
      using a b ab tl snoc by (simp add: g_queue_pop_tail_def on_queue_def node_defs)
    have "dseg ?c None cs (Some b)" by (rule dseg_frame [OF cs]) (use ab in auto)
    moreover have "queue_head q = first_of bs None" using i \<open>as = bs @ [a]\<close> snoc by (simp add: queue_nodes_def)
    ultimately have "queue_nodes others ?h ?q bs"
      using i \<open>as = bs @ [a]\<close> snoc ab bs len b by (auto simp: queue_nodes_def dseg_append)
    moreover have "data_of ?h bs = data_of h bs" using snoc ab b by (auto simp: data_of_def)
    ultimately show ?thesis using r a \<open>as = bs @ [a]\<close> by (auto simp: data_of_def)
  qed
qed

lemma peek_effect:
  assumes i: "queue_nodes others h q as"
  shows "g_queue_peek_head (h, Some q) = Some (case data_of h as of [] \<Rightarrow> None | d # _ \<Rightarrow> d, h, Some q)"
    "g_queue_peek_tail (h, Some q) = Some (if as = [] then None else last (data_of h as), h, Some q)"
    "g_queue_is_empty (h, Some q) = Some (as = [], h, Some q)"
    "g_queue_get_length (h, Some q) = Some (of_nat (length as), h, Some q)"
proof -
  show "g_queue_peek_head (h, Some q) = Some (case data_of h as of [] \<Rightarrow> None | d # _ \<Rightarrow> d, h, Some q)"
    using i by (cases as) (auto simp: g_queue_peek_head_def on_queue_def queue_nodes_def data_of_def load_def)
  show "g_queue_peek_tail (h, Some q) = Some (if as = [] then None else last (data_of h as), h, Some q)"
    using i by (cases as rule: rev_cases) (auto simp: g_queue_peek_tail_def on_queue_def queue_nodes_def data_of_def load_def dseg_append)
  show "g_queue_is_empty (h, Some q) = Some (as = [], h, Some q)" "g_queue_get_length (h, Some q) = Some (of_nat (length as), h, Some q)"
    using i by (simp_all add: g_queue_is_empty_def g_queue_get_length_def on_queue_def queue_nodes_def)
qed

text \<open>Freeing a list frees exactly its nodes.\<close>

lemma list_free_effect:
  "dseg (cells h) p as None \<Longrightarrow> distinct as \<Longrightarrow>
   g_list_free (first_of as None) h = Some (h\<lparr>cells := (\<lambda>a. if a \<in> set as then None else cells h a)\<rparr>)"
proof (induction as arbitrary: h p)
  case Nil
  then show ?case by (simp add: g_list_free.simps)
next
  case (Cons a as)
  then obtain d where a: "cells h a = Some \<lparr>node_data = d, node_next = first_of as None, node_prev = p\<rparr>" by auto
  let ?h = "h\<lparr>cells := (cells h)(a := None)\<rparr>"
  have "dseg (cells ?h) (Some a) as None" using Cons.prems by (auto intro: dseg_frame)
  from Cons.IH [OF this] have "g_list_free (first_of as None) ?h = Some (?h\<lparr>cells := (\<lambda>b. if b \<in> set as then None else cells ?h b)\<rparr>)"
    using Cons.prems(2) by simp
  moreover have "(\<lambda>b. if b \<in> set as then None else cells ?h b) = (\<lambda>b. if b \<in> set (a # as) then None else cells h b)"
    by auto
  ultimately show ?case using a by (subst g_list_free.simps) (simp add: node_defs)
qed

lemma free_effect:
  assumes i: "queue_nodes others h q as"
  shows "\<exists>h'. cells h' = others \<and> g_queue_free (h, Some q) = Some (h', None) \<and>
    g_queue_clear (h, Some q) = Some ((), h', Some g_queue_new) \<and> queue_nodes others h' g_queue_new []"
proof -
  let ?h = "h\<lparr>cells := (\<lambda>a. if a \<in> set as then None else cells h a)\<rparr>"
  have c: "cells ?h = others" using i by (auto simp: queue_nodes_def)
  have "g_list_free (queue_head q) h = Some ?h" using list_free_effect [of h None as] i by (simp add: queue_nodes_def)
  moreover have "queue_nodes others ?h g_queue_new []" using i by (auto simp: queue_nodes_def g_queue_new_def)
  ultimately show ?thesis using c by (intro exI [of _ ?h]) (simp add: g_queue_free_def g_queue_clear_def on_queue_def)
qed

text \<open>The reversing loop: the nodes it has passed form the reversed list, still linked back to the rest.\<close>

lemma first_of_rev [simp]: "first_of (rev bs) None = last_of None bs" "last_of None (rev bs) = first_of bs None"
  by (cases bs rule: rev_cases; simp) (cases bs; simp)

definition same_data :: "node_heap \<Rightarrow> node_heap \<Rightarrow> bool" where
  "same_data h h' \<longleftrightarrow> fresh_node h' = fresh_node h \<and> (\<forall>a. map_option node_data (cells h' a) = map_option node_data (cells h a))"

lemma reverse_loop_effect:
  "dseg (cells h) (first_of as None) (rev bs) None \<Longrightarrow> dseg (cells h) (last_of None bs) as None \<Longrightarrow> distinct (bs @ as) \<Longrightarrow>
   \<exists>h'. reverse_loop (last_of None bs) (first_of as None) h = Some (last_of None (bs @ as), h') \<and>
     dseg (cells h') None (rev (bs @ as)) None \<and> same_data h h' \<and> (\<forall>a. a \<notin> set (bs @ as) \<longrightarrow> cells h' a = cells h a)"
proof (induction as arbitrary: h bs)
  case Nil
  then show ?case by (simp add: reverse_loop.simps same_data_def)
next
  case (Cons a as)
  obtain d where a: "cells h a = Some \<lparr>node_data = d, node_next = first_of as None, node_prev = last_of None bs\<rparr>"
    and as: "dseg (cells h) (Some a) as None" using Cons.prems(2) by auto
  let ?c = "(cells h)(a \<mapsto> \<lparr>node_data = d, node_next = last_of None bs, node_prev = first_of as None\<rparr>)"
  let ?h = "h\<lparr>cells := ?c\<rparr>"
  have n: "a \<notin> set bs" "a \<notin> set as" using Cons.prems(3) by auto
  have "dseg ?c (Some a) (rev bs) None" by (rule dseg_frame [of "cells h"]) (use Cons.prems(1) n in auto)
  then have 1: "dseg (cells ?h) (first_of as None) (rev (bs @ [a])) None" by simp
  have "dseg ?c (Some a) as None" by (rule dseg_frame [OF as]) (use n in auto)
  then have 2: "dseg (cells ?h) (last_of None (bs @ [a])) as None" by simp
  obtain h' where h': "reverse_loop (Some a) (first_of as None) ?h = Some (last_of None (bs @ a # as), h')"
    "dseg (cells h') None (rev (bs @ a # as)) None" "same_data ?h h'" "\<forall>b. b \<notin> set (bs @ a # as) \<longrightarrow> cells h' b = cells ?h b"
    using Cons.IH [OF 1 2] Cons.prems(3) by auto
  have "reverse_loop (last_of None bs) (Some a) h = reverse_loop (Some a) (first_of as None) ?h"
    using a by (subst reverse_loop.simps) (simp add: node_defs)
  moreover have "same_data h h'" using h'(3) a by (simp add: same_data_def)
  ultimately show ?case using h' by (intro exI [of _ h']) simp
qed

lemma reverse_effect:
  assumes i: "queue_nodes others h q as"
  shows "\<exists>h' q'. g_queue_reverse (h, Some q) = Some ((), h', Some q') \<and> queue_nodes others h' q' (rev as) \<and>
    data_of h' (rev as) = rev (data_of h as)"
proof -
  obtain h' where h': "reverse_loop None (first_of as None) h = Some (last_of None as, h')"
    "dseg (cells h') None (rev as) None" "same_data h h'" "\<forall>a. a \<notin> set as \<longrightarrow> cells h' a = cells h a"
    using reverse_loop_effect [of h as "[]"] i by (auto simp: queue_nodes_def)
  let ?q = "q\<lparr>queue_tail := queue_head q, queue_head := last_of None as\<rparr>"
  have r: "g_queue_reverse (h, Some q) = Some ((), h', Some ?q)"
    using h'(1) i by (simp add: g_queue_reverse_def on_queue_def g_list_reverse_def queue_nodes_def)
  have alloc: "cells h' a = None \<longleftrightarrow> cells h a = None" for a
    using h'(3) by (metis map_option_is_None same_data_def)
  have "queue_nodes others h' ?q (rev as)"
    using i h' alloc by (auto simp: queue_nodes_def same_data_def)
  moreover have "data_of h' (rev as) = rev (data_of h as)"
  proof -
    have "node_data (the (cells h' a)) = node_data (the (cells h a))" if "a \<in> set as" for a
    proof -
      have "cells h a \<noteq> None" using i that dseg_allocated [of "cells h" None as None] unfolding queue_nodes_def by blast
      moreover have "map_option node_data (cells h' a) = map_option node_data (cells h a)" using h'(3) by (simp add: same_data_def)
      ultimately show ?thesis by auto
    qed
    then show ?thesis by (simp add: data_of_def rev_map)
  qed
  ultimately show ?thesis using r by blast
qed

subsection \<open>The queue is a list\<close>

datatype queue_op =
    Q_Push_Head "nat option"
  | Q_Push_Tail "nat option"
  | Q_Pop_Head
  | Q_Pop_Tail
  | Q_Peek_Head
  | Q_Peek_Tail
  | Q_Is_Empty
  | Q_Get_Length
  | Q_Reverse
  | Q_Clear

datatype answer =
    Answer_Nothing
  | Answer_Pointer "nat option"
  | Answer_Bool bool
  | Answer_Length "32 word"

definition answered :: "('r \<Rightarrow> answer) \<Rightarrow> answer list \<Rightarrow> ('r \<times> queue_state) option \<Rightarrow> (answer list \<times> queue_state) option" where
  "answered f outs = map_option (\<lambda>(r, s). (outs @ [f r], s))"

fun queue_call :: "queue_op \<Rightarrow> answer list \<Rightarrow> queue_state \<Rightarrow> (answer list \<times> queue_state) option" where
  "queue_call (Q_Push_Head d) outs s = answered (\<lambda>_. Answer_Nothing) outs (g_queue_push_head d s)"
| "queue_call (Q_Push_Tail d) outs s = answered (\<lambda>_. Answer_Nothing) outs (g_queue_push_tail d s)"
| "queue_call Q_Pop_Head outs s = answered Answer_Pointer outs (g_queue_pop_head s)"
| "queue_call Q_Pop_Tail outs s = answered Answer_Pointer outs (g_queue_pop_tail s)"
| "queue_call Q_Peek_Head outs s = answered Answer_Pointer outs (g_queue_peek_head s)"
| "queue_call Q_Peek_Tail outs s = answered Answer_Pointer outs (g_queue_peek_tail s)"
| "queue_call Q_Is_Empty outs s = answered Answer_Bool outs (g_queue_is_empty s)"
| "queue_call Q_Get_Length outs s = answered Answer_Length outs (g_queue_get_length s)"
| "queue_call Q_Reverse outs s = answered (\<lambda>_. Answer_Nothing) outs (g_queue_reverse s)"
| "queue_call Q_Clear outs s = answered (\<lambda>_. Answer_Nothing) outs (g_queue_clear s)"

definition queue_exec :: "queue_op \<Rightarrow> (answer list \<times> queue_state) option \<Rightarrow> (answer list \<times> queue_state) option" where
  "queue_exec op state = do { (outs, s) \<leftarrow> state; queue_call op outs s }"

definition list_head :: "nat option list \<Rightarrow> nat option" where
  "list_head xs = (case xs of [] \<Rightarrow> None | d # _ \<Rightarrow> d)"

definition list_end :: "nat option list \<Rightarrow> nat option" where
  "list_end xs = (if xs = [] then None else last xs)"

fun list_call :: "queue_op \<Rightarrow> nat option list \<Rightarrow> answer \<times> nat option list" where
  "list_call (Q_Push_Head d) xs = (Answer_Nothing, d # xs)"
| "list_call (Q_Push_Tail d) xs = (Answer_Nothing, xs @ [d])"
| "list_call Q_Pop_Head xs = (Answer_Pointer (list_head xs), tl xs)"
| "list_call Q_Pop_Tail xs = (Answer_Pointer (list_end xs), butlast xs)"
| "list_call Q_Peek_Head xs = (Answer_Pointer (list_head xs), xs)"
| "list_call Q_Peek_Tail xs = (Answer_Pointer (list_end xs), xs)"
| "list_call Q_Is_Empty xs = (Answer_Bool (xs = []), xs)"
| "list_call Q_Get_Length xs = (Answer_Length (of_nat (length xs)), xs)"
| "list_call Q_Reverse xs = (Answer_Nothing, rev xs)"
| "list_call Q_Clear xs = (Answer_Nothing, [])"

definition list_exec :: "queue_op \<Rightarrow> answer list \<times> nat option list \<Rightarrow> answer list \<times> nat option list" where
  "list_exec op state = (case state of (outs, xs) \<Rightarrow> case list_call op xs of (r, ys) \<Rightarrow> (outs @ [r], ys))"

definition queue_rel ::
  "(nat \<Rightarrow> list_node option) \<Rightarrow> (answer list \<times> queue_state) option \<Rightarrow> answer list \<times> nat option list \<Rightarrow> bool" where
  "queue_rel others state a \<longleftrightarrow>
     (\<exists>h q as. state = Some (fst a, h, Some q) \<and> queue_nodes others h q as \<and> data_of h as = snd a)"

lemma data_of_Nil [simp]: "data_of h as = [] \<longleftrightarrow> as = []"
  by (simp add: data_of_def)

interpretation list_queue: simulated_machine queue_exec list_exec "queue_rel others" for others
proof
  fix s a op
  assume "queue_rel others s a"
  then obtain h q as where s: "s = Some (fst a, h, Some q)" and i: "queue_nodes others h q as" and d: "snd a = data_of h as"
    by (auto simp: queue_rel_def)
  obtain outs xs where a: "a = (outs, xs)" by force
  have len: "length xs = length as" using d a by (simp add: data_of_def)
  show "queue_rel others (queue_exec op s) (list_exec op a)"
  proof (cases op)
    case (Q_Push_Head x)
    then show ?thesis
      using push_head_effect [OF i, of x] by (auto simp: s a queue_exec_def list_exec_def answered_def queue_rel_def d [unfolded a, simplified])
  next
    case (Q_Push_Tail x)
    then show ?thesis
      using push_tail_effect [OF i, of x] by (auto simp: s a queue_exec_def list_exec_def answered_def queue_rel_def d [unfolded a, simplified])
  next
    case Q_Pop_Head
    then show ?thesis
      using pop_head_effect [OF i] by (auto simp: s a queue_exec_def list_exec_def answered_def queue_rel_def d [unfolded a, simplified] list_head_def)
  next
    case Q_Pop_Tail
    then show ?thesis
      using pop_tail_effect [OF i] by (auto simp: s a queue_exec_def list_exec_def answered_def queue_rel_def d [unfolded a, simplified] list_end_def)
  next
    case Q_Reverse
    then show ?thesis
      using reverse_effect [OF i] by (auto simp: s a queue_exec_def list_exec_def answered_def queue_rel_def d [unfolded a, simplified])
  next
    case Q_Clear
    then show ?thesis
      using free_effect [OF i] by (auto simp: s a queue_exec_def list_exec_def answered_def queue_rel_def data_of_def)
  qed (use i len in \<open>auto simp: s a queue_exec_def list_exec_def answered_def queue_rel_def peek_effect [OF i]
       d [unfolded a, simplified] list_head_def list_end_def\<close>)
qed

definition heap_ok :: "node_heap \<Rightarrow> bool" where
  "heap_ok h \<longleftrightarrow> (\<forall>a. cells h a \<noteq> None \<longrightarrow> a < fresh_node h)"

text \<open>
  C23. The queue of the glib is a list: any sequence of its functions on a new queue, in a heap with other nodes, follows no
  NULL or stale link, gives the answers of the same functions on a plain list (the length modulo 2 to the power
  of 32), and when the queue is freed all its nodes are gone and all other nodes are as they were. So a list is
  a faithful model of the queue of segments in the streaming engine.
\<close>

theorem glib_queue_is_list:
  assumes "heap_ok h"
  shows "\<exists>h' q' h''. fold queue_exec ops (Some ([], h, Some g_queue_new)) = Some (fst (fold list_exec ops ([], [])), h', Some q') \<and>
    g_queue_free (h', Some q') = Some (h'', None) \<and> cells h'' = cells h"
proof -
  have "queue_rel (cells h) (Some ([], h, Some g_queue_new)) ([], [])"
    using assms by (auto simp: queue_rel_def queue_nodes_def g_queue_new_def heap_ok_def data_of_def)
  from list_queue.rel_run [OF this, of ops] show ?thesis
    using free_effect by (fastforce simp: queue_rel_def)
qed

lemma glib_queue_is_list_witness:
  "\<exists>h' q'. fold queue_exec [Q_Push_Tail (Some 5), Q_Push_Tail (Some 6), Q_Pop_Head] (Some ([], \<lparr>cells = (\<lambda>_. None), fresh_node = 0\<rparr>, Some g_queue_new)) =
     Some ([Answer_Nothing, Answer_Nothing, Answer_Pointer (Some 5)], h', Some q')"
  using glib_queue_is_list [of "\<lparr>cells = (\<lambda>_. None), fresh_node = 0\<rparr>" "[Q_Push_Tail (Some 5), Q_Push_Tail (Some 6), Q_Pop_Head]"]
  by (simp add: heap_ok_def list_exec_def list_head_def) blast

end
