(* ===== verification/Utf8_Length.thy ===== *)
theory Utf8_Length
  imports Utf8_Validate
begin

text \<open>
  The validators of \<^verbatim>\<open>glib/gutf8.c\<close> with their optional parts: the length of the buffer and the end of the valid
  part. A pointer into the string is the rest of the string from there. The plugin itself always validates
  to the terminating NUL and ignores the end.
\<close>

subsection \<open>The functions\<close>

text \<open>The first argument counts the bytes that are left of the given length.\<close>

fun fast_validate_len :: "nat \<Rightarrow> string \<Rightarrow> string" where
  "fast_validate_len n [] = []"
| "fast_validate_len n (c # cs) =
     (if n = 0 \<or> byte c = 0 then c # cs
      else if byte c < 128 then fast_validate_len (n - 1) cs
      else if byte c < 0xe0 then
        (if n < 2 then c # cs
         else if byte c < 0xc2 then c # cs
         else case cs of
             d # r \<Rightarrow> (if validate_byte 0xc0 0x80 d then fast_validate_len (n - 2) r else c # cs)
           | _ \<Rightarrow> c # cs)
      else if byte c < 0xf0 then
        (if n < 3 then c # cs
         else case cs of
             d # e # r \<Rightarrow>
               (if validate_second3 c d \<and> validate_byte 0xc0 0x80 e then fast_validate_len (n - 3) r else c # cs)
           | _ \<Rightarrow> c # cs)
      else if byte c < 0xf5 then
        (if n < 4 then c # cs
         else case cs of
             d # e # f # r \<Rightarrow>
               (if validate_second4 c d \<and> validate_byte 0xc0 0x80 e \<and> validate_byte 0xc0 0x80 f
                then fast_validate_len (n - 4) r else c # cs)
           | _ \<Rightarrow> c # cs)
      else c # cs)"

text \<open>The result and the end of the valid part.\<close>

definition g_utf8_validate_len :: "string \<Rightarrow> nat \<Rightarrow> bool \<times> string" where
  "g_utf8_validate_len str max_len =
     (let p = fast_validate_len max_len str in (length str - length p = max_len, p))"

definition g_utf8_validate_end :: "string \<Rightarrow> int \<Rightarrow> bool \<times> string" where
  "g_utf8_validate_end str max_len =
     (if max_len \<ge> 0 then g_utf8_validate_len str (nat max_len)
      else let p = fast_validate str in (p = [], p))"

subsection \<open>The end of the valid part\<close>

lemma fast_validate_append:
  assumes "fast_validate s = []"
  shows "fast_validate (s @ t) = fast_validate t"
proof -
  obtain us where us: "\<forall>u \<in> set us. unicode_scalar u" "s = concat (map utf8_encode us)"
    using fast_validate_decodes [OF assms] by blast
  have "fast_validate (concat (map utf8_encode us) @ t) = fast_validate t"
    using us(1) by (induction us) (simp_all add: fast_validate_encode)
  then show ?thesis by (simp add: us(2))
qed

lemma fast_validate_step:
  assumes "fast_validate (c # cs) \<noteq> c # cs"
  shows "\<exists>q r. c # cs = q @ r \<and> q \<noteq> [] \<and> fast_validate (c # cs) = fast_validate r \<and> fast_validate q = []"
proof -
  consider "byte c < 128" | "\<not> byte c < 128" "byte c < 0xe0" | "\<not> byte c < 0xe0" "byte c < 0xf0" | "\<not> byte c < 0xf0"
    by linarith
  then show ?thesis
  proof cases
    case 1
    then show ?thesis by (intro exI [of _ "[c]"] exI [of _ cs]) simp
  next
    case 2
    then obtain d r where "cs = d # r" "\<not> byte c < 0xc2" "validate_byte 0xc0 0x80 d"
      using assms by (auto split: list.splits if_splits)
    with 2 show ?thesis by (intro exI [of _ "[c, d]"] exI [of _ r]) simp
  next
    case 3
    then obtain d e r where "cs = d # e # r" "validate_second3 c d" "validate_byte 0xc0 0x80 e"
      using assms by (auto split: list.splits if_splits)
    with 3 show ?thesis by (intro exI [of _ "[c, d, e]"] exI [of _ r]) simp
  next
    case 4
    then obtain d e f r where "cs = d # e # f # r" "byte c < 0xf5" "validate_second4 c d" "validate_byte 0xc0 0x80 e"
      "validate_byte 0xc0 0x80 f"
      using assms by (auto split: list.splits if_splits)
    with 4 show ?thesis by (intro exI [of _ "[c, d, e, f]"] exI [of _ r]) simp
  qed
qed

lemma fast_validate_splits: "\<exists>p. s = p @ fast_validate s \<and> fast_validate p = []"
proof (induction s rule: length_induct)
  case (1 s)
  show ?case
  proof (cases "fast_validate s = s")
    case True
    then show ?thesis by (intro exI [of _ "[]"]) simp
  next
    case False
    then obtain c cs where "s = c # cs" by (cases s) auto
    with False obtain q r where q: "s = q @ r" "q \<noteq> []" "fast_validate s = fast_validate r" "fast_validate q = []"
      using fast_validate_step [of c cs] by metis
    then have "length r < length s" by simp
    then obtain p where "r = p @ fast_validate r" "fast_validate p = []" using 1 by blast
    with q show ?thesis by (intro exI [of _ "q @ p"]) (simp add: fast_validate_append)
  qed
qed

lemma fast_validate_maximal: "s = p @ t \<Longrightarrow> fast_validate p = [] \<Longrightarrow> length (fast_validate s) \<le> length t"
proof -
  assume "s = p @ t" "fast_validate p = []"
  then have "fast_validate s = fast_validate t" by (simp add: fast_validate_append)
  moreover obtain q where "t = q @ fast_validate t" using fast_validate_splits [of t] by blast
  ultimately show ?thesis by (metis length_append le_add2)
qed

subsection \<open>The length\<close>

text \<open>What the validator with a length looks at: the bytes of the given length before the first NUL.\<close>

definition not_nul :: "char \<Rightarrow> bool" where
  "not_nul c \<longleftrightarrow> byte c \<noteq> 0"

definition looked_at :: "nat \<Rightarrow> string \<Rightarrow> string" where
  "looked_at n s = takeWhile not_nul (take n s)"

lemma looked_at_simps [simp]:
  "looked_at 0 s = []" "looked_at n [] = []"
  "looked_at (Suc n) (c # s) = (if not_nul c then c # looked_at n s else [])"
  by (simp_all add: looked_at_def)

lemma looked_at_prefix [simp]: "looked_at n s @ drop (length (looked_at n s)) s = s"
proof (induction s arbitrary: n)
  case (Cons c s)
  then show ?case by (cases n) simp_all
qed simp

lemma nul_not_continuation: "\<not> not_nul a \<Longrightarrow> \<not> validate_byte 0xc0 0x80 a \<and> \<not> validate_second3 c a \<and> \<not> validate_second4 c a"
  using ascii_not_continuation [of a] by (simp add: not_nul_def)

lemma continuation_not_nul:
  "validate_byte 0xc0 0x80 a \<Longrightarrow> not_nul a" "validate_second3 c a \<Longrightarrow> not_nul a" "validate_second4 c a \<Longrightarrow> not_nul a"
  using nul_not_continuation by blast+

lemma fast_validate_len_stops:
  "fast_validate_len n s = fast_validate (looked_at n s) @ drop (length (looked_at n s)) s"
proof (induction n s rule: fast_validate_len.induct)
  case (1 n)
  then show ?case by simp
next
  case (2 n c cs)
  show ?case
  proof (cases "n = 0 \<or> byte c = 0")
    case True
    then show ?thesis by (cases n) (auto simp: not_nul_def)
  next
    case False
    then obtain m where m: "n = Suc m" and c: "not_nul c" "byte c \<noteq> 0" by (cases n) (auto simp: not_nul_def)
    note cont = continuation_not_nul(1)
    consider "byte c < 128" | "\<not> byte c < 128" "byte c < 0xe0" | "\<not> byte c < 0xe0" "byte c < 0xf0" | "\<not> byte c < 0xf0"
      by linarith
    then show ?thesis
    proof cases
      case 1
      then show ?thesis using 2(1) False m c by simp
    next
      case 2
      show ?thesis
      proof (cases "\<exists>k d r. m = Suc k \<and> cs = d # r")
        case True
        then obtain k d r where "m = Suc k" "cs = d # r" by blast
        then show ?thesis using "2.IH"(2) 2 m c cont [of d] by auto
      qed (use 2 m c in \<open>cases m; cases cs; auto\<close>)
    next
      case 3
      show ?thesis
      proof (cases "\<exists>k d e r. m = Suc (Suc k) \<and> cs = d # e # r")
        case True
        then obtain k d e r where "m = Suc (Suc k)" "cs = d # e # r" by blast
        then show ?thesis using "2.IH"(3) 3 m c cont [of e] continuation_not_nul(2) [of c d] by auto
      qed (use 3 m c in \<open>cases m; cases "m - 1"; cases cs; cases "tl cs"; auto\<close>)
    next
      case 4
      show ?thesis
      proof (cases "\<exists>k d e f r. m = Suc (Suc (Suc k)) \<and> cs = d # e # f # r")
        case True
        then obtain k d e f r where "m = Suc (Suc (Suc k))" "cs = d # e # f # r" by blast
        then show ?thesis using "2.IH"(4) 4 m c cont [of e] cont [of f] continuation_not_nul(3) [of c d] by auto
      qed (use 4 m c in \<open>cases m; cases "m - 1"; cases "m - 2"; cases cs; cases "tl cs"; cases "tl (tl cs)"; auto\<close>)
    qed
  qed
qed

definition valid_part :: "int \<Rightarrow> string \<Rightarrow> bool" where
  "valid_part max_len p \<longleftrightarrow> g_utf8_validate p \<and> (0 \<le> max_len \<longrightarrow> int (length p) \<le> max_len \<and> list_all not_nul p)"

lemma looked_at_of_part:
  "list_all not_nul p \<Longrightarrow> length p \<le> n \<Longrightarrow> looked_at n (p @ t) = p @ looked_at (n - length p) t"
proof (induction p arbitrary: n)
  case (Cons c p)
  then show ?case by (cases n) auto
qed simp

lemma looked_at_bounds: "length (looked_at n s) \<le> n" "list_all not_nul (looked_at n s)"
proof -
  have "length (takeWhile not_nul (take n s)) \<le> length (take n s)" by (rule length_takeWhile_le)
  then show "length (looked_at n s) \<le> n" by (simp add: looked_at_def)
  show "list_all not_nul (looked_at n s)" unfolding looked_at_def list_all_iff by (metis set_takeWhileD)
qed

lemma validate_len_end:
  obtains p where "s = p @ fast_validate_len n s" "valid_part (int n) p"
    "\<And>p' t. s = p' @ t \<Longrightarrow> valid_part (int n) p' \<Longrightarrow> length p' \<le> length p"
proof -
  let ?b = "looked_at n s"
  obtain p where p: "?b = p @ fast_validate ?b" "fast_validate p = []" using fast_validate_splits by blast
  have s: "s = p @ fast_validate_len n s"
    unfolding fast_validate_len_stops append_assoc [symmetric] p(1) [symmetric] by simp
  have v: "valid_part (int n) p"
  proof -
    have "length p \<le> length ?b" by (metis p(1) length_append le_add1)
    moreover have "list_all not_nul p" using looked_at_bounds(2) [of n s] by (metis p(1) list_all_append)
    ultimately show ?thesis using looked_at_bounds(1) [of n s] p(2) by (simp add: valid_part_def g_utf8_validate_def)
  qed
  have "length p' \<le> length p" if "s = p' @ t" "valid_part (int n) p'" for p' t
  proof -
    have b: "?b = p' @ looked_at (n - length p') t"
      using that by (simp add: valid_part_def looked_at_of_part)
    then have "length (fast_validate ?b) \<le> length (looked_at (n - length p') t)"
      using that fast_validate_maximal by (simp add: valid_part_def g_utf8_validate_def)
    moreover have "length ?b = length p + length (fast_validate ?b)" by (metis p(1) length_append)
    moreover have "length ?b = length p' + length (looked_at (n - length p') t)" by (metis b length_append)
    ultimately show ?thesis by linarith
  qed
  with s v show ?thesis by (rule that)
qed

text \<open>
  With any length, and also without one, the validator finds the end of the valid part: what it returns as the end is what
  follows the longest prefix that is valid UTF-8 and, when a length is given, has no NUL and is no longer than
  the length; and it returns true exactly when that prefix is all it was to validate.
\<close>

theorem g_utf8_validate_finds_end:
  "\<exists>p. str = p @ snd (g_utf8_validate_end str max_len) \<and> valid_part max_len p \<and>
     (\<forall>p' t. str = p' @ t \<longrightarrow> valid_part max_len p' \<longrightarrow> length p' \<le> length p) \<and>
     (fst (g_utf8_validate_end str max_len) \<longleftrightarrow>
        (if 0 \<le> max_len then int (length p) = max_len else p = str))"
proof (cases "0 \<le> max_len")
  case True
  then obtain n where n: "max_len = int n" using nonneg_int_cases by blast
  obtain p where p: "str = p @ fast_validate_len n str" "valid_part (int n) p"
    "\<And>p' t. str = p' @ t \<Longrightarrow> valid_part (int n) p' \<Longrightarrow> length p' \<le> length p" using validate_len_end by blast
  have "length str - length (fast_validate_len n str) = length p" by (metis p(1) add_diff_cancel_right' length_append)
  then show ?thesis
    using p by (intro exI [of _ p]) (auto simp: n g_utf8_validate_end_def g_utf8_validate_len_def Let_def)
next
  case False
  obtain p where p: "str = p @ fast_validate str" "fast_validate p = []" using fast_validate_splits by blast
  have "length p' \<le> length p" if "str = p' @ t" "valid_part max_len p'" for p' t
  proof -
    have "length (fast_validate str) \<le> length t"
      using fast_validate_maximal that by (simp add: valid_part_def g_utf8_validate_def)
    moreover have "length str = length p + length (fast_validate str)" by (metis p(1) length_append)
    moreover have "length str = length p' + length t" using that by simp
    ultimately show ?thesis by linarith
  qed
  moreover have "fast_validate str = [] \<longleftrightarrow> p = str" using p by (metis append_Nil2 append_self_conv)
  ultimately show ?thesis
    using p False by (intro exI [of _ p]) (auto simp: g_utf8_validate_end_def valid_part_def g_utf8_validate_def Let_def)
qed

text \<open>A text whose last character is cut: the end is before that character.\<close>

lemma g_utf8_validate_finds_end_witness:
  "\<exists>p. [CHR ''p'', CHR 0xCF] = p @ snd (g_utf8_validate_end [CHR ''p'', CHR 0xCF] 2) \<and> valid_part 2 p \<and> length ''p'' \<le> length p"
proof -
  have "valid_part 2 ''p''" using g_utf8_validate_ascii [of "''p''"] by (simp add: valid_part_def not_nul_def byte_def)
  moreover have "[CHR ''p'', CHR 0xCF] = ''p'' @ [CHR 0xCF]" by simp
  ultimately show ?thesis using g_utf8_validate_finds_end [of "[CHR ''p'', CHR 0xCF]" 2] by blast
qed

end
