(* ===== verification/Utf8_Convert.thy ===== *)
theory Utf8_Convert
  imports Utf8_Length "HOL-Library.Word" "HOL-Library.Monad_Syntax"
begin

text \<open>
  Reading and writing single characters in \<^verbatim>\<open>glib/gutf8.c\<close>, counting them, and the conversions to and from UCS-4. A
  code point is a 32-bit word, and its two highest values stand for the two errors. A string is its bytes
  without the terminating NUL; a pointer into it is an index, and reading behind the terminator has no result.
\<close>

type_synonym gunichar = "32 word"

definition malformed_sequence :: gunichar where
  "malformed_sequence = - 1"

definition partial_sequence :: gunichar where
  "partial_sequence = - 2"

definition byte_at :: "string \<Rightarrow> nat \<Rightarrow> nat option" where
  "byte_at s i = (if i < length s then Some (byte (s ! i)) else if i = length s then Some 0 else None)"

subsection \<open>Writing\<close>

text \<open>The bytes behind the first, from the last to the second.\<close>

fun write_tail :: "nat \<Rightarrow> gunichar \<Rightarrow> string \<Rightarrow> gunichar \<times> string" where
  "write_tail 0 c outbuf = (c, outbuf)"
| "write_tail (Suc i) c outbuf = write_tail i (drop_bit 6 c) (char_of (unat ((c AND 0x3f) OR 0x80)) # outbuf)"

definition g_unichar_to_utf8 :: "gunichar \<Rightarrow> string" where
  "g_unichar_to_utf8 c =
     (let (first, len) =
        (if c < 0x80 then (0, 1)
         else if c < 0x800 then (0xc0, 2)
         else if c < 0x10000 then (0xe0, 3)
         else if c < 0x200000 then (0xf0, 4)
         else if c < 0x4000000 then (0xf8, 5)
         else (0xfc, 6));
          (c1, outbuf) = write_tail (len - 1) c []
      in char_of (unat (c1 OR first)) # outbuf)"

definition g_unichar_validate :: "gunichar \<Rightarrow> bool" where
  "g_unichar_validate c \<longleftrightarrow> c < 0x110000 \<and> c AND 0xFFFFF800 \<noteq> 0xD800"

subsection \<open>Stepping and counting\<close>

definition utf8_skip_data :: "nat list" where
  "utf8_skip_data = replicate 192 1 @ replicate 32 2 @ replicate 16 3 @ replicate 8 4 @ replicate 4 5 @ replicate 2 6 @ [1, 1]"

definition g_utf8_next_char :: "string \<Rightarrow> nat \<Rightarrow> nat option" where
  "g_utf8_next_char s i = do { b \<leftarrow> byte_at s i; Some (i + utf8_skip_data ! b) }"

partial_function (option) strlen_to_nul :: "string \<Rightarrow> nat \<Rightarrow> nat \<Rightarrow> nat option" where
  "strlen_to_nul s p len = do {
     b \<leftarrow> byte_at s p;
     if b \<noteq> 0 then do { q \<leftarrow> g_utf8_next_char s p; strlen_to_nul s q (len + 1) } else Some len }"

partial_function (option) strlen_to_max :: "string \<Rightarrow> nat \<Rightarrow> nat \<Rightarrow> nat \<Rightarrow> (nat \<times> nat) option" where
  "strlen_to_max s limit p len =
     (if p < limit then do {
        b \<leftarrow> byte_at s p;
        if b \<noteq> 0 then do { q \<leftarrow> g_utf8_next_char s p; strlen_to_max s limit q (len + 1) } else Some (p, len) }
      else Some (p, len))"

definition g_utf8_strlen :: "string \<Rightarrow> int \<Rightarrow> nat option" where
  "g_utf8_strlen s limit =
     (if limit < 0 then strlen_to_nul s 0 0
      else if limit = 0 then Some 0
      else do {
        b \<leftarrow> byte_at s 0;
        if b = 0 then Some 0
        else do {
          p \<leftarrow> g_utf8_next_char s 0;
          (q, len) \<leftarrow> strlen_to_max s (nat limit) p 0;
          Some (if q \<le> nat limit then len + 1 else len) } })"

subsection \<open>Reading\<close>

text \<open>The mask of the first byte and the number of bytes it announces.\<close>

definition utf8_compute :: "nat \<Rightarrow> (nat \<times> nat) option" where
  "utf8_compute c =
     (if c < 128 then Some (0x7f, 1)
      else if c AND 0xe0 = 0xc0 then Some (0x1f, 2)
      else if c AND 0xf0 = 0xe0 then Some (0x0f, 3)
      else if c AND 0xf8 = 0xf0 then Some (0x07, 4)
      else if c AND 0xfc = 0xf8 then Some (0x03, 5)
      else if c AND 0xfe = 0xfc then Some (0x01, 6)
      else None)"

fun utf8_get :: "string \<Rightarrow> nat \<Rightarrow> gunichar \<Rightarrow> nat \<Rightarrow> gunichar option" where
  "utf8_get s p result 0 = Some result"
| "utf8_get s p result (Suc k) = do {
     b \<leftarrow> byte_at s p;
     if b AND 0xc0 \<noteq> 0x80 then Some (- 1)
     else utf8_get s (Suc p) (push_bit 6 result OR of_nat (b AND 0x3f)) k }"

definition g_utf8_get_char :: "string \<Rightarrow> nat \<Rightarrow> gunichar option" where
  "g_utf8_get_char s p = do {
     c \<leftarrow> byte_at s p;
     (case utf8_compute c of
        None \<Rightarrow> Some (- 1)
      | Some (bits, len) \<Rightarrow> utf8_get s (Suc p) (of_nat (c AND bits)) (len - 1)) }"

text \<open>The checked reader. With a length that is too short it only looks whether the bytes that are there could begin a character.\<close>

fun all_continue :: "string \<Rightarrow> nat \<Rightarrow> nat \<Rightarrow> bool option" where
  "all_continue s p 0 = Some True"
| "all_continue s p (Suc k) = do { b \<leftarrow> byte_at s p; if b AND 0xc0 \<noteq> 0x80 then Some False else all_continue s (Suc p) k }"

fun get_extended :: "string \<Rightarrow> nat \<Rightarrow> gunichar \<Rightarrow> gunichar \<Rightarrow> nat \<Rightarrow> gunichar option" where
  "get_extended s p min_code wc 0 = Some (if wc < min_code then malformed_sequence else wc)"
| "get_extended s p min_code wc (Suc k) = do {
     ch \<leftarrow> byte_at s p;
     if ch AND 0xc0 \<noteq> 0x80 then Some (if ch \<noteq> 0 then malformed_sequence else partial_sequence)
     else get_extended s (Suc p) min_code (push_bit 6 wc OR of_nat (ch AND 0x3f)) k }"

text \<open>The length, the mask of the first byte, and the smallest code point that needs the length.\<close>

definition extended_lead :: "nat \<Rightarrow> (nat \<times> nat \<times> gunichar) option" where
  "extended_lead c =
     (if c < 0xc0 then None
      else if c < 0xe0 then Some (2, 0x1f, push_bit 7 1)
      else if c < 0xf0 then Some (3, 0x0f, push_bit 11 1)
      else if c < 0xf8 then Some (4, 0x07, push_bit 16 1)
      else if c < 0xfc then Some (5, 0x03, push_bit 21 1)
      else if c < 0xfe then Some (6, 0x01, push_bit 26 1)
      else None)"

definition g_utf8_get_char_extended :: "string \<Rightarrow> nat \<Rightarrow> int \<Rightarrow> gunichar option" where
  "g_utf8_get_char_extended s p max_len = do {
     c \<leftarrow> byte_at s p;
     if c < 0x80 then Some (of_nat c)
     else (case extended_lead c of
         None \<Rightarrow> Some malformed_sequence
       | Some (len, bits, min_code) \<Rightarrow>
           if 0 \<le> max_len \<and> nat max_len < len
           then do { all \<leftarrow> all_continue s (Suc p) (nat max_len - 1); Some (if all then partial_sequence else malformed_sequence) }
           else get_extended s (Suc p) min_code (of_nat (c AND bits)) (len - 1)) }"

definition g_utf8_get_char_validated :: "string \<Rightarrow> nat \<Rightarrow> int \<Rightarrow> gunichar option" where
  "g_utf8_get_char_validated s p max_len =
     (if max_len = 0 then Some (- 2)
      else do {
        result \<leftarrow> g_utf8_get_char_extended s p max_len;
        if result = 0 \<and> max_len > 0 then Some (- 2)
        else if result AND 0x80000000 \<noteq> 0 then Some result
        else if \<not> g_unichar_validate result then Some (- 1)
        else Some result })"

subsection \<open>Converting strings\<close>

datatype convert_error = G_CONVERT_ERROR_PARTIAL_INPUT | G_CONVERT_ERROR_ILLEGAL_SEQUENCE

text \<open>
  The first pass of \<^verbatim>\<open>g_utf8_to_ucs4\<close> counts the characters: the number, where it stopped, and the error. A partial
  character at the end is an error only when the caller does not ask how much was read.
\<close>

partial_function (option) count_chars ::
  "string \<Rightarrow> int \<Rightarrow> bool \<Rightarrow> nat \<Rightarrow> nat \<Rightarrow> (nat \<times> nat \<times> convert_error option) option" where
  "count_chars s len wants_read p n =
     (if 0 \<le> len \<and> len - int p \<le> 0 then Some (n, p, None)
      else do {
        b \<leftarrow> byte_at s p;
        if b = 0 then Some (n, p, None)
        else do {
          wc \<leftarrow> g_utf8_get_char_extended s p (if len < 0 then 6 else len - int p);
          if wc AND 0x80000000 \<noteq> 0 then
            Some (n, p,
              if wc = - 2 then if wants_read then None else Some G_CONVERT_ERROR_PARTIAL_INPUT
              else Some G_CONVERT_ERROR_ILLEGAL_SEQUENCE)
          else do { q \<leftarrow> g_utf8_next_char s p; count_chars s len wants_read q (n + 1) } } })"

fun read_chars :: "string \<Rightarrow> nat \<Rightarrow> nat \<Rightarrow> gunichar list option" where
  "read_chars s p 0 = Some []"
| "read_chars s p (Suc n) = do {
     c \<leftarrow> g_utf8_get_char s p;
     q \<leftarrow> g_utf8_next_char s p;
     cs \<leftarrow> read_chars s q n;
     Some (c # cs) }"

text \<open>The characters or the error, and the number of bytes read.\<close>

definition g_utf8_to_ucs4 :: "string \<Rightarrow> int \<Rightarrow> bool \<Rightarrow> ((convert_error + gunichar list) \<times> nat) option" where
  "g_utf8_to_ucs4 s len wants_read = do {
     (n, p, error) \<leftarrow> count_chars s len wants_read 0 0;
     case error of
       Some e \<Rightarrow> Some (Inl e, p)
     | None \<Rightarrow> do { cs \<leftarrow> read_chars s 0 n; Some (Inr cs, p) } }"

text \<open>The characters up to the first 0 or the given number, unless one of them is out of range; the index says where.\<close>

fun usable_chars :: "gunichar list \<Rightarrow> convert_error + gunichar list" where
  "usable_chars [] = Inr []"
| "usable_chars (c # cs) =
     (if c = 0 then Inr []
      else if c \<ge> 0x80000000 then Inl G_CONVERT_ERROR_ILLEGAL_SEQUENCE
      else case usable_chars cs of Inl e \<Rightarrow> Inl e | Inr ds \<Rightarrow> Inr (c # ds))"

definition g_ucs4_to_utf8 :: "gunichar list \<Rightarrow> int \<Rightarrow> convert_error + string" where
  "g_ucs4_to_utf8 str len =
     (case usable_chars (if len < 0 then str else take (nat len) str) of
        Inl e \<Rightarrow> Inl e
      | Inr cs \<Rightarrow> Inr (concat (map g_unichar_to_utf8 cs)))"

subsection \<open>Bits and digits\<close>

lemma or_low:
  fixes x :: nat
  assumes "x < 2 ^ n"
  shows "2 ^ n * y OR x = 2 ^ n * y + x"
proof -
  have "push_bit n y OR take_bit n x = push_bit n y + take_bit n x"
    by (rule disjunctive_add [symmetric]) (simp add: bit_simps)
  then show ?thesis using assms by (simp add: push_bit_eq_mult take_bit_eq_mod mult.commute)
qed

lemma or_first:
  fixes x :: nat
  shows "x < 64 \<Longrightarrow> x OR 0x80 = 0x80 + x" "x < 32 \<Longrightarrow> x OR 0xc0 = 0xc0 + x" "x < 16 \<Longrightarrow> x OR 0xe0 = 0xe0 + x"
    "x < 8 \<Longrightarrow> x OR 0xf0 = 0xf0 + x"
  using or_low [of x 6 2] or_low [of x 5 6] or_low [of x 4 14] or_low [of x 3 30] by (simp_all add: or.commute)

lemma and_low:
  fixes x :: nat
  shows "x AND 0x3f = x mod 64" "x AND 0x1f = x mod 32" "x AND 0x0f = x mod 16" "x AND 0x07 = x mod 8" "x AND 0x7f = x mod 128"
  using take_bit_eq_mask [of 6 x] take_bit_eq_mask [of 5 x] take_bit_eq_mask [of 4 x] take_bit_eq_mask [of 3 x]
    take_bit_eq_mask [of 7 x]
  by (simp_all add: take_bit_eq_mod mask_eq_exp_minus_1)

lemma shift_or:
  fixes w :: gunichar
  assumes "unat w < 2 ^ 26" "x < 64"
  shows "unat (push_bit 6 w OR of_nat x) = 64 * unat w + x"
proof -
  have "unat (push_bit 6 w) = take_bit 32 (push_bit 6 (unat w))" by (simp only: unsigned_push_bit_eq) simp
  then have "unat (push_bit 6 w) = 64 * unat w" using assms(1) by (simp only: push_bit_eq_mult take_bit_eq_mod) simp
  moreover have "unat (of_nat x :: gunichar) = x" using assms(2) by (simp add: unat_of_nat)
  ultimately show ?thesis using or_low [of x 6 "unat w"] assms(2) by (simp only: unsigned_or_eq) simp
qed

lemma mask_lead2: "byte c AND 0xe0 = 0xc0 \<longleftrightarrow> 192 \<le> byte c \<and> byte c < 224"
  by (rule nat256_cases [where P = "\<lambda>b. b AND 0xe0 = 0xc0 \<longleftrightarrow> 192 \<le> b \<and> b < 224"])
    (simp add: all_bytes)

lemma mask_lead3: "byte c AND 0xf0 = 0xe0 \<longleftrightarrow> 224 \<le> byte c \<and> byte c < 240"
  by (rule nat256_cases [where P = "\<lambda>b. b AND 0xf0 = 0xe0 \<longleftrightarrow> 224 \<le> b \<and> b < 240"])
    (simp add: all_bytes)

lemma mask_lead4: "byte c AND 0xf8 = 0xf0 \<longleftrightarrow> 240 \<le> byte c \<and> byte c < 248"
  by (rule nat256_cases [where P = "\<lambda>b. b AND 0xf8 = 0xf0 \<longleftrightarrow> 240 \<le> b \<and> b < 248"])
    (simp add: all_bytes)

lemma skip_lengths:
  "utf8_skip_data ! byte c = (if byte c < 192 then 1 else if byte c < 224 then 2 else if byte c < 240 then 3
     else if byte c < 248 then 4 else if byte c < 252 then 5 else if byte c < 254 then 6 else 1)"
proof -
  have "list_all (\<lambda>b. utf8_skip_data ! b = (if b < 192 then 1 else if b < 224 then 2 else if b < 240 then 3
     else if b < 248 then 4 else if b < 252 then 5 else if b < 254 then 6 else 1)) [0..<256]"
    by code_simp
  then show ?thesis by (rule nat256_cases)
qed

subsection \<open>Characters at a position\<close>

lemma byte_at_append: "byte_at (pre @ s) (length pre + i) = byte_at s i"
  by (simp add: byte_at_def)

lemma byte_at_Cons [simp]: "byte_at (c # s) 0 = Some (byte c)" "byte_at (c # s) (Suc i) = byte_at s i" "byte_at [] 0 = Some 0"
  by (simp_all add: byte_at_def)

lemma utf8_get_append: "utf8_get (pre @ s) (length pre + i) w k = utf8_get s i w k"
proof (induction k arbitrary: i w)
  case (Suc k)
  then show ?case using Suc [of "Suc i"] by (cases "byte_at s i") (simp_all add: byte_at_append)
qed simp

lemma get_extended_append: "get_extended (pre @ s) (length pre + i) m w k = get_extended s i m w k"
proof (induction k arbitrary: i w)
  case (Suc k)
  then show ?case using Suc [of "Suc i"] by (cases "byte_at s i") (simp_all add: byte_at_append)
qed simp

lemma all_continue_append: "all_continue (pre @ s) (length pre + i) k = all_continue s i k"
proof (induction k arbitrary: i)
  case (Suc k)
  then show ?case using Suc [of "Suc i"] by (cases "byte_at s i") (simp_all add: byte_at_append)
qed simp

lemma get_char_append: "g_utf8_get_char (pre @ s) (length pre + i) = g_utf8_get_char s i"
  using utf8_get_append [of pre s "Suc i"]
  by (cases "byte_at s i") (auto simp: g_utf8_get_char_def byte_at_append split: option.split)

lemma get_char_extended_append:
  "g_utf8_get_char_extended (pre @ s) (length pre + i) n = g_utf8_get_char_extended s i n"
  using get_extended_append [of pre s "Suc i"] all_continue_append [of pre s "Suc i"]
  by (cases "byte_at s i") (auto simp: g_utf8_get_char_extended_def byte_at_append split: option.split)

lemma next_char_append: "g_utf8_next_char (pre @ s) (length pre + i) = map_option (\<lambda>j. length pre + j) (g_utf8_next_char s i)"
  by (cases "byte_at s i") (simp_all add: g_utf8_next_char_def byte_at_append)

subsection \<open>One character\<close>

text \<open>The leading bytes of the encodings.\<close>

lemma byte_lead:
  fixes x :: nat
  shows "x < 128 \<Longrightarrow> byte (char_of x) = x" "x < 32 \<Longrightarrow> byte (char_of (0xc0 + x)) = 0xc0 + x"
    "x < 16 \<Longrightarrow> byte (char_of (0xe0 + x)) = 0xe0 + x" "x < 8 \<Longrightarrow> byte (char_of (0xf0 + x)) = 0xf0 + x"
  by (intro byte_char_of; simp)+

lemma unat_drop: "unat (drop_bit k c) = unat c div 2 ^ k" for c :: gunichar
  unfolding unat_drop_bit_eq [of k c] by (rule drop_bit_eq_div)

lemma unat_byte: "unat (drop_bit k c AND 0x3f OR 0x80) = 0x80 + unat c div 2 ^ k mod 64" for c :: gunichar
proof -
  have "unat (drop_bit k c AND 0x3f) = unat c div 2 ^ k mod 64"
    using and_low(1) [of "unat (drop_bit k c)"] by (simp add: unsigned_and_eq unat_drop)
  then show ?thesis using or_first(1) [of "unat c div 2 ^ k mod 64"] by (simp add: unsigned_or_eq)
qed

lemma unat_lead:
  fixes c :: gunichar
  shows "unat c div 2 ^ k < 32 \<Longrightarrow> unat (drop_bit k c OR 0xc0) = 0xc0 + unat c div 2 ^ k"
    "unat c div 2 ^ k < 16 \<Longrightarrow> unat (drop_bit k c OR 0xe0) = 0xe0 + unat c div 2 ^ k"
    "unat c div 2 ^ k < 8 \<Longrightarrow> unat (drop_bit k c OR 0xf0) = 0xf0 + unat c div 2 ^ k"
  using or_first(2-4) [of "unat c div 2 ^ k"] by (simp_all add: unsigned_or_eq unat_drop)

lemma unichar_to_utf8:
  assumes "unicode_scalar u"
  shows "g_unichar_to_utf8 (of_nat u) = utf8_encode u"
proof -
  have u: "unat (of_nat u :: gunichar) = u" "u < 0x110000" using assms by (simp_all add: unicode_scalar_def unat_of_nat)
  define c where "c = (of_nat u :: gunichar)"
  have c: "unat c = u" using u by (simp add: c_def)
  have less: "c < of_nat n \<longleftrightarrow> u < n" if "n < 2 ^ 32" for n
    using that c by (simp add: word_less_nat_alt unat_of_nat)
  have r: "c < 0x80 \<longleftrightarrow> u < 0x80" "c < 0x800 \<longleftrightarrow> u < 0x800" "c < 0x10000 \<longleftrightarrow> u < 0x10000" "c < 0x200000"
    using less [of "0x80"] less [of "0x800"] less [of "0x10000"] less [of "0x200000"] u(2) by simp_all
  have b: "unat (c AND 0x3f OR 0x80) = 0x80 + u mod 64" using unat_byte [of 0 c] c by simp
  have bs: "unat (drop_bit 6 c AND 0x3f OR 0x80) = 0x80 + u div 64 mod 64" "unat (drop_bit 12 c AND 0x3f OR 0x80) = 0x80 + u div 4096 mod 64"
    using unat_byte [of 6 c] unat_byte [of 12 c] c by simp_all
  consider "u < 0x80" | "\<not> u < 0x80" "u < 0x800" | "\<not> u < 0x800" "u < 0x10000" | "\<not> u < 0x10000" by linarith
  then have "g_unichar_to_utf8 c = utf8_encode u"
  proof cases
    case 1
    then show ?thesis by (simp add: g_unichar_to_utf8_def r c utf8_encode_def)
  next
    case 2
    then have "unat (drop_bit 6 c OR 0xc0) = 0xc0 + u div 64" using unat_lead(1) [of c 6] c by simp
    with 2 show ?thesis by (simp add: g_unichar_to_utf8_def r c b utf8_encode_def numeral_2_eq_2)
  next
    case 3
    then have "unat (drop_bit 12 c OR 0xe0) = 0xe0 + u div 4096" using unat_lead(2) [of c 12] c by simp
    with 3 show ?thesis by (simp add: g_unichar_to_utf8_def r c b bs utf8_encode_def numeral_2_eq_2)
  next
    case 4
    then have "unat (drop_bit 18 c OR 0xf0) = 0xf0 + u div 262144" using unat_lead(3) [of c 18] c u(2) by simp
    with 4 show ?thesis by (simp add: g_unichar_to_utf8_def r c b bs utf8_encode_def numeral_3_eq_3)
  qed
  then show ?thesis by (simp add: c_def)
qed

lemma shift_or_nat:
  assumes "a < 2 ^ 26" "x < 64"
  shows "push_bit 6 (of_nat a) OR of_nat x = (of_nat (64 * a + x) :: gunichar)"
proof -
  have "unat (of_nat a :: gunichar) = a" using assms(1) by (simp add: unat_of_nat)
  then have "unat (push_bit 6 (of_nat a) OR of_nat x :: gunichar) = 64 * a + x" using shift_or [of "of_nat a" x] assms by simp
  then show ?thesis by (metis of_nat_unat ucast_id)
qed

lemma cont_bits:
  assumes "y < (64 :: nat)"
  shows "byte (char_of (0x80 + y)) AND 0xc0 = 0x80" "byte (char_of (0x80 + y)) AND 0x3f = y"
proof -
  have b: "byte (char_of (0x80 + y)) = 0x80 + y" using assms by (intro byte_char_of) simp
  then show "byte (char_of (0x80 + y)) AND 0xc0 = 0x80" using mask_c0 [of "char_of (0x80 + y)"] assms by simp
  show "byte (char_of (0x80 + y)) AND 0x3f = y"
    unfolding b and_low using assms mod_add_self1 [of 64 "64 + y"] by simp
qed

definition continuation :: "nat \<Rightarrow> char" where
  "continuation y = char_of (0x80 + y)"

definition put_digit :: "nat \<Rightarrow> nat \<Rightarrow> nat" where
  "put_digit a y = 64 * a + y"

text \<open>Both readers put the digits of the continuation bytes behind what they have.\<close>

lemma get_digits:
  assumes "\<forall>y \<in> set ys. y < 64" "Suc a * 64 ^ length ys \<le> 2 ^ 32"
  shows "utf8_get (map continuation ys @ r) 0 (of_nat a) (length ys) = Some (of_nat (foldl put_digit a ys)) \<and>
    get_extended (map continuation ys @ r) 0 m (of_nat a) (length ys) =
      Some (if of_nat (foldl put_digit a ys) < m then malformed_sequence else of_nat (foldl put_digit a ys))"
  using assms
proof (induction ys arbitrary: a)
  case (Cons y ys)
  have y: "y < 64" using Cons.prems by simp
  have "Suc a * 64 \<le> Suc a * 64 ^ length (y # ys)" by (intro mult_left_mono) simp_all
  then have "Suc a * 64 \<le> 2 ^ 32" using Cons.prems(2) by (rule order_trans)
  then have a: "a < 2 ^ 26" by simp
  have "Suc (put_digit a y) * 64 ^ length ys \<le> Suc a * 64 * 64 ^ length ys"
    using y by (intro mult_right_mono) (simp_all add: put_digit_def)
  also have "\<dots> = Suc a * 64 ^ length (y # ys)" by (simp only: list.size power_Suc add_Suc_right add_0_right mult.assoc)
  also note Cons.prems(2)
  finally have "Suc (put_digit a y) * 64 ^ length ys \<le> 2 ^ 32" .
  note IH = Cons.IH [OF _ this]
  let ?t = "map continuation ys @ r"
  have "utf8_get (continuation y # ?t) 0 (of_nat a) (Suc (length ys)) = utf8_get (continuation y # ?t) 1 (of_nat (put_digit a y)) (length ys)"
    "get_extended (continuation y # ?t) 0 m (of_nat a) (Suc (length ys)) =
      get_extended (continuation y # ?t) 1 m (of_nat (put_digit a y)) (length ys)"
    using cont_bits [OF y] shift_or_nat [OF a y] by (simp_all add: continuation_def put_digit_def)
  then show ?case
    using IH Cons.prems(1) utf8_get_append [of "[continuation y]" ?t 0] get_extended_append [of "[continuation y]" ?t 0] by simp
qed simp

lemma lead_bits:
  fixes x :: nat
  shows "x < 32 \<Longrightarrow> utf8_compute (0xc0 + x) = Some (0x1f, 2) \<and> (0xc0 + x) AND 0x1f = x"
    "x < 16 \<Longrightarrow> utf8_compute (0xe0 + x) = Some (0x0f, 3) \<and> (0xe0 + x) AND 0x0f = x"
    "x < 8 \<Longrightarrow> utf8_compute (0xf0 + x) = Some (0x07, 4) \<and> (0xf0 + x) AND 0x07 = x"
proof -
  have e: "utf8_compute (byte c) = (if byte c < 128 then Some (0x7f, 1) else if 192 \<le> byte c \<and> byte c < 224 then Some (0x1f, 2)
      else if 224 \<le> byte c \<and> byte c < 240 then Some (0x0f, 3) else if 240 \<le> byte c \<and> byte c < 248 then Some (0x07, 4)
      else utf8_compute (byte c))" for c
    using mask_lead2 [of c] mask_lead3 [of c] mask_lead4 [of c] by (simp add: utf8_compute_def)
  show "x < 32 \<Longrightarrow> utf8_compute (0xc0 + x) = Some (0x1f, 2) \<and> (0xc0 + x) AND 0x1f = x"
    using e [of "char_of (0xc0 + x)"] byte_lead(2) [of x] mod_mult_self3 [of 6 32 x] by (simp add: and_low [simplified])
  show "x < 16 \<Longrightarrow> utf8_compute (0xe0 + x) = Some (0x0f, 3) \<and> (0xe0 + x) AND 0x0f = x"
    using e [of "char_of (0xe0 + x)"] byte_lead(3) [of x] mod_mult_self3 [of 14 16 x] by (simp add: and_low [simplified])
  show "x < 8 \<Longrightarrow> utf8_compute (0xf0 + x) = Some (0x07, 4) \<and> (0xf0 + x) AND 0x07 = x"
    using e [of "char_of (0xf0 + x)"] byte_lead(4) [of x] mod_mult_self3 [of 30 8 x] by (simp add: and_low [simplified])
qed

text \<open>What the readers see of an encoded character.\<close>

lemma encoded:
  assumes "unicode_scalar u"
  obtains c bits ys a where "utf8_encode u = c # map continuation ys" "utf8_compute (byte c) = Some (bits, Suc (length ys))"
    "byte c AND bits = a" "foldl put_digit a ys = u" "\<forall>y \<in> set ys. y < 64" "Suc a * 64 ^ length ys \<le> 2 ^ 32"
    "utf8_skip_data ! byte c = Suc (length ys)"
    "if ys = [] then byte c = u \<and> u < 0x80
     else \<not> byte c < 0x80 \<and> (\<exists>m. extended_lead (byte c) = Some (Suc (length ys), bits, m) \<and> \<not> of_nat u < m)"
proof -
  have m: "u < 0x110000" using assms by (simp add: unicode_scalar_def)
  have "(of_nat u :: gunichar) < of_nat k \<longleftrightarrow> u < k" if "k < 2 ^ 32" for k
    using that m by (simp add: word_less_nat_alt unat_of_nat)
  from this [of "2 ^ 7"] this [of "2 ^ 11"] this [of "2 ^ 16"]
  have l: "(of_nat u :: gunichar) < 128 \<longleftrightarrow> u < 2 ^ 7" "(of_nat u :: gunichar) < 2048 \<longleftrightarrow> u < 2 ^ 11"
    "(of_nat u :: gunichar) < 65536 \<longleftrightarrow> u < 2 ^ 16" by simp_all
  consider "u < 0x80" | "\<not> u < 0x80" "u < 0x800" | "\<not> u < 0x800" "u < 0x10000" | "\<not> u < 0x10000" by linarith
  then show thesis
  proof cases
    case 1
    have b: "byte (char_of u) = u" using 1 by (intro byte_lead(1)) simp
    show thesis
      by (rule that [of "char_of u" "[]" "0x7f" u])
        (use 1 b skip_lengths [of "char_of u"] in \<open>simp_all add: utf8_encode_def utf8_compute_def and_low [simplified]\<close>)
  next
    case 2
    then have x: "u div 64 < 32" by auto
    show thesis
      by (rule that [of "char_of (0xc0 + u div 64)" "[u mod 64]" "0x1f" "u div 64"])
        (use 2 x byte_lead(2) [OF x] skip_lengths [of "char_of (0xc0 + u div 64)"] lead_bits(1) [OF x] l in
          \<open>simp_all add: utf8_encode_def continuation_def put_digit_def extended_lead_def\<close>)
  next
    case 3
    then have x: "u div 4096 < 16" by auto
    show thesis
      by (rule that [of "char_of (0xe0 + u div 4096)" "[u div 64 mod 64, u mod 64]" "0x0f" "u div 4096"])
        (use 3 x byte_lead(3) [OF x] skip_lengths [of "char_of (0xe0 + u div 4096)"] lead_bits(2) [OF x] l base64_digits2 [of u] in
          \<open>simp_all add: utf8_encode_def continuation_def put_digit_def extended_lead_def\<close>)
  next
    case 4
    then have x: "u div 262144 < 8" using m by auto
    show thesis
      by (rule that [of "char_of (0xf0 + u div 262144)" "[u div 4096 mod 64, u div 64 mod 64, u mod 64]" "0x07" "u div 262144"])
        (use 4 x byte_lead(4) [OF x] skip_lengths [of "char_of (0xf0 + u div 262144)"] lead_bits(3) [OF x] l base64_digits3 [of u] in
          \<open>simp_all add: utf8_encode_def continuation_def put_digit_def extended_lead_def\<close>)
  qed
qed

lemma at_encoded:
  assumes "unicode_scalar u"
  shows "g_utf8_get_char (utf8_encode u @ r) 0 = Some (of_nat u)"
    "g_utf8_next_char (utf8_encode u @ r) 0 = Some (length (utf8_encode u))"
    "n < 0 \<or> int (length (utf8_encode u)) \<le> n \<Longrightarrow> g_utf8_get_char_extended (utf8_encode u @ r) 0 n = Some (of_nat u)"
proof -
  obtain c bits ys a where e: "utf8_encode u = c # map continuation ys" "utf8_compute (byte c) = Some (bits, Suc (length ys))"
    "byte c AND bits = a" "foldl put_digit a ys = u" "\<forall>y \<in> set ys. y < 64" "Suc a * 64 ^ length ys \<le> 2 ^ 32"
    "utf8_skip_data ! byte c = Suc (length ys)"
    "if ys = [] then byte c = u \<and> u < 0x80
     else \<not> byte c < 0x80 \<and> (\<exists>m. extended_lead (byte c) = Some (Suc (length ys), bits, m) \<and> \<not> of_nat u < m)"
    using encoded [OF assms] .
  let ?t = "map continuation ys @ r"
  have g: "utf8_get (c # ?t) (Suc 0) (of_nat a) (length ys) = Some (of_nat u)"
    "get_extended (c # ?t) (Suc 0) m (of_nat a) (length ys) = Some (if of_nat u < m then malformed_sequence else of_nat u)" for m
    using get_digits [OF e(5,6), of r m] e(4) utf8_get_append [of "[c]" ?t 0] get_extended_append [of "[c]" ?t 0] by simp_all
  show "g_utf8_get_char (utf8_encode u @ r) 0 = Some (of_nat u)"
    using g(1) by (simp add: e(1-3) g_utf8_get_char_def)
  show "g_utf8_next_char (utf8_encode u @ r) 0 = Some (length (utf8_encode u))"
    by (simp add: e(1,7) g_utf8_next_char_def)
  show "g_utf8_get_char_extended (utf8_encode u @ r) 0 n = Some (of_nat u)" if "n < 0 \<or> int (length (utf8_encode u)) \<le> n"
  proof (cases "ys = []")
    case False
    then obtain m where m: "\<not> byte c < 0x80" "extended_lead (byte c) = Some (Suc (length ys), bits, m)" "\<not> of_nat u < m"
      using e(8) by auto
    have "\<not> (0 \<le> n \<and> nat n < Suc (length ys))" using that e(1) by auto
    then show ?thesis using m e(3) g(2) [of m] by (auto simp: e(1) g_utf8_get_char_extended_def)
  qed (use e in \<open>simp add: g_utf8_get_char_extended_def\<close>)
qed

lemma unichar_validate:
  assumes "u < 2 ^ 32"
  shows "g_unichar_validate (of_nat u) \<longleftrightarrow> unicode_scalar u"
proof -
  define c where "c = (of_nat u :: gunichar)"
  have c: "unat c = u" using assms by (simp add: c_def unat_of_nat)
  have "u AND 0xFFFFF800 = 2048 * (u div 2048)"
  proof -
    have "u AND push_bit 11 (mask 21) = push_bit 11 (take_bit 21 (drop_bit 11 u))"
      by (rule bit_eqI) (auto simp: bit_simps)
    moreover have "u div 2048 < 2 ^ 21" using assms by auto
    then have "take_bit 21 (drop_bit 11 u) = u div 2048" by (simp add: drop_bit_eq_div take_bit_eq_mod)
    ultimately show ?thesis by (simp add: push_bit_eq_mult mask_eq_exp_minus_1)
  qed
  then have "unat (c AND 0xFFFFF800) = 2048 * (u div 2048)" by (simp add: unsigned_and_eq c)
  moreover have "c AND 0xFFFFF800 = 0xD800 \<longleftrightarrow> unat (c AND 0xFFFFF800) = unat (0xD800 :: gunichar)" by (rule word_unat_eq_iff)
  ultimately have "c AND 0xFFFFF800 = 0xD800 \<longleftrightarrow> u div 2048 = 27" by simp
  moreover have "u div 2048 = 27 \<longleftrightarrow> 0xd800 \<le> u \<and> u < 0xe000"
    using div_nat_eqI [of 27 2048 u] div_mult_mod_eq [of u 2048] mod_less_divisor [of 2048 u] by auto
  moreover have "c < 0x110000 \<longleftrightarrow> u < 0x110000" using c by (simp add: word_less_nat_alt)
  ultimately show ?thesis by (auto simp: g_unichar_validate_def unicode_scalar_def simp flip: c_def)
qed

lemma no_error_bit:
  assumes "unicode_scalar u"
  shows "(of_nat u :: gunichar) AND 0x80000000 = 0" "\<not> 0x80000000 \<le> (of_nat u :: gunichar)"
proof -
  have u: "u < 2 ^ 31" "unat (of_nat u :: gunichar) = u" using assms by (simp_all add: unicode_scalar_def unat_of_nat)
  have "\<not> bit u 31" using u(1) by (simp add: bit_iff_odd)
  then have "u AND 2 ^ 31 = 0" unfolding and_exp_eq_0_iff_not_bit .
  then have "unat ((of_nat u :: gunichar) AND 0x80000000) = 0" by (simp add: unsigned_and_eq u(2))
  then show "(of_nat u :: gunichar) AND 0x80000000 = 0" by (simp only: unat_eq_0)
  show "\<not> 0x80000000 \<le> (of_nat u :: gunichar)" using u by (simp add: word_le_nat_alt)
qed

subsection \<open>Whole strings\<close>

abbreviation encoding :: "nat list \<Rightarrow> string" where
  "encoding us \<equiv> concat (map utf8_encode us)"

definition proper :: "nat \<Rightarrow> bool" where
  "proper u \<longleftrightarrow> unicode_scalar u \<and> u \<noteq> 0"

lemma first_byte:
  assumes "proper u"
  obtains b where "byte_at (utf8_encode u @ r) 0 = Some b" "b \<noteq> 0"
proof -
  obtain c bits ys a where "utf8_encode u = c # map continuation ys"
    "if ys = [] then byte c = u \<and> u < 0x80
     else \<not> byte c < 0x80 \<and> (\<exists>m. extended_lead (byte c) = Some (Suc (length ys), bits, m) \<and> \<not> of_nat u < m)"
    using encoded [of u] assms by (metis proper_def)
  then show thesis using that [of "byte c"] assms by (auto simp: proper_def split: if_splits)
qed

text \<open>The same at any place in a string.\<close>

lemma at_place:
  assumes "proper u" "s = pre @ utf8_encode u @ r"
  shows "\<exists>b. byte_at s (length pre) = Some b \<and> b \<noteq> 0" "g_utf8_get_char s (length pre) = Some (of_nat u)"
    "g_utf8_next_char s (length pre) = Some (length (pre @ utf8_encode u))"
    "n < 0 \<or> int (length (utf8_encode u)) \<le> n \<Longrightarrow> g_utf8_get_char_extended s (length pre) n = Some (of_nat u)"
proof -
  have u: "unicode_scalar u" using assms(1) by (simp add: proper_def)
  show "\<exists>b. byte_at s (length pre) = Some b \<and> b \<noteq> 0"
    using first_byte [OF assms(1), of r] byte_at_append [of pre _ 0] assms(2) by (metis add_0_right)
  show "g_utf8_get_char s (length pre) = Some (of_nat u)"
    using at_encoded(1) [OF u, of r] get_char_append [of pre _ 0] assms(2) by simp
  show "g_utf8_next_char s (length pre) = Some (length (pre @ utf8_encode u))"
    using at_encoded(2) [OF u, of r] next_char_append [of pre _ 0] assms(2) by simp
  show "n < 0 \<or> int (length (utf8_encode u)) \<le> n \<Longrightarrow> g_utf8_get_char_extended s (length pre) n = Some (of_nat u)"
    using at_encoded(3) [OF u, of n r] get_char_extended_append [of pre _ 0 n] assms(2) by simp
qed

lemma at_end: "byte_at pre (length pre) = Some 0"
  by (simp add: byte_at_def)

lemma strlen_loop: "\<forall>u \<in> set us. proper u \<Longrightarrow> strlen_to_nul (pre @ encoding us) (length pre) n = Some (n + length us)"
proof (induction us arbitrary: pre n)
  case Nil
  then show ?case by (simp add: strlen_to_nul.simps [of _ "length pre"] at_end)
next
  case (Cons u us)
  let ?s = "pre @ utf8_encode u @ encoding us"
  have u: "proper u" using Cons.prems by simp
  obtain b where b: "byte_at ?s (length pre) = Some b" "b \<noteq> 0" using at_place(1) [OF u refl] by blast
  have "strlen_to_nul ?s (length pre) n = strlen_to_nul ?s (length (pre @ utf8_encode u)) (n + 1)"
    by (simp add: strlen_to_nul.simps [of _ "length pre"] b at_place(3) [OF u refl, simplified])
  then show ?case using Cons.IH [of "pre @ utf8_encode u" "n + 1"] Cons.prems by simp
qed

lemma count_loop:
  assumes "\<forall>u \<in> set us. proper u"
  shows "count_chars (pre @ encoding us) (- 1) w (length pre) n = Some (n + length us, length (pre @ encoding us), None)"
  using assms
proof (induction us arbitrary: pre n)
  case Nil
  then show ?case by (simp add: count_chars.simps [of _ _ _ "length pre"] at_end)
next
  case (Cons u us)
  let ?s = "pre @ utf8_encode u @ encoding us"
  have u: "proper u" using Cons.prems by simp
  obtain b where b: "byte_at ?s (length pre) = Some b" "b \<noteq> 0" using at_place(1) [OF u refl] by blast
  have "(of_nat u :: gunichar) AND 0x80000000 = 0" using u no_error_bit by (simp add: proper_def)
  moreover have "length (utf8_encode u) \<le> 6" by (simp add: utf8_encode_def)
  ultimately have "count_chars ?s (- 1) w (length pre) n = count_chars ?s (- 1) w (length (pre @ utf8_encode u)) (n + 1)"
    using at_place(4) [OF u refl, of 6 pre "encoding us"]
    by (simp add: count_chars.simps [of _ _ _ "length pre"] b at_place(3) [OF u refl, simplified])
  then show ?case using Cons.IH [of "pre @ utf8_encode u" "n + 1"] Cons.prems by simp
qed

lemma read_loop: "\<forall>u \<in> set us. proper u \<Longrightarrow> read_chars (pre @ encoding us) (length pre) (length us) = Some (map of_nat us)"
proof (induction us arbitrary: pre)
  case (Cons u us)
  have u: "proper u" using Cons.prems by simp
  show ?case
    using Cons.IH [of "pre @ utf8_encode u"] Cons.prems at_place(2,3) [OF u refl, of pre "encoding us"] by simp
qed simp

lemma usable_proper: "\<forall>u \<in> set us. proper u \<Longrightarrow> usable_chars (map of_nat us) = Inr (map of_nat us)"
proof (induction us)
  case (Cons u us)
  have u: "unicode_scalar u" "u \<noteq> 0" using Cons.prems by (simp_all add: proper_def)
  then have "(of_nat u :: gunichar) \<noteq> 0" by (simp add: unicode_scalar_def word_unat_eq_iff unat_of_nat)
  then show ?case using no_error_bit(2) [OF u(1)] Cons by simp
qed simp

lemma encode_decode:
  assumes "\<forall>u \<in> set us. proper u"
  shows "g_ucs4_to_utf8 (map of_nat us) (- 1) = Inr (encoding us)"
    "g_utf8_to_ucs4 (encoding us) (- 1) w = Some (Inr (map of_nat us), length (encoding us))"
    "g_utf8_strlen (encoding us) (- 1) = Some (length us)"
proof -
  have "map (\<lambda>u. g_unichar_to_utf8 (of_nat u)) us = map utf8_encode us"
    using assms by (intro map_cong) (simp_all add: proper_def unichar_to_utf8)
  then show "g_ucs4_to_utf8 (map of_nat us) (- 1) = Inr (encoding us)"
    by (simp add: g_ucs4_to_utf8_def usable_proper [OF assms] comp_def del: map_eq_conv)
  show "g_utf8_to_ucs4 (encoding us) (- 1) w = Some (Inr (map of_nat us), length (encoding us))"
    using count_loop [OF assms, of "[]" w 0] read_loop [OF assms, of "[]"] by (simp add: g_utf8_to_ucs4_def)
  show "g_utf8_strlen (encoding us) (- 1) = Some (length us)"
    using strlen_loop [OF assms, of "[]" 0] by (simp add: g_utf8_strlen_def)
qed

text \<open>The usable characters as words, and as numbers.\<close>

definition usable :: "gunichar \<Rightarrow> bool" where
  "usable c \<longleftrightarrow> g_unichar_validate c \<and> c \<noteq> 0"

lemma usable_proper_iff: "usable c \<longleftrightarrow> proper (unat c)"
proof -
  have "unat c < 2 ^ 32" using unsigned_less [of c, where 'a = nat] by simp
  then show ?thesis using unichar_validate [of "unat c"] by (simp add: usable_def proper_def unat_eq_0)
qed

lemma proper_encoding:
  assumes "g_utf8_validate s" "list_all not_nul s"
  obtains us where "\<forall>u \<in> set us. proper u" "s = encoding us"
proof -
  obtain us where us: "\<forall>u \<in> set us. unicode_scalar u" "s = encoding us" using assms(1) g_utf8_validate_iff_encoding by blast
  have "u \<noteq> 0" if "u \<in> set us" for u
  proof
    assume "u = 0"
    then have "char_of (0 :: nat) \<in> set s" using that us(2) by (auto simp: utf8_encode_def intro!: bexI [of _ 0])
    then show False using assms(2) byte_char_of [of 0] by (auto simp: list_all_iff not_nul_def)
  qed
  with us show thesis by (intro that) (auto simp: proper_def)
qed

text \<open>
  C40. Texts survive the conversions of the glib in both directions: writing any code points, none of them 0 or a surrogate or
  out of range, gives valid UTF-8 that reads back as the same code points and counts as that many characters, and
  any valid text without NUL reads as such code points, to its end, and is written back as it was.
\<close>

theorem utf8_ucs4_round_trip:
  "(\<forall>cs. list_all usable cs \<longrightarrow>
      (\<exists>s. g_ucs4_to_utf8 cs (- 1) = Inr s \<and> g_utf8_validate s \<and> g_utf8_to_ucs4 s (- 1) w = Some (Inr cs, length s) \<and>
        g_utf8_strlen s (- 1) = Some (length cs))) \<and>
   (\<forall>s. g_utf8_validate s \<and> list_all not_nul s \<longrightarrow>
      (\<exists>cs. g_utf8_to_ucs4 s (- 1) w = Some (Inr cs, length s) \<and> list_all usable cs \<and> g_ucs4_to_utf8 cs (- 1) = Inr s))"
proof (intro conjI allI impI)
  fix cs assume cs: "list_all usable cs"
  define us where "us = map unat cs"
  have us: "\<forall>u \<in> set us. proper u" "cs = map of_nat us"
    using cs by (simp_all add: us_def list_all_iff usable_proper_iff comp_def)
  have "g_utf8_validate (encoding us)" using us(1) g_utf8_validate_iff_encoding by (auto simp: proper_def)
  then show "\<exists>s. g_ucs4_to_utf8 cs (- 1) = Inr s \<and> g_utf8_validate s \<and> g_utf8_to_ucs4 s (- 1) w = Some (Inr cs, length s) \<and>
      g_utf8_strlen s (- 1) = Some (length cs)"
    using encode_decode [OF us(1)] us(2) by (intro exI [of _ "encoding us"]) simp
next
  fix s assume "g_utf8_validate s \<and> list_all not_nul s"
  then obtain us where us: "\<forall>u \<in> set us. proper u" "s = encoding us" using proper_encoding by blast
  have "list_all usable (map of_nat us)"
    using us(1) by (auto simp: list_all_iff usable_proper_iff proper_def unicode_scalar_def unat_of_nat)
  then show "\<exists>cs. g_utf8_to_ucs4 s (- 1) w = Some (Inr cs, length s) \<and> list_all usable cs \<and> g_ucs4_to_utf8 cs (- 1) = Inr s"
    using encode_decode [OF us(1)] us(2) by (intro exI [of _ "map of_nat us"]) simp
qed

lemma utf8_ucs4_round_trip_witness:
  "\<exists>s. g_ucs4_to_utf8 [0x48, 0x3c0, 0x20ac, 0x1f600] (- 1) = Inr s \<and> g_utf8_to_ucs4 s (- 1) True = Some (Inr [0x48, 0x3c0, 0x20ac, 0x1f600], length s)"
proof -
  have "list_all usable [0x48, 0x3c0, 0x20ac, 0x1f600]" by (simp add: usable_def g_unichar_validate_def)
  then show ?thesis using utf8_ucs4_round_trip by blast
qed

subsection \<open>Counting in a limited number of bytes\<close>

text \<open>How many of the characters lie wholly in so many bytes.\<close>

fun whole_chars :: "nat \<Rightarrow> nat list \<Rightarrow> nat" where
  "whole_chars limit [] = 0"
| "whole_chars limit (u # us) =
     (if length (utf8_encode u) \<le> limit then Suc (whole_chars (limit - length (utf8_encode u)) us) else 0)"

lemma whole_chars_0 [simp]: "whole_chars 0 us = 0"
  by (cases us) (simp_all add: utf8_encode_def)

lemma strlen_max_loop:
  assumes "\<forall>u \<in> set us. proper u"
  shows "\<exists>q m. strlen_to_max (pre @ encoding us) limit (length pre) n = Some (q, m) \<and>
    (if q \<le> limit then m + 1 else m) = (if length pre \<le> limit then n + 1 + whole_chars (limit - length pre) us else n)"
  using assms
proof (induction us arbitrary: pre n)
  case Nil
  then show ?case by (simp add: strlen_to_max.simps [of _ _ "length pre"] at_end)
next
  case (Cons u us)
  let ?s = "pre @ utf8_encode u @ encoding us"
  show ?case
  proof (cases "length pre < limit")
    case True
    have u: "proper u" using Cons.prems by simp
    obtain b where b: "byte_at ?s (length pre) = Some b" "b \<noteq> 0" using at_place(1) [OF u refl] by blast
    have "strlen_to_max ?s limit (length pre) n = strlen_to_max ?s limit (length (pre @ utf8_encode u)) (n + 1)"
      using True by (simp add: strlen_to_max.simps [of _ _ "length pre"] b at_place(3) [OF u refl, simplified])
    then show ?thesis using Cons.IH [of "pre @ utf8_encode u" "n + 1"] Cons.prems True by fastforce
  qed (simp add: strlen_to_max.simps [of _ _ "length pre"] utf8_encode_not_Nil)
qed

lemma strlen_in_limit:
  assumes "\<forall>u \<in> set us. proper u"
  shows "g_utf8_strlen (encoding us) (int limit) = Some (whole_chars limit us)"
proof (cases "limit = 0")
  case False
  show ?thesis
  proof (cases us)
    case Nil
    then show ?thesis using False by (simp add: g_utf8_strlen_def)
  next
    case (Cons u vs)
    let ?s = "[] @ utf8_encode u @ encoding vs"
    have u: "proper u" "\<forall>u \<in> set vs. proper u" using assms Cons by simp_all
    obtain b where b: "byte_at ?s 0 = Some b" "b \<noteq> 0" using at_place(1) [OF u(1) refl, of "[]"] by auto
    obtain q m where q: "strlen_to_max (utf8_encode u @ encoding vs) limit (length (utf8_encode u)) 0 = Some (q, m)"
      "(if q \<le> limit then m + 1 else m) =
        (if length (utf8_encode u) \<le> limit then 0 + 1 + whole_chars (limit - length (utf8_encode u)) vs else 0)"
      using strlen_max_loop [OF u(2), of "utf8_encode u" limit 0] by blast
    then show ?thesis
      using False b at_place(3) [OF u(1) refl, of "[]" "encoding vs"] Cons
      by (simp add: g_utf8_strlen_def split: if_splits)
  qed
qed (simp add: g_utf8_strlen_def)

end
