(* ===== verification/Io_Channel.thy ===== *)
theory Io_Channel
  imports Utf8_Convert Streaming_Engine
begin

text \<open>
  The channel the feeder writes its texts to: the buffered, UTF-8 path of \<^verbatim>\<open>g_io_channel_write_chars\<close> and
  \<^verbatim>\<open>g_io_channel_flush\<close> in \<^verbatim>\<open>glib/giochannel.c\<close>, the non-blocking write of \<^verbatim>\<open>glib/giounix.c\<close> below them and the
  \<^verbatim>\<open>GString\<close> of \<^verbatim>\<open>glib/gstring.c\<close> that is the buffer. The channel is the one
  \<^verbatim>\<open>tts_streaming_engine_setup_process\<close> opens on a pipe: buffered, not seekable, with the encoding UTF-8 that needs no
  conversion. What the kernel answers to each \<^verbatim>\<open>write(2)\<close> is a list of answers; a pipe takes at least one byte or
  none and says so, and when the answers are over the pipe stays full. A failed \<^verbatim>\<open>g_assert\<close> is \<open>None\<close>.
\<close>

subsection \<open>The buffer\<close>

record gstring =
  gs_str :: string
  gs_allocated :: nat

definition G_MAXSIZE :: nat where
  "G_MAXSIZE = 2 ^ 64 - 1"

definition g_nearest_pow :: "nat \<Rightarrow> nat option" where
  "g_nearest_pow num =
     (if num > 0 \<and> num \<le> G_MAXSIZE div 2 then
        let n = num - 1;
            n = n OR drop_bit 1 n;
            n = n OR drop_bit 2 n;
            n = n OR drop_bit 4 n;
            n = n OR drop_bit 8 n;
            n = n OR drop_bit 16 n;
            n = n OR drop_bit 32 n
        in Some (n + 1)
      else None)"

definition g_string_expand :: "gstring \<Rightarrow> nat \<Rightarrow> gstring option" where
  "g_string_expand s len =
     (if G_MAXSIZE - length (gs_str s) - 1 < len then None
      else do {
        a \<leftarrow> g_nearest_pow (length (gs_str s) + len + 1);
        Some (s\<lparr>gs_allocated := if a = 0 then length (gs_str s) + len + 1 else a\<rparr>) })"

definition g_string_sized_new :: "nat \<Rightarrow> gstring option" where
  "g_string_sized_new dfl_size = g_string_expand \<lparr>gs_str = [], gs_allocated = 0\<rparr> (max dfl_size 64)"

text \<open>Appending bytes that are not part of the string itself.\<close>

definition g_string_append_len :: "gstring \<Rightarrow> string \<Rightarrow> gstring option" where
  "g_string_append_len s val =
     (if length (gs_str s) + length val < gs_allocated s then Some (s\<lparr>gs_str := gs_str s @ val\<rparr>)
      else do { s1 \<leftarrow> g_string_expand s (length val); Some (s1\<lparr>gs_str := gs_str s1 @ val\<rparr>) })"

definition g_string_erase :: "gstring \<Rightarrow> nat \<Rightarrow> nat \<Rightarrow> gstring" where
  "g_string_erase s pos len =
     (if pos \<le> length (gs_str s) \<and> pos + len \<le> length (gs_str s)
      then s\<lparr>gs_str := take pos (gs_str s) @ drop (pos + len) (gs_str s)\<rparr> else s)"

subsection \<open>The pipe\<close>

datatype write_answer = Takes nat | Interrupted | Would_Block | Fails

record pipe =
  piped :: string
  write_answers :: "write_answer list"

text \<open>One call of the channel's write function: an interrupted call is made again.\<close>

fun unix_write :: "write_answer list \<Rightarrow> nat \<Rightarrow> io_status \<times> nat \<times> write_answer list" where
  "unix_write [] count = (G_IO_STATUS_AGAIN, 0, [])"
| "unix_write (Takes n # as) count = (G_IO_STATUS_NORMAL, min (max 1 n) count, as)"
| "unix_write (Interrupted # as) count = unix_write as count"
| "unix_write (Would_Block # as) count = (G_IO_STATUS_AGAIN, 0, as)"
| "unix_write (Fails # as) count = (G_IO_STATUS_ERROR, 0, as)"

definition g_io_unix_write :: "pipe \<Rightarrow> string \<Rightarrow> io_status \<times> nat \<times> pipe" where
  "g_io_unix_write p buf =
     (case unix_write (write_answers p) (length buf) of
        (status, n, as) \<Rightarrow> (status, n, p\<lparr>piped := piped p @ take n buf, write_answers := as\<rparr>))"

lemma unix_write_consumes: "unix_write as count = (G_IO_STATUS_NORMAL, n, as') \<Longrightarrow> length as' < length as"
  by (induction as count rule: unix_write.induct) auto

text \<open>
  The do-while loop of both callers: write the rest of the buffer until the given number of bytes is
  written or a write does not succeed. The result is the last status and the number of bytes written.
\<close>

function write_until :: "nat \<Rightarrow> string \<Rightarrow> nat \<Rightarrow> pipe \<Rightarrow> io_status \<times> nat \<times> pipe" where
  "write_until limit str did p =
     (case g_io_unix_write p (drop did str) of
        (status, n, p') \<Rightarrow>
          if status = G_IO_STATUS_NORMAL \<and> did + n < limit then write_until limit str (did + n) p'
          else (status, did + n, p'))"
  by pat_completeness auto

termination write_until
  by (relation "measure (\<lambda>(limit, str, did, p). length (write_answers p))")
    (auto simp: g_io_unix_write_def unix_write_consumes split: prod.splits)

declare write_until.simps [simp del]

subsection \<open>The channel\<close>

record io_channel =
  buf_size :: nat
  write_buf :: "gstring option"
  partial_write_buf :: string
  is_writeable :: bool

definition G_IO_NICE_BUF_SIZE :: nat where
  "G_IO_NICE_BUF_SIZE = 1024"

definition MAX_CHAR_SIZE :: nat where
  "MAX_CHAR_SIZE = 10"

definition g_io_channel_init :: "bool \<Rightarrow> io_channel" where
  "g_io_channel_init writeable =
     \<lparr>buf_size = G_IO_NICE_BUF_SIZE, write_buf = None, partial_write_buf = [], is_writeable = writeable\<rparr>"

text \<open>Whether a channel can be written to is what the kernel says of its descriptor.\<close>

definition g_io_channel_unix_new :: "bool \<Rightarrow> io_channel" where
  "g_io_channel_unix_new writeable = g_io_channel_init writeable"

text \<open>A full buffer is written first, as far as one character needs.\<close>

definition write_full_buffer :: "nat \<Rightarrow> gstring \<Rightarrow> pipe \<Rightarrow> io_status \<times> gstring \<times> pipe" where
  "write_full_buffer buf_len b p =
     (if length (gs_str b) \<ge> buf_len - MAX_CHAR_SIZE then
        (case write_until (min (length (gs_str b)) MAX_CHAR_SIZE) (gs_str b) 0 p of
           (status, n, p') \<Rightarrow> (status, g_string_erase b 0 n, p'))
      else (G_IO_STATUS_NORMAL, b, p))"

text \<open>
  Moving bytes to the buffer without converting them: as many as there is space for, up to the last whole
  character. The result is the error number, the bytes that are left and the buffer.
\<close>

datatype convert_errnum = Err_None | Err_EINVAL | Err_EILSEQ

definition write_utf8 :: "gstring \<Rightarrow> string \<Rightarrow> nat \<Rightarrow> (convert_errnum \<times> nat \<times> gstring) option" where
  "write_utf8 b from_buf space_in_buf =
     (let try_len = min (length from_buf) space_in_buf in
      case g_utf8_validate_len from_buf try_len of
        (valid, badchar) \<Rightarrow>
          do {
            (err, left_len) \<leftarrow>
              (if valid then Some (Err_None, length from_buf - try_len)
               else
                 let incomplete_len = try_len - (length from_buf - length badchar) in
                 do {
                   try_char \<leftarrow> g_utf8_get_char_validated badchar 0 (int incomplete_len);
                   if try_char = - 2 then
                     (if incomplete_len < 6
                      then Some (if try_len = length from_buf then Err_EINVAL else Err_None, length badchar)
                      else None)
                   else if try_char = - 1 then Some (Err_EILSEQ, length badchar)
                   else None });
            b1 \<leftarrow> g_string_append_len b (take (length from_buf - left_len) from_buf);
            Some (err, left_len, b1) })"

text \<open>
  One pass of the loop: it returns a status and the number of bytes written, or goes on with the rest. A character
  that is cut by the end of the text is kept for the next call. The errors only a conversion by iconv can
  have are left out.
\<close>

datatype write_pass = Returns io_status nat | Goes_On string nat

definition after_convert ::
  "io_channel \<Rightarrow> pipe \<Rightarrow> string \<Rightarrow> string \<Rightarrow> nat \<Rightarrow> convert_errnum \<times> nat \<times> gstring \<Rightarrow> (write_pass \<times> io_channel \<times> pipe) option"
where
  "after_convert ch p from_buf buf wrote converted =
     (case converted of (err, left_len, b) \<Rightarrow>
        let old_len = length (partial_write_buf ch);
            used = length from_buf - left_len;
            ch1 = ch\<lparr>write_buf := Some b\<rparr>;
            go_on = (if used < old_len then None
                     else Some (Goes_On (drop (used - old_len) buf) (wrote + (used - old_len)),
                            ch1\<lparr>partial_write_buf := []\<rparr>, p))
        in case err of
             Err_None \<Rightarrow> go_on
           | Err_EINVAL \<Rightarrow>
               if left_len \<ge> 6 then None
               else if old_len = 0
               then Some (Returns G_IO_STATUS_NORMAL (wrote + length buf), ch1\<lparr>partial_write_buf := drop used from_buf\<rparr>, p)
               else if left_len = length from_buf
               then (if length buf \<noteq> length from_buf - old_len then None
                     else Some (Returns G_IO_STATUS_NORMAL (wrote + length buf), ch1\<lparr>partial_write_buf := from_buf\<rparr>, p))
               else go_on
           | Err_EILSEQ \<Rightarrow>
               if old_len > 0 \<and> left_len = length from_buf
               then Some (Returns G_IO_STATUS_ERROR wrote, ch1\<lparr>partial_write_buf := []\<rparr>, p)
               else if used < old_len then None
               else Some (Returns G_IO_STATUS_ERROR (wrote + (used - old_len)), ch1\<lparr>partial_write_buf := []\<rparr>, p))"

definition channel_pass :: "io_channel \<Rightarrow> gstring \<Rightarrow> pipe \<Rightarrow> string \<Rightarrow> nat \<Rightarrow> (write_pass \<times> io_channel \<times> pipe) option" where
  "channel_pass ch b p buf wrote =
     (case write_full_buffer (buf_size ch) b p of
        (status, b1, p1) \<Rightarrow>
          let ch1 = ch\<lparr>write_buf := Some b1\<rparr> in
          if status \<noteq> G_IO_STATUS_NORMAL
          then Some (Returns (if status = G_IO_STATUS_AGAIN \<and> wrote > 0 then G_IO_STATUS_NORMAL else status) wrote, ch1, p1)
          else
            let space_in_buf = max (buf_size ch) (gs_allocated b1 - 1) - length (gs_str b1);
                old = partial_write_buf ch;
                from_buf = (if old \<noteq> [] then take (min 6 (length old + length buf)) (old @ buf) else buf)
            in
            if space_in_buf < MAX_CHAR_SIZE \<or> (old \<noteq> [] \<and> wrote \<noteq> 0) then None
            else do { converted \<leftarrow> write_utf8 b1 from_buf space_in_buf; after_convert ch1 p1 from_buf buf wrote converted })"

text \<open>Every pass that goes on has moved a byte, or has emptied the partial character.\<close>

definition pass_measure :: "string \<Rightarrow> io_channel \<Rightarrow> nat" where
  "pass_measure buf ch = 2 * length buf + (if partial_write_buf ch = [] then 0 else 1)"

lemma write_utf8_moves:
  assumes "write_utf8 b from_buf space_in_buf = Some (Err_None, left_len, b1)" "from_buf \<noteq> []" "space_in_buf \<ge> MAX_CHAR_SIZE"
  shows "left_len < length from_buf"
proof -
  obtain valid badchar where v: "g_utf8_validate_len from_buf (min (length from_buf) space_in_buf) = (valid, badchar)"
    by fastforce
  have "length from_buf - length badchar > 0" if "\<not> valid"
    "min (length from_buf) space_in_buf - (length from_buf - length badchar) < 6" "min (length from_buf) space_in_buf \<noteq> length from_buf"
    using that assms(3) by (auto simp: MAX_CHAR_SIZE_def min_def split: if_splits)
  then show ?thesis
    using assms v by (auto simp: write_utf8_def Let_def MAX_CHAR_SIZE_def split: if_splits Option.bind_splits prod.splits)
qed

lemma after_convert_goes_on:
  assumes "after_convert ch p from_buf buf wrote (err, left_len, b) = Some (Goes_On buf' wrote', ch', p')"
  shows "partial_write_buf ch' = []" "buf' = drop (length from_buf - left_len - length (partial_write_buf ch)) buf"
    "partial_write_buf ch = [] \<Longrightarrow> err = Err_None"
  using assms by (auto simp: after_convert_def Let_def split: convert_errnum.splits if_splits)

lemma channel_pass_moves:
  assumes "channel_pass ch b p buf wrote = Some (Goes_On buf' wrote', ch', p')" "buf \<noteq> []"
  shows "pass_measure buf' ch' < pass_measure buf ch"
proof -
  obtain status b1 p1 where f: "write_full_buffer (buf_size ch) b p = (status, b1, p1)" by (metis prod_cases3)
  define space where "space = max (buf_size ch) (gs_allocated b1 - 1) - length (gs_str b1)"
  define from_buf where "from_buf = (if partial_write_buf ch \<noteq> []
    then take (min 6 (length (partial_write_buf ch) + length buf)) (partial_write_buf ch @ buf) else buf)"
  have "\<not> space < MAX_CHAR_SIZE" "do { converted \<leftarrow> write_utf8 b1 from_buf space;
      after_convert (ch\<lparr>write_buf := Some b1\<rparr>) p1 from_buf buf wrote converted } = Some (Goes_On buf' wrote', ch', p')"
    using assms(1) unfolding channel_pass_def f space_def from_buf_def by (simp_all add: Let_def split: if_split_asm)
  then obtain err left_len b2 where c: "MAX_CHAR_SIZE \<le> space" "write_utf8 b1 from_buf space = Some (err, left_len, b2)"
    "after_convert (ch\<lparr>write_buf := Some b1\<rparr>) p1 from_buf buf wrote (err, left_len, b2) = Some (Goes_On buf' wrote', ch', p')"
    by (auto split: Option.bind_split_asm)
  note g = after_convert_goes_on [OF c(3)]
  show ?thesis
  proof (cases "partial_write_buf ch = []")
    case True
    then have "left_len < length buf"
      using write_utf8_moves [of b1 from_buf space left_len b2] c g(3) assms(2) by (simp add: from_buf_def)
    then show ?thesis using g True assms(2) by (simp add: pass_measure_def from_buf_def)
  qed (use g in \<open>simp add: pass_measure_def\<close>)
qed

function write_loop :: "io_channel \<Rightarrow> gstring \<Rightarrow> pipe \<Rightarrow> string \<Rightarrow> nat \<Rightarrow> (io_status \<times> nat \<times> io_channel \<times> pipe) option" where
  "write_loop ch b p buf wrote =
     (if buf = [] then Some (G_IO_STATUS_NORMAL, wrote, ch, p)
      else case channel_pass ch b p buf wrote of
        None \<Rightarrow> None
      | Some (Returns status n, ch', p') \<Rightarrow> Some (status, n, ch', p')
      | Some (Goes_On buf' wrote', ch', p') \<Rightarrow>
          (case write_buf ch' of None \<Rightarrow> None | Some b' \<Rightarrow> write_loop ch' b' p' buf' wrote'))"
  by pat_completeness auto

termination write_loop
  by (relation "measure (\<lambda>(ch, b, p, buf, wrote). pass_measure buf ch)") (auto simp: channel_pass_moves)

declare write_loop.simps [simp del]

definition g_io_channel_write_chars :: "io_channel \<Rightarrow> pipe \<Rightarrow> string \<Rightarrow> (io_status \<times> nat \<times> io_channel \<times> pipe) option" where
  "g_io_channel_write_chars ch p buf =
     (if \<not> is_writeable ch then Some (G_IO_STATUS_ERROR, 0, ch, p)
      else if buf = [] then Some (G_IO_STATUS_NORMAL, 0, ch, p)
      else do {
        b \<leftarrow> (case write_buf ch of None \<Rightarrow> g_string_sized_new (buf_size ch) | Some b \<Rightarrow> Some b);
        write_loop (ch\<lparr>write_buf := Some b\<rparr>) b p buf 0 })"

definition g_io_channel_flush :: "io_channel \<Rightarrow> pipe \<Rightarrow> io_status \<times> io_channel \<times> pipe" where
  "g_io_channel_flush ch p =
     (case write_buf ch of
        None \<Rightarrow> (G_IO_STATUS_NORMAL, ch, p)
      | Some b \<Rightarrow>
          if gs_str b = [] then (G_IO_STATUS_NORMAL, ch, p)
          else (case write_until (length (gs_str b)) (gs_str b) 0 p of
            (status, n, p') \<Rightarrow> (status, ch\<lparr>write_buf := Some (g_string_erase b 0 n)\<rparr>, p')))"

text \<open>
  Closing. With a flush the descriptor is first made to block, so that a write waits where it would have been
  refused: such an answer is not given, and when the answers are over the call does not return.
\<close>

definition blocking :: "pipe \<Rightarrow> pipe" where
  "blocking p = p\<lparr>write_answers := filter (\<lambda>a. a \<noteq> Would_Block) (write_answers p)\<rparr>"

definition g_io_channel_shutdown :: "io_channel \<Rightarrow> bool \<Rightarrow> bool \<Rightarrow> pipe \<Rightarrow> (io_status \<times> io_channel \<times> pipe) option" where
  "g_io_channel_shutdown ch do_flush close_ok p = do {
     (result, ch1, p1) \<leftarrow>
       (case write_buf ch of
          None \<Rightarrow> Some (G_IO_STATUS_NORMAL, ch, p)
        | Some b \<Rightarrow>
            if gs_str b = [] then Some (G_IO_STATUS_NORMAL, ch, p)
            else let ch0 = ch\<lparr>write_buf := Some (b\<lparr>gs_str := []\<rparr>)\<rparr> in
              if do_flush then
                (case g_io_channel_flush ch (blocking p) of
                   (status, _, p1) \<Rightarrow> if status = G_IO_STATUS_AGAIN then None else Some (status, ch0, p1))
              else Some (G_IO_STATUS_NORMAL, ch0, p));
     let status = (if close_ok then G_IO_STATUS_NORMAL else G_IO_STATUS_ERROR);
         ch2 = ch1\<lparr>partial_write_buf := [], is_writeable := False\<rparr>
     in Some (if status \<noteq> G_IO_STATUS_NORMAL then status else result, ch2, p1) }"

subsection \<open>Where a text is cut\<close>

lemma encode_length: "0 < length (utf8_encode u)" "length (utf8_encode u) \<le> 4"
  by (simp_all add: utf8_encode_def)

lemma encode_inject:
  assumes "unicode_scalar u" "unicode_scalar v" "utf8_encode u @ r = utf8_encode v @ r'"
  shows "u = v"
proof -
  have "(of_nat u :: gunichar) = of_nat v" using at_encoded(1) [OF assms(1)] at_encoded(1) [OF assms(2)] assms(3) by (metis option.inject)
  then have "unat (of_nat u :: gunichar) = unat (of_nat v :: gunichar)" by simp
  then show ?thesis using assms(1,2) by (simp add: unicode_scalar_def unat_of_nat)
qed

text \<open>A character that is cut is not valid.\<close>

lemma cut_invalid:
  assumes "unicode_scalar u" "n < length (utf8_encode u)"
  shows "fast_validate (take n (utf8_encode u)) = take n (utf8_encode u)"
proof -
  let ?e = "utf8_encode u"
  obtain p where p: "take n ?e = p @ fast_validate (take n ?e)" "fast_validate p = []" using fast_validate_splits by blast
  have "p = []"
  proof (rule ccontr)
    assume "p \<noteq> []"
    obtain us where us: "\<forall>u \<in> set us. unicode_scalar u" "p = concat (map utf8_encode us)"
      using fast_validate_decodes [OF p(2)] by blast
    then obtain v vs where "us = v # vs" using \<open>p \<noteq> []\<close> by (cases us) auto
    with us have v: "unicode_scalar v" "\<exists>x. p = utf8_encode v @ x" by auto
    then obtain x where "p = utf8_encode v @ x" by blast
    with p(1) have "?e @ [] = utf8_encode v @ (x @ fast_validate (take n ?e) @ drop n ?e)"
      by (metis append.right_neutral append_assoc append_take_drop_id)
    with encode_inject [OF assms(1) v(1)] have "u = v" by blast
    with \<open>p = utf8_encode v @ x\<close> p(1) have "length ?e \<le> length (take n ?e)" by (metis le_add1 length_append le_trans)
    with assms(2) show False by simp
  qed
  with p(1) show ?thesis by simp
qed

lemma proper_not_nul: "proper u \<Longrightarrow> list_all not_nul (utf8_encode u)"
proof -
  assume "proper u"
  then have u: "unicode_scalar u" "u \<noteq> 0" by (simp_all add: proper_def)
  obtain c bits ys a where e: "utf8_encode u = c # map continuation ys" "\<forall>y \<in> set ys. y < 64"
    "if ys = [] then byte c = u \<and> u < 0x80
     else \<not> byte c < 0x80 \<and> (\<exists>m. extended_lead (byte c) = Some (Suc (length ys), bits, m) \<and> \<not> of_nat u < m)"
    using encoded [OF u(1)] by metis
  have "byte (continuation y) \<noteq> 0" if "y < 64" for y
    using that byte_char_of [of "0x80 + y"] by (simp add: continuation_def)
  moreover have "byte c \<noteq> 0" using e(3) u(2) by (auto split: if_splits)
  ultimately show ?thesis using e(1,2) by (auto simp: list_all_iff not_nul_def)
qed

lemma validate_len_whole:
  assumes "proper u" "length (utf8_encode u) \<le> n"
  shows "fast_validate_len n (utf8_encode u @ s) = fast_validate_len (n - length (utf8_encode u)) s"
proof -
  have "unicode_scalar u" using assms(1) by (simp add: proper_def)
  then show ?thesis
    by (simp add: fast_validate_len_stops looked_at_of_part [OF proper_not_nul [OF assms(1)] assms(2)] fast_validate_encode)
qed

lemma validate_len_cut:
  assumes "proper u" "n < length (utf8_encode u)"
  shows "fast_validate_len n (utf8_encode u @ s) = utf8_encode u @ s"
proof -
  have "looked_at n (utf8_encode u @ s) = take n (utf8_encode u)"
    using proper_not_nul [OF assms(1)] assms(2) unfolding looked_at_def
    by (auto simp: list_all_iff takeWhile_eq_all_conv dest: in_set_takeD)
  moreover have "unicode_scalar u" using assms(1) by (simp add: proper_def)
  ultimately show ?thesis using cut_invalid [of u n] assms(2) by (simp add: fast_validate_len_stops)
qed

text \<open>The beginning of a character is recognised as such.\<close>

lemma get_cut_char:
  assumes "proper u" "n < length (utf8_encode u)"
  shows "g_utf8_get_char_validated (utf8_encode u @ s) 0 (int n) = Some (- 2)"
proof (cases "n = 0")
  case False
  have u: "unicode_scalar u" using assms(1) by (simp add: proper_def)
  obtain c bits ys a where e: "utf8_encode u = c # map continuation ys" "\<forall>y \<in> set ys. y < 64"
    "if ys = [] then byte c = u \<and> u < 0x80
     else \<not> byte c < 0x80 \<and> (\<exists>m. extended_lead (byte c) = Some (Suc (length ys), bits, m) \<and> \<not> of_nat u < m)"
    using encoded [OF u] by metis
  have n: "n < Suc (length ys)" using assms(2) e(1) by simp
  with False have "ys \<noteq> []" by auto
  with e(3) obtain m where m: "\<not> byte c < 0x80" "extended_lead (byte c) = Some (Suc (length ys), bits, m)" by auto
  have all: "all_continue (map continuation zs @ s') 0 k = Some True" if "\<forall>y \<in> set zs. y < 64" "k \<le> length zs" for zs k s'
    using that
  proof (induction zs arbitrary: k)
    case (Cons z zs)
    show ?case
    proof (cases k)
      case (Suc i)
      have "byte (continuation z) AND 0xc0 = 0x80" using cont_bits [of z] Cons.prems(1) by (simp add: continuation_def)
      then show ?thesis
        using Cons Suc all_continue_append [of "[continuation z]" "map continuation zs @ s'" 0 i] by simp
    qed simp
  qed simp
  have "all_continue (c # map continuation ys @ s) (Suc 0) (n - 1) = Some True"
    using all [OF e(2), of "n - 1"] n all_continue_append [of "[c]" "map continuation ys @ s" 0 "n - 1"] by simp
  then have "g_utf8_get_char_extended (utf8_encode u @ s) 0 (int n) = Some partial_sequence"
    using m n by (simp add: e(1) g_utf8_get_char_extended_def)
  then show ?thesis using False by (simp add: g_utf8_get_char_validated_def partial_sequence_def)
qed (simp add: g_utf8_get_char_validated_def)

text \<open>The end the validator finds in a valid text with a length: before the character that is cut.\<close>

lemma validate_len_encoding:
  assumes "\<forall>u \<in> set us. proper u" "n \<le> length (encoding us)"
  obtains ps qs where "us = ps @ qs" "fast_validate_len n (encoding us) = encoding qs" "length (encoding ps) \<le> n"
    "qs = [] \<or> n < length (encoding ps) + length (utf8_encode (hd qs))"
proof -
  have "\<exists>ps qs. us = ps @ qs \<and> fast_validate_len n (encoding us) = encoding qs \<and> length (encoding ps) \<le> n \<and>
    (qs = [] \<or> n < length (encoding ps) + length (utf8_encode (hd qs)))"
    using assms
  proof (induction us arbitrary: n)
    case (Cons u us)
    show ?case
    proof (cases "n < length (utf8_encode u)")
      case True
      then show ?thesis using Cons.prems validate_len_cut [of u n] by (intro exI [of _ "[]"] exI [of _ "u # us"]) simp
    next
      case False
      have r: "\<forall>u \<in> set us. proper u" "n - length (utf8_encode u) \<le> length (encoding us)" using Cons.prems by auto
      from Cons.IH [OF r] obtain ps qs where
        "us = ps @ qs" "fast_validate_len (n - length (utf8_encode u)) (encoding us) = encoding qs"
        "length (encoding ps) \<le> n - length (utf8_encode u)"
        "qs = [] \<or> n - length (utf8_encode u) < length (encoding ps) + length (utf8_encode (hd qs))"
        by blast
      with False show ?thesis
        using Cons.prems validate_len_whole [of u n "encoding us"] by (intro exI [of _ "u # ps"] exI [of _ qs]) auto
    qed
  qed simp
  then show thesis using that by blast
qed

subsection \<open>The pipe and the buffer together\<close>

text \<open>What has been written to the channel: what the pipe took and what waits in the buffer.\<close>

definition channel_content :: "io_channel \<Rightarrow> pipe \<Rightarrow> string" where
  "channel_content ch p = piped p @ (case write_buf ch of None \<Rightarrow> [] | Some b \<Rightarrow> gs_str b)"

text \<open>
  The buffer keeps the size it was given: the next power of two above the buffer size, so that there is room
  for one character at least whenever it is not full, and nothing is ever appended behind it.
\<close>

definition buffer_ok :: "gstring \<Rightarrow> bool" where
  "buffer_ok b \<longleftrightarrow> gs_allocated b = 2048 \<and> length (gs_str b) < 2048"

definition channel_ok :: "io_channel \<Rightarrow> bool" where
  "channel_ok ch \<longleftrightarrow> buf_size ch = G_IO_NICE_BUF_SIZE \<and> partial_write_buf ch = [] \<and> is_writeable ch \<and>
     (case write_buf ch of None \<Rightarrow> True | Some b \<Rightarrow> buffer_ok b)"

lemma new_channel_ok: "channel_ok (g_io_channel_unix_new True)"
  by (simp add: channel_ok_def g_io_channel_unix_new_def g_io_channel_init_def)

lemma new_buffer: "g_string_sized_new G_IO_NICE_BUF_SIZE = Some \<lparr>gs_str = [], gs_allocated = 2048\<rparr>"
  by (simp add: g_string_sized_new_def g_string_expand_def g_nearest_pow_def G_IO_NICE_BUF_SIZE_def G_MAXSIZE_def
      drop_bit_eq_div Let_def)

lemma unix_write_result:
  "unix_write as count = (status, n, as') \<Longrightarrow>
    n \<le> count \<and> status \<noteq> G_IO_STATUS_EOF \<and> (status = G_IO_STATUS_NORMAL \<longrightarrow> 0 < n \<or> count = 0) \<and> (status \<noteq> G_IO_STATUS_NORMAL \<longrightarrow> n = 0)"
  by (induction as count rule: unix_write.induct) auto

lemma write_until_result:
  assumes "write_until limit str did p = (status, n, p')" "did \<le> length str"
  shows "did \<le> n \<and> n \<le> length str \<and> piped p' = piped p @ take (n - did) (drop did str) \<and>
    (status = G_IO_STATUS_NORMAL \<longrightarrow> limit \<le> n) \<and> status \<noteq> G_IO_STATUS_EOF"
  using assms
proof (induction limit str did p rule: write_until.induct)
  case (1 limit str did p)
  obtain st k as where u: "unix_write (write_answers p) (length (drop did str)) = (st, k, as)" by (metis prod_cases3)
  let ?p = "p\<lparr>piped := piped p @ take k (drop did str), write_answers := as\<rparr>"
  have w: "g_io_unix_write p (drop did str) = (st, k, ?p)" unfolding g_io_unix_write_def u by simp
  have k: "did + k \<le> length str" "st \<noteq> G_IO_STATUS_EOF" using unix_write_result [OF u] "1.prems"(2) by auto
  show ?case
  proof (cases "st = G_IO_STATUS_NORMAL \<and> did + k < limit")
    case True
    then have "write_until limit str (did + k) ?p = (status, n, p')"
      using "1.prems"(1) by (simp add: write_until.simps [of limit str did p] w)
    then have r: "did + k \<le> n \<and> n \<le> length str \<and> piped p' = piped ?p @ take (n - (did + k)) (drop (did + k) str) \<and>
        (status = G_IO_STATUS_NORMAL \<longrightarrow> limit \<le> n) \<and> status \<noteq> G_IO_STATUS_EOF"
      by (intro "1.IH" [OF w [symmetric] refl True]) (use k in simp_all)
    moreover have "take (k + (n - (did + k))) (drop did str) = take k (drop did str) @ take (n - (did + k)) (drop (did + k) str)"
      by (simp add: take_add add.commute)
    moreover have "k + (n - (did + k)) = n - did" using r by simp
    ultimately show ?thesis by simp
  next
    case False
    then show ?thesis
      using "1.prems"(1) k by (auto simp: write_until.simps [of limit str did p] w)
  qed
qed

lemma write_full_buffer_result:
  assumes "write_full_buffer G_IO_NICE_BUF_SIZE b p = (status, b1, p1)" "buffer_ok b"
  shows "piped p1 @ gs_str b1 = piped p @ gs_str b" "buffer_ok b1" "status \<noteq> G_IO_STATUS_EOF"
    "status = G_IO_STATUS_NORMAL \<Longrightarrow> length (gs_str b1) < 2038"
proof -
  have "piped p1 @ gs_str b1 = piped p @ gs_str b \<and> buffer_ok b1 \<and> status \<noteq> G_IO_STATUS_EOF \<and>
    (status = G_IO_STATUS_NORMAL \<longrightarrow> length (gs_str b1) < 2038)"
  proof (cases "length (gs_str b) \<ge> G_IO_NICE_BUF_SIZE - MAX_CHAR_SIZE")
    case True
    obtain n where "write_until (min (length (gs_str b)) MAX_CHAR_SIZE) (gs_str b) 0 p = (status, n, p1)"
        "b1 = g_string_erase b 0 n"
      using assms(1) True by (auto simp: write_full_buffer_def split: prod.splits)
    then show ?thesis
      using write_until_result [of "min (length (gs_str b)) MAX_CHAR_SIZE" "gs_str b" 0 p status n p1] assms(2) True
      by (auto simp: g_string_erase_def buffer_ok_def MAX_CHAR_SIZE_def G_IO_NICE_BUF_SIZE_def min_def split: if_splits)
  next
    case False
    then show ?thesis using assms by (auto simp: write_full_buffer_def MAX_CHAR_SIZE_def G_IO_NICE_BUF_SIZE_def)
  qed
  then show "piped p1 @ gs_str b1 = piped p @ gs_str b" "buffer_ok b1" "status \<noteq> G_IO_STATUS_EOF"
    "status = G_IO_STATUS_NORMAL \<Longrightarrow> length (gs_str b1) < 2038" by blast+
qed

subsection \<open>Writing a valid text\<close>

lemma append_fits: "length (gs_str b) + length val < gs_allocated b \<Longrightarrow> g_string_append_len b val = Some (b\<lparr>gs_str := gs_str b @ val\<rparr>)"
  by (simp add: g_string_append_len_def)

lemma write_utf8_valid:
  assumes "\<forall>u \<in> set us. proper u" "us \<noteq> []" "MAX_CHAR_SIZE \<le> space" "length (gs_str b) + space < gs_allocated b"
  obtains ps qs where "us = ps @ qs" "ps \<noteq> []" "length (encoding us) \<le> space \<longrightarrow> qs = []" "length (encoding ps) \<le> space"
    "write_utf8 b (encoding us) space =
      Some (Err_None, length (encoding us) - length (encoding ps), b\<lparr>gs_str := gs_str b @ encoding ps\<rparr>)"
proof -
  define n where "n = min (length (encoding us)) space"
  have n: "n \<le> length (encoding us)" "n \<le> space" by (simp_all add: n_def)
  obtain ps qs where c: "us = ps @ qs" "fast_validate_len n (encoding us) = encoding qs" "length (encoding ps) \<le> n"
    "qs = [] \<or> n < length (encoding ps) + length (utf8_encode (hd qs))"
    using validate_len_encoding [OF assms(1) n(1)] .
  have e: "encoding us = encoding ps @ encoding qs" by (simp add: c(1))
  then have l: "length (encoding us) - length (encoding qs) = length (encoding ps)" "take (length (encoding ps)) (encoding us) = encoding ps"
    "length (encoding us) - (length (encoding us) - length (encoding ps)) = length (encoding ps)"
    "length (encoding qs) = length (encoding us) - length (encoding ps)" by simp_all
  have qs: "qs = [] \<or> (n < length (encoding us) \<and> n - length (encoding ps) < 4)"
  proof (cases qs)
    case (Cons v vs)
    then show ?thesis using c(4) e encode_length(2) [of v] by auto
  qed simp
  have "ps \<noteq> []"
  proof
    assume "ps = []"
    then have "0 < length (encoding us)" using assms(2) encode_length(1) c(1) by (cases us) auto
    then have "4 \<le> n" if "qs \<noteq> []" using qs that assms(3) \<open>ps = []\<close> by (auto simp: n_def MAX_CHAR_SIZE_def min_def split: if_splits)
    then show False using qs \<open>ps = []\<close> c(1) assms(2) by auto
  qed
  have fit: "g_string_append_len b (encoding ps) = Some (b\<lparr>gs_str := gs_str b @ encoding ps\<rparr>)"
    using c(3) n(2) assms(4) by (intro append_fits) simp
  have w: "write_utf8 b (encoding us) space =
      Some (Err_None, length (encoding us) - length (encoding ps), b\<lparr>gs_str := gs_str b @ encoding ps\<rparr>)"
  proof (cases "n = length (encoding ps)")
    case True
    then have "g_utf8_validate_len (encoding us) n = (True, encoding qs)"
      using c(2) l by (simp add: g_utf8_validate_len_def Let_def)
    then show ?thesis unfolding write_utf8_def n_def [symmetric] Let_def using True fit l by simp
  next
    case False
    then have "qs \<noteq> []" using c(3) e n(1) by auto
    then obtain v vs where v: "qs = v # vs" by (cases qs) auto
    have p: "proper v" using assms(1) c(1) v by simp
    have "n - length (encoding ps) < length (utf8_encode v)" using c(3,4) v False by auto
    note g = get_cut_char [OF p this, of "encoding vs"]
    have "g_utf8_validate_len (encoding us) n = (False, encoding qs)"
      using c(2) l False by (simp add: g_utf8_validate_len_def Let_def)
    moreover have "g_utf8_get_char_validated (encoding qs) 0 (int (n - length (encoding ps))) = Some (- 2)"
      using g v by simp
    ultimately show ?thesis
      unfolding write_utf8_def n_def [symmetric] Let_def using fit qs l \<open>qs \<noteq> []\<close> by simp
  qed
  show thesis using that [OF c(1) \<open>ps \<noteq> []\<close> _ _ w] qs c(3) n(2) by (auto simp: n_def)
qed

text \<open>A text the buffer has room for is taken without asking the pipe.\<close>

definition has_room :: "gstring \<Rightarrow> nat \<Rightarrow> bool" where
  "has_room b n \<longleftrightarrow> length (gs_str b) < 1014 \<and> length (gs_str b) + n < 2048"

text \<open>One pass on a valid text: it goes on behind a whole number of characters, or the pipe did not take the full buffer.\<close>

lemma channel_pass_valid:
  assumes "channel_ok ch" "buffer_ok b" "write_buf ch = Some b" "\<forall>u \<in> set us. proper u" "us \<noteq> []"
  obtains (moved) ps qs b' p' where "us = ps @ qs" "ps \<noteq> []" "buffer_ok b'"
      "channel_pass ch b p (encoding us) wrote = Some (Goes_On (encoding qs) (wrote + length (encoding ps)), ch\<lparr>write_buf := Some b'\<rparr>, p')"
      "piped p' @ gs_str b' = piped p @ gs_str b @ encoding ps" "has_room b (length (encoding us)) \<longrightarrow> qs = []"
    | (full) status b' p' where "buffer_ok b'" "status \<noteq> G_IO_STATUS_EOF" "status = G_IO_STATUS_AGAIN \<Longrightarrow> wrote = 0"
      "status = G_IO_STATUS_NORMAL \<Longrightarrow> 0 < wrote"
      "channel_pass ch b p (encoding us) wrote = Some (Returns status wrote, ch\<lparr>write_buf := Some b'\<rparr>, p')"
      "piped p' @ gs_str b' = piped p @ gs_str b" "1014 \<le> length (gs_str b)"
proof -
  obtain st b1 p1 where f: "write_full_buffer G_IO_NICE_BUF_SIZE b p = (st, b1, p1)" by (metis prod_cases3)
  note r = write_full_buffer_result [OF f assms(2)]
  have c: "buf_size ch = G_IO_NICE_BUF_SIZE" "partial_write_buf ch = []" using assms(1) by (simp_all add: channel_ok_def)
  show thesis
  proof (cases "st = G_IO_STATUS_NORMAL")
    case False
    let ?st = "if st = G_IO_STATUS_AGAIN \<and> wrote > 0 then G_IO_STATUS_NORMAL else st"
    have l: "1014 \<le> length (gs_str b)"
      using f False by (auto simp: write_full_buffer_def G_IO_NICE_BUF_SIZE_def MAX_CHAR_SIZE_def split: if_splits)
    show thesis
      by (rule full [of b1 ?st p1]) (use l False f r(1-3) c in \<open>auto simp: channel_pass_def split: if_splits\<close>)
  next
    case True
    define space where "space = max G_IO_NICE_BUF_SIZE (gs_allocated b1 - 1) - length (gs_str b1)"
    have s: "MAX_CHAR_SIZE \<le> space" "length (gs_str b1) + space < gs_allocated b1"
      using r(2,4) True by (auto simp: space_def buffer_ok_def MAX_CHAR_SIZE_def G_IO_NICE_BUF_SIZE_def)
    obtain ps qs where w: "us = ps @ qs" "ps \<noteq> []" "length (encoding us) \<le> space \<longrightarrow> qs = []" "length (encoding ps) \<le> space"
      "write_utf8 b1 (encoding us) space =
        Some (Err_None, length (encoding us) - length (encoding ps), b1\<lparr>gs_str := gs_str b1 @ encoding ps\<rparr>)"
      using write_utf8_valid [OF assms(4,5) s] .
    have e: "length (encoding us) - (length (encoding us) - length (encoding ps)) = length (encoding ps)"
      "drop (length (encoding ps)) (encoding us) = encoding qs" by (simp_all add: w(1))
    let ?b = "b1\<lparr>gs_str := gs_str b1 @ encoding ps\<rparr>"
    have "ch\<lparr>write_buf := Some ?b, partial_write_buf := []\<rparr> = ch\<lparr>write_buf := Some ?b\<rparr>" using c(2) by (cases ch) simp
    then have "channel_pass ch b p (encoding us) wrote =
        Some (Goes_On (encoding qs) (wrote + length (encoding ps)), ch\<lparr>write_buf := Some ?b\<rparr>, p1)"
      unfolding channel_pass_def c(1) f prod.case Let_def space_def [symmetric]
      using s(1) c(2) w(5) True e by (simp add: after_convert_def Let_def)
    moreover have "buffer_ok ?b" using r(2) s w(4)
      by (auto simp: buffer_ok_def)
    moreover have "has_room b (length (encoding us)) \<longrightarrow> qs = []"
    proof
      assume h: "has_room b (length (encoding us))"
      then have "b1 = b" using f by (auto simp: write_full_buffer_def has_room_def G_IO_NICE_BUF_SIZE_def MAX_CHAR_SIZE_def)
      then have "length (encoding us) \<le> space" using h r(2) by (auto simp: space_def has_room_def buffer_ok_def G_IO_NICE_BUF_SIZE_def)
      with w(3) show "qs = []" by blast
    qed
    ultimately show thesis using moved w(1,2) r(1) by simp
  qed
qed

text \<open>The loop: what has moved to the channel is a whole number of characters from the front of the text.\<close>

lemma write_loop_valid:
  assumes "channel_ok ch" "buffer_ok b" "write_buf ch = Some b" "\<forall>u \<in> set us. proper u"
  shows "\<exists>status ps qs ch' p'. us = ps @ qs \<and>
    write_loop ch b p (encoding us) wrote = Some (status, wrote + length (encoding ps), ch', p') \<and>
    channel_ok ch' \<and> channel_content ch' p' = channel_content ch p @ encoding ps \<and> status \<noteq> G_IO_STATUS_EOF \<and>
    (status = G_IO_STATUS_AGAIN \<longrightarrow> wrote = 0 \<and> ps = []) \<and>
    (status = G_IO_STATUS_NORMAL \<longrightarrow> qs = [] \<or> 0 < wrote + length ps) \<and>
    (status \<noteq> G_IO_STATUS_NORMAL \<longrightarrow> qs \<noteq> []) \<and> (ps = [] \<longrightarrow> us = [] \<or> 1014 \<le> length (gs_str b)) \<and>
    (has_room b (length (encoding us)) \<longrightarrow> qs = [])"
  using assms
proof (induction us arbitrary: ch b p wrote rule: length_induct)
  case (1 us)
  note ok = "1.prems"
  show ?case
  proof (cases "us = []")
    case True
    then show ?thesis using ok(1) by (simp add: write_loop.simps)
  next
    case False
    then obtain u0 us0 where "us = u0 # us0" by (cases us) auto
    then have ne: "encoding us \<noteq> []" using encode_length(1) [of u0] by auto
    have cc: "channel_content ch p = piped p @ gs_str b" using ok(3) by (simp add: channel_content_def)
    show ?thesis
    proof (rule channel_pass_valid [OF ok False, of p wrote])
      fix ps qs b' p'
      assume m: "us = ps @ qs" "ps \<noteq> []" "buffer_ok b'"
        "channel_pass ch b p (encoding us) wrote = Some (Goes_On (encoding qs) (wrote + length (encoding ps)), ch\<lparr>write_buf := Some b'\<rparr>, p')"
        "piped p' @ gs_str b' = piped p @ gs_str b @ encoding ps" "has_room b (length (encoding us)) \<longrightarrow> qs = []"
      let ?ch = "ch\<lparr>write_buf := Some b'\<rparr>"
      have k: "channel_ok ?ch" "write_buf ?ch = Some b'" "\<forall>u \<in> set qs. proper u" "length qs < length us"
        using ok m(1-3) by (auto simp: channel_ok_def)
      have pos: "0 < length (encoding ps)" using m(2) encode_length(1) by (cases ps) auto
      obtain status rs ss ch2 p2 where i: "qs = rs @ ss"
        "write_loop ?ch b' p' (encoding qs) (wrote + length (encoding ps)) =
          Some (status, wrote + length (encoding ps) + length (encoding rs), ch2, p2)"
        "channel_ok ch2" "channel_content ch2 p2 = channel_content ?ch p' @ encoding rs" "status \<noteq> G_IO_STATUS_EOF"
        "status = G_IO_STATUS_AGAIN \<longrightarrow> wrote + length (encoding ps) = 0 \<and> rs = []"
        "status \<noteq> G_IO_STATUS_NORMAL \<longrightarrow> ss \<noteq> []"
        using "1.IH" [rule_format, OF k(4,1) m(3) k(2) k(3) [rule_format], of p' "wrote + length (encoding ps)"] by blast
      have "write_loop ch b p (encoding us) wrote = Some (status, wrote + length (encoding (ps @ rs)), ch2, p2)"
        unfolding write_loop.simps [of ch b p "encoding us"] m(4) using ne i(2) by (simp add: add.assoc del: concat_eq_Nil_conv)
      moreover have "channel_content ch2 p2 = channel_content ch p @ encoding (ps @ rs)"
        using i(4) m(5) cc by (simp add: channel_content_def)
      ultimately show ?thesis using i(1,3,5-7) m(1,2,6) pos by (intro exI [of _ status] exI [of _ "ps @ rs"] exI [of _ ss]) auto
    next
      fix status b' p'
      assume f: "buffer_ok b'" "status \<noteq> G_IO_STATUS_EOF" "status = G_IO_STATUS_AGAIN \<Longrightarrow> wrote = 0"
        "status = G_IO_STATUS_NORMAL \<Longrightarrow> 0 < wrote"
        "channel_pass ch b p (encoding us) wrote = Some (Returns status wrote, ch\<lparr>write_buf := Some b'\<rparr>, p')"
        "piped p' @ gs_str b' = piped p @ gs_str b" "1014 \<le> length (gs_str b)"
      have "write_loop ch b p (encoding us) wrote = Some (status, wrote, ch\<lparr>write_buf := Some b'\<rparr>, p')"
        unfolding write_loop.simps [of ch b p "encoding us"] f(5) using ne by (simp del: concat_eq_Nil_conv)
      moreover have "channel_ok (ch\<lparr>write_buf := Some b'\<rparr>)" using ok(1) f(1) by (simp add: channel_ok_def)
      moreover have "channel_content (ch\<lparr>write_buf := Some b'\<rparr>) p' = channel_content ch p"
        using f(6) cc by (simp add: channel_content_def)
      ultimately show ?thesis using f(2-4,7) False by (intro exI [of _ status] exI [of _ "[]"] exI [of _ us]) (auto simp: has_room_def)
    qed
  qed
qed

text \<open>The bytes of a C string that is valid UTF-8, as characters.\<close>

lemma valid_text_chars:
  assumes "g_utf8_validate t" "list_all not_nul t"
  obtains us where "t = encoding us" "\<forall>u \<in> set us. proper u"
proof -
  obtain us where us: "\<forall>u \<in> set us. unicode_scalar u" "t = encoding us"
    using fast_validate_decodes [of t] assms(1) by (auto simp: g_utf8_validate_def)
  have "proper u" if "u \<in> set us" for u
  proof -
    have "u \<noteq> 0"
    proof
      assume "u = 0"
      then have "char_of (0 :: nat) \<in> set (utf8_encode u)" by (simp add: utf8_encode_def)
      then have "char_of (0 :: nat) \<in> set t" using that us(2) by auto
      then show False using assms(2) by (auto simp: list_all_iff not_nul_def byte_def)
    qed
    with us(1) that show ?thesis by (simp add: proper_def)
  qed
  with us(2) show thesis using that by blast
qed

lemma encoding_valid: "\<forall>u \<in> set us. proper u \<Longrightarrow> g_utf8_validate (encoding us)"
  by (simp add: g_utf8_validate_def fast_validate_encodes proper_def)

text \<open>The buffer of a channel that has not been written to is made by the first write.\<close>

definition buffer_of :: "io_channel \<Rightarrow> gstring" where
  "buffer_of ch = (case write_buf ch of None \<Rightarrow> \<lparr>gs_str = [], gs_allocated = 2048\<rparr> | Some b \<Rightarrow> b)"

lemma write_chars_valid:
  assumes "channel_ok ch" "\<forall>u \<in> set us. proper u"
  obtains status ps qs ch' p' where "us = ps @ qs"
    "g_io_channel_write_chars ch p (encoding us) = Some (status, length (encoding ps), ch', p')"
    "channel_ok ch'" "channel_content ch' p' = channel_content ch p @ encoding ps" "status \<noteq> G_IO_STATUS_EOF"
    "status = G_IO_STATUS_AGAIN \<longrightarrow> ps = []" "status = G_IO_STATUS_NORMAL \<longrightarrow> qs = [] \<or> ps \<noteq> []"
    "status \<noteq> G_IO_STATUS_NORMAL \<longrightarrow> qs \<noteq> []" "has_room (buffer_of ch) (length (encoding us)) \<longrightarrow> qs = []"
proof (cases "encoding us = []")
  case True
  then have "us = []" using encode_length(1) by (cases us) auto
  with assms(1) show thesis
    by (intro that [of "[]" "[]" G_IO_STATUS_NORMAL ch p]) (simp_all add: g_io_channel_write_chars_def channel_ok_def)
next
  case False
  define b where "b = buffer_of ch"
  let ?ch = "ch\<lparr>write_buf := Some b\<rparr>"
  have b: "(case write_buf ch of None \<Rightarrow> g_string_sized_new (buf_size ch) | Some b \<Rightarrow> Some b) = Some b" "buffer_ok b" "channel_ok ?ch"
    "channel_content ?ch p = channel_content ch p"
    using assms(1) new_buffer by (auto simp: b_def buffer_of_def channel_ok_def buffer_ok_def channel_content_def split: option.splits)
  have "write_buf ?ch = Some b" by simp
  from write_loop_valid [OF b(3,2) this assms(2), of p 0] obtain status ps qs ch' p' where
    r: "us = ps @ qs" "write_loop ?ch b p (encoding us) 0 = Some (status, 0 + length (encoding ps), ch', p')"
    "channel_ok ch'" "channel_content ch' p' = channel_content ?ch p @ encoding ps" "status \<noteq> G_IO_STATUS_EOF"
    "status = G_IO_STATUS_AGAIN \<longrightarrow> 0 = (0 :: nat) \<and> ps = []"
    "status = G_IO_STATUS_NORMAL \<longrightarrow> qs = [] \<or> 0 < 0 + length ps" "status \<noteq> G_IO_STATUS_NORMAL \<longrightarrow> qs \<noteq> []"
    "has_room b (length (encoding us)) \<longrightarrow> qs = []"
    by blast
  have "is_writeable ch" using assms(1) by (simp add: channel_ok_def)
  then have "g_io_channel_write_chars ch p (encoding us) = Some (status, length (encoding ps), ch', p')"
    unfolding g_io_channel_write_chars_def b(1) using False r(2) by (simp del: concat_eq_Nil_conv)
  then show thesis using that [OF r(1)] r(3-9) b(4) by (simp add: b_def)
qed

text \<open>
  C8. Writing a valid text to the channel, whatever the pipe answers, never fails an assertion, and the bytes it
  reports as written are exactly the bytes it added to what the pipe took and what waits in the buffer, in
  order and up to the end of a character. It asks to be called again only if it added nothing, fails only with a
  rest that is not written, and may report success as soon as it added something. A text that the buffer has
  room for is written whole.
\<close>

theorem channel_takes_prefix:
  assumes "channel_ok ch" "g_utf8_validate t" "list_all not_nul t"
  shows "case g_io_channel_write_chars ch p t of
      None \<Rightarrow> False
    | Some (status, n, ch', p') \<Rightarrow>
        channel_ok ch' \<and> n \<le> length t \<and> channel_content ch' p' = channel_content ch p @ take n t \<and>
        g_utf8_validate (take n t) \<and> status \<noteq> G_IO_STATUS_EOF \<and>
        (status = G_IO_STATUS_AGAIN \<longrightarrow> n = 0) \<and> (status = G_IO_STATUS_NORMAL \<longrightarrow> t = [] \<or> 0 < n) \<and>
        (status \<noteq> G_IO_STATUS_NORMAL \<longrightarrow> n < length t) \<and>
        (has_room (buffer_of ch) (length t) \<longrightarrow> n = length t)"
proof -
  obtain us where us: "t = encoding us" "\<forall>u \<in> set us. proper u" using valid_text_chars [OF assms(2,3)] .
  obtain status ps qs ch' p' where r: "us = ps @ qs"
    "g_io_channel_write_chars ch p t = Some (status, length (encoding ps), ch', p')"
    "channel_ok ch'" "channel_content ch' p' = channel_content ch p @ encoding ps" "status \<noteq> G_IO_STATUS_EOF"
    "status = G_IO_STATUS_AGAIN \<longrightarrow> ps = []" "status = G_IO_STATUS_NORMAL \<longrightarrow> qs = [] \<or> ps \<noteq> []"
    "status \<noteq> G_IO_STATUS_NORMAL \<longrightarrow> qs \<noteq> []" "has_room (buffer_of ch) (length t) \<longrightarrow> qs = []"
    by (rule write_chars_valid [OF assms(1) us(2), of p, folded us(1)])
  have "take (length (encoding ps)) t = encoding ps" "length (encoding ps) \<le> length t" by (simp_all add: us(1) r(1))
  moreover have "g_utf8_validate (encoding ps)" using us(2) r(1) by (intro encoding_valid) auto
  moreover have "0 < length (encoding ps)" if "ps \<noteq> []" using that encode_length(1) by (cases ps) auto
  moreover have "length (encoding ps) < length t" if "qs \<noteq> []"
    using that encode_length(1) by (cases qs) (auto simp: us(1) r(1))
  moreover have "length (encoding ps) = length t" if "qs = []" using that by (simp add: us(1) r(1))
  moreover have "t = []" if "ps = []" "qs = []" using that by (simp add: us(1) r(1))
  ultimately show ?thesis using r(2-9) by auto
qed

text \<open>A new channel has room for a text of less than 2 KB, whatever the pipe answers.\<close>

lemma channel_takes_prefix_witness:
  "\<forall>p. case g_io_channel_write_chars (g_io_channel_unix_new True) p ''Go.'' of
     None \<Rightarrow> False
   | Some (status, n, ch', p') \<Rightarrow> n = 3 \<and> channel_content ch' p' = piped p @ ''Go.''"
proof
  fix p
  have v: "g_utf8_validate ''Go.''" "list_all not_nul ''Go.''"
    using g_utf8_validate_ascii [of "''Go.''"] by (simp_all add: not_nul_def byte_def)
  have "has_room (buffer_of (g_io_channel_unix_new True)) (length ''Go.'')"
    by (simp add: has_room_def buffer_of_def g_io_channel_unix_new_def g_io_channel_init_def)
  moreover have "channel_content (g_io_channel_unix_new True) p = piped p"
    by (simp add: channel_content_def g_io_channel_unix_new_def g_io_channel_init_def)
  ultimately show "case g_io_channel_write_chars (g_io_channel_unix_new True) p ''Go.'' of
      None \<Rightarrow> False
    | Some (status, n, ch', p') \<Rightarrow> n = 3 \<and> channel_content ch' p' = piped p @ ''Go.''"
    using channel_takes_prefix [OF new_channel_ok v, of p] by (auto split: option.splits)
qed

lemma flush_keeps_content:
  assumes "channel_ok ch" "g_io_channel_flush ch p = (status, ch', p')"
  shows "channel_ok ch'" "channel_content ch' p' = channel_content ch p" "status \<noteq> G_IO_STATUS_EOF"
    "status = G_IO_STATUS_NORMAL \<Longrightarrow> channel_content ch' p' = piped p'"
proof -
  have "channel_ok ch' \<and> channel_content ch' p' = channel_content ch p \<and> status \<noteq> G_IO_STATUS_EOF \<and>
    (status = G_IO_STATUS_NORMAL \<longrightarrow> channel_content ch' p' = piped p')"
  proof (cases "buffer_of ch = \<lparr>gs_str = [], gs_allocated = 2048\<rparr> \<or> gs_str (buffer_of ch) = []")
    case True
    then show ?thesis
      using assms by (auto simp: g_io_channel_flush_def buffer_of_def channel_content_def split: option.splits)
  next
    case False
    then obtain b where b: "write_buf ch = Some b" "gs_str b \<noteq> []" by (auto simp: buffer_of_def split: option.splits)
    then obtain n where w: "write_until (length (gs_str b)) (gs_str b) 0 p = (status, n, p')"
      "ch' = ch\<lparr>write_buf := Some (g_string_erase b 0 n)\<rparr>"
      using assms(2) by (auto simp: g_io_channel_flush_def split: prod.splits)
    show ?thesis
      using write_until_result [OF w(1)] assms(1) b(1)
      by (auto simp: w(2) channel_ok_def buffer_ok_def g_string_erase_def channel_content_def)
  qed
  then show "channel_ok ch'" "channel_content ch' p' = channel_content ch p" "status \<noteq> G_IO_STATUS_EOF"
    "status = G_IO_STATUS_NORMAL \<Longrightarrow> channel_content ch' p' = piped p'" by blast+
qed

text \<open>Closing the channel with a flush hands on everything that was written to it, unless a write fails; but it waits for the reader to take it.\<close>

lemma shutdown_hands_on:
  assumes "channel_ok ch" "g_io_channel_shutdown ch True close_ok p = Some (G_IO_STATUS_NORMAL, ch', p')"
  shows "piped p' = channel_content ch p" "\<not> is_writeable ch'"
proof -
  have "channel_content ch (blocking p) = channel_content ch p" by (simp add: channel_content_def blocking_def)
  then show "piped p' = channel_content ch p"
    using assms flush_keeps_content(2,4) [OF assms(1), of "blocking p"]
    by (auto simp: g_io_channel_shutdown_def Let_def channel_content_def
        split: option.splits if_splits prod.splits Option.bind_splits)
  show "\<not> is_writeable ch'"
    using assms(2) by (auto simp: g_io_channel_shutdown_def Let_def split: Option.bind_splits if_splits)
qed

lemma shutdown_waits:
  assumes "write_buf ch = Some b" "gs_str b \<noteq> []" "set (write_answers p) \<subseteq> {Would_Block, Interrupted}"
  shows "g_io_channel_shutdown ch True close_ok p = None"
proof -
  have *: "unix_write as n = (G_IO_STATUS_AGAIN, 0, [])" if "set as \<subseteq> {Interrupted}" for as n
    using that by (induction as n rule: unix_write.induct) auto
  have "unix_write (filter (\<lambda>a. a \<noteq> Would_Block) (write_answers p)) n = (G_IO_STATUS_AGAIN, 0, [])" for n
    by (rule *) (use assms(3) in auto)
  then show ?thesis
    using assms(1,2) by (simp add: g_io_channel_shutdown_def g_io_channel_flush_def write_until.simps g_io_unix_write_def blocking_def Let_def)
qed

end
