(* ===== verification/Feeder_Channel.thy ===== *)
theory Feeder_Channel
  imports Io_Channel
begin

text \<open>
  The feeder on its channel: the three calls \<^verbatim>\<open>tts_text_feeder_thread\<close> makes for one text, on the channel of
  \<open>Io_Channel\<close>. What the model of the engine takes as the answers of the channel (\<open>write_env\<close>) comes from these calls, and
  what it records as sent is what the channel has taken; and a text that the channel takes only in part.
\<close>

subsection \<open>The feeder's calls\<close>

text \<open>
  The three calls for one text, and the answers the model of the engine is given for them. A call that is not
  made has no answer, and the number of bytes written is read by nobody.
\<close>

definition feeder_write :: "io_channel \<Rightarrow> pipe \<Rightarrow> string \<Rightarrow> (write_env \<times> io_channel \<times> pipe) option" where
  "feeder_write ch p t = do {
     (status, n, ch1, p1) \<leftarrow> g_io_channel_write_chars ch p t;
     let env = \<lparr>text_status = status, text_refused = length t - n, newline_status = G_IO_STATUS_AGAIN,
                flush_status = G_IO_STATUS_AGAIN\<rparr>
     in if status \<noteq> G_IO_STATUS_NORMAL then Some (env, ch1, p1)
        else do {
          (status, n, ch2, p2) \<leftarrow> g_io_channel_write_chars ch1 p1 [CHR 0x0A];
          if status \<noteq> G_IO_STATUS_NORMAL then Some (env\<lparr>newline_status := status\<rparr>, ch2, p2)
          else (case g_io_channel_flush ch2 p2 of
            (status, ch3, p3) \<Rightarrow>
              Some (env\<lparr>newline_status := G_IO_STATUS_NORMAL, flush_status := status\<rparr>, ch3, p3)) } }"

lemma feeder_write_accepted:
  assumes "channel_ok ch" "g_utf8_validate t" "list_all not_nul t"
  shows "case feeder_write ch p t of
      None \<Rightarrow> False
    | Some (env, ch', p') \<Rightarrow> channel_ok ch' \<and> channel_content ch' p' = channel_content ch p @ concat (accepted env t)"
proof -
  obtain us where us: "t = encoding us" "\<forall>u \<in> set us. proper u" using valid_text_chars [OF assms(2,3)] .
  obtain st ps qs ch1 p1 where w: "us = ps @ qs" "g_io_channel_write_chars ch p t = Some (st, length (encoding ps), ch1, p1)"
    "channel_ok ch1" "channel_content ch1 p1 = channel_content ch p @ encoding ps" "st = G_IO_STATUS_AGAIN \<longrightarrow> ps = []"
    by (rule write_chars_valid [OF assms(1) us(2), of p, folded us(1)])
  have nl: "[CHR 0x0A] = encoding [10]" "\<forall>u \<in> set [10]. proper u"
    using char_of_eq [of 10 "CHR 0x0A"] by (simp_all add: utf8_encode_def proper_def unicode_scalar_def byte_def)
  obtain st2 ps2 qs2 ch2 p2 where v: "[10] = ps2 @ qs2"
    "g_io_channel_write_chars ch1 p1 [CHR 0x0A] = Some (st2, length (encoding ps2), ch2, p2)" "channel_ok ch2"
    "channel_content ch2 p2 = channel_content ch1 p1 @ encoding ps2" "st2 = G_IO_STATUS_NORMAL \<longrightarrow> qs2 = [] \<or> ps2 \<noteq> []"
    "st2 \<noteq> G_IO_STATUS_NORMAL \<longrightarrow> qs2 \<noteq> []"
    by (rule write_chars_valid [OF w(3) nl(2), of p1, folded nl(1)])
  then have v2: "encoding ps2 = (if st2 = G_IO_STATUS_NORMAL then [CHR 0x0A] else [])"
    using nl(1) by (cases ps2) auto
  obtain st3 ch3 p3 where f: "g_io_channel_flush ch2 p2 = (st3, ch3, p3)" by (metis prod_cases3)
  note f' = flush_keeps_content(1,2) [OF v(3) f]
  have t: "take (length t - (length t - length (encoding ps))) t = encoding ps" by (simp add: us(1) w(1))
  show ?thesis
    using w(2-5) v(2-4) v2 f f' t by (cases "st = G_IO_STATUS_NORMAL"; cases "st2 = G_IO_STATUS_NORMAL")
      (auto simp: feeder_write_def accepted_def Let_def)
qed

text \<open>Several texts, one round of the feeder after another.\<close>

fun feeder_writes :: "io_channel \<Rightarrow> pipe \<Rightarrow> string list \<Rightarrow> (write_env list \<times> io_channel \<times> pipe) option" where
  "feeder_writes ch p [] = Some ([], ch, p)"
| "feeder_writes ch p (t # ts) = do {
     (env, ch1, p1) \<leftarrow> feeder_write ch p t;
     (envs, ch2, p2) \<leftarrow> feeder_writes ch1 p1 ts;
     Some (env # envs, ch2, p2) }"

lemma feeder_writes_accepted:
  assumes "channel_ok ch" "\<forall>t \<in> set ts. g_utf8_validate t \<and> list_all not_nul t"
  shows "case feeder_writes ch p ts of
      None \<Rightarrow> False
    | Some (envs, ch', p') \<Rightarrow> length envs = length ts \<and> channel_ok ch' \<and>
        channel_content ch' p' = channel_content ch p @ concat (concat (map2 accepted envs ts))"
  using assms
proof (induction ts arbitrary: ch p)
  case (Cons t ts)
  obtain env ch1 p1 where w: "feeder_write ch p t = Some (env, ch1, p1)" "channel_ok ch1"
    "channel_content ch1 p1 = channel_content ch p @ concat (accepted env t)"
    using feeder_write_accepted [OF Cons.prems(1), of t p] Cons.prems(2) by (auto split: option.splits)
  then show ?case using Cons.IH [OF w(2), of p1] Cons.prems(2) by (auto split: option.splits)
qed simp

text \<open>
  C7. The engine on its channel: feeding the whole queue through the channel, whatever the pipe answers to each
  write, fails no assertion, and what the engine's model records as sent is what has gone into the pipe followed
  by what waits in the channel's buffer.
\<close>

theorem channel_implements_feeding:
  assumes "feeding e" "queue_ready (mem w) (text_queue e)" "\<forall>a \<in> set (text_queue e). list_all not_nul (text_at (mem w) a)"
    and "channel_ok ch" "concat (channel_text w) = channel_content ch p"
  shows "case feeder_writes ch p (map (text_at (mem w)) (text_queue e)) of
      None \<Rightarrow> False
    | Some (envs, ch', p') \<Rightarrow> channel_ok ch' \<and> text_queue (fst (feed_all envs (e, w))) = [] \<and>
        concat (channel_text (snd (feed_all envs (e, w)))) = channel_content ch' p'"
proof -
  let ?ts = "map (text_at (mem w)) (text_queue e)"
  have "g_utf8_validate (text_at (mem w) a)" if "a \<in> set (text_queue e)" for a
    using that assms(2) by (auto simp: queue_ready_def text_at_def segment_text_ok_def)
  with assms(3) have "\<forall>t \<in> set ?ts. g_utf8_validate t \<and> list_all not_nul t" by auto
  from feeder_writes_accepted [OF assms(4) this, of p] obtain envs ch' p' where
    f: "feeder_writes ch p ?ts = Some (envs, ch', p')" "length envs = length (text_queue e)" "channel_ok ch'"
      "channel_content ch' p' = channel_content ch p @ concat (concat (map2 accepted envs ?ts))"
    by (auto split: option.splits)
  have "map2 accepted envs ?ts = map2 (\<lambda>env a. accepted env (text_at (mem w) a)) envs (text_queue e)"
    by (simp add: zip_map2 case_prod_unfold)
  then show ?thesis
    using f feed_all_effect [OF assms(1,2) f(2)] assms(5) by simp
qed

lemma channel_implements_feeding_witness:
  "case feeder_writes (g_io_channel_unix_new True) \<lparr>piped = [], write_answers = [Takes 2]\<rparr> [''Go.''] of
     None \<Rightarrow> False
   | Some (envs, ch', p') \<Rightarrow> channel_ok ch' \<and>
       concat (channel_text (snd (feed_all envs (sample_engine, sample_world)))) = channel_content ch' p'"
proof -
  have t: "map (text_at (mem sample_world)) (text_queue sample_engine) = [''Go.'']" "channel_text sample_world = []"
    by (simp_all add: sample_engine_def sample_world_def text_at_def alloc_segment_def empty_store_def)
  then have "\<forall>a \<in> set (text_queue sample_engine). list_all not_nul (text_at (mem sample_world) a)"
    by (auto simp: not_nul_def byte_def)
  moreover have "concat (channel_text sample_world) =
      channel_content (g_io_channel_unix_new True) \<lparr>piped = [], write_answers = [Takes 2]\<rparr>"
    by (simp add: t(2) channel_content_def g_io_channel_unix_new_def g_io_channel_init_def)
  ultimately show ?thesis
    using channel_implements_feeding [OF sample_feeding _ new_channel_ok, of "\<lparr>piped = [], write_answers = [Takes 2]\<rparr>"] t(1)
    by (auto split: option.splits)
qed

subsection \<open>A text that is cut\<close>

lemma validate_len_ascii:
  assumes "byte c < 128" "not_nul c"
  shows "fast_validate_len n (replicate m c) = replicate (m - n) c"
  using assms by (induction m arbitrary: n) (auto simp: not_nul_def Suc_diff_le not_less_eq_eq le_Suc_eq)

text \<open>
  The feeder takes the success of the first call for the text being written. When a text is longer than the room in the buffer and
  the pipe is full for a moment, the channel reports success for the part it took, and the feeder ends it with
  the newline of a whole text: of 3000 bytes the speech process is sent 2047, and the segment is freed.
\<close>

theorem cut_text_looks_whole:
  "feeder_write (g_io_channel_unix_new True) \<lparr>piped = [], write_answers = [Would_Block, Takes 4096]\<rparr> (replicate 3000 CHR ''a'') =
     Some (\<lparr>text_status = G_IO_STATUS_NORMAL, text_refused = 953, newline_status = G_IO_STATUS_NORMAL,
             flush_status = G_IO_STATUS_AGAIN\<rparr>,
       (g_io_channel_unix_new True)\<lparr>write_buf := Some \<lparr>gs_str = [CHR 0x0A], gs_allocated = 2048\<rparr>\<rparr>,
       \<lparr>piped = replicate 2047 CHR ''a'', write_answers = []\<rparr>)"
proof -
  have v: "fast_validate_len n (replicate m CHR ''a'') = replicate (m - n) CHR ''a''" for n m
    by (rule validate_len_ascii) (simp_all add: byte_def not_nul_def)
  note defs = channel_pass_def write_full_buffer_def write_utf8_def after_convert_def g_utf8_validate_len_def g_string_append_len_def
    g_string_erase_def g_io_unix_write_def write_until.simps write_loop.simps MAX_CHAR_SIZE_def G_IO_NICE_BUF_SIZE_def Let_def
  let ?p = "\<lparr>piped = [], write_answers = [Would_Block, Takes 4096]\<rparr>"
  let ?ch = "g_io_channel_unix_new True"
  let ?full = "\<lparr>gs_str = replicate 2047 CHR ''a'', gs_allocated = 2048\<rparr>"
  have t: "g_io_channel_write_chars ?ch ?p (replicate 3000 CHR ''a'') =
      Some (G_IO_STATUS_NORMAL, 2047, ?ch\<lparr>write_buf := Some ?full\<rparr>, \<lparr>piped = [], write_answers = [Takes 4096]\<rparr>)"
    using new_buffer by (simp add: g_io_channel_write_chars_def g_io_channel_unix_new_def g_io_channel_init_def defs v)
  have n: "g_io_channel_write_chars (?ch\<lparr>write_buf := Some ?full\<rparr>) \<lparr>piped = [], write_answers = [Takes 4096]\<rparr> [CHR 0x0A] =
      Some (G_IO_STATUS_NORMAL, 1, ?ch\<lparr>write_buf := Some \<lparr>gs_str = [CHR 0x0A], gs_allocated = 2048\<rparr>\<rparr>,
        \<lparr>piped = replicate 2047 CHR ''a'', write_answers = []\<rparr>)"
    by (simp add: g_io_channel_write_chars_def g_io_channel_unix_new_def g_io_channel_init_def defs byte_def)
  show ?thesis
    by (simp add: feeder_write_def t n) (simp add: g_io_channel_flush_def defs)
qed

end
