(* ===== verification/Glib_Mutex.thy ===== *)
theory Glib_Mutex
  imports Feeder_Threads "HOL-Library.Word"
begin

text \<open>
  The mutex and the condition variable of the glib on Linux (\<^verbatim>\<open>glib/gthread-posix.c\<close>), on which the threads of the
  streaming engine meet: one word each, atomic operations on the words, and the kernel's futex, which puts a
  thread to sleep if a word has the expected value and wakes sleepers. Any number of threads call them at the same time; every
  atomic operation and every futex call is a step of its own. Which sleeper is woken is the kernel's choice, and a sleeper may
  also be woken by nothing at all.

  The specification is a monitor: who holds the lock, and who waits. It is what \<open>Feeder_Threads\<close> takes for granted.
\<close>

subsection \<open>The words, the kernel and the threads\<close>

abbreviation G_MUTEX_STATE_EMPTY :: "32 word" where
  "G_MUTEX_STATE_EMPTY \<equiv> 0"

abbreviation G_MUTEX_STATE_OWNED :: "32 word" where
  "G_MUTEX_STATE_OWNED \<equiv> 1"

abbreviation G_MUTEX_STATE_CONTENDED :: "32 word" where
  "G_MUTEX_STATE_CONTENDED \<equiv> 2"

text \<open>
  Where a thread is in its call. In a wait for the condition the release and the acquisition of the mutex are calls of
  \<^verbatim>\<open>g_mutex_unlock\<close> and \<^verbatim>\<open>g_mutex_lock\<close>; the sampled word is carried through the release.
\<close>

datatype lock_pc =
    Outside
  | Lock_Cas  \<comment> \<open>\<^verbatim>\<open>g_mutex_lock\<close>: before the compare and exchange\<close>
  | Lock_Exchange  \<comment> \<open>\<^verbatim>\<open>g_mutex_lock_slowpath\<close>: before the exchange of the loop\<close>
  | Lock_Futex  \<comment> \<open>before going to sleep\<close>
  | Lock_Asleep
  | Try_Cas
  | Unlock_Exchange "32 word option"
  | Unlock_Wake "32 word option"  \<comment> \<open>\<^verbatim>\<open>g_mutex_unlock_slowpath\<close>: before waking\<close>
  | Cond_Sample
  | Cond_Futex "32 word"
  | Cond_Asleep "32 word"
  | Signal_Inc bool  \<comment> \<open>whether all are to be woken\<close>
  | Signal_Wake bool
  | Aborted

datatype lock_call = Call_Lock | Call_Trylock | Call_Unlock | Call_Wait | Call_Signal | Call_Broadcast

text \<open>
  The state, with three fields the program does not have: the threads that have been given the mutex and have not
  given it back, the number of signals and broadcasts so far, and for each thread that number when it sampled the word.
\<close>

record locks =
  mutex_word :: "32 word"
  cond_word :: "32 word"
  mutex_sleepers :: "nat list"
  cond_sleepers :: "nat list"
  place :: "nat \<Rightarrow> lock_pc"
  holders :: "nat set"
  signal_count :: nat
  since :: "nat \<Rightarrow> nat"

definition move :: "nat \<Rightarrow> lock_pc \<Rightarrow> locks \<Rightarrow> locks" where
  "move t p s = s\<lparr>place := (place s)(t := p)\<rparr>"

definition acquired :: "nat \<Rightarrow> locks \<Rightarrow> locks" where
  "acquired t s = move t Outside (s\<lparr>holders := insert t (holders s)\<rparr>)"

text \<open>Initialised, with every thread outside.\<close>

definition locks_init :: locks where
  "locks_init = \<lparr>mutex_word = G_MUTEX_STATE_EMPTY, cond_word = 0, mutex_sleepers = [], cond_sleepers = [],
     place = (\<lambda>t. Outside), holders = {}, signal_count = 0, since = (\<lambda>t. 0)\<rparr>"

subsection \<open>The mutex\<close>

definition g_mutex_lock :: "nat \<Rightarrow> locks \<Rightarrow> locks" where
  "g_mutex_lock t s =
     (if mutex_word s = G_MUTEX_STATE_EMPTY then acquired t (s\<lparr>mutex_word := G_MUTEX_STATE_OWNED\<rparr>)
      else move t Lock_Exchange s)"

definition g_mutex_lock_slowpath :: "nat \<Rightarrow> locks \<Rightarrow> locks" where
  "g_mutex_lock_slowpath t s =
     (let s1 = s\<lparr>mutex_word := G_MUTEX_STATE_CONTENDED\<rparr>
      in if mutex_word s = G_MUTEX_STATE_EMPTY then acquired t s1 else move t Lock_Futex s1)"

definition mutex_futex_wait :: "nat \<Rightarrow> locks \<Rightarrow> locks" where
  "mutex_futex_wait t s =
     (if mutex_word s = G_MUTEX_STATE_CONTENDED
      then move t Lock_Asleep (s\<lparr>mutex_sleepers := mutex_sleepers s @ [t]\<rparr>)
      else move t Lock_Exchange s)"

definition g_mutex_trylock :: "nat \<Rightarrow> locks \<Rightarrow> locks" where
  "g_mutex_trylock t s =
     (if mutex_word s = G_MUTEX_STATE_EMPTY then acquired t (s\<lparr>mutex_word := G_MUTEX_STATE_OWNED\<rparr>)
      else move t Outside s)"

text \<open>Where a thread goes on behind the release: back to the caller, or to sleep until the word has changed.\<close>

definition after_unlock :: "32 word option \<Rightarrow> lock_pc" where
  "after_unlock k = (case k of None \<Rightarrow> Outside | Some sampled \<Rightarrow> Cond_Futex sampled)"

definition g_mutex_unlock :: "nat \<Rightarrow> 32 word option \<Rightarrow> locks \<Rightarrow> locks" where
  "g_mutex_unlock t k s =
     (let prev = mutex_word s;
          s1 = s\<lparr>mutex_word := G_MUTEX_STATE_EMPTY, holders := holders s - {t}\<rparr>
      in if prev = G_MUTEX_STATE_OWNED then move t (after_unlock k) s1
         else if prev = G_MUTEX_STATE_EMPTY then move t Aborted s1
         else move t (Unlock_Wake k) s1)"

text \<open>One sleeper is woken, if there is one; the kernel chooses.\<close>

definition g_mutex_unlock_slowpath :: "nat \<Rightarrow> 32 word option \<Rightarrow> nat \<Rightarrow> locks \<Rightarrow> locks option" where
  "g_mutex_unlock_slowpath t k chosen s =
     (if mutex_sleepers s = [] then Some (move t (after_unlock k) s)
      else if chosen \<in> set (mutex_sleepers s)
      then Some (move t (after_unlock k) (move chosen Lock_Exchange (s\<lparr>mutex_sleepers := remove1 chosen (mutex_sleepers s)\<rparr>)))
      else None)"

subsection \<open>The condition variable\<close>

definition g_cond_wait :: "nat \<Rightarrow> locks \<Rightarrow> locks" where
  "g_cond_wait t s = move t (Unlock_Exchange (Some (cond_word s))) (s\<lparr>since := (since s)(t := signal_count s)\<rparr>)"

definition cond_futex_wait :: "nat \<Rightarrow> 32 word \<Rightarrow> locks \<Rightarrow> locks" where
  "cond_futex_wait t sampled s =
     (if cond_word s = sampled
      then move t (Cond_Asleep sampled) (s\<lparr>cond_sleepers := cond_sleepers s @ [t]\<rparr>)
      else move t Lock_Cas s)"

definition cond_inc :: "nat \<Rightarrow> bool \<Rightarrow> locks \<Rightarrow> locks" where
  "cond_inc t all s = move t (Signal_Wake all) (s\<lparr>cond_word := cond_word s + 1, signal_count := signal_count s + 1\<rparr>)"

definition g_cond_signal :: "nat \<Rightarrow> nat \<Rightarrow> locks \<Rightarrow> locks option" where
  "g_cond_signal t chosen s =
     (if cond_sleepers s = [] then Some (move t Outside s)
      else if chosen \<in> set (cond_sleepers s)
      then Some (move t Outside (move chosen Lock_Cas (s\<lparr>cond_sleepers := remove1 chosen (cond_sleepers s)\<rparr>)))
      else None)"

definition g_cond_broadcast :: "nat \<Rightarrow> locks \<Rightarrow> locks" where
  "g_cond_broadcast t s =
     move t Outside ((fold (\<lambda>u. move u Lock_Cas) (cond_sleepers s) s)\<lparr>cond_sleepers := []\<rparr>)"

subsection \<open>Steps\<close>

text \<open>A call begins; only a thread that has the mutex gives it back or waits, and none locks it twice.\<close>

definition begin_call :: "nat \<Rightarrow> lock_call \<Rightarrow> locks \<Rightarrow> locks option" where
  "begin_call t c s =
     (if place s t \<noteq> Outside then None
      else case c of
        Call_Lock \<Rightarrow> if t \<in> holders s then None else Some (move t Lock_Cas s)
      | Call_Trylock \<Rightarrow> Some (move t Try_Cas s)
      | Call_Unlock \<Rightarrow> if t \<in> holders s then Some (move t (Unlock_Exchange None) s) else None
      | Call_Wait \<Rightarrow> if t \<in> holders s then Some (move t Cond_Sample s) else None
      | Call_Signal \<Rightarrow> Some (move t (Signal_Inc False) s)
      | Call_Broadcast \<Rightarrow> Some (move t (Signal_Inc True) s))"

definition thread_step :: "nat \<Rightarrow> nat \<Rightarrow> locks \<Rightarrow> locks option" where
  "thread_step t chosen s =
     (case place s t of
        Outside \<Rightarrow> None
      | Lock_Cas \<Rightarrow> Some (g_mutex_lock t s)
      | Lock_Exchange \<Rightarrow> Some (g_mutex_lock_slowpath t s)
      | Lock_Futex \<Rightarrow> Some (mutex_futex_wait t s)
      | Lock_Asleep \<Rightarrow> None
      | Try_Cas \<Rightarrow> Some (g_mutex_trylock t s)
      | Unlock_Exchange k \<Rightarrow> Some (g_mutex_unlock t k s)
      | Unlock_Wake k \<Rightarrow> g_mutex_unlock_slowpath t k chosen s
      | Cond_Sample \<Rightarrow> Some (g_cond_wait t s)
      | Cond_Futex sampled \<Rightarrow> Some (cond_futex_wait t sampled s)
      | Cond_Asleep sampled \<Rightarrow> None
      | Signal_Inc all \<Rightarrow> Some (cond_inc t all s)
      | Signal_Wake all \<Rightarrow> if all then Some (g_cond_broadcast t s) else g_cond_signal t chosen s
      | Aborted \<Rightarrow> None)"

text \<open>A sleeper wakes up for no reason the program knows of.\<close>

definition interrupt :: "nat \<Rightarrow> locks \<Rightarrow> locks option" where
  "interrupt t s =
     (case place s t of
        Lock_Asleep \<Rightarrow> Some (move t Lock_Exchange (s\<lparr>mutex_sleepers := remove1 t (mutex_sleepers s)\<rparr>))
      | Cond_Asleep sampled \<Rightarrow> Some (move t Lock_Cas (s\<lparr>cond_sleepers := remove1 t (cond_sleepers s)\<rparr>))
      | _ \<Rightarrow> None)"

text \<open>\<open>may\<close> says which threads make which calls.\<close>

inductive lock_step :: "(nat \<Rightarrow> lock_call \<Rightarrow> bool) \<Rightarrow> locks \<Rightarrow> locks \<Rightarrow> bool" for may where
  step_begin: "may t c \<Longrightarrow> begin_call t c s = Some s' \<Longrightarrow> lock_step may s s'"
| step_thread: "thread_step t chosen s = Some s' \<Longrightarrow> lock_step may s s'"
| step_interrupt: "interrupt t s = Some s' \<Longrightarrow> lock_step may s s'"

inductive locks_reachable :: "(nat \<Rightarrow> lock_call \<Rightarrow> bool) \<Rightarrow> locks \<Rightarrow> bool" for may where
  locks_start: "locks_reachable may locks_init"
| locks_next: "locks_reachable may s \<Longrightarrow> lock_step may s s' \<Longrightarrow> locks_reachable may s'"

inductive_simps lock_step_iff: "lock_step may s s'"

subsection \<open>The invariant\<close>

definition gives_back :: "lock_pc \<Rightarrow> bool" where
  "gives_back p \<longleftrightarrow> (case p of Unlock_Exchange _ \<Rightarrow> True | Cond_Sample \<Rightarrow> True | _ \<Rightarrow> False)"

definition locked_out :: "lock_pc \<Rightarrow> bool" where
  "locked_out p \<longleftrightarrow> (case p of Lock_Cas \<Rightarrow> True | Lock_Exchange \<Rightarrow> True | Lock_Futex \<Rightarrow> True | Lock_Asleep \<Rightarrow> True
     | Unlock_Wake _ \<Rightarrow> True | Cond_Futex _ \<Rightarrow> True | Cond_Asleep _ \<Rightarrow> True | Aborted \<Rightarrow> True | _ \<Rightarrow> False)"

definition sees_to_it :: "lock_pc \<Rightarrow> bool" where
  "sees_to_it p \<longleftrightarrow> (case p of Lock_Exchange \<Rightarrow> True | Unlock_Wake _ \<Rightarrow> True | _ \<Rightarrow> False)"

definition cond_asleep :: "lock_pc \<Rightarrow> bool" where
  "cond_asleep p \<longleftrightarrow> (case p of Cond_Asleep _ \<Rightarrow> True | _ \<Rightarrow> False)"

definition sampled_word :: "lock_pc \<Rightarrow> 32 word option" where
  "sampled_word p = (case p of Unlock_Exchange k \<Rightarrow> k | Unlock_Wake k \<Rightarrow> k | Cond_Futex v \<Rightarrow> Some v | Cond_Asleep v \<Rightarrow> Some v | _ \<Rightarrow> None)"

lemma pc_kinds [simp]:
  "\<not> gives_back Outside" "\<not> gives_back Lock_Cas" "\<not> gives_back Lock_Exchange" "\<not> gives_back
  Lock_Futex" "\<not> gives_back Lock_Asleep" "\<not> gives_back Try_Cas" "gives_back (Unlock_Exchange k)" "\<not>
  gives_back (Unlock_Wake k)" "gives_back Cond_Sample" "\<not> gives_back (Cond_Futex v)" "\<not> gives_back (Cond_Asleep
  v)" "\<not> gives_back (Signal_Inc a)" "\<not> gives_back (Signal_Wake a)" "\<not> gives_back Aborted"
  "\<not> locked_out Outside" "locked_out Lock_Cas" "locked_out Lock_Exchange" "locked_out Lock_Futex" "locked_out
  Lock_Asleep" "\<not> locked_out Try_Cas" "\<not> locked_out (Unlock_Exchange k)" "locked_out (Unlock_Wake k)" "\<not>
  locked_out Cond_Sample" "locked_out (Cond_Futex v)" "locked_out (Cond_Asleep v)" "\<not> locked_out (Signal_Inc a)"
  "\<not> locked_out (Signal_Wake a)" "locked_out Aborted"
  "\<not> sees_to_it Outside" "\<not> sees_to_it Lock_Cas" "sees_to_it Lock_Exchange" "\<not> sees_to_it Lock_Futex"
  "\<not> sees_to_it Lock_Asleep" "\<not> sees_to_it Try_Cas" "\<not> sees_to_it (Unlock_Exchange k)" "sees_to_it
  (Unlock_Wake k)" "\<not> sees_to_it Cond_Sample" "\<not> sees_to_it (Cond_Futex v)" "\<not> sees_to_it (Cond_Asleep v)"
  "\<not> sees_to_it (Signal_Inc a)" "\<not> sees_to_it (Signal_Wake a)" "\<not> sees_to_it Aborted"
  "\<not> cond_asleep Outside" "\<not> cond_asleep Lock_Cas" "\<not> cond_asleep Lock_Exchange" "\<not> cond_asleep
  Lock_Futex" "\<not> cond_asleep Lock_Asleep" "\<not> cond_asleep Try_Cas" "\<not> cond_asleep (Unlock_Exchange k)"
  "\<not> cond_asleep (Unlock_Wake k)" "\<not> cond_asleep Cond_Sample" "\<not> cond_asleep (Cond_Futex v)" "cond_asleep
  (Cond_Asleep v)" "\<not> cond_asleep (Signal_Inc a)" "\<not> cond_asleep (Signal_Wake a)" "\<not> cond_asleep Aborted"
  "sampled_word Outside = None" "sampled_word Lock_Cas = None" "sampled_word Lock_Exchange = None" "sampled_word
  Lock_Futex = None" "sampled_word Lock_Asleep = None" "sampled_word Try_Cas = None" "sampled_word (Unlock_Exchange k) =
  k" "sampled_word (Unlock_Wake k) = k" "sampled_word Cond_Sample = None" "sampled_word (Cond_Futex v) = Some v"
  "sampled_word (Cond_Asleep v) = Some v" "sampled_word (Signal_Inc a) = None" "sampled_word (Signal_Wake a) = None"
  "sampled_word Aborted = None"
  by (simp_all add: gives_back_def locked_out_def sees_to_it_def cond_asleep_def sampled_word_def)

lemma after_unlock_kinds [simp]:
  "\<not> gives_back (after_unlock k)" "\<not> sees_to_it (after_unlock k)" "\<not> cond_asleep (after_unlock k)"
  "after_unlock k \<noteq> Lock_Asleep" "after_unlock k \<noteq> Aborted" "sampled_word (after_unlock k) = k"
  by (simp_all add: after_unlock_def split: option.split)

text \<open>The word tells whether the mutex is held, and nobody who must not have it has it.\<close>

definition word_ok :: "locks \<Rightarrow> bool" where
  "word_ok s \<longleftrightarrow>
     (if mutex_word s = G_MUTEX_STATE_EMPTY then holders s = {}
      else mutex_word s \<in> {G_MUTEX_STATE_OWNED, G_MUTEX_STATE_CONTENDED} \<and> (\<exists>t. holders s = {t})) \<and>
     (\<forall>t. gives_back (place s t) \<longrightarrow> t \<in> holders s) \<and> (\<forall>t. locked_out (place s t) \<longrightarrow> t \<notin> holders s) \<and>
     (\<forall>t. place s t \<noteq> Aborted)"

definition sleepers_ok :: "locks \<Rightarrow> bool" where
  "sleepers_ok s \<longleftrightarrow> distinct (mutex_sleepers s) \<and> distinct (cond_sleepers s) \<and>
     (\<forall>t. place s t = Lock_Asleep \<longleftrightarrow> t \<in> set (mutex_sleepers s)) \<and>
     (\<forall>t. cond_asleep (place s t) \<longleftrightarrow> t \<in> set (cond_sleepers s))"

text \<open>While a thread sleeps on the mutex, its holder will wake one, or somebody is just about to wake one or to try again.\<close>

definition sleepers_minded :: "locks \<Rightarrow> bool" where
  "sleepers_minded s \<longleftrightarrow>
     (mutex_sleepers s \<noteq> [] \<longrightarrow> mutex_word s = G_MUTEX_STATE_CONTENDED \<or> (\<exists>t. sees_to_it (place s t)))"

definition samples_ok :: "locks \<Rightarrow> bool" where
  "samples_ok s \<longleftrightarrow> cond_word s = of_nat (signal_count s) \<and>
     (\<forall>t v. sampled_word (place s t) = Some v \<longrightarrow> v = of_nat (since s t) \<and> since s t \<le> signal_count s)"

definition locks_inv :: "locks \<Rightarrow> bool" where
  "locks_inv s \<longleftrightarrow> word_ok s \<and> sleepers_ok s \<and> sleepers_minded s \<and> samples_ok s"

lemma move_fields [simp]:
  "mutex_word (move t p s) = mutex_word s" "cond_word (move t p s) = cond_word s"
  "mutex_sleepers (move t p s) = mutex_sleepers s" "cond_sleepers (move t p s) = cond_sleepers s"
  "place (move t p s) = (place s)(t := p)" "holders (move t p s) = holders s" "signal_count (move t p s) = signal_count s"
  "since (move t p s) = since s"
  by (simp_all add: move_def)

lemma acquired_fields [simp]:
  "mutex_word (acquired t s) = mutex_word s" "cond_word (acquired t s) = cond_word s"
  "mutex_sleepers (acquired t s) = mutex_sleepers s" "cond_sleepers (acquired t s) = cond_sleepers s"
  "place (acquired t s) = (place s)(t := Outside)" "holders (acquired t s) = insert t (holders s)"
  "signal_count (acquired t s) = signal_count s" "since (acquired t s) = since s"
  by (simp_all add: acquired_def)

lemma fold_move [simp]:
  "mutex_word (fold (\<lambda>u. move u p) us s) = mutex_word s" "cond_word (fold (\<lambda>u. move u p) us s) = cond_word s"
  "mutex_sleepers (fold (\<lambda>u. move u p) us s) = mutex_sleepers s" "cond_sleepers (fold (\<lambda>u. move u p) us s) = cond_sleepers s"
  "place (fold (\<lambda>u. move u p) us s) = (\<lambda>t. if t \<in> set us then p else place s t)"
  "holders (fold (\<lambda>u. move u p) us s) = holders s" "signal_count (fold (\<lambda>u. move u p) us s) = signal_count s"
  "since (fold (\<lambda>u. move u p) us s) = since s"
  by (induction us arbitrary: s) (simp_all add: fun_eq_iff)

lemmas lock_ops = g_mutex_lock_def g_mutex_lock_slowpath_def mutex_futex_wait_def g_mutex_trylock_def g_mutex_unlock_def
  g_cond_wait_def cond_futex_wait_def cond_inc_def g_cond_broadcast_def Let_def

lemma locks_inv_init: "locks_inv locks_init"
  by (simp add: locks_inv_def word_ok_def sleepers_ok_def sleepers_minded_def samples_ok_def locks_init_def)

lemma lock_place:
  assumes "locks_inv s"
  shows "gives_back (place s t) \<Longrightarrow> t \<in> holders s" "locked_out (place s t) \<Longrightarrow> t \<notin> holders s"
    "t \<in> set (mutex_sleepers s) \<longleftrightarrow> place s t = Lock_Asleep" "t \<in> set (cond_sleepers s) \<longleftrightarrow> cond_asleep (place s t)"
  using assms by (auto simp: locks_inv_def word_ok_def sleepers_ok_def)

lemma asleep_at_place:
  assumes "locks_inv s"
  shows "t \<in> set (mutex_sleepers s) \<Longrightarrow> t \<notin> holders s \<and> t \<notin> set (cond_sleepers s)"
    "t \<in> set (cond_sleepers s) \<Longrightarrow> t \<notin> holders s \<and> t \<notin> set (mutex_sleepers s)"
proof -
  assume "t \<in> set (mutex_sleepers s)"
  then have p: "place s t = Lock_Asleep" using lock_place(3) [OF assms] by simp
  then show "t \<notin> holders s \<and> t \<notin> set (cond_sleepers s)" using lock_place(2,4) [OF assms, of t] by simp
next
  assume "t \<in> set (cond_sleepers s)"
  then have "cond_asleep (place s t)" using lock_place(4) [OF assms] by simp
  then show "t \<notin> holders s \<and> t \<notin> set (mutex_sleepers s)"
    using lock_place(2,3) [OF assms, of t] by (cases "place s t") auto
qed

lemma word_ok_move:
  "word_ok s \<Longrightarrow> gives_back p \<longrightarrow> t \<in> holders s \<Longrightarrow> locked_out p \<longrightarrow> t \<notin> holders s \<Longrightarrow> p \<noteq> Aborted \<Longrightarrow> word_ok (move t p s)"
  by (auto simp: word_ok_def)

lemma word_ok_sleepers [simp]:
  "word_ok (s\<lparr>mutex_sleepers := q\<rparr>) = word_ok s" "word_ok (s\<lparr>since := f\<rparr>) = word_ok s"
  "word_ok (s\<lparr>cond_sleepers := q\<rparr>) = word_ok s"
  by (simp_all add: word_ok_def)

lemma word_ok_fold_move:
  "word_ok s \<Longrightarrow> \<forall>u \<in> set us. u \<notin> holders s \<Longrightarrow> word_ok (fold (\<lambda>u. move u Lock_Cas) us s)"
  by (induction us arbitrary: s) (simp_all add: word_ok_move)

lemma begin_call_inv:
  assumes "locks_inv s" "begin_call t c s = Some s'"
  shows "locks_inv s'"
proof -
  obtain p where p: "place s t = Outside" "s' = move t p s" "gives_back p \<longrightarrow> t \<in> holders s" "locked_out p \<longrightarrow> t \<notin> holders s"
    "p \<noteq> Aborted" "p \<noteq> Lock_Asleep" "\<not> cond_asleep p" "sampled_word p = None"
    using assms(2) by (cases c) (auto simp: begin_call_def split: if_splits)
  have o: "\<exists>u. (u = t \<longrightarrow> sees_to_it p) \<and> (u \<noteq> t \<longrightarrow> sees_to_it (place s u))" if "sees_to_it (place s v)" for v
    using that p(1) by (intro exI [of _ v]) auto
  have w: "word_ok s'" using assms(1) p by (auto simp: locks_inv_def word_ok_def split: if_splits)
  have "sleepers_ok s'"
    using assms(1) p lock_place(3,4) [OF assms(1), of t] by (auto simp: locks_inv_def sleepers_ok_def)
  moreover have "sleepers_minded s'" using assms(1) p(2) o by (auto simp: locks_inv_def sleepers_minded_def)
  moreover have "samples_ok s'" using assms(1) p by (auto simp: locks_inv_def samples_ok_def)
  ultimately show ?thesis using w by (simp add: locks_inv_def)
qed

text \<open>The release: only with the mutex held, so it never aborts.\<close>

lemma word_ok_step:
  assumes "locks_inv s" "thread_step t chosen s = Some s'"
  shows "word_ok s'"
proof -
  have w: "word_ok s" "sleepers_ok s" using assms(1) by (simp_all add: locks_inv_def)
  note a = lock_place(1,2) [OF assms(1), of t]
  show ?thesis
  proof (cases "place s t")
    case Lock_Cas
    then have "s' = g_mutex_lock t s" using assms(2) by (simp add: thread_step_def)
    then show ?thesis using w(1) a Lock_Cas by (auto simp: word_ok_def g_mutex_lock_def split: if_splits)
  next
    case Lock_Exchange
    then have "s' = g_mutex_lock_slowpath t s" using assms(2) by (simp add: thread_step_def)
    then show ?thesis using w(1) a Lock_Exchange by (auto simp: word_ok_def g_mutex_lock_slowpath_def Let_def split: if_splits)
  next
    case Lock_Futex
    then have "s' = mutex_futex_wait t s" using assms(2) by (simp add: thread_step_def)
    then show ?thesis using w(1) a Lock_Futex by (auto simp: word_ok_def mutex_futex_wait_def split: if_splits)
  next
    case Try_Cas
    then have "s' = g_mutex_trylock t s" using assms(2) by (simp add: thread_step_def)
    then show ?thesis using w(1) a Try_Cas by (auto simp: word_ok_def g_mutex_trylock_def split: if_splits)
  next
    case (Unlock_Exchange k)
    then have s': "s' = g_mutex_unlock t k s" using assms(2) by (simp add: thread_step_def)
    have "t \<in> holders s" using a(1) Unlock_Exchange by simp
    with w(1) have "holders s = {t}" "mutex_word s = G_MUTEX_STATE_OWNED \<or> mutex_word s = G_MUTEX_STATE_CONTENDED"
      by (auto simp: word_ok_def split: if_splits)
    then show ?thesis using w(1) by (auto simp: s' word_ok_def g_mutex_unlock_def Let_def)
  next
    case (Unlock_Wake k)
    then have "g_mutex_unlock_slowpath t k chosen s = Some s'" "t \<notin> holders s" using assms(2) a(2) by (simp_all add: thread_step_def)
    then show ?thesis
      using w(1) asleep_at_place(1) [OF assms(1), of chosen]
      by (auto simp: g_mutex_unlock_slowpath_def intro!: word_ok_move split: if_splits)
  next
    case Cond_Sample
    then have "s' = g_cond_wait t s" "t \<in> holders s" using assms(2) a(1) by (simp_all add: thread_step_def)
    then show ?thesis using w(1) by (auto simp: g_cond_wait_def intro!: word_ok_move)
  next
    case (Cond_Futex v)
    then have "s' = cond_futex_wait t v s" using assms(2) by (simp add: thread_step_def)
    then show ?thesis using w(1) a Cond_Futex by (auto simp: word_ok_def cond_futex_wait_def split: if_splits)
  next
    case (Signal_Inc all)
    then have "s' = cond_inc t all s" using assms(2) by (simp add: thread_step_def)
    then show ?thesis using w(1) a Signal_Inc by (auto simp: word_ok_def cond_inc_def split: if_splits)
  next
    case (Signal_Wake all)
    have u: "\<forall>u \<in> set (cond_sleepers s). u \<notin> holders s" using asleep_at_place(2) [OF assms(1)] by blast
    show ?thesis
    proof (cases all)
      case True
      then have "s' = g_cond_broadcast t s" using Signal_Wake assms(2) by (simp add: thread_step_def)
      then show ?thesis using word_ok_fold_move [OF w(1) u] by (simp add: g_cond_broadcast_def word_ok_move)
    next
      case False
      then have "g_cond_signal t chosen s = Some s'" using Signal_Wake assms(2) by (simp add: thread_step_def)
      then show ?thesis using w(1) u by (auto simp: g_cond_signal_def intro!: word_ok_move split: if_splits)
    qed
  qed (use assms(2) in \<open>simp_all add: thread_step_def\<close>)
qed

lemma sleepers_ok_step:
  assumes "locks_inv s" "thread_step t chosen s = Some s'"
  shows "sleepers_ok s'"
proof -
  have w: "sleepers_ok s" using assms(1) by (simp add: locks_inv_def)
  note a = lock_place(3,4) [OF assms(1)]
  show ?thesis
  proof (cases "place s t")
    case Lock_Futex
    then show ?thesis using w assms(2) a [of t] by (auto simp: thread_step_def mutex_futex_wait_def sleepers_ok_def split: if_splits)
  next
    case (Unlock_Exchange k)
    then show ?thesis
      using w assms(2) a [of t] by (auto simp: thread_step_def g_mutex_unlock_def sleepers_ok_def Let_def split: if_splits)
  next
    case (Unlock_Wake k)
    then show ?thesis
      using w assms(2) a [of t] asleep_at_place(1) [OF assms(1), of chosen]
      by (auto simp: thread_step_def g_mutex_unlock_slowpath_def sleepers_ok_def split: if_splits)
  next
    case (Cond_Futex v)
    then show ?thesis using w assms(2) a [of t] by (auto simp: thread_step_def cond_futex_wait_def sleepers_ok_def split: if_splits)
  next
    case (Signal_Wake all)
    then show ?thesis
      using w assms(2) a [of t] asleep_at_place(2) [OF assms(1)]
      by (auto simp: thread_step_def g_cond_broadcast_def g_cond_signal_def sleepers_ok_def split: if_splits)
  qed (use w assms(2) a [of t] in
    \<open>auto simp: thread_step_def g_mutex_lock_def g_mutex_lock_slowpath_def g_mutex_trylock_def g_cond_wait_def cond_inc_def
      sleepers_ok_def Let_def split: if_splits\<close>)
qed

text \<open>Nobody who is about to wake or to try again leaves without doing it, or handing it on.\<close>

lemma sleepers_minded_step:
  assumes "locks_inv s" "thread_step t chosen s = Some s'"
  shows "sleepers_minded s'"
proof -
  have w: "sleepers_minded s" "word_ok s" "sleepers_ok s" using assms(1) by (simp_all add: locks_inv_def)
  have other: "\<exists>u. sees_to_it (if u = t then p else place s u)"
    if "sees_to_it (place s v)" "\<not> sees_to_it (place s t)" for v p
    using that by (intro exI [of _ v]) auto
  note a = lock_place [OF assms(1)]
  show ?thesis
  proof (cases "place s t")
    case Lock_Cas
    then show ?thesis
      using w(1) assms(2) other by (auto simp: thread_step_def g_mutex_lock_def sleepers_minded_def split: if_splits)
  next
    case Lock_Exchange
    then show ?thesis using assms(2) by (auto simp: thread_step_def g_mutex_lock_slowpath_def sleepers_minded_def Let_def split: if_splits)
  next
    case Lock_Futex
    then show ?thesis
      using w(1) assms(2) other by (auto simp: thread_step_def mutex_futex_wait_def sleepers_minded_def split: if_splits)
  next
    case Try_Cas
    then show ?thesis
      using w(1) assms(2) other by (auto simp: thread_step_def g_mutex_trylock_def sleepers_minded_def split: if_splits)
  next
    case (Unlock_Exchange k)
    then have "t \<in> holders s" using a(1) [of t] by simp
    then have "mutex_word s \<noteq> G_MUTEX_STATE_EMPTY" using w(2) by (auto simp: word_ok_def)
    then show ?thesis
      using w(1) assms(2) Unlock_Exchange other
      by (auto simp: thread_step_def g_mutex_unlock_def sleepers_minded_def Let_def split: if_splits)
  next
    case (Unlock_Wake k)
    show ?thesis
    proof (cases "mutex_sleepers s = []")
      case False
      then have "chosen \<noteq> t" "s' = move t (after_unlock k) (move chosen Lock_Exchange (s\<lparr>mutex_sleepers := remove1 chosen (mutex_sleepers s)\<rparr>))"
        using assms(2) Unlock_Wake a(3) [of chosen] by (auto simp: thread_step_def g_mutex_unlock_slowpath_def split: if_splits)
      then show ?thesis by (auto simp: sleepers_minded_def intro: exI [of _ chosen])
    qed (use assms(2) Unlock_Wake in \<open>auto simp: thread_step_def g_mutex_unlock_slowpath_def sleepers_minded_def\<close>)
  next
    case Cond_Sample
    then show ?thesis using w(1) assms(2) other by (auto simp: thread_step_def g_cond_wait_def sleepers_minded_def split: if_splits)
  next
    case (Cond_Futex v)
    then show ?thesis using w(1) assms(2) other by (auto simp: thread_step_def cond_futex_wait_def sleepers_minded_def split: if_splits)
  next
    case (Signal_Inc all)
    then show ?thesis using w(1) assms(2) other by (auto simp: thread_step_def cond_inc_def sleepers_minded_def split: if_splits)
  next
    case (Signal_Wake all)
    have awake: "v \<noteq> t \<and> v \<notin> set (cond_sleepers s)" if "sees_to_it (place s v)" for v
      using that a(4) [of v] Signal_Wake by (cases "place s v") auto
    show ?thesis
      using w(1) assms(2) Signal_Wake awake
      by (fastforce simp: thread_step_def g_cond_broadcast_def g_cond_signal_def sleepers_minded_def split: if_splits)
  qed (use assms(2) in \<open>simp_all add: thread_step_def\<close>)
qed

lemma samples_ok_move:
  "samples_ok s \<Longrightarrow> sampled_word p = None \<or> sampled_word p = sampled_word (place s t) \<Longrightarrow> samples_ok (move t p s)"
  by (auto simp: samples_ok_def)

lemma samples_ok_fields [simp]:
  "samples_ok (s\<lparr>mutex_sleepers := q\<rparr>) = samples_ok s" "samples_ok (s\<lparr>cond_sleepers := q\<rparr>) = samples_ok s"
  "samples_ok (s\<lparr>mutex_word := x\<rparr>) = samples_ok s" "samples_ok (s\<lparr>holders := h\<rparr>) = samples_ok s"
  by (simp_all add: samples_ok_def)

lemma samples_ok_fold_move: "samples_ok s \<Longrightarrow> samples_ok (fold (\<lambda>u. move u Lock_Cas) us s)"
  by (induction us arbitrary: s) (simp_all add: samples_ok_move)

lemma samples_ok_step:
  assumes "locks_inv s" "thread_step t chosen s = Some s'"
  shows "samples_ok s'"
proof -
  have w: "samples_ok s" using assms(1) by (simp add: locks_inv_def)
  show ?thesis
  proof (cases "place s t")
    case (Unlock_Wake k)
    then have "g_mutex_unlock_slowpath t k chosen s = Some s'" "chosen \<in> set (mutex_sleepers s) \<longrightarrow> chosen \<noteq> t"
      using assms(2) lock_place(3) [OF assms(1), of chosen] by (auto simp: thread_step_def)
    then show ?thesis
      using w Unlock_Wake by (auto simp: g_mutex_unlock_slowpath_def intro!: samples_ok_move split: if_splits)
  next
    case Cond_Sample
    then have "s' = g_cond_wait t s" using assms(2) by (simp add: thread_step_def)
    then show ?thesis using w by (auto simp: samples_ok_def g_cond_wait_def)
  next
    case (Signal_Inc all)
    then have "s' = cond_inc t all s" using assms(2) by (simp add: thread_step_def)
    then show ?thesis using w by (auto simp: samples_ok_def cond_inc_def le_SucI)
  next
    case (Signal_Wake all)
    then show ?thesis
      using w assms(2) samples_ok_fold_move [OF w]
      by (auto simp: thread_step_def g_cond_broadcast_def g_cond_signal_def intro!: samples_ok_move split: if_splits)
  qed (use w assms(2) in \<open>auto simp: thread_step_def g_mutex_lock_def g_mutex_lock_slowpath_def mutex_futex_wait_def
      g_mutex_trylock_def g_mutex_unlock_def cond_futex_wait_def acquired_def Let_def intro!: samples_ok_move split: if_splits\<close>)
qed

lemma interrupt_inv:
  assumes "locks_inv s" "interrupt t s = Some s'"
  shows "locks_inv s'"
proof -
  have w: "word_ok s" "sleepers_ok s" "sleepers_minded s" "samples_ok s" using assms(1) by (simp_all add: locks_inv_def)
  note a = lock_place [OF assms(1), of t]
  consider "place s t = Lock_Asleep" "s' = move t Lock_Exchange (s\<lparr>mutex_sleepers := remove1 t (mutex_sleepers s)\<rparr>)"
    | v where "place s t = Cond_Asleep v" "s' = move t Lock_Cas (s\<lparr>cond_sleepers := remove1 t (cond_sleepers s)\<rparr>)"
    using assms(2) by (auto simp: interrupt_def split: lock_pc.splits)
  then show ?thesis
  proof cases
    case 1
    have "word_ok s'" "samples_ok s'" using 1 w a(2) by (auto intro!: word_ok_move samples_ok_move)
    moreover have "sleepers_ok s'" using 1 w(2) a(3,4) by (auto simp: sleepers_ok_def)
    moreover have "sleepers_minded s'" unfolding sleepers_minded_def using 1 by (auto intro: exI [of _ t])
    ultimately show ?thesis by (simp add: locks_inv_def)
  next
    case 2
    have "word_ok s'" "samples_ok s'" using 2 w a(2) by (auto intro!: word_ok_move samples_ok_move)
    moreover have "sleepers_ok s'" using 2 w(2) a(3,4) by (auto simp: sleepers_ok_def)
    moreover have "u \<noteq> t" if "sees_to_it (place s u)" for u using that 2(1) by auto
    then have "sleepers_minded s'" using 2 w(3) by (auto simp: sleepers_minded_def)
    ultimately show ?thesis by (simp add: locks_inv_def)
  qed
qed

lemma thread_step_inv: "locks_inv s \<Longrightarrow> thread_step t chosen s = Some s' \<Longrightarrow> locks_inv s'"
  by (simp add: locks_inv_def [of s'] word_ok_step sleepers_ok_step sleepers_minded_step samples_ok_step)

lemma lock_step_inv: "locks_inv s \<Longrightarrow> lock_step may s s' \<Longrightarrow> locks_inv s'"
  using begin_call_inv interrupt_inv thread_step_inv unfolding lock_step_iff by blast

lemma locks_inv_reachable: "locks_reachable may s \<Longrightarrow> locks_inv s"
  by (induction rule: locks_reachable.induct) (auto simp: locks_inv_init intro: lock_step_inv)

text \<open>
  C14. The mutex excludes: however many threads lock, try, unlock, wait and signal in whatever order, at most one of
  them has the mutex; its word is empty exactly if nobody has it, a thread inside an acquisition or asleep
  never has it, and no release ever finds the mutex unlocked and aborts.
\<close>

theorem mutex_excludes:
  "locks_reachable may s \<Longrightarrow>
   (t \<in> holders s \<and> u \<in> holders s \<longrightarrow> t = u) \<and> (mutex_word s = G_MUTEX_STATE_EMPTY \<longleftrightarrow> holders s = {}) \<and>
   (locked_out (place s t) \<longrightarrow> t \<notin> holders s) \<and> place s t \<noteq> Aborted"
  using locks_inv_reachable [of may s] by (auto simp: locks_inv_def word_ok_def split: if_splits)

text \<open>Running a schedule: a thread begins a call, goes on (with the sleeper it wakes), or is interrupted.\<close>

datatype lock_move = Begins nat lock_call | Goes nat nat | Wakes nat

fun lock_schedule :: "lock_move list \<Rightarrow> locks \<Rightarrow> locks option" where
  "lock_schedule [] s = Some s"
| "lock_schedule (Begins t c # ms) s = (case begin_call t c s of None \<Rightarrow> None | Some s' \<Rightarrow> lock_schedule ms s')"
| "lock_schedule (Goes t chosen # ms) s = (case thread_step t chosen s of None \<Rightarrow> None | Some s' \<Rightarrow> lock_schedule ms s')"
| "lock_schedule (Wakes t # ms) s = (case interrupt t s of None \<Rightarrow> None | Some s' \<Rightarrow> lock_schedule ms s')"

definition permits :: "(nat \<Rightarrow> lock_call \<Rightarrow> bool) \<Rightarrow> lock_move \<Rightarrow> bool" where
  "permits may m \<longleftrightarrow> (case m of Begins t c \<Rightarrow> may t c | _ \<Rightarrow> True)"

lemma lock_schedule_reachable:
  "locks_reachable may s \<Longrightarrow> \<forall>m \<in> set ms. permits may m \<Longrightarrow> lock_schedule ms s = Some s' \<Longrightarrow> locks_reachable may s'"
  by (induction ms s rule: lock_schedule.induct)
    (auto simp: permits_def split: option.splits intro: locks_next step_begin step_thread step_interrupt)

text \<open>Two threads meet on the mutex: the second sleeps, is woken by the release of the first, and then has it.\<close>

definition meeting :: "lock_move list" where
  "meeting = [Begins 1 Call_Lock, Goes 1 0, Begins 2 Call_Lock, Goes 2 0, Goes 2 0, Goes 2 0,
     Begins 1 Call_Unlock, Goes 1 0, Goes 1 2, Goes 2 0]"

lemma meeting_runs:
  "\<exists>s. lock_schedule (take 6 meeting) locks_init = Some s \<and> holders s = {1} \<and> place s 2 = Lock_Asleep"
  "\<exists>s. lock_schedule meeting locks_init = Some s \<and> holders s = {2} \<and> mutex_word s = G_MUTEX_STATE_CONTENDED"
  by (simp_all add: meeting_def begin_call_def thread_step_def locks_init_def g_mutex_lock_def g_mutex_lock_slowpath_def
      mutex_futex_wait_def g_mutex_unlock_def g_mutex_unlock_slowpath_def after_unlock_def Let_def)

lemma mutex_excludes_witness:
  "\<exists>s. lock_schedule meeting locks_init = Some s \<and> 2 \<in> holders s \<and> 1 \<notin> holders s"
proof -
  obtain s where s: "lock_schedule meeting locks_init = Some s" "holders s = {2}" using meeting_runs(2) by blast
  have "locks_reachable (\<lambda>t c. True) s"
    by (rule lock_schedule_reachable [OF locks_start _ s(1)]) (auto simp: permits_def split: lock_move.split)
  from mutex_excludes [OF this, of 1 2] s show ?thesis by auto
qed

subsection \<open>The monitor\<close>

record monitor =
  holder :: "nat option"
  waiting :: "nat set"

text \<open>
  A thread acquires a lock nobody has, gives it back, or gives it back and waits, all at once; a notification ends
  the waiting of all, and threads may stop waiting for no reason.
\<close>

inductive monitor_step :: "monitor \<Rightarrow> monitor \<Rightarrow> bool" where
  monitor_acquire: "holder m = None \<Longrightarrow> t \<notin> waiting m \<Longrightarrow> monitor_step m (m\<lparr>holder := Some t\<rparr>)"
| monitor_release: "holder m = Some t \<Longrightarrow> monitor_step m (m\<lparr>holder := None\<rparr>)"
| monitor_wait: "holder m = Some t \<Longrightarrow> monitor_step m (m\<lparr>holder := None, waiting := insert t (waiting m)\<rparr>)"
| monitor_notify: "monitor_step m (m\<lparr>waiting := {}\<rparr>)"
| monitor_stir: "monitor_step m (m\<lparr>waiting := waiting m - us\<rparr>)"

text \<open>
  What the state of the mutex and the condition variable stands for: a thread waits from its release until it has left
  the futex or a signal has been counted since it sampled the word.
\<close>

definition released :: "lock_pc \<Rightarrow> bool" where
  "released p \<longleftrightarrow> (case p of Unlock_Wake k \<Rightarrow> k \<noteq> None | Cond_Futex _ \<Rightarrow> True | Cond_Asleep _ \<Rightarrow> True | _ \<Rightarrow> False)"

lemma released_kinds [simp]:
  "\<not> released Outside" "\<not> released Lock_Cas" "\<not> released Lock_Exchange" "\<not> released Lock_Futex" "\<not> released Lock_Asleep"
  "\<not> released Try_Cas" "\<not> released (Unlock_Exchange k)" "released (Unlock_Wake k) \<longleftrightarrow> k \<noteq> None" "\<not> released Cond_Sample"
  "released (Cond_Futex v)" "released (Cond_Asleep v)" "\<not> released (Signal_Inc a)" "\<not> released (Signal_Wake a)" "\<not> released Aborted"
  "released (after_unlock k) \<longleftrightarrow> k \<noteq> None"
  by (simp_all add: released_def after_unlock_def split: option.split)

lemma released_if [simp]: "released (if b then p else q) = (if b then released p else released q)"
  by simp

definition monitor_of :: "locks \<Rightarrow> monitor" where
  "monitor_of s = \<lparr>holder = (if holders s = {} then None else Some (the_elem (holders s))),
     waiting = {t. released (place s t) \<and> since s t = signal_count s}\<rparr>"

lemma monitor_same:
  "holders s' = holders s \<Longrightarrow> (\<And>t. released (place s' t) \<and> since s' t = signal_count s' \<longleftrightarrow> released (place s t) \<and> since s t = signal_count s) \<Longrightarrow>
    monitor_of s' = monitor_of s"
  by (simp add: monitor_of_def)

lemma monitor_acquired:
  assumes "holders s = {}" "holders s' = {t}" "\<not> released (place s t)"
    "\<And>u. released (place s' u) \<and> since s' u = signal_count s' \<longleftrightarrow> released (place s u) \<and> since s u = signal_count s"
  shows "monitor_step (monitor_of s) (monitor_of s')"
proof -
  have "monitor_of s' = (monitor_of s)\<lparr>holder := Some t\<rparr>" using assms by (simp add: monitor_of_def)
  then show ?thesis using monitor_acquire [of "monitor_of s" t] assms(1,3) by (simp add: monitor_of_def)
qed

lemma monitor_released:
  assumes "holders s = {t}" "holders s' = {}" "\<not> released (place s t)" "since s' = since s" "signal_count s' = signal_count s"
    "\<And>u. u \<noteq> t \<Longrightarrow> released (place s' u) \<longleftrightarrow> released (place s u)"
  shows "monitor_step (monitor_of s) (monitor_of s')"
proof (cases "released (place s' t) \<and> since s t = signal_count s")
  case True
  have "waiting (monitor_of s') = insert t (waiting (monitor_of s))"
    using True assms(3-5) assms(6) by (force simp: monitor_of_def)
  then have "monitor_of s' = (monitor_of s)\<lparr>holder := None, waiting := insert t (waiting (monitor_of s))\<rparr>"
    using assms(2) by (simp add: monitor_of_def)
  then show ?thesis using monitor_wait [of "monitor_of s" t] assms(1) by (simp add: monitor_of_def)
next
  case False
  have "waiting (monitor_of s') = waiting (monitor_of s)"
    using False assms(3-6) unfolding monitor_of_def by simp (metis (lifting))
  then have "monitor_of s' = (monitor_of s)\<lparr>holder := None\<rparr>" using assms(2) by (simp add: monitor_of_def)
  then show ?thesis using monitor_release [of "monitor_of s" t] assms(1) by (simp add: monitor_of_def)
qed

lemma monitor_stirred:
  assumes "holders s' = holders s" "since s' = since s" "signal_count s' = signal_count s"
    "\<And>u. released (place s' u) \<Longrightarrow> released (place s u)"
  shows "monitor_step (monitor_of s) (monitor_of s')"
proof -
  have "monitor_of s' = (monitor_of s)\<lparr>waiting := waiting (monitor_of s) - {u. \<not> released (place s' u)}\<rparr>"
    using assms by (auto simp: monitor_of_def)
  then show ?thesis by (metis monitor_stir)
qed

lemma monitor_notified:
  assumes "samples_ok s" "\<And>t. released (place s t) \<Longrightarrow> sampled_word (place s t) \<noteq> None"
  shows "monitor_of (cond_inc u all s) = (monitor_of s)\<lparr>waiting := {}\<rparr>"
  using assms by (fastforce simp: monitor_of_def cond_inc_def samples_ok_def)

lemma released_sampled: "released p \<Longrightarrow> sampled_word p \<noteq> None"
  by (cases p) simp_all

lemma begin_call_monitor: "begin_call t c s = Some s' \<Longrightarrow> monitor_of s' = monitor_of s"
  by (cases c) (auto simp: begin_call_def intro!: monitor_same split: if_splits)

lemma interrupt_monitor: "interrupt t s = Some s' \<Longrightarrow> monitor_step (monitor_of s) (monitor_of s')"
  by (auto simp: interrupt_def intro!: monitor_stirred split: lock_pc.splits if_splits)

lemma thread_step_monitor:
  assumes "locks_inv s" "thread_step t chosen s = Some s'"
  shows "monitor_of s' = monitor_of s \<or> monitor_step (monitor_of s) (monitor_of s')"
proof -
  have w: "word_ok s" "samples_ok s" using assms(1) by (simp_all add: locks_inv_def)
  note a = lock_place [OF assms(1)]
  show ?thesis
  proof (cases "place s t")
    case Lock_Cas
    then have s': "s' = g_mutex_lock t s" using assms(2) by (simp add: thread_step_def)
    show ?thesis
    proof (cases "mutex_word s = G_MUTEX_STATE_EMPTY")
      case True
      then have "monitor_step (monitor_of s) (monitor_of s')"
        using w(1) Lock_Cas by (intro monitor_acquired [where t = t]) (auto simp: s' g_mutex_lock_def word_ok_def)
      then show ?thesis by blast
    next
      case False
      then have "monitor_of s' = monitor_of s"
        using Lock_Cas by (intro monitor_same) (auto simp: s' g_mutex_lock_def)
      then show ?thesis by blast
    qed
  next
    case Lock_Exchange
    then have s': "s' = g_mutex_lock_slowpath t s" using assms(2) by (simp add: thread_step_def)
    show ?thesis
    proof (cases "mutex_word s = G_MUTEX_STATE_EMPTY")
      case True
      then have "monitor_step (monitor_of s) (monitor_of s')"
        using w(1) Lock_Exchange
        by (intro monitor_acquired [where t = t]) (auto simp: s' g_mutex_lock_slowpath_def word_ok_def Let_def)
      then show ?thesis by blast
    next
      case False
      then have "monitor_of s' = monitor_of s"
        using Lock_Exchange by (intro monitor_same) (auto simp: s' g_mutex_lock_slowpath_def Let_def)
      then show ?thesis by blast
    qed
  next
    case Lock_Futex
    then have "s' = mutex_futex_wait t s" using assms(2) by (simp add: thread_step_def)
    then show ?thesis using Lock_Futex by (auto simp: mutex_futex_wait_def intro!: monitor_same split: if_splits)
  next
    case Try_Cas
    then have s': "s' = g_mutex_trylock t s" using assms(2) by (simp add: thread_step_def)
    show ?thesis
    proof (cases "mutex_word s = G_MUTEX_STATE_EMPTY")
      case True
      then have "monitor_step (monitor_of s) (monitor_of s')"
        using w(1) Try_Cas by (intro monitor_acquired [where t = t]) (auto simp: s' g_mutex_trylock_def word_ok_def)
      then show ?thesis by blast
    next
      case False
      then have "monitor_of s' = monitor_of s"
        using Try_Cas by (intro monitor_same) (auto simp: s' g_mutex_trylock_def)
      then show ?thesis by blast
    qed
  next
    case (Unlock_Exchange k)
    then have s': "s' = g_mutex_unlock t k s" using assms(2) by (simp add: thread_step_def)
    have "t \<in> holders s" using a(1) Unlock_Exchange by simp
    with w(1) have "holders s = {t}" by (auto simp: word_ok_def split: if_splits)
    then have "monitor_step (monitor_of s) (monitor_of s')"
      using Unlock_Exchange by (intro monitor_released) (auto simp: s' g_mutex_unlock_def Let_def)
    then show ?thesis by blast
  next
    case (Unlock_Wake k)
    then have "g_mutex_unlock_slowpath t k chosen s = Some s'" "chosen \<in> set (mutex_sleepers s) \<longrightarrow> place s chosen = Lock_Asleep"
      using assms(2) a(3) [of chosen] by (auto simp: thread_step_def)
    then show ?thesis using Unlock_Wake by (auto simp: g_mutex_unlock_slowpath_def intro!: monitor_same split: if_splits)
  next
    case Cond_Sample
    then have "s' = g_cond_wait t s" using assms(2) by (simp add: thread_step_def)
    then show ?thesis using Cond_Sample by (auto simp: g_cond_wait_def intro!: monitor_same split: if_splits)
  next
    case (Cond_Futex v)
    then have s': "s' = cond_futex_wait t v s" using assms(2) by (simp add: thread_step_def)
    have f: "v = of_nat (since s t)" "cond_word s = of_nat (signal_count s)" using w(2) Cond_Futex by (simp_all add: samples_ok_def)
    have "monitor_of s' = monitor_of s"
    proof (cases "cond_word s = v")
      case True
      then show ?thesis using Cond_Futex by (intro monitor_same) (simp_all add: s' cond_futex_wait_def)
    next
      case False
      then have "since s t \<noteq> signal_count s" using f by metis
      with False show ?thesis using Cond_Futex by (intro monitor_same) (auto simp: s' cond_futex_wait_def split: if_splits)
    qed
    then show ?thesis by blast
  next
    case (Signal_Inc all)
    then have "s' = cond_inc t all s" using assms(2) by (simp add: thread_step_def)
    then have "monitor_of s' = (monitor_of s)\<lparr>waiting := {}\<rparr>" using monitor_notified [OF w(2) released_sampled] by simp
    then show ?thesis using monitor_notify [of "monitor_of s"] by simp
  next
    case (Signal_Wake all)
    have "monitor_step (monitor_of s) (monitor_of s')"
    proof (cases all)
      case True
      then have s': "s' = g_cond_broadcast t s" using Signal_Wake assms(2) by (simp add: thread_step_def)
      show ?thesis by (rule monitor_stirred) (auto simp: s' g_cond_broadcast_def split: if_splits)
    next
      case False
      then have "g_cond_signal t chosen s = Some s'" using Signal_Wake assms(2) by (simp add: thread_step_def)
      then show ?thesis by (intro monitor_stirred) (auto simp: g_cond_signal_def split: if_splits)
    qed
    then show ?thesis by blast
  qed (use assms(2) in \<open>simp_all add: thread_step_def\<close>)
qed

lemma lock_step_monitor: "locks_inv s \<Longrightarrow> lock_step may s s' \<Longrightarrow> monitor_step\<^sup>*\<^sup>* (monitor_of s) (monitor_of s')"
proof -
  assume i: "locks_inv s" and "lock_step may s s'"
  then consider t c where "begin_call t c s = Some s'" | t chosen where "thread_step t chosen s = Some s'"
    | t where "interrupt t s = Some s'"
    unfolding lock_step_iff by blast
  then have "monitor_of s' = monitor_of s \<or> monitor_step (monitor_of s) (monitor_of s')"
    using begin_call_monitor thread_step_monitor [OF i] interrupt_monitor by cases blast+
  then show ?thesis by (auto intro: r_into_rtranclp)
qed

text \<open>What has a lock and a waiting room behaves like a monitor.\<close>

locale monitor_user =
  fixes next_state :: "'s \<Rightarrow> 's \<Rightarrow> bool"
    and inv :: "'s \<Rightarrow> bool"
    and view :: "'s \<Rightarrow> monitor"
  assumes inv_next: "inv s \<Longrightarrow> next_state s s' \<Longrightarrow> inv s'"
    and view_next: "inv s \<Longrightarrow> next_state s s' \<Longrightarrow> monitor_step\<^sup>*\<^sup>* (view s) (view s')"
begin

lemma view_run: "next_state\<^sup>*\<^sup>* s s' \<Longrightarrow> inv s \<Longrightarrow> inv s' \<and> monitor_step\<^sup>*\<^sup>* (view s) (view s')"
  by (induction rule: rtranclp_induct) (auto intro: inv_next dest: view_next)

end

interpretation futex: monitor_user "lock_step may" locks_inv monitor_of for may
  by unfold_locales (rule lock_step_inv lock_step_monitor; assumption)+

text \<open>The same view of the two threads of the streaming engine.\<close>

definition thread_number :: "thread_id \<Rightarrow> nat" where
  "thread_number t = (case t of Feeder \<Rightarrow> 0 | Caller \<Rightarrow> 1)"

definition threads_monitor :: "threads \<Rightarrow> monitor" where
  "threads_monitor s = \<lparr>holder = map_option thread_number (queue_mutex s),
     waiting = (if fpc s = F_Waiting then {thread_number Feeder} else {})\<rparr>"

lemma threads_monitor_wake: "threads_monitor (wake s) = (threads_monitor s)\<lparr>waiting := {}\<rparr>"
  by (simp add: threads_monitor_def wake_def)

lemma threads_monitor_acquire:
  "queue_mutex s = None \<Longrightarrow> thread_number t \<notin> waiting (threads_monitor s) \<Longrightarrow>
   threads_monitor s' = (threads_monitor s)\<lparr>holder := Some (thread_number t)\<rparr> \<Longrightarrow>
   monitor_step\<^sup>*\<^sup>* (threads_monitor s) (threads_monitor s')"
proof -
  assume "queue_mutex s = None" "thread_number t \<notin> waiting (threads_monitor s)"
    and e: "threads_monitor s' = (threads_monitor s)\<lparr>holder := Some (thread_number t)\<rparr>"
  then have "monitor_step (threads_monitor s) (threads_monitor s')"
    unfolding e by (intro monitor_acquire) (simp_all add: threads_monitor_def)
  then show ?thesis by (rule r_into_rtranclp)
qed

lemma threads_monitor_release:
  "queue_mutex s = Some t \<Longrightarrow> threads_monitor s' = (threads_monitor s)\<lparr>holder := None\<rparr> \<Longrightarrow>
   monitor_step\<^sup>*\<^sup>* (threads_monitor s) (threads_monitor s')"
proof -
  assume "queue_mutex s = Some t" and e: "threads_monitor s' = (threads_monitor s)\<lparr>holder := None\<rparr>"
  then have "monitor_step (threads_monitor s) (threads_monitor s')"
    unfolding e by (intro monitor_release) (simp add: threads_monitor_def)
  then show ?thesis by (rule r_into_rtranclp)
qed

lemma threads_monitor_notify:
  "threads_monitor s' = (threads_monitor s)\<lparr>waiting := {}\<rparr> \<Longrightarrow> monitor_step\<^sup>*\<^sup>* (threads_monitor s) (threads_monitor s')"
  using monitor_notify [of "threads_monitor s"] by (simp add: r_into_rtranclp)

lemma feeder_step_monitor:
  assumes "threads_inv s" "feeder_step s = Some s'"
  shows "monitor_step\<^sup>*\<^sup>* (threads_monitor s) (threads_monitor s')"
proof (cases "fpc s")
  case F_Sleep
  then have "queue_mutex s = Some Feeder" "s' = s\<lparr>queue_mutex := None, fpc := F_Waiting\<rparr>"
    using assms by (simp_all add: threads_inv_def feeder_holds_def feeder_step_def)
  then show ?thesis
    using monitor_wait [of "threads_monitor s" "thread_number Feeder"] F_Sleep by (simp add: threads_monitor_def r_into_rtranclp)
next
  case F_Awake
  then have "queue_mutex s = Some Feeder" using assms(1) by (simp add: threads_inv_def feeder_holds_def)
  then show ?thesis
    by (rule threads_monitor_release)
      (use assms(2) F_Awake in \<open>auto simp: feeder_step_def threads_monitor_def split: if_splits list.splits\<close>)
qed (use assms(2) threads_monitor_acquire [of s Feeder s'] in
  \<open>auto simp: feeder_step_def threads_monitor_def touch_def split: if_splits\<close>)

lemma caller_step_monitor:
  assumes "threads_inv s" "caller_step s = Some s'"
  shows "monitor_step\<^sup>*\<^sup>* (threads_monitor s) (threads_monitor s')"
proof (cases "mpc s")
  case M_Idle
  then show ?thesis
    using assms(2) threads_monitor_acquire [of s Caller s']
    by (auto simp: caller_step_def threads_monitor_def thread_number_def split: if_splits list.splits engine_call.splits)
next
  case (M_Signal a)
  then show ?thesis
    using assms(2) threads_monitor_wake [of s] by (intro threads_monitor_notify) (auto simp: caller_step_def threads_monitor_def)
next
  case (M_Unlock a)
  then show ?thesis
    using assms by (intro threads_monitor_release [of s Caller]) (auto simp: caller_step_def threads_monitor_def threads_inv_def caller_holds_def)
next
  case M_Pause
  then show ?thesis
    using assms by (intro threads_monitor_release [of s Caller]) (auto simp: caller_step_def threads_monitor_def threads_inv_def caller_holds_def)
next
  case M_Resume
  have "monitor_step\<^sup>*\<^sup>* (threads_monitor s) (threads_monitor (wake s))" by (rule threads_monitor_notify) (rule threads_monitor_wake)
  also have "monitor_step\<^sup>*\<^sup>* (threads_monitor (wake s)) (threads_monitor s')"
    using assms M_Resume
    by (intro threads_monitor_release [of "wake s" Caller])
      (auto simp: caller_step_def threads_monitor_def threads_inv_def caller_holds_def)
  finally show ?thesis .
next
  case M_Stop_Wake
  then show ?thesis
    using assms(2) threads_monitor_wake [of s] by (intro threads_monitor_notify) (auto simp: caller_step_def threads_monitor_def)
qed (use assms(2) in \<open>auto simp: caller_step_def threads_monitor_def touch_def split: if_splits\<close>)

interpretation engine_threads: monitor_user step threads_inv threads_monitor
  by unfold_locales (auto simp: step_iff intro: threads_inv_feeder threads_inv_caller feeder_step_monitor caller_step_monitor)

lemma lock_schedule_steps:
  "\<forall>m \<in> set ms. permits may m \<Longrightarrow> lock_schedule ms s = Some s' \<Longrightarrow> (lock_step may)\<^sup>*\<^sup>* s s'"
  by (induction ms s rule: lock_schedule.induct)
    (auto simp: permits_def split: option.splits intro: converse_rtranclp_into_rtranclp step_begin step_thread step_interrupt)


text \<open>The feeder takes the mutex and waits for the condition.\<close>

definition waiting_alone :: "lock_move list" where
  "waiting_alone = [Begins 0 Call_Lock, Goes 0 0, Begins 0 Call_Wait, Goes 0 0, Goes 0 0, Goes 0 0]"

lemma waiting_alone_runs:
  "\<exists>s. lock_schedule waiting_alone locks_init = Some s \<and> place s 0 = Cond_Asleep 0 \<and> since s 0 = 0 \<and> signal_count s = 0 \<and>
     cond_word s = 0 \<and> mutex_word s = G_MUTEX_STATE_EMPTY \<and> (\<forall>t. t \<noteq> 0 \<longrightarrow> place s t = Outside)"
  by (simp add: waiting_alone_def begin_call_def thread_step_def locks_init_def g_mutex_lock_def cond_futex_wait_def
      g_cond_wait_def g_mutex_unlock_def after_unlock_def Let_def)


subsection \<open>No wakeup is lost\<close>

text \<open>What a place says about the calls a thread makes, and what a sleeper waits for.\<close>

definition in_wait :: "lock_pc \<Rightarrow> bool" where
  "in_wait p \<longleftrightarrow> p = Cond_Sample \<or> sampled_word p \<noteq> None"

definition in_signal :: "lock_pc \<Rightarrow> bool" where
  "in_signal p \<longleftrightarrow> p = Signal_Inc False \<or> p = Signal_Wake False"

definition calls_ok :: "(nat \<Rightarrow> lock_call \<Rightarrow> bool) \<Rightarrow> locks \<Rightarrow> bool" where
  "calls_ok may s \<longleftrightarrow> (\<forall>t. (in_wait (place s t) \<longrightarrow> may t Call_Wait) \<and> (in_signal (place s t) \<longrightarrow> may t Call_Signal))"

text \<open>A thread that sleeps on another value than the present one is about to be woken.\<close>

definition waiters_minded :: "locks \<Rightarrow> bool" where
  "waiters_minded s \<longleftrightarrow>
     (\<forall>t v. place s t = Cond_Asleep v \<longrightarrow> v = cond_word s \<or> (\<exists>u all. place s u = Signal_Wake all))"

text \<open>Either only one thread waits, or all signalling wakes all.\<close>

definition no_wakeup_taken :: "(nat \<Rightarrow> lock_call \<Rightarrow> bool) \<Rightarrow> bool" where
  "no_wakeup_taken may \<longleftrightarrow>
     (\<forall>t u. may t Call_Wait \<and> may u Call_Wait \<longrightarrow> t = u) \<or> (\<forall>t. \<not> may t Call_Signal)"

lemma in_kinds [simp]:
  "\<not> in_wait Outside" "\<not> in_wait Lock_Cas" "\<not> in_wait Lock_Exchange" "\<not> in_wait Lock_Futex" "\<not> in_wait Lock_Asleep"
  "\<not> in_wait Try_Cas" "in_wait (Unlock_Exchange k) \<longleftrightarrow> k \<noteq> None" "in_wait (Unlock_Wake k) \<longleftrightarrow> k \<noteq> None" "in_wait Cond_Sample"
  "in_wait (Cond_Futex v)" "in_wait (Cond_Asleep v)" "\<not> in_wait (Signal_Inc a)" "\<not> in_wait (Signal_Wake a)"
  "in_wait (after_unlock k) \<longleftrightarrow> k \<noteq> None" "\<not> in_wait Aborted" "\<not> in_signal Aborted"
  "\<not> in_signal Outside" "\<not> in_signal Lock_Cas" "\<not> in_signal Lock_Exchange" "\<not> in_signal Lock_Futex" "\<not> in_signal Lock_Asleep"
  "\<not> in_signal Try_Cas" "\<not> in_signal (Unlock_Exchange k)" "\<not> in_signal (Unlock_Wake k)" "\<not> in_signal Cond_Sample"
  "\<not> in_signal (Cond_Futex v)" "\<not> in_signal (Cond_Asleep v)" "in_signal (Signal_Inc a) \<longleftrightarrow> \<not> a" "in_signal (Signal_Wake a) \<longleftrightarrow> \<not> a"
  "\<not> in_signal (after_unlock k)"
  by (simp_all add: in_wait_def in_signal_def after_unlock_def split: option.split)

lemma calls_ok_fields [simp]:
  "calls_ok may (s\<lparr>mutex_sleepers := q\<rparr>) = calls_ok may s" "calls_ok may (s\<lparr>cond_sleepers := q\<rparr>) = calls_ok may s"
  "calls_ok may (s\<lparr>mutex_word := x\<rparr>) = calls_ok may s" "calls_ok may (s\<lparr>holders := h\<rparr>) = calls_ok may s"
  "calls_ok may (s\<lparr>cond_word := x\<rparr>) = calls_ok may s" "calls_ok may (s\<lparr>signal_count := n\<rparr>) = calls_ok may s"
  "calls_ok may (s\<lparr>since := f\<rparr>) = calls_ok may s"
  by (simp_all add: calls_ok_def)

lemma calls_ok_move:
  "calls_ok may s \<Longrightarrow> in_wait p \<longrightarrow> may t Call_Wait \<Longrightarrow> in_signal p \<longrightarrow> may t Call_Signal \<Longrightarrow> calls_ok may (move t p s)"
  by (simp add: calls_ok_def)

lemma calls_ok_begin: "calls_ok may s \<Longrightarrow> may t c \<Longrightarrow> begin_call t c s = Some s' \<Longrightarrow> calls_ok may s'"
  by (cases c) (auto simp: begin_call_def intro!: calls_ok_move split: if_splits)

lemma calls_ok_interrupt: "calls_ok may s \<Longrightarrow> interrupt t s = Some s' \<Longrightarrow> calls_ok may s'"
  by (auto simp: interrupt_def intro!: calls_ok_move split: lock_pc.splits)

lemma calls_ok_fold: "calls_ok may s \<Longrightarrow> calls_ok may (fold (\<lambda>u. move u Lock_Cas) us s)"
  by (induction us arbitrary: s) (simp_all add: calls_ok_move)

lemma calls_ok_thread:
  assumes "calls_ok may s" "thread_step t chosen s = Some s'"
  shows "calls_ok may s'"
proof -
  have "in_wait (place s t) \<longrightarrow> may t Call_Wait" "in_signal (place s t) \<longrightarrow> may t Call_Signal"
    using assms(1) by (simp_all add: calls_ok_def)
  then show ?thesis
    using assms
    by (cases "place s t")
      (auto simp: thread_step_def lock_ops acquired_def g_mutex_unlock_slowpath_def g_cond_signal_def
        intro!: calls_ok_move calls_ok_fold split: if_splits)
qed

lemma waiters_minded_kept:
  assumes "waiters_minded s" "cond_word s' = cond_word s"
    and "\<And>u v. place s' u = Cond_Asleep v \<Longrightarrow> place s u = Cond_Asleep v \<or> v = cond_word s"
    and "\<And>u all. place s u = Signal_Wake all \<Longrightarrow> place s' u = Signal_Wake all"
  shows "waiters_minded s'"
  using assms unfolding waiters_minded_def by metis

lemma waiters_minded_gone: "cond_sleepers s' = [] \<Longrightarrow> sleepers_ok s' \<Longrightarrow> waiters_minded s'"
  unfolding waiters_minded_def sleepers_ok_def by (metis empty_iff empty_set pc_kinds(53))

lemma sole_sleeper:
  assumes "locks_inv s" "calls_ok may s" "no_wakeup_taken may" "place s t = Signal_Wake False" "u \<in> set (cond_sleepers s)"
  shows "cond_sleepers s = [u]"
proof -
  have "may t Call_Signal" using assms(2,4) by (auto simp: calls_ok_def in_signal_def)
  then have one: "may a Call_Wait \<Longrightarrow> may b Call_Wait \<Longrightarrow> a = b" for a b using assms(3) by (auto simp: no_wakeup_taken_def)
  have asleep: "may a Call_Wait" if "a \<in> set (cond_sleepers s)" for a
  proof -
    from that obtain v where "place s a = Cond_Asleep v"
      using lock_place(4) [OF assms(1), of a] by (cases "place s a") auto
    then show ?thesis using assms(2) by (auto simp: calls_ok_def in_wait_def)
  qed
  have "distinct (cond_sleepers s)" using assms(1) by (simp add: locks_inv_def sleepers_ok_def)
  moreover have "set (cond_sleepers s) = {u}" using assms(5) one asleep by blast
  ultimately show ?thesis
    by (cases "cond_sleepers s") (simp, metis distinct.simps(2) insertCI list.set(2) neq_Nil_conv singletonD)
qed

lemma waiters_minded_thread:
  assumes "locks_inv s" "calls_ok may s" "no_wakeup_taken may" "waiters_minded s" "thread_step t chosen s = Some s'"
  shows "waiters_minded s'"
proof -
  note i' = thread_step_inv [OF assms(1,5)]
  have ok': "sleepers_ok s'" using i' by (simp add: locks_inv_def)
  show ?thesis
  proof (cases "place s t")
    case (Signal_Inc all)
    then have "place s' t = Signal_Wake all" using assms(5) by (auto simp: thread_step_def cond_inc_def)
    then show ?thesis by (auto simp: waiters_minded_def)
  next
    case (Signal_Wake all)
    have "cond_sleepers s' = []"
    proof (cases "all \<or> cond_sleepers s = []")
      case True
      then show ?thesis
        using assms(5) Signal_Wake by (auto simp: thread_step_def g_cond_broadcast_def g_cond_signal_def split: if_splits)
    next
      case False
      then have "chosen \<in> set (cond_sleepers s)" and c: "cond_sleepers s' = remove1 chosen (cond_sleepers s)"
        using assms(5) Signal_Wake by (auto simp: thread_step_def g_cond_signal_def split: if_splits)
      moreover have "place s t = Signal_Wake False" using False Signal_Wake by simp
      ultimately show ?thesis using sole_sleeper [OF assms(1-3)] by fastforce
    qed
    then show ?thesis using waiters_minded_gone ok' by blast
  next
    case (Unlock_Wake k)
    then have "g_mutex_unlock_slowpath t k chosen s = Some s'" "chosen \<in> set (mutex_sleepers s) \<longrightarrow> place s chosen = Lock_Asleep"
      using assms(5) lock_place(3) [OF assms(1), of chosen] by (auto simp: thread_step_def)
    then show ?thesis
      using Unlock_Wake by (intro waiters_minded_kept [OF assms(4)])
        (auto simp: g_mutex_unlock_slowpath_def after_unlock_def split: if_splits option.splits)
  qed (use assms(5) in \<open>auto simp: thread_step_def lock_ops after_unlock_def intro!: waiters_minded_kept [OF assms(4)]
      split: if_splits option.splits\<close>)
qed

lemma waiters_minded_begin:
  assumes "waiters_minded s" "begin_call t c s = Some s'"
  shows "waiters_minded s'"
  using assms(2) by (cases c) (auto simp: begin_call_def intro!: waiters_minded_kept [OF assms(1)] split: if_splits)

lemma waiters_minded_interrupt:
  assumes "waiters_minded s" "interrupt t s = Some s'"
  shows "waiters_minded s'"
  using assms(2) by (auto simp: interrupt_def intro!: waiters_minded_kept [OF assms(1)] split: lock_pc.splits if_splits)

lemma minded_reachable:
  assumes "no_wakeup_taken may"
  shows "locks_reachable may s \<Longrightarrow> calls_ok may s \<and> waiters_minded s"
proof (induction rule: locks_reachable.induct)
  case locks_start
  show ?case by (simp add: calls_ok_def waiters_minded_def locks_init_def)
next
  case (locks_next s s')
  note i = locks_inv_reachable [OF locks_next.hyps(1)]
  from locks_next.hyps(2) consider t c where "may t c" "begin_call t c s = Some s'"
    | t chosen where "thread_step t chosen s = Some s'" | t where "interrupt t s = Some s'"
    unfolding lock_step_iff by blast
  then show ?case
  proof cases
    case 1
    then show ?thesis using locks_next.IH calls_ok_begin waiters_minded_begin by blast
  next
    case 2
    then show ?thesis using locks_next.IH calls_ok_thread waiters_minded_thread [OF i _ assms] by blast
  next
    case 3
    then show ?thesis using locks_next.IH calls_ok_interrupt waiters_minded_interrupt by blast
  qed
qed

text \<open>A thread that cannot go on is outside, or asleep.\<close>

lemma stuck_place:
  assumes "locks_inv s" "\<And>chosen. thread_step t chosen s = None"
  shows "place s t = Outside \<or> place s t = Lock_Asleep \<or> (\<exists>v. place s t = Cond_Asleep v)"
proof -
  have "place s t \<noteq> Aborted" using assms(1) by (simp add: locks_inv_def word_ok_def)
  moreover have "place s t \<noteq> Unlock_Wake k" for k
    using assms(2) [of "hd (mutex_sleepers s)"] by (auto simp: thread_step_def g_mutex_unlock_slowpath_def split: if_splits)
  moreover have "place s t \<noteq> Signal_Wake all" for all
    using assms(2) [of "hd (cond_sleepers s)"] by (auto simp: thread_step_def g_cond_signal_def split: if_splits)
  ultimately show ?thesis using assms(2) by (cases "place s t") (auto simp: thread_step_def)
qed

text \<open>
  C16. No wakeup is lost: where only one thread waits for the condition, or only broadcasts are used, a state in which no
  thread can go on by itself is one in which (a) a thread sleeps on the mutex only while another has it and is
  outside of every call, in the program's own code, and (b) a thread sleeps on the condition only if its word is still
  the one the thread sampled, so that in the monitor it is waiting, no signal having been counted since it sampled the word
  (unless a multiple of 2^32 of them have).
\<close>

theorem no_lost_wakeup:
  assumes "no_wakeup_taken may" "locks_reachable may s" "\<forall>t chosen. thread_step t chosen s = None"
  shows "(place s t = Lock_Asleep \<longrightarrow> (\<exists>u. holders s = {u} \<and> place s u = Outside)) \<and>
    (place s t = Cond_Asleep v \<longrightarrow> v = cond_word s \<and>
       (signal_count s - since s t < 2 ^ 32 \<longrightarrow> t \<in> waiting (monitor_of s)))"
proof (intro conjI impI)
  note i = locks_inv_reachable [OF assms(2)]
  have outside: "place s u = Outside \<or> place s u = Lock_Asleep \<or> (\<exists>v. place s u = Cond_Asleep v)" for u
    using stuck_place [OF i] assms(3) by blast
  { assume "place s t = Lock_Asleep"
    then have "mutex_sleepers s \<noteq> []" using lock_place(3) [OF i, of t] by auto
    moreover have "\<not> sees_to_it (place s u)" for u using outside [of u] by auto
    ultimately have "mutex_word s = G_MUTEX_STATE_CONTENDED" using i by (simp add: locks_inv_def sleepers_minded_def)
    then obtain u where u: "holders s = {u}" using i by (auto simp: locks_inv_def word_ok_def)
    then have "place s u = Outside" using lock_place(2) [OF i, of u] outside [of u] by auto
    with u show "\<exists>u. holders s = {u} \<and> place s u = Outside" by blast }
  assume p: "place s t = Cond_Asleep v"
  have "waiters_minded s" using minded_reachable assms(1,2) by blast
  moreover have "place s u \<noteq> Signal_Wake all" for u all using outside [of u] by auto
  ultimately show e: "v = cond_word s" using p by (auto simp: waiters_minded_def)
  assume few: "signal_count s - since s t < 2 ^ 32"
  have f: "v = of_nat (since s t)" "since s t \<le> signal_count s" "cond_word s = of_nat (signal_count s)"
    using i p by (auto simp: locks_inv_def samples_ok_def)
  then have "(of_nat (signal_count s - since s t) :: 32 word) = 0" using e by (simp add: of_nat_diff)
  then have "2 ^ 32 dvd signal_count s - since s t" by (simp only: word_of_nat_eq_0_iff) simp
  then have "signal_count s - since s t = 0" using few by (metis nat_dvd_not_less neq0_conv)
  then have "since s t = signal_count s" using f(2) by simp
  then show "t \<in> waiting (monitor_of s)" using p by (simp add: monitor_of_def)
qed

text \<open>The streaming engine's case: one thread, the feeder, waits.\<close>

definition engine_calls :: "nat \<Rightarrow> lock_call \<Rightarrow> bool" where
  "engine_calls t c \<longleftrightarrow> (c = Call_Wait \<longrightarrow> t = thread_number Feeder)"

lemma no_lost_wakeup_witness:
  "\<exists>s. lock_schedule waiting_alone locks_init = Some s \<and> place s 0 = Cond_Asleep (cond_word s) \<and> 0 \<in> waiting (monitor_of s)"
proof -
  obtain s where s: "lock_schedule waiting_alone locks_init = Some s" "place s 0 = Cond_Asleep 0" "signal_count s = 0"
    "\<forall>t. t \<noteq> 0 \<longrightarrow> place s t = Outside"
    using waiting_alone_runs by auto
  have r: "locks_reachable engine_calls s"
    by (rule lock_schedule_reachable [OF locks_start _ s(1)])
      (simp add: waiting_alone_def permits_def engine_calls_def thread_number_def)
  have n: "no_wakeup_taken engine_calls" by (simp add: no_wakeup_taken_def engine_calls_def)
  have "thread_step t chosen s = None" for t chosen using s(2,4) by (cases "t = 0") (simp_all add: thread_step_def)
  then have "\<forall>t chosen. thread_step t chosen s = None" by blast
  from no_lost_wakeup [OF n r this, of 0 0] s(2,3) have "0 = cond_word s" "0 \<in> waiting (monitor_of s)" by auto
  then show ?thesis using s(1,2) by metis
qed

text \<open>
  With two waiters a signal may be taken by one who began to wait after it was counted: the first waiter then sleeps on
  an old value, and nobody will wake it.
\<close>

definition taken_wakeup :: "lock_move list" where
  "taken_wakeup = waiting_alone @ [Begins 2 Call_Signal, Goes 2 0, Begins 1 Call_Lock, Goes 1 0, Begins 1 Call_Wait, Goes 1 0,
     Goes 1 0, Goes 1 0, Goes 2 1, Goes 1 0, Begins 1 Call_Unlock, Goes 1 0]"

lemma wakeup_taken:
  "\<exists>s. lock_schedule taken_wakeup locks_init = Some s \<and> place s 0 = Cond_Asleep 0 \<and> cond_word s = 1 \<and>
     place s 1 = Outside \<and> place s 2 = Outside \<and> holders s = {} \<and> 0 \<notin> waiting (monitor_of s)"
  by (simp add: taken_wakeup_def waiting_alone_def begin_call_def thread_step_def locks_init_def lock_ops g_cond_signal_def
      after_unlock_def monitor_of_def)

end
