(* ===== verification/Audio_Locks.thy ===== *)
theory Audio_Locks
  imports Audio_Controller Glib_Mutex
begin

text \<open>
  The functions of \<^verbatim>\<open>tts-audio-controller.c\<close> with their mutex: what each of them does between locking and unlocking, what
  it does without the lock, and when it unlocks on which return. \<open>Audio_Controller\<close> has them as single steps; here any number
  of threads call them at the same time. The functions that free the controller and those of the engine are not among them: the
  calls of the streaming engine are single steps of their own, which \<open>Feeder_Linear\<close> is about.
\<close>

subsection \<open>Programs\<close>

text \<open>
  A step without a call of the mutex changes the state and chooses what comes next, both by the state it finds.
\<close>

datatype 'r prog =
    Return 'r
  | Acquire "'r prog"
  | Release "'r prog"
  | Wait "'r prog"  \<comment> \<open>\<^verbatim>\<open>g_cond_wait\<close>\<close>
  | Broadcast "'r prog"
  | Call_Back tts_audio_state tts_audio_state "'r prog"
  | Step "audio \<Rightarrow> audio" "audio \<Rightarrow> 'r prog"

abbreviation Do :: "(audio \<Rightarrow> audio) \<Rightarrow> 'r prog \<Rightarrow> 'r prog" where
  "Do f p \<equiv> Step f (\<lambda>s. p)"

abbreviation Ask :: "(audio \<Rightarrow> 'r prog) \<Rightarrow> 'r prog" where
  "Ask k \<equiv> Step (\<lambda>s. s) k"

primrec bind_prog :: "'a prog \<Rightarrow> ('a \<Rightarrow> 'b prog) \<Rightarrow> 'b prog" where
  "bind_prog (Return r) g = g r"
| "bind_prog (Acquire p) g = Acquire (bind_prog p g)"
| "bind_prog (Release p) g = Release (bind_prog p g)"
| "bind_prog (Wait p) g = Wait (bind_prog p g)"
| "bind_prog (Broadcast p) g = Broadcast (bind_prog p g)"
| "bind_prog (Call_Back old_state new_state p) g = Call_Back old_state new_state (bind_prog p g)"
| "bind_prog (Step f k) g = Step f (\<lambda>s. bind_prog (k s) g)"

subsection \<open>The functions\<close>

definition get_state_prog :: "tts_audio_state prog" where
  "get_state_prog = Acquire (Ask (\<lambda>s. Release (Return (audio_state (ctl s)))))"

definition set_state_prog :: "tts_audio_state \<Rightarrow> bool prog" where
  "set_state_prog new_state =
     Acquire (Ask (\<lambda>s.
       let old_state = audio_state (ctl s)
       in if \<not> valid_transition old_state new_state then Release (Return False)
          else Do (upd_ctl (\<lambda>c. c\<lparr>audio_state := new_state\<rparr>)) (Broadcast (Release (Ask (\<lambda>s.
                 if state_change_callback (ctl s) \<noteq> None then Call_Back old_state new_state (Return True)
                 else Return True))))))"

definition stop_session_prog :: "reap_env \<Rightarrow> unit prog" where
  "stop_session_prog env =
     Acquire (Do (upd_ctl (\<lambda>c. c\<lparr>current_page := - 1, current_segment := - 1\<rparr>)) (Release (
       Do (stop_streaming_session env) (bind_prog (set_state_prog TTS_AUDIO_STATE_STOPPED) (\<lambda>ok. Return ())))))"

text \<open>Starting the streaming session, as one step with a result.\<close>

definition start_streaming_prog :: "spawn_env \<Rightarrow> addr \<Rightarrow> bool prog" where
  "start_streaming_prog sp segments =
     Step (\<lambda>s. snd (start_streaming_session sp segments s)) (\<lambda>s. Return (fst (start_streaming_session sp segments s)))"

text \<open>What a start does from where it has the mutex and knows that no session runs.\<close>

definition install_session :: "spawn_env \<Rightarrow> addr \<Rightarrow> bool prog" where
  "install_session sp segments =
     Do (\<lambda>s. case text_segments (ctl s) of None \<Rightarrow> s | Some old \<Rightarrow> upd_mem (list_free old (mem (world s))) s)
       (Do (upd_ctl (\<lambda>c. c\<lparr>text_segments := Some segments, current_page := - 1, current_segment := - 1\<rparr>))
         (Do (set_first_position segments) (Release (
           bind_prog (set_state_prog TTS_AUDIO_STATE_PLAYING) (\<lambda>ok.
             if \<not> ok then Return False
             else bind_prog (start_streaming_prog sp segments) (\<lambda>streaming_result.
                    if \<not> streaming_result
                    then bind_prog (set_state_prog TTS_AUDIO_STATE_ERROR) (\<lambda>ok. Return False)
                    else Return True))))))"

definition start_session_prog :: "spawn_env \<Rightarrow> reap_env \<Rightarrow> addr option \<Rightarrow> bool prog" where
  "start_session_prog sp env segments =
     (case segments of
        None \<Rightarrow> Return False
      | Some l \<Rightarrow>
          Acquire (Ask (\<lambda>s.
            if audio_state (ctl s) \<noteq> TTS_AUDIO_STATE_STOPPED
            then Release (bind_prog (stop_session_prog env) (\<lambda>u. Acquire (install_session sp l)))
            else install_session sp l)))"

text \<open>A call of the engine the controller has, and its result; without an engine it is passed over.\<close>

definition on_engine :: "(stream \<Rightarrow> bool \<times> stream) \<Rightarrow> audio \<Rightarrow> bool \<times> audio" where
  "on_engine f s =
     (case streaming_engine (ctl s) of
        None \<Rightarrow> (True, s)
      | Some e \<Rightarrow> (case f (e, world s) of
          (ok, e', w') \<Rightarrow> (ok, s\<lparr>ctl := (ctl s)\<lparr>streaming_engine := Some e'\<rparr>, world := w'\<rparr>)))"

definition pause_session_prog :: "bool prog" where
  "pause_session_prog =
     Step (\<lambda>s. snd (on_engine tts_streaming_engine_pause s)) (\<lambda>s.
       if \<not> fst (on_engine tts_streaming_engine_pause s) then Return False
       else set_state_prog TTS_AUDIO_STATE_PAUSED)"

definition resume_session_prog :: "bool prog" where
  "resume_session_prog =
     Step (\<lambda>s. snd (on_engine tts_streaming_engine_resume s)) (\<lambda>s.
       if \<not> fst (on_engine tts_streaming_engine_resume s) then Return False
       else set_state_prog TTS_AUDIO_STATE_PLAYING)"

subsection \<open>Position\<close>

definition get_current_page_prog :: "int prog" where
  "get_current_page_prog = Acquire (Ask (\<lambda>s. Release (Return (current_page (ctl s)))))"

definition get_current_segment_prog :: "int prog" where
  "get_current_segment_prog = Acquire (Ask (\<lambda>s. Release (Return (current_segment (ctl s)))))"

text \<open>Reading the list of segments, and a segment, whose fields are looked at by what follows.\<close>

definition read_list :: "(addr list \<Rightarrow> 'r prog) \<Rightarrow> 'r prog" where
  "read_list k =
     Step (\<lambda>s. case text_segments (ctl s) of None \<Rightarrow> s | Some l \<Rightarrow> upd_mem (snd (list_read l (mem (world s)))) s)
       (\<lambda>s. k (case text_segments (ctl s) of None \<Rightarrow> [] | Some l \<Rightarrow> fst (list_read l (mem (world s)))))"

definition read_at :: "addr \<Rightarrow> (tts_text_segment option \<Rightarrow> 'r prog) \<Rightarrow> 'r prog" where
  "read_at a k = Step (\<lambda>s. upd_mem (snd (read_segment a (mem (world s)))) s) (\<lambda>s. k (fst (read_segment a (mem (world s)))))"

definition set_position_prog :: "int \<Rightarrow> int \<Rightarrow> bool prog" where
  "set_position_prog page segment =
     Ask (\<lambda>s. if text_segments (ctl s) = None then Return False
       else Acquire (read_list (\<lambda>as.
         if segment < 0 \<or> segment \<ge> int (length as) then Release (Return False)
         else read_at (as ! nat segment) (\<lambda>contents.
           case contents of
             None \<Rightarrow> Release (Return False)
           | Some sg \<Rightarrow>
               if seg_page_number sg \<noteq> page then Release (Return False)
               else Do (upd_ctl (\<lambda>c. c\<lparr>current_page := page, current_segment := segment\<rparr>)) (Release (Return True))))))"

definition navigate_to_segment_prog :: "int \<Rightarrow> bool prog" where
  "navigate_to_segment_prog direction =
     Ask (\<lambda>s. if text_segments (ctl s) = None then Return False
       else Acquire (read_list (\<lambda>as.
         if length as = 0 then Release (Return False)
         else Ask (\<lambda>s.
           let new_segment = current_segment (ctl s) + direction
           in if new_segment < 0 \<or> new_segment \<ge> int (length as) then Release (Return False)
              else read_at (as ! nat new_segment) (\<lambda>contents.
                case contents of
                  None \<Rightarrow> Release (Return False)
                | Some sg \<Rightarrow>
                    Do (upd_ctl (\<lambda>c. c\<lparr>current_segment := new_segment, current_page := seg_page_number sg\<rparr>))
                      (Release (Return True)))))))"

definition navigate_to_page_prog :: "int \<Rightarrow> bool prog" where
  "navigate_to_page_prog page =
     Ask (\<lambda>s. if text_segments (ctl s) = None \<or> page < 0 then Return False
       else Acquire (read_list (\<lambda>as.
         Step (\<lambda>s. upd_mem (snd (find_page page 0 as (mem (world s)))) s) (\<lambda>s.
           let target_segment = fst (find_page page 0 as (mem (world s)))
           in if target_segment = - 1 then Release (Return False)
              else Do (upd_ctl (\<lambda>c. c\<lparr>current_segment := target_segment, current_page := page\<rparr>)) (Release (Return True))))))"

subsection \<open>Settings, the callback and the wrappers\<close>

definition get_speed_prog :: "c_float prog" where
  "get_speed_prog = Acquire (Ask (\<lambda>s. Release (Return (speed_multiplier (ctl s)))))"

definition set_speed_prog :: "c_float \<Rightarrow> bool prog" where
  "set_speed_prog speed =
     (if fl_le speed (Fin 0) \<or> fl_less (Fin 5) speed then Return False
      else Acquire (Do (upd_ctl (\<lambda>c. c\<lparr>speed_multiplier := speed\<rparr>)) (Release (Return True))))"

definition get_volume_prog :: "int prog" where
  "get_volume_prog = Acquire (Ask (\<lambda>s. Release (Return (volume_level (ctl s)))))"

definition set_volume_prog :: "int \<Rightarrow> bool prog" where
  "set_volume_prog volume =
     (if volume < 0 \<or> volume > 100 then Return False
      else Acquire (Do (upd_ctl (\<lambda>c. c\<lparr>volume_level := volume\<rparr>)) (Release (Return True))))"

definition set_callback_prog :: "nat option \<Rightarrow> unit prog" where
  "set_callback_prog callback =
     Acquire (Do (upd_ctl (\<lambda>c. c\<lparr>state_change_callback := callback\<rparr>)) (Release (Return ())))"

definition tts_audio_controller_lock :: "unit prog" where
  "tts_audio_controller_lock = Acquire (Return ())"

definition tts_audio_controller_unlock :: "unit prog" where
  "tts_audio_controller_unlock = Release (Return ())"

definition tts_audio_controller_wait_for_state_change :: "unit prog" where
  "tts_audio_controller_wait_for_state_change = Wait (Return ())"

definition tts_audio_controller_signal_state_change :: "unit prog" where
  "tts_audio_controller_signal_state_change = Broadcast (Return ())"

subsection \<open>A call alone\<close>

text \<open>
  The effect of an invocation of the callback is that it is recorded, as in \<open>Audio_Controller\<close>.
\<close>

definition record_event :: "tts_audio_state \<Rightarrow> tts_audio_state \<Rightarrow> audio \<Rightarrow> audio" where
  "record_event old_state new_state s =
     s\<lparr>audio_events := audio_events s @
        [\<lparr>event_old = old_state, event_new = new_state, event_page = current_page (ctl s),
          event_segment = current_segment (ctl s)\<rparr>]\<rparr>"

text \<open>
  Without other threads, from a state of the mutex: the result, the state of the mutex afterwards, and the state. Locking
  the mutex twice, unlocking it when it is not locked and waiting never come back.
\<close>

primrec alone :: "'r prog \<Rightarrow> bool \<Rightarrow> audio \<Rightarrow> ('r \<times> bool \<times> audio) option" where
  "alone (Return r) held s = Some (r, held, s)"
| "alone (Acquire p) held s = (if held then None else alone p True s)"
| "alone (Release p) held s = (if held then alone p False s else None)"
| "alone (Wait p) held s = None"
| "alone (Broadcast p) held s = alone p held s"
| "alone (Call_Back old_state new_state p) held s = alone p held (record_event old_state new_state s)"
| "alone (Step f k) held s = alone (k s) held (f s)"

lemma alone_bind:
  "alone (bind_prog p g) held s = (case alone p held s of None \<Rightarrow> None | Some (r, held', s') \<Rightarrow> alone (g r) held' s')"
  by (induction p arbitrary: held s) simp_all

text \<open>What a single call alone comes to: the result and the state of the model without the mutex, which is free again.\<close>

definition comes_to :: "'r prog \<Rightarrow> (audio \<Rightarrow> 'r \<times> audio) \<Rightarrow> bool" where
  "comes_to p body \<longleftrightarrow> (\<forall>s. alone p False s = Some (fst (body s), False, snd (body s)))"

lemma comes_toD: "comes_to p body \<Longrightarrow> alone p False s = Some (fst (body s), False, snd (body s))"
  by (simp add: comes_to_def)

lemma set_state_alone: "comes_to (set_state_prog st) (set_state_body st)"
  by (simp add: comes_to_def set_state_prog_def set_state_body_def record_event_def Let_def)

lemma stop_session_alone: "comes_to (stop_session_prog env) (\<lambda>s. ((), stop_session_body env s))"
  by (simp add: comes_to_def stop_session_prog_def stop_session_body_def alone_bind comes_toD [OF set_state_alone] Let_def)

lemma install_session_alone:
  "alone (install_session sp l) True s =
     (let s1 = (case text_segments (ctl s) of None \<Rightarrow> s | Some old \<Rightarrow> upd_mem (list_free old (mem (world s))) s);
          s3 = upd_ctl (\<lambda>c. c\<lparr>text_segments := Some l, current_page := - 1, current_segment := - 1\<rparr>) s1;
          s4 = set_first_position l s3
      in case set_state_body TTS_AUDIO_STATE_PLAYING s4 of
           (ok, s5) \<Rightarrow>
             if \<not> ok then Some (False, False, s5)
             else (case start_streaming_session sp l s5 of
                     (r, s6) \<Rightarrow>
                       if \<not> r then Some (False, False, snd (set_state_body TTS_AUDIO_STATE_ERROR s6)) else Some (True, False, s6)))"
  by (simp add: install_session_def start_streaming_prog_def alone_bind comes_toD [OF set_state_alone] Let_def split: prod.split)

lemma start_session_alone: "comes_to (start_session_prog sp env l) (start_session_body sp env l)"
proof (cases l)
  case (Some a)
  then show ?thesis
    by (simp add: comes_to_def start_session_prog_def start_session_body_def alone_bind install_session_alone
        comes_toD [OF stop_session_alone] Let_def split: prod.split)
qed (simp add: comes_to_def start_session_prog_def start_session_body_def)

lemma pause_session_alone: "comes_to pause_session_prog pause_session_body"
  by (simp add: comes_to_def pause_session_prog_def pause_session_body_def on_engine_def comes_toD [OF set_state_alone]
      split: option.split prod.split)

lemma resume_session_alone: "comes_to resume_session_prog resume_session_body"
  by (simp add: comes_to_def resume_session_prog_def resume_session_body_def on_engine_def comes_toD [OF set_state_alone]
      split: option.split prod.split)

lemma set_position_alone: "comes_to (set_position_prog page segment) (set_position_body page segment)"
  by (auto simp: comes_to_def set_position_prog_def set_position_body_def read_list_def read_at_def split: option.split prod.split)

lemma navigate_to_segment_alone: "comes_to (navigate_to_segment_prog direction) (navigate_to_segment_body direction)"
  by (auto simp: comes_to_def navigate_to_segment_prog_def navigate_to_segment_body_def read_list_def read_at_def Let_def
      split: option.split prod.split)

lemma navigate_to_page_alone: "comes_to (navigate_to_page_prog page) (navigate_to_page_body page)"
  by (auto simp: comes_to_def navigate_to_page_prog_def navigate_to_page_body_def read_list_def Let_def
      split: option.split prod.split)

subsection \<open>Calls\<close>

datatype controller_call =
    Get_State
  | Set_State tts_audio_state
  | Start_Session spawn_env reap_env "addr option"
  | Stop_Session reap_env
  | Pause_Session
  | Resume_Session
  | Get_Current_Page
  | Get_Current_Segment
  | Set_Position int int
  | Navigate_To_Segment int
  | Navigate_To_Page int
  | Get_Speed
  | Set_Speed c_float
  | Get_Volume
  | Set_Volume int
  | Set_Callback "nat option"

definition drop_result :: "'r prog \<Rightarrow> unit prog" where
  "drop_result p = bind_prog p (\<lambda>r. Return ())"

fun call_prog :: "controller_call \<Rightarrow> unit prog" where
  "call_prog Get_State = drop_result get_state_prog"
| "call_prog (Set_State st) = drop_result (set_state_prog st)"
| "call_prog (Start_Session sp env l) = drop_result (start_session_prog sp env l)"
| "call_prog (Stop_Session env) = stop_session_prog env"
| "call_prog Pause_Session = drop_result pause_session_prog"
| "call_prog Resume_Session = drop_result resume_session_prog"
| "call_prog Get_Current_Page = drop_result get_current_page_prog"
| "call_prog Get_Current_Segment = drop_result get_current_segment_prog"
| "call_prog (Set_Position page segment) = drop_result (set_position_prog page segment)"
| "call_prog (Navigate_To_Segment direction) = drop_result (navigate_to_segment_prog direction)"
| "call_prog (Navigate_To_Page page) = drop_result (navigate_to_page_prog page)"
| "call_prog Get_Speed = drop_result get_speed_prog"
| "call_prog (Set_Speed speed) = drop_result (set_speed_prog speed)"
| "call_prog Get_Volume = drop_result get_volume_prog"
| "call_prog (Set_Volume volume) = drop_result (set_volume_prog volume)"
| "call_prog (Set_Callback callback) = set_callback_prog callback"

fun calls_prog :: "controller_call list \<Rightarrow> unit prog" where
  "calls_prog [] = Return ()"
| "calls_prog (c # cs) = bind_prog (call_prog c) (\<lambda>u. calls_prog cs)"

lemma accessors_alone:
  "comes_to get_state_prog (\<lambda>s. (tts_audio_controller_get_state (Some s), s))"
  "comes_to get_current_page_prog (\<lambda>s. (tts_audio_controller_get_current_page (Some s), s))"
  "comes_to get_current_segment_prog (\<lambda>s. (tts_audio_controller_get_current_segment (Some s), s))"
  "comes_to get_speed_prog (\<lambda>s. (tts_audio_controller_get_speed (Some s), s))"
  "comes_to (set_speed_prog speed) (\<lambda>s. apsnd the (tts_audio_controller_set_speed speed (Some s)))"
  "comes_to get_volume_prog (\<lambda>s. (tts_audio_controller_get_volume (Some s), s))"
  "comes_to (set_volume_prog volume) (\<lambda>s. apsnd the (tts_audio_controller_set_volume volume (Some s)))"
  "comes_to (set_callback_prog callback) (\<lambda>s. ((), the (tts_audio_controller_set_state_change_callback callback (Some s))))"
  by (simp_all add: comes_to_def get_state_prog_def get_current_page_prog_def get_current_segment_prog_def get_speed_prog_def
      set_speed_prog_def get_volume_prog_def set_volume_prog_def set_callback_prog_def
      tts_audio_controller_get_state_def tts_audio_controller_get_current_page_def tts_audio_controller_get_current_segment_def
      tts_audio_controller_get_speed_def tts_audio_controller_set_speed_def tts_audio_controller_get_volume_def
      tts_audio_controller_set_volume_def tts_audio_controller_set_state_change_callback_def)

text \<open>
  C19. Alone, each function of the audio controller comes back from every state with the mutex free, on every path with as many
  unlocks as locks, and with exactly the result and the effect that the model without the mutex gives it; in particular none locks the
  mutex while it has it, also where a start stops the running session in between.
\<close>

theorem calls_alone_are_steps:
  "comes_to get_state_prog (\<lambda>s. (tts_audio_controller_get_state (Some s), s)) \<and>
   comes_to (set_state_prog st) (set_state_body st) \<and>
   comes_to (start_session_prog sp env l) (start_session_body sp env l) \<and>
   comes_to (stop_session_prog env) (\<lambda>s. ((), stop_session_body env s)) \<and>
   comes_to pause_session_prog pause_session_body \<and>
   comes_to resume_session_prog resume_session_body \<and>
   comes_to get_current_page_prog (\<lambda>s. (tts_audio_controller_get_current_page (Some s), s)) \<and>
   comes_to get_current_segment_prog (\<lambda>s. (tts_audio_controller_get_current_segment (Some s), s)) \<and>
   comes_to (set_position_prog page segment) (set_position_body page segment) \<and>
   comes_to (navigate_to_segment_prog direction) (navigate_to_segment_body direction) \<and>
   comes_to (navigate_to_page_prog page) (navigate_to_page_body page) \<and>
   comes_to get_speed_prog (\<lambda>s. (tts_audio_controller_get_speed (Some s), s)) \<and>
   comes_to (set_speed_prog speed) (\<lambda>s. apsnd the (tts_audio_controller_set_speed speed (Some s))) \<and>
   comes_to get_volume_prog (\<lambda>s. (tts_audio_controller_get_volume (Some s), s)) \<and>
   comes_to (set_volume_prog volume) (\<lambda>s. apsnd the (tts_audio_controller_set_volume volume (Some s))) \<and>
   comes_to (set_callback_prog callback) (\<lambda>s. ((), the (tts_audio_controller_set_state_change_callback callback (Some s))))"
  by (simp only: accessors_alone set_state_alone start_session_alone stop_session_alone pause_session_alone resume_session_alone
      set_position_alone navigate_to_segment_alone navigate_to_page_alone)

subsection \<open>What the mutex guards\<close>

type_synonym guarded_values = "tts_audio_state \<times> int \<times> int \<times> c_float \<times> int"

definition guarded :: "audio \<Rightarrow> guarded_values" where
  "guarded s = (audio_state (ctl s), current_page (ctl s), current_segment (ctl s), speed_multiplier (ctl s), volume_level (ctl s))"

definition overwrite :: "guarded_values \<Rightarrow> audio \<Rightarrow> audio" where
  "overwrite v s =
     (case v of (st, page, segment, speed, volume) \<Rightarrow>
        upd_ctl (\<lambda>c. c\<lparr>audio_state := st, current_page := page, current_segment := segment, speed_multiplier := speed,
          volume_level := volume\<rparr>) s)"

text \<open>A step that neither reads nor writes the guarded fields: it commutes with any change of them.\<close>

definition apart :: "(audio \<Rightarrow> audio) \<Rightarrow> (audio \<Rightarrow> 'r prog) \<Rightarrow> bool" where
  "apart f k \<longleftrightarrow> (\<forall>v s. f (overwrite v s) = overwrite v (f s) \<and> k (overwrite v s) = k s)"

definition state_moves :: "audio \<Rightarrow> audio \<Rightarrow> bool" where
  "state_moves s s' \<longleftrightarrow>
     audio_state (ctl s') = audio_state (ctl s) \<or> valid_transition (audio_state (ctl s)) (audio_state (ctl s'))"

text \<open>
  A program that keeps the rules, whatever other threads do in between: they change anything while the thread does not have the mutex,
  and anything but the guarded fields while it has. It has the mutex where it must and only there; without it, it keeps apart from
  the guarded fields and calls the callback; and the playback state only moves along valid transitions.
\<close>

primrec safe :: "'r prog \<Rightarrow> bool \<Rightarrow> audio \<Rightarrow> bool" where
  "safe (Return r) held s \<longleftrightarrow> \<not> held"
| "safe (Acquire p) held s \<longleftrightarrow> \<not> held \<and> (\<forall>s'. safe p True s')"
| "safe (Release p) held s \<longleftrightarrow> held \<and> (\<forall>s'. safe p False s')"
| "safe (Wait p) held s \<longleftrightarrow> held \<and> (\<forall>s'. safe p True s')"
| "safe (Broadcast p) held s \<longleftrightarrow> safe p held s"
| "safe (Call_Back old_state new_state p) held s \<longleftrightarrow> \<not> held \<and> (\<forall>s'. safe p False s')"
| "safe (Step f k) held s \<longleftrightarrow> (held \<or> apart f k) \<and>
     (\<forall>s'. (held \<longrightarrow> guarded s' = guarded s) \<longrightarrow> state_moves s' (f s') \<and> safe (k s') held (f s'))"

lemma overwrite_same [simp]: "overwrite (guarded s) s = s"
  by (simp add: overwrite_def guarded_def)

lemma guarded_overwrite [simp]: "guarded (overwrite v s) = v"
  by (simp add: overwrite_def guarded_def split: prod.split)

lemma apart_guarded: "apart f k \<Longrightarrow> guarded (f s) = guarded s"
  unfolding apart_def by (metis guarded_overwrite overwrite_same)

lemma guarded_state_moves: "guarded s' = guarded s \<Longrightarrow> state_moves s s'"
  by (simp add: state_moves_def guarded_def)

lemma safe_stable: "safe p held s \<Longrightarrow> held \<longrightarrow> guarded s' = guarded s \<Longrightarrow> safe p held s'"
  by (induction p) auto

lemma safe_bind: "safe p held s \<Longrightarrow> (\<And>r s'. safe (g r) False s') \<Longrightarrow> safe (bind_prog p g) held s"
  by (induction p arbitrary: held s) (auto simp: apart_def)

lemma safe_drop: "(\<And>s. safe p False s) \<Longrightarrow> safe (drop_result p) False s"
  unfolding drop_result_def by (rule safe_bind) simp_all

lemma stop_streaming_apart: "stop_streaming_session env (overwrite v s) = overwrite v (stop_streaming_session env s)"
  by (simp add: stop_streaming_session_def overwrite_def split: prod.split option.split)

lemma start_streaming_apart:
  "start_streaming_session sp l (overwrite v s) = apsnd (overwrite v) (start_streaming_session sp l s)"
  by (simp add: start_streaming_session_def overwrite_def Let_def split: prod.split option.split)

lemma on_engine_apart: "on_engine f (overwrite v s) = apsnd (overwrite v) (on_engine f s)"
  by (simp add: on_engine_def overwrite_def split: prod.split option.split)

lemma unguarded_reads [simp]:
  "text_segments (ctl (overwrite v s)) = text_segments (ctl s)"
  "state_change_callback (ctl (overwrite v s)) = state_change_callback (ctl s)"
  by (simp_all add: overwrite_def split: prod.split)

lemma set_state_safe: "safe (set_state_prog st) False s"
  by (auto simp: set_state_prog_def Let_def state_moves_def guarded_def apart_def)

text \<open>A step without the mutex.\<close>

lemma safe_apart: "apart f k \<Longrightarrow> (\<And>s'. safe (k s') False (f s')) \<Longrightarrow> safe (Step f k) False s"
  by (simp add: guarded_state_moves apart_guarded)

lemma stop_session_safe: "safe (stop_session_prog env) False s"
proof -
  have "safe (Do (stop_streaming_session env) (bind_prog (set_state_prog TTS_AUDIO_STATE_STOPPED) (\<lambda>ok. Return ()))) False s'" for s'
    by (rule safe_apart) (auto simp: apart_def stop_streaming_apart intro!: safe_bind set_state_safe)
  then show ?thesis by (simp add: stop_session_prog_def state_moves_def)
qed

lemma start_streaming_safe: "safe (start_streaming_prog sp l) False s"
  unfolding start_streaming_prog_def by (rule safe_apart) (simp_all add: apart_def start_streaming_apart)

lemma install_session_safe: "safe (install_session sp l) True s"
proof -
  have "safe (bind_prog (set_state_prog TTS_AUDIO_STATE_PLAYING) (\<lambda>ok.
      if \<not> ok then Return False
      else bind_prog (start_streaming_prog sp l) (\<lambda>r.
             if \<not> r then bind_prog (set_state_prog TTS_AUDIO_STATE_ERROR) (\<lambda>ok. Return False) else Return True))) False s'" for s'
    by (auto intro!: safe_bind set_state_safe start_streaming_safe)
  then show ?thesis
    by (simp add: install_session_def state_moves_def set_first_position_fields split: option.split)
qed

lemma start_session_safe: "safe (start_session_prog sp env l) False s"
  by (auto simp: start_session_prog_def state_moves_def install_session_safe
      intro!: safe_bind stop_session_safe split: option.split)

lemma engine_call_safe:
  "safe (Step (\<lambda>s. snd (on_engine f s)) (\<lambda>s. if \<not> fst (on_engine f s) then Return False else set_state_prog st)) False s"
  by (rule safe_apart) (simp_all add: apart_def on_engine_apart set_state_safe)

lemma pause_resume_safe: "safe pause_session_prog False s" "safe resume_session_prog False s"
  unfolding pause_session_prog_def resume_session_prog_def by (rule engine_call_safe)+

lemma read_list_safe: "(\<And>as s'. safe (k as) True s') \<Longrightarrow> safe (read_list k) True s"
  by (simp add: read_list_def state_moves_def split: option.split)

lemma read_at_safe: "(\<And>contents s'. safe (k contents) True s') \<Longrightarrow> safe (read_at a k) True s"
  by (simp add: read_at_def state_moves_def)

lemma position_safe:
  "safe (set_position_prog page segment) False s" "safe (navigate_to_segment_prog direction) False s"
  "safe (navigate_to_page_prog page) False s"
  unfolding set_position_prog_def navigate_to_segment_prog_def navigate_to_page_prog_def
  by (rule safe_apart; auto simp: apart_def state_moves_def Let_def intro!: read_list_safe read_at_safe split: option.split)+

lemma accessors_safe:
  "safe get_state_prog False s" "safe get_current_page_prog False s" "safe get_current_segment_prog False s"
  "safe get_speed_prog False s" "safe (set_speed_prog speed) False s" "safe get_volume_prog False s"
  "safe (set_volume_prog volume) False s" "safe (set_callback_prog callback) False s"
  by (simp_all add: get_state_prog_def get_current_page_prog_def get_current_segment_prog_def get_speed_prog_def
      set_speed_prog_def get_volume_prog_def set_volume_prog_def set_callback_prog_def state_moves_def)

lemma call_safe: "safe (call_prog c) False s"
  by (cases c)
    (simp_all add: safe_drop accessors_safe set_state_safe stop_session_safe start_session_safe position_safe pause_resume_safe)

lemma calls_safe: "safe (calls_prog cs) False s"
  by (induction cs arbitrary: s) (simp_all add: safe_bind call_safe)

subsection \<open>Threads\<close>

record controller_threads =
  shared :: audio
  mutex_owner :: "nat option"
  program :: "nat \<Rightarrow> unit prog"

text \<open>
  One step of one thread. A wait for the condition may end for no reason, so it is a release and an acquisition. Unlocking a mutex of
  another thread has no meaning.
\<close>

definition goes_on :: "nat \<Rightarrow> unit prog \<Rightarrow> controller_threads \<Rightarrow> controller_threads" where
  "goes_on t p c = c\<lparr>program := (program c)(t := p)\<rparr>"

definition prog_step :: "nat \<Rightarrow> controller_threads \<Rightarrow> controller_threads option" where
  "prog_step t c =
     (case program c t of
        Return r \<Rightarrow> None
      | Acquire p \<Rightarrow> if mutex_owner c = None then Some (goes_on t p (c\<lparr>mutex_owner := Some t\<rparr>)) else None
      | Release p \<Rightarrow> if mutex_owner c = Some t then Some (goes_on t p (c\<lparr>mutex_owner := None\<rparr>)) else None
      | Wait p \<Rightarrow> if mutex_owner c = Some t then Some (goes_on t (Acquire p) (c\<lparr>mutex_owner := None\<rparr>)) else None
      | Broadcast p \<Rightarrow> Some (goes_on t p c)
      | Call_Back old_state new_state p \<Rightarrow> Some (goes_on t p (c\<lparr>shared := record_event old_state new_state (shared c)\<rparr>))
      | Step f k \<Rightarrow> Some (goes_on t (k (shared c)) (c\<lparr>shared := f (shared c)\<rparr>)))"

definition controller_init :: "(nat \<Rightarrow> controller_call list) \<Rightarrow> audio \<Rightarrow> controller_threads" where
  "controller_init cs s = \<lparr>shared = s, mutex_owner = None, program = (\<lambda>t. calls_prog (cs t))\<rparr>"

inductive controller_reachable :: "(nat \<Rightarrow> controller_call list) \<Rightarrow> audio \<Rightarrow> controller_threads \<Rightarrow> bool" for cs s where
  controller_start: "controller_reachable cs s (controller_init cs s)"
| controller_next: "controller_reachable cs s c \<Longrightarrow> prog_step t c = Some c' \<Longrightarrow> controller_reachable cs s c'"

definition rules_kept :: "controller_threads \<Rightarrow> bool" where
  "rules_kept c \<longleftrightarrow> (\<forall>t. safe (program c t) (mutex_owner c = Some t) (shared c))"

lemma rules_kept_init: "rules_kept (controller_init cs s)"
  by (simp add: rules_kept_def controller_init_def calls_safe)

lemma step_shape:
  assumes "rules_kept c" "prog_step t c = Some c'"
  shows "state_moves (shared c) (shared c')" "guarded (shared c') = guarded (shared c) \<or> mutex_owner c = Some t"
    "safe (program c' t) (mutex_owner c' = Some t) (shared c')" "\<And>u. u \<noteq> t \<Longrightarrow> program c' u = program c u"
    "\<And>u. u \<noteq> t \<Longrightarrow> mutex_owner c' = Some u \<longleftrightarrow> mutex_owner c = Some u"
proof -
  have s: "safe (program c t) (mutex_owner c = Some t) (shared c)" using assms(1) by (simp add: rules_kept_def)
  have r: "guarded (record_event o1 o2 a) = guarded a" for o1 o2 a by (simp add: record_event_def guarded_def)
  have "state_moves (shared c) (shared c') \<and> (guarded (shared c') = guarded (shared c) \<or> mutex_owner c = Some t) \<and>
    safe (program c' t) (mutex_owner c' = Some t) (shared c')"
  proof (cases "program c t")
    case (Step f k)
    then have c': "shared c' = f (shared c)" "program c' t = k (shared c)" "mutex_owner c' = mutex_owner c"
      using assms(2) by (auto simp: prog_step_def goes_on_def)
    moreover have "mutex_owner c = Some t \<or> guarded (f (shared c)) = guarded (shared c)"
      using s Step apart_guarded by auto
    moreover have "state_moves (shared c) (f (shared c)) \<and> safe (k (shared c)) (mutex_owner c = Some t) (f (shared c))"
      using s Step by simp
    ultimately show ?thesis by auto
  next
    case (Acquire p)
    then show ?thesis using s assms(2) by (auto simp: prog_step_def goes_on_def r guarded_state_moves split: if_splits)
  next
    case (Release p)
    then show ?thesis using s assms(2) by (auto simp: prog_step_def goes_on_def r guarded_state_moves split: if_splits)
  next
    case (Wait p)
    then show ?thesis using s assms(2) by (auto simp: prog_step_def goes_on_def r guarded_state_moves split: if_splits)
  next
    case (Broadcast p)
    then show ?thesis using s assms(2) by (auto simp: prog_step_def goes_on_def r guarded_state_moves split: if_splits)
  next
    case (Call_Back o1 o2 p)
    then show ?thesis using s assms(2) by (auto simp: prog_step_def goes_on_def r guarded_state_moves split: if_splits)
  qed (use assms(2) in \<open>simp add: prog_step_def\<close>)
  then show "state_moves (shared c) (shared c')" "guarded (shared c') = guarded (shared c) \<or> mutex_owner c = Some t"
    "safe (program c' t) (mutex_owner c' = Some t) (shared c')" by blast+
  show "program c' u = program c u" "mutex_owner c' = Some u \<longleftrightarrow> mutex_owner c = Some u" if "u \<noteq> t" for u
    using assms(2) that by (cases "program c t"; simp add: prog_step_def goes_on_def split: if_splits; fastforce)+
qed

lemma rules_kept_step: "rules_kept c \<Longrightarrow> prog_step t c = Some c' \<Longrightarrow> rules_kept c'"
  unfolding rules_kept_def [of c']
proof
  fix u
  assume i: "rules_kept c" and st: "prog_step t c = Some c'"
  note x = step_shape [OF i st]
  show "safe (program c' u) (mutex_owner c' = Some u) (shared c')"
  proof (cases "u = t")
    case False
    note y = x(4,5) [OF False]
    have "safe (program c u) (mutex_owner c = Some u) (shared c)" using i by (simp add: rules_kept_def)
    then have "safe (program c' u) (mutex_owner c' = Some u) (shared c)" by (simp only: y)
    moreover have "mutex_owner c' = Some u \<longrightarrow> guarded (shared c') = guarded (shared c)" using x(2) False by (auto simp: y)
    ultimately show ?thesis by (rule safe_stable)
  qed (use x(3) in simp)
qed

lemma rules_kept_reachable: "controller_reachable cs s c \<Longrightarrow> rules_kept c"
  by (induction rule: controller_reachable.induct) (rule rules_kept_init, rule rules_kept_step)

text \<open>The threads of the controller use their mutex as a monitor, too.\<close>

definition controller_monitor :: "controller_threads \<Rightarrow> monitor" where
  "controller_monitor c = \<lparr>holder = mutex_owner c, waiting = {}\<rparr>"

lemma prog_step_monitor:
  assumes "prog_step t c = Some c'"
  shows "monitor_step\<^sup>*\<^sup>* (controller_monitor c) (controller_monitor c')"
proof -
  have "controller_monitor c' = controller_monitor c \<or> monitor_step (controller_monitor c) (controller_monitor c')"
    using assms monitor_acquire [of "controller_monitor c" t] monitor_release [of "controller_monitor c" t]
    by (auto simp: prog_step_def controller_monitor_def goes_on_def split: prog.splits if_splits)
  then show ?thesis by (auto intro: r_into_rtranclp)
qed

interpretation controller_mutex: monitor_user "\<lambda>c c'. \<exists>t. prog_step t c = Some c'" rules_kept controller_monitor
  by unfold_locales (use rules_kept_step prog_step_monitor in blast)+

lemma someone_goes_on:
  assumes "rules_kept c" "\<forall>t. prog_step t c = None"
  shows "mutex_owner c = None \<and> program c t = Return ()"
proof -
  have s: "safe (program c t) (mutex_owner c = Some t) (shared c)" for t using assms(1) by (simp add: rules_kept_def)
  have n: "mutex_owner c = None"
  proof (cases "mutex_owner c")
    case (Some t)
    then have "prog_step t c \<noteq> None"
      using s [of t] by (cases "program c t") (auto simp: prog_step_def)
    then show ?thesis using assms(2) by simp
  qed simp
  moreover have "program c t = Return ()"
    using s [of t] n assms(2) spec [OF assms(2), of t] by (cases "program c t") (auto simp: prog_step_def)
  ultimately show ?thesis by blast
qed


text \<open>Running a schedule: which thread goes on in each step.\<close>

fun controller_schedule :: "nat list \<Rightarrow> controller_threads \<Rightarrow> controller_threads option" where
  "controller_schedule [] c = Some c"
| "controller_schedule (t # ts) c = (case prog_step t c of None \<Rightarrow> None | Some c' \<Rightarrow> controller_schedule ts c')"

lemma controller_schedule_reachable:
  "controller_reachable cs s c \<Longrightarrow> controller_schedule ts c = Some c' \<Longrightarrow> controller_reachable cs s c'"
proof (induction ts arbitrary: c)
  case (Cons t ts)
  then obtain c1 where "prog_step t c = Some c1" "controller_schedule ts c1 = Some c'" by (auto split: option.splits)
  then show ?case using Cons.IH controller_next [OF Cons.prems(1)] by blast
qed simp

lemmas run_controller = prog_step_def goes_on_def drop_result_def set_state_prog_def Let_def

definition two_callers :: "controller_call list \<Rightarrow> controller_call list \<Rightarrow> nat \<Rightarrow> controller_call list" where
  "two_callers a b t = (if t = 0 then a else if t = 1 then b else [])"



text \<open>
  The engine and the playback state are not changed together. A thread resumes the engine; before it sets the playback
  state, another stops the session; then the first sets the state, from stopped to playing. All calls have
  come back, the controller says that it plays, and the engine is idle.
\<close>

theorem resume_overtakes_stop:
  assumes "audio_state (ctl s) = TTS_AUDIO_STATE_PAUSED" "streaming_engine (ctl s) = Some e"
    and "stream_state e = TTS_STREAMING_STATE_PAUSED" "stream_inv e" "state_change_callback (ctl s) = None"
  shows "\<exists>c. controller_reachable (two_callers [Resume_Session] [Stop_Session env]) s c \<and> (\<forall>t. program c t = Return ()) \<and>
    audio_state (ctl (shared c)) = TTS_AUDIO_STATE_PLAYING \<and>
    map_option stream_state (streaming_engine (ctl (shared c))) = Some TTS_STREAMING_STATE_IDLE"
proof -
  obtain e1 w1 where r: "tts_streaming_engine_resume (e, world s) = (True, e1, w1)"
    using assms(3) by (cases "tts_streaming_engine_resume (e, world s)") (auto simp: tts_streaming_engine_resume_def split: prod.splits)
  let ?s1 = "s\<lparr>ctl := (ctl s)\<lparr>streaming_engine := Some e1\<rparr>, world := w1\<rparr>"
  have on: "on_engine tts_streaming_engine_resume s = (True, ?s1)" by (simp add: on_engine_def assms(2) r)
  let ?s2 = "upd_ctl (\<lambda>c. c\<lparr>current_page := - 1, current_segment := - 1\<rparr>) ?s1"
  obtain e3 w3 where st: "tts_streaming_engine_stop env (e1, w1) = (True, e3, w3)"
    using stop_succeeds [of env "(e1, w1)"] by (cases "tts_streaming_engine_stop env (e1, w1)") auto
  have idle: "stream_state e3 = TTS_STREAMING_STATE_IDLE"
    using stream_inv_stop [of "(e1, w1)" env] stream_inv_resume [of "(e, world s)"] assms(4) r st
    by (simp add: engine_idle_def)
  have stopped: "stop_streaming_session env ?s2 = ?s2\<lparr>ctl := (ctl ?s2)\<lparr>streaming_engine := Some e3\<rparr>, world := w3\<rparr>"
    by (simp add: stop_streaming_session_def st)
  have "\<exists>c. controller_schedule (0 # replicate 10 1 @ replicate 6 0) (controller_init (two_callers [Resume_Session] [Stop_Session env]) s) = Some c \<and>
     (\<forall>t. program c t = Return ()) \<and> audio_state (ctl (shared c)) = TTS_AUDIO_STATE_PLAYING \<and>
     streaming_engine (ctl (shared c)) = Some e3"
    using assms(1,5) on stopped
    by (simp add: numeral_eq_Suc controller_init_def two_callers_def resume_session_prog_def stop_session_prog_def run_controller
        valid_transition_def)
  then show ?thesis using controller_schedule_reachable [OF controller_start] idle by fastforce
qed

text \<open>
  The four wrappers are there for callers that want the mutex around several calls. It is not recursive: the first call of
  the controller between them waits for ever.
\<close>

lemma wrapped_call_never_returns:
  assumes "c \<in> {Get_State, Set_State st, Stop_Session env, Get_Current_Page, Get_Current_Segment, Get_Speed, Get_Volume, Set_Callback cb}"
  shows "alone (bind_prog tts_audio_controller_lock (\<lambda>u. bind_prog (call_prog c) (\<lambda>v. tts_audio_controller_unlock))) False s = None"
    "alone (bind_prog tts_audio_controller_lock (\<lambda>u. bind_prog tts_audio_controller_signal_state_change
       (\<lambda>v. tts_audio_controller_unlock))) False s = Some ((), False, s)"
  using assms
  by (auto simp: alone_bind tts_audio_controller_lock_def tts_audio_controller_unlock_def tts_audio_controller_signal_state_change_def
      drop_result_def get_state_prog_def set_state_prog_def stop_session_prog_def get_current_page_prog_def
      get_current_segment_prog_def get_speed_prog_def get_volume_prog_def set_callback_prog_def)

end
