(* ===== verification/Old_Engine.thy ===== *)
theory Old_Engine
  imports Engine_Commands Config_File
begin

text \<open>
  The engines of \<^verbatim>\<open>tts-engine-old.c\<close>, the one file that \<^verbatim>\<open>tts-engine.c\<close> and the files of the three engines were made
  from and that no build file names. All its functions but those below have the text of their successors, whose
  definitions are those of \<open>Speech_Engines\<close> and \<open>Tts_Engine\<close>; here are the eight that changed, as tables of operations, and what
  the change was about: the command lines with rate, volume and pitch, the lists of voices read from the commands, and a
  stop that waits for a child it may have stopped before.
\<close>

subsection \<open>Ending and stopping speech\<close>

definition old_end_speech :: "engine_env \<Rightarrow> 'a process_data_scheme \<Rightarrow> os \<Rightarrow> ('a process_data_scheme \<times> os) option" where
  "old_end_speech env d w =
     (if current_process d > 0
      then map_option (\<lambda>w1. (d\<lparr>current_process := 0\<rparr>, w1)) (term_and_wait (obeys_term env) (current_process d) w)
      else Some (d, w))"

definition old_stop_child :: "engine_env \<Rightarrow> 'a process_data_scheme tts_engine \<Rightarrow> os \<Rightarrow> 'a process_data_scheme engine_result" where
  "old_stop_child env e w = with_data e w (\<lambda>d.
     let idle = (\<lambda>d w1. Some (True, ZATHURA_ERROR_OK,
           (put_data (d\<lparr>is_speaking := False, child_paused := False\<rparr>) e)\<lparr>engine_state := TTS_ENGINE_STATE_IDLE\<rparr>, w1))
     in if current_process d > 0 then
          (case kill_child (obeys_term env) (current_process d) Sig_Term w of
             (sent, w1) \<Rightarrow>
               if sent then
                 (case wait_child (current_process d) w1 of
                    None \<Rightarrow> None
                  | Some w2 \<Rightarrow> idle (d\<lparr>current_process := 0\<rparr>) w2)
               else idle d w1)
        else idle d w)"

subsection \<open>Piper\<close>

definition old_piper_engine_speak :: "engine_env \<Rightarrow> string \<Rightarrow> piper_engine_data tts_engine \<Rightarrow> os \<Rightarrow>
  piper_engine_data engine_result" where
  "old_piper_engine_speak env text e w = with_data e w (\<lambda>d.
     case old_end_speech env d w of
       None \<Rightarrow> None
     | Some (d1, w1) \<Rightarrow>
         (case model_path d1 of
            None \<Rightarrow> Some (False, ZATHURA_ERROR_UNKNOWN, put_data d1 e, w1)
          | Some model \<Rightarrow>
              if file_exists env model then start_speech env (piper_command env (limited_text text) model) d1 e w1
              else Some (False, ZATHURA_ERROR_UNKNOWN, put_data d1 e, w1)))"

subsection \<open>Parameters of the commands\<close>

text \<open>\<^verbatim>\<open>CLAMP\<close>, and the operations on \<^verbatim>\<open>float\<close> with a constant, rounded each; they keep what is not finite.\<close>

definition clamp :: "int \<Rightarrow> int \<Rightarrow> int \<Rightarrow> int" where
  "clamp x low high = (if x > high then high else if x < low then low else x)"

definition float_op :: "(rat \<Rightarrow> rat) \<Rightarrow> c_float \<Rightarrow> c_float" where
  "float_op f x = (case x of Fin r \<Rightarrow> double_to_float (Fin (f r)) | _ \<Rightarrow> x)"

text \<open>The constant \<^verbatim>\<open>0.8f\<close>.\<close>

definition point_eight :: rat where
  "point_eight = 13421773 / 16777216"

definition spd_rate :: "c_float \<Rightarrow> int" where
  "spd_rate speed = clamp (float_to_int (float_op (\<lambda>r. r * 100) (float_op (\<lambda>r. r - 1) speed))) (- 100) 100"

definition spd_volume :: "int \<Rightarrow> int" where
  "spd_volume volume =
     clamp (float_to_int (float_op (\<lambda>r. r * 125) (float_op (\<lambda>r. r - point_eight) (float_op (\<lambda>r. r / 100)
       (double_to_float (Fin (of_int volume))))))) (- 100) 100"

definition old_spd_command :: "tts_engine_config \<Rightarrow> string option \<Rightarrow> string \<Rightarrow> string" where
  "old_spd_command config voice text =
     ''spd-say'' @
     (if \<not> fl_eq (cfg_speed config) (Fin 1) then '' --rate '' @ fmt_int (spd_rate (cfg_speed config)) else []) @
     (if cfg_volume config \<noteq> 80 then '' --volume '' @ fmt_int (spd_volume (cfg_volume config)) else []) @
     (if cfg_pitch config \<noteq> 0 then '' --pitch '' @ fmt_int (clamp (cfg_pitch config) (- 100) 100) else []) @
     (case voice of None \<Rightarrow> [] | Some v \<Rightarrow> '' --synthesis-voice '' @ in_apostrophes v) @
     '' '' @ in_apostrophes text"

text \<open>The products and sums of integers are taken to fit in an \<^verbatim>\<open>int\<close>.\<close>

definition old_espeak_command :: "tts_engine_config \<Rightarrow> string option \<Rightarrow> string \<Rightarrow> string" where
  "old_espeak_command config voice text =
     ''espeak-ng'' @
     (if \<not> fl_eq (cfg_speed config) (Fin 1) then '' -s '' @ fmt_int (clamp (espeak_speed (cfg_speed config)) 80 450) else []) @
     (if cfg_volume config \<noteq> 80 then '' -a '' @ fmt_int (clamp (cfg_volume config * 2) 0 200) else []) @
     (if cfg_pitch config \<noteq> 0 then '' -p '' @ fmt_int (clamp (50 + cfg_pitch config) 0 99) else []) @
     (case voice of None \<Rightarrow> [] | Some v \<Rightarrow> '' -v '' @ in_apostrophes v) @
     '' '' @ in_apostrophes text"

subsection \<open>Speech Dispatcher and espeak-ng\<close>

definition old_spd_engine_speak :: "engine_env \<Rightarrow> string \<Rightarrow> speech_dispatcher_engine_data tts_engine \<Rightarrow> os \<Rightarrow>
  speech_dispatcher_engine_data engine_result" where
  "old_spd_engine_speak env text e w = with_data e w (\<lambda>d.
     case old_end_speech env d w of
       None \<Rightarrow> None
     | Some (d1, w1) \<Rightarrow> start_speech env (old_spd_command (engine_config e) (spd_voice d1) text) d1 e w1)"

definition old_spd_engine_stop :: "engine_env \<Rightarrow> speech_dispatcher_engine_data tts_engine \<Rightarrow> os \<Rightarrow>
  speech_dispatcher_engine_data engine_result" where
  "old_spd_engine_stop env e w = old_stop_child env e w"

definition old_spd_engine_set_config :: "tts_engine_config \<Rightarrow> speech_dispatcher_engine_data tts_engine \<Rightarrow> os \<Rightarrow>
  speech_dispatcher_engine_data engine_result" where
  "old_spd_engine_set_config config e w = with_data e w (\<lambda>d.
     let d1 = (case cfg_voice_name config of None \<Rightarrow> d | Some v \<Rightarrow> d\<lparr>spd_voice := Some v\<rparr>)
     in Some (True, ZATHURA_ERROR_OK, (put_data d1 e)\<lparr>engine_config := config\<rparr>, w))"

definition old_espeak_engine_speak :: "engine_env \<Rightarrow> string \<Rightarrow> espeak_engine_data tts_engine \<Rightarrow> os \<Rightarrow>
  espeak_engine_data engine_result" where
  "old_espeak_engine_speak env text e w = with_data e w (\<lambda>d.
     case old_end_speech env d w of
       None \<Rightarrow> None
     | Some (d1, w1) \<Rightarrow> start_speech env (old_espeak_command (engine_config e) (espeak_voice d1) text) d1 e w1)"

definition old_espeak_engine_stop :: "engine_env \<Rightarrow> espeak_engine_data tts_engine \<Rightarrow> os \<Rightarrow> espeak_engine_data engine_result" where
  "old_espeak_engine_stop env e w = old_stop_child env e w"

definition old_espeak_engine_set_config :: "tts_engine_config \<Rightarrow> espeak_engine_data tts_engine \<Rightarrow> os \<Rightarrow>
  espeak_engine_data engine_result" where
  "old_espeak_engine_set_config config e w = with_data e w (\<lambda>d.
     let d1 = (case cfg_voice_name config of None \<Rightarrow> d | Some v \<Rightarrow> d\<lparr>espeak_voice := Some v\<rparr>)
     in Some (True, ZATHURA_ERROR_OK, (put_data d1 e)\<lparr>engine_config := config\<rparr>, w))"

subsection \<open>Voices\<close>

text \<open>The output of a command as \<^verbatim>\<open>fgets\<close> reads it, with room for \<open>n\<close> bytes; a piece is a string up to its first NUL.\<close>

function fgets_pieces :: "nat \<Rightarrow> string \<Rightarrow> string list" where
  "fgets_pieces n s =
     (if s = [] then [] else case read_line (Suc n) s of (l, rest) \<Rightarrow> l # fgets_pieces n rest)"
  by pat_completeness auto

termination
  by (relation "measure (\<lambda>(n, s). length s)") (auto dest!: sym [of "(_, _)"] read_line_progress)

declare fgets_pieces.simps [simp del]

definition c_str :: "string \<Rightarrow> string" where
  "c_str s = takeWhile (\<lambda>c. c \<noteq> CHR 0x00) s"

text \<open>\<^verbatim>\<open>strtok\<close>: the next token, and where it goes on, behind the separator that ended it.\<close>

definition strtok :: "string \<Rightarrow> string \<Rightarrow> string option \<times> string" where
  "strtok delims s =
     (let s1 = dropWhile (\<lambda>c. c \<in> set delims) s
      in if s1 = [] then (None, [])
         else (Some (takeWhile (\<lambda>c. c \<notin> set delims) s1), drop 1 (dropWhile (\<lambda>c. c \<notin> set delims) s1)))"

definition old_spd_voice :: "string \<Rightarrow> tts_voice_info option" where
  "old_spd_voice line =
     (case strtok [CHR '' '', CHR 0x09, CHR 0x0A] (c_str line) of
        (name, r1) \<Rightarrow>
          (case strtok [CHR '' '', CHR 0x09, CHR 0x0A] r1 of
             (language, r2) \<Rightarrow>
               (case strtok [CHR '' '', CHR 0x09, CHR 0x0A] r2 of
                  (gender, r3) \<Rightarrow>
                    (case name of
                       None \<Rightarrow> None
                     | Some n \<Rightarrow> tts_voice_info_new (Some n)
                         (Some (case language of None \<Rightarrow> ''unknown'' | Some l \<Rightarrow> l))
                         (Some (case gender of None \<Rightarrow> ''neutral'' | Some g \<Rightarrow> g)) 70))))"

definition old_spd_default_voices :: "string list" where
  "old_spd_default_voices =
     [''male1'', ''male2'', ''male3'', ''female1'', ''female2'', ''female3'', ''child_male'', ''child_female'']"

text \<open>\<open>listing\<close> is the output of \<^verbatim>\<open>spd-say --list-synthesis-voices\<close>, if it could be started.\<close>

definition old_spd_engine_get_voices :: "string option \<Rightarrow> speech_dispatcher_engine_data tts_engine \<Rightarrow>
  tts_voice_info list option \<times> zathura_error \<times> speech_dispatcher_engine_data tts_engine" where
  "old_spd_engine_get_voices listing e =
     (case engine_data e of
        None \<Rightarrow> (None, ZATHURA_ERROR_INVALID_ARGUMENTS, e)
      | Some d \<Rightarrow>
          (case spd_voices d of
             Some voices \<Rightarrow> (Some voices, ZATHURA_ERROR_OK, e)
           | None \<Rightarrow>
               let listed = (case listing of
                     None \<Rightarrow> []
                   | Some out \<Rightarrow> List.map_filter old_spd_voice (fgets_pieces 254 out));
                   voices = (if length listed = 0
                     then List.map_filter (\<lambda>v. tts_voice_info_new (Some v) (Some ''en'')
                            (Some (if strstr v ''female'' then ''female'' else if strstr v ''male'' then ''male'' else ''neutral'')) 65)
                            old_spd_default_voices
                     else listed)
               in (Some voices, ZATHURA_ERROR_OK, put_data (d\<lparr>spd_voices := Some voices\<rparr>) e)))"

definition old_espeak_voice :: "string \<Rightarrow> tts_voice_info option" where
  "old_espeak_voice line =
     (case strtok [CHR '' '', CHR 0x09] (c_str line) of
        (priority, r1) \<Rightarrow>
          (case strtok [CHR '' '', CHR 0x09] r1 of
             (language, r2) \<Rightarrow>
               (case strtok [CHR '' '', CHR 0x09] r2 of
                  (age_gender, r3) \<Rightarrow>
                    (case strtok [CHR '' '', CHR 0x09] r3 of
                       (name, r4) \<Rightarrow>
                         if name \<noteq> None \<and> language \<noteq> None then
                           tts_voice_info_new name language
                             (Some (case age_gender of
                                None \<Rightarrow> ''neutral''
                              | Some g \<Rightarrow> if strstr g ''M'' then ''male'' else if strstr g ''F'' then ''female'' else ''neutral'')) 60
                         else None))))"

definition old_espeak_default_voices :: "(string \<times> string \<times> string) list" where
  "old_espeak_default_voices =
     [(''en'', ''en'', ''neutral''), (''en-us'', ''en-US'', ''neutral''), (''en-gb'', ''en-GB'', ''neutral''),
      (''de'', ''de'', ''neutral''), (''fr'', ''fr'', ''neutral''), (''es'', ''es'', ''neutral''), (''it'', ''it'', ''neutral''),
      (''pt'', ''pt'', ''neutral'')]"

text \<open>The first piece is taken for the header.\<close>

definition old_espeak_engine_get_voices :: "string option \<Rightarrow> espeak_engine_data tts_engine \<Rightarrow>
  tts_voice_info list option \<times> zathura_error \<times> espeak_engine_data tts_engine" where
  "old_espeak_engine_get_voices listing e =
     (case engine_data e of
        None \<Rightarrow> (None, ZATHURA_ERROR_INVALID_ARGUMENTS, e)
      | Some d \<Rightarrow>
          (case espeak_voices d of
             Some voices \<Rightarrow> (Some voices, ZATHURA_ERROR_OK, e)
           | None \<Rightarrow>
               let listed = (case listing of
                     None \<Rightarrow> []
                   | Some out \<Rightarrow> List.map_filter old_espeak_voice (drop 1 (fgets_pieces 510 out)));
                   voices = (if length listed = 0
                     then List.map_filter (\<lambda>(name, language, gender). tts_voice_info_new (Some name) (Some language) (Some gender) 55)
                            old_espeak_default_voices
                     else listed)
               in (Some voices, ZATHURA_ERROR_OK, put_data (d\<lparr>espeak_voices := Some voices\<rparr>) e)))"

subsection \<open>The tables\<close>

definition old_piper_functions :: "piper_engine_data tts_engine_functions" where
  "old_piper_functions = piper_functions\<lparr>fn_speak := Some old_piper_engine_speak\<rparr>"

definition old_spd_functions :: "string option \<Rightarrow> speech_dispatcher_engine_data tts_engine_functions" where
  "old_spd_functions listing = speech_dispatcher_functions\<lparr>fn_speak := Some old_spd_engine_speak, fn_stop := Some old_spd_engine_stop,
     fn_set_config := Some (\<lambda>env. old_spd_engine_set_config),
     fn_get_voices := Some (\<lambda>env e w. case old_spd_engine_get_voices listing e of (vs, err, e') \<Rightarrow> (vs, err, e', w))\<rparr>"

definition old_espeak_functions :: "string option \<Rightarrow> espeak_engine_data tts_engine_functions" where
  "old_espeak_functions listing = espeak_functions\<lparr>fn_speak := Some old_espeak_engine_speak, fn_stop := Some old_espeak_engine_stop,
     fn_set_config := Some (\<lambda>env. old_espeak_engine_set_config),
     fn_get_voices := Some (\<lambda>env e w. case old_espeak_engine_get_voices listing e of (vs, err, e') \<Rightarrow> (vs, err, e', w))\<rparr>"

subsection \<open>Children of the old engines\<close>

lemma old_end_speech_cases:
  assumes "tracks others (current_process d) (child_paused d) w"
  shows "old_end_speech env d w = None \<longleftrightarrow> (\<exists>pending. procs w (current_process d) = Some (Child_Stopped pending))"
    and "old_end_speech env d w = Some (d1, w1) \<Longrightarrow> current_process d1 = 0 \<and> tracks others 0 (child_paused d1) w1"
proof -
  consider "0 < current_process d" | "current_process d = 0" using owner_pid [OF assms] by linarith
  then show "old_end_speech env d w = None \<longleftrightarrow> (\<exists>pending. procs w (current_process d) = Some (Child_Stopped pending))"
  proof cases
    case 1
    then show ?thesis using term_and_wait_child(1) [OF assms 1] by (simp add: old_end_speech_def)
  next
    case 2
    then have "procs w 0 = None" using assms by (auto simp: tracks_def os_ok_def)
    then show ?thesis using 2 by (simp add: old_end_speech_def)
  qed
  show "current_process d1 = 0 \<and> tracks others 0 (child_paused d1) w1" if "old_end_speech env d w = Some (d1, w1)"
    using that assms term_and_wait_child(2) [OF assms] owner_pid [OF assms]
    by (auto simp: old_end_speech_def tracks_def split: if_splits)
qed

lemma old_restart_owner:
  assumes "tracks others (current_process d) (child_paused d) w" "old_end_speech env d w = Some (d1, w1)"
    "start_speech env command d1 e w1 = Some (ok, err, e', w')"
  shows "owner others e' w' \<and> (ok \<longrightarrow> engine_speaking others e' w') \<and> (\<not> ok \<longrightarrow> procs w' = others)"
  using start_speech_owner [OF _ _ assms(3)] old_end_speech_cases(2) [OF assms(1,2)] by blast

lemma old_give_up_owner:
  assumes "tracks others (current_process d) (child_paused d) w" "old_end_speech env d w = Some (d1, w1)"
  shows "owner others (put_data d1 e) w1" "procs w1 = others"
  using old_end_speech_cases(2) [OF assms] by (auto simp: owner_def put_data_def tracks_def)

text \<open>What the three ways of speaking have in common.\<close>

definition speaks_old :: "(engine_env \<Rightarrow> string \<Rightarrow> 'a process_data_scheme tts_engine \<Rightarrow> os \<Rightarrow> 'a process_data_scheme engine_result) \<Rightarrow> bool" where
  "speaks_old speak \<longleftrightarrow> (\<forall>others env t e w. owner others e w \<longrightarrow>
     (speak env t e w = None \<longleftrightarrow> child_stopped e w) \<and>
     (\<forall>ok err e' w'. speak env t e w = Some (ok, err, e', w') \<longrightarrow>
        owner others e' w' \<and> (ok \<longrightarrow> engine_speaking others e' w') \<and> (\<not> ok \<longrightarrow> procs w' = others)))"

lemma speaks_oldI:
  fixes speak :: "engine_env \<Rightarrow> string \<Rightarrow> 'a process_data_scheme tts_engine \<Rightarrow> os \<Rightarrow> 'a process_data_scheme engine_result"
  assumes "\<And>env t e w d. engine_data e = Some d \<Longrightarrow> speak env t e w =
      (case old_end_speech env d w of
         None \<Rightarrow> None
       | Some (d1, w1) \<Rightarrow>
           if gives_up env d1 then Some (False, ZATHURA_ERROR_UNKNOWN, put_data d1 e, w1)
           else start_speech env (command env t (engine_config e) d1) d1 e w1)"
  shows "speaks_old speak"
  unfolding speaks_old_def
proof (intro allI impI)
  fix others env t w and e :: "'a process_data_scheme tts_engine"
  assume "owner others e w"
  then obtain d where d: "engine_data e = Some d" "tracks others (current_process d) (child_paused d) w"
    by (auto simp: owner_def)
  note c = old_end_speech_cases [OF d(2), of env]
  have returns: "start_speech env x d1 e w1 \<noteq> None" for x d1 w1 using start_speech_returns by fastforce
  have "(speak env t e w = None) = (old_end_speech env d w = None)"
    using returns by (auto simp: assms [OF d(1)] split: option.splits)
  moreover have "child_stopped e w \<longleftrightarrow> (\<exists>pending. procs w (current_process d) = Some (Child_Stopped pending))"
    by (simp add: child_stopped_def d(1) split: option.split child_state.split)
  moreover have "owner others e' w' \<and> (ok \<longrightarrow> engine_speaking others e' w') \<and> (\<not> ok \<longrightarrow> procs w' = others)"
    if s: "speak env t e w = Some (ok, err, e', w')" for ok err e' w'
  proof -
    obtain d1 w1 where x: "old_end_speech env d w = Some (d1, w1)" using s by (auto simp: assms [OF d(1)] split: option.splits)
    show ?thesis
      using s old_restart_owner [OF d(2) x] old_give_up_owner [OF d(2) x] by (auto simp: assms [OF d(1)] x split: if_splits)
  qed
  ultimately show "(speak env t e w = None \<longleftrightarrow> child_stopped e w) \<and>
     (\<forall>ok err e' w'. speak env t e w = Some (ok, err, e', w') \<longrightarrow>
        owner others e' w' \<and> (ok \<longrightarrow> engine_speaking others e' w') \<and> (\<not> ok \<longrightarrow> procs w' = others))"
    using c(1) by simp
qed

lemma old_speaks:
  "speaks_old old_piper_engine_speak" "speaks_old old_spd_engine_speak" "speaks_old old_espeak_engine_speak"
proof -
  show "speaks_old old_piper_engine_speak"
    by (rule speaks_oldI [where gives_up = "\<lambda>env d. case model_path d of None \<Rightarrow> True | Some m \<Rightarrow> \<not> file_exists env m"
          and command = "\<lambda>env t c d. piper_command env (limited_text t) (the (model_path d))"])
      (simp add: old_piper_engine_speak_def with_data_def split: option.split)
  show "speaks_old old_spd_engine_speak"
    by (rule speaks_oldI [where gives_up = "\<lambda>env d. False" and command = "\<lambda>env t c d. old_spd_command c (spd_voice d) t"])
      (simp add: old_spd_engine_speak_def with_data_def split: option.split)
  show "speaks_old old_espeak_engine_speak"
    by (rule speaks_oldI [where gives_up = "\<lambda>env d. False" and command = "\<lambda>env t c d. old_espeak_command c (espeak_voice d) t"])
      (simp add: old_espeak_engine_speak_def with_data_def split: option.split)
qed

lemma speaks_oldD:
  "speaks_old speak \<Longrightarrow> owner others e w \<Longrightarrow> speak env t e w = None \<longleftrightarrow> child_stopped e w"
  "speaks_old speak \<Longrightarrow> owner others e w \<Longrightarrow> speak env t e w = Some (ok, err, e', w') \<Longrightarrow>
   owner others e' w' \<and> (ok \<longrightarrow> engine_speaking others e' w') \<and> (\<not> ok \<longrightarrow> procs w' = others)"
  unfolding speaks_old_def by blast+

lemma old_stop_cases:
  assumes "owner others e w"
  shows "old_stop_child env e w = None \<longleftrightarrow> child_stopped e w"
    and "old_stop_child env e w = Some (ok, err, e', w') \<Longrightarrow> ok \<and> engine_silent others e' w'"
proof -
  obtain d where d: "engine_data e = Some d" "tracks others (current_process d) (child_paused d) w"
    using assms by (auto simp: owner_def)
  have stopped: "child_stopped e w \<longleftrightarrow> (\<exists>pending. procs w (current_process d) = Some (Child_Stopped pending))"
    by (simp add: child_stopped_def d(1) split: option.split child_state.split)
  have eq: "old_stop_child env e w =
      map_option (\<lambda>(d1, w1). (True, ZATHURA_ERROR_OK,
        (put_data (d1\<lparr>is_speaking := False, child_paused := False\<rparr>) e)\<lparr>engine_state := TTS_ENGINE_STATE_IDLE\<rparr>, w1))
      (old_end_speech env d w)"
  proof (cases "0 < current_process d")
    case True
    obtain s where s: "procs w = others(current_process d \<mapsto> s)" using tracks_child [OF d(2) True] by blast
    show ?thesis
      using True by (simp add: old_stop_child_def old_end_speech_def with_data_def d(1) term_and_wait_def kill_child_of [OF s]
          split: option.split)
  qed (simp add: old_stop_child_def old_end_speech_def with_data_def d(1))
  show "old_stop_child env e w = None \<longleftrightarrow> child_stopped e w"
    using old_end_speech_cases(1) [OF d(2), of env] by (simp add: eq stopped)
  show "ok \<and> engine_silent others e' w'" if "old_stop_child env e w = Some (ok, err, e', w')"
    using that old_end_speech_cases(2) [OF d(2), of env]
    by (auto simp: eq engine_silent_def put_data_def tracks_idle)
qed

interpretation old_piper: speech_engine old_piper_functions old_piper_engine_speak piper_engine_pause piper_engine_stop
  piper_engine_set_config piper_engine_get_state
proof unfold_locales
  show "owner others e' w' \<and> (ok \<longrightarrow> engine_speaking others e' w') \<and> (\<not> ok \<longrightarrow> procs w' = others)"
    if "owner others e w" "old_piper_engine_speak env t e w = Some (ok, err, e', w')" for others e w env t ok err e' w'
    using speaks_oldD(2) [OF old_speaks(1) that] .
qed (simp add: old_piper_functions_def piper_functions_def | rule piper.pause_owner piper.stop_owner piper.stop_silent
    piper.config_owner piper.state_owner; assumption)+

interpretation old_spd: child_owner_engine "old_spd_functions listing" old_spd_engine_speak speech_dispatcher_engine_pause
  old_spd_engine_stop "\<lambda>env. old_spd_engine_set_config" speech_dispatcher_engine_get_state for listing
proof unfold_locales
  show "owner others e' w' \<and> (ok \<longrightarrow> engine_speaking others e' w') \<and> (\<not> ok \<longrightarrow> procs w' = others)"
    if "owner others e w" "old_spd_engine_speak env t e w = Some (ok, err, e', w')" for others e w env t ok err e' w'
    using speaks_oldD(2) [OF old_speaks(2) that] .
  show "\<exists>e'. old_spd_engine_set_config c e w = Some (True, ZATHURA_ERROR_OK, e', w) \<and> owner others e' w"
    if "owner others e w" for others e w c
    using that by (auto simp: old_spd_engine_set_config_def with_data_def owner_def put_data_def Let_def split: option.split)
qed (simp add: old_spd_functions_def speech_dispatcher_functions_def | (unfold old_spd_engine_stop_def, erule (1) old_stop_cases(2))
    | rule spd.pause_owner spd.state_owner; assumption)+

interpretation old_espeak: child_owner_engine "old_espeak_functions listing" old_espeak_engine_speak espeak_engine_pause
  old_espeak_engine_stop "\<lambda>env. old_espeak_engine_set_config" espeak_engine_get_state for listing
proof unfold_locales
  show "owner others e' w' \<and> (ok \<longrightarrow> engine_speaking others e' w') \<and> (\<not> ok \<longrightarrow> procs w' = others)"
    if "owner others e w" "old_espeak_engine_speak env t e w = Some (ok, err, e', w')" for others e w env t ok err e' w'
    using speaks_oldD(2) [OF old_speaks(3) that] .
  show "\<exists>e'. old_espeak_engine_set_config c e w = Some (True, ZATHURA_ERROR_OK, e', w) \<and> owner others e' w"
    if "owner others e w" for others e w c
    using that by (auto simp: old_espeak_engine_set_config_def with_data_def owner_def put_data_def Let_def split: option.split)
qed (simp add: old_espeak_functions_def espeak_functions_def | (unfold old_espeak_engine_stop_def, erule (1) old_stop_cases(2))
    | rule espeak.pause_owner espeak.state_owner; assumption)+

text \<open>
  The contract that is left where speaking and stopping wait for a child that may be stopped: what returns, is right.
\<close>

definition waiting_contract :: "'a process_data_scheme tts_engine_functions \<Rightarrow> bool" where
  "waiting_contract functions \<longleftrightarrow>
     (\<forall>others e w ops e1 w1 env t. owner others e w \<longrightarrow> engine_run functions ops (e, w) = Some (e1, w1) \<longrightarrow>
        owner others e1 w1 \<and>
        (tts_engine_speak functions env (Some e1) (Some t) w1 = None \<longleftrightarrow> child_stopped e1 w1) \<and>
        (tts_engine_stop functions env (Some e1) w1 = None \<longleftrightarrow> child_stopped e1 w1) \<and>
        (\<forall>ok err e2 w2. tts_engine_speak functions env (Some e1) (Some t) w1 = Some (ok, err, Some e2, w2) \<longrightarrow>
           (if ok then engine_speaking others e2 w2 else procs w2 = others)) \<and>
        (\<forall>ok err e2 w2. tts_engine_stop functions env (Some e1) w1 = Some (ok, err, Some e2, w2) \<longrightarrow> ok \<and> engine_silent others e2 w2))"

context child_owner_engine
begin

lemma waiting:
  assumes "\<And>others env t e w. owner others e w \<Longrightarrow> speak env t e w = None \<longleftrightarrow> child_stopped e w"
    and "\<And>others env e w. owner others e w \<Longrightarrow> stop env e w = None \<longleftrightarrow> child_stopped e w"
  shows "waiting_contract vtable"
  unfolding waiting_contract_def
proof (intro allI impI conjI)
  fix others e w ops e1 w1 env t
  assume o: "owner others e w" and r: "engine_run vtable ops (e, w) = Some (e1, w1)"
  note o1 = run_owner [OF o r]
  show "owner others e1 w1" by (rule o1)
  show "tts_engine_speak vtable env (Some e1) (Some t) w1 = None \<longleftrightarrow> child_stopped e1 w1"
    by (simp add: tts_engine_speak_def through_table_def table assms(1) [OF o1])
  show "tts_engine_stop vtable env (Some e1) w1 = None \<longleftrightarrow> child_stopped e1 w1"
    by (simp add: tts_engine_stop_def through_table_def table assms(2) [OF o1])
  fix ok err e2 w2
  show "if ok then engine_speaking others e2 w2 else procs w2 = others"
    if "tts_engine_speak vtable env (Some e1) (Some t) w1 = Some (ok, err, Some e2, w2)"
    using speak_after_run [OF o r that] by simp
  assume "tts_engine_stop vtable env (Some e1) w1 = Some (ok, err, Some e2, w2)"
  from stop_call_after_run [OF o r this] show ok "engine_silent others e2 w2" by blast+
qed

end

lemma waiting_contract_stop:
  "waiting_contract functions \<Longrightarrow> owner others e w \<Longrightarrow> engine_run functions ops (e, w) = Some (e1, w1) \<Longrightarrow>
   tts_engine_stop functions env (Some e1) w1 = None \<longleftrightarrow> child_stopped e1 w1"
  unfolding waiting_contract_def by blast

text \<open>
  C29. The old engines, after any sequence of calls that returns: they own at most one child and leave those of others alone, as
  the present ones do; but speaking and stopping with the Speech Dispatcher and espeak-ng wait for ever exactly if the child is
  stopped, that is after a pause, and what returns has left one running child or none. For Piper only speaking does; its stop returns
  and leaves no child. (The present Piper and espeak-ng always return.)
\<close>

theorem old_engines_wait:
  "waiting_contract (old_spd_functions listing) \<and> waiting_contract (old_espeak_functions listing) \<and>
   one_child_contract old_piper_functions \<and>
   (owner others e w \<longrightarrow> (old_piper_engine_speak env t e w = None \<longleftrightarrow> child_stopped e w))"
proof (intro conjI impI)
  show "waiting_contract (old_spd_functions listing)"
    by (rule old_spd.waiting) (simp_all add: speaks_oldD(1) [OF old_speaks(2)] old_spd_engine_stop_def old_stop_cases(1))
  show "waiting_contract (old_espeak_functions listing)"
    by (rule old_espeak.waiting) (simp_all add: speaks_oldD(1) [OF old_speaks(3)] old_espeak_engine_stop_def old_stop_cases(1))
  have "fn_cleanup old_piper_functions = Some close_child" using cleanup_entries(1) by (simp add: old_piper_functions_def)
  then show "one_child_contract old_piper_functions" by (rule old_piper.contract)
  show "old_piper_engine_speak env t e w = None \<longleftrightarrow> child_stopped e w" if "owner others e w"
    by (rule speaks_oldD(1) [OF old_speaks(1) that])
qed

subsection \<open>The command lines\<close>

definition spd_options :: "tts_engine_config \<Rightarrow> string option \<Rightarrow> string list" where
  "spd_options c voice =
     (if \<not> fl_eq (cfg_speed c) (Fin 1) then [''--rate'', fmt_int (spd_rate (cfg_speed c))] else []) @
     (if cfg_volume c \<noteq> 80 then [''--volume'', fmt_int (spd_volume (cfg_volume c))] else []) @
     (if cfg_pitch c \<noteq> 0 then [''--pitch'', fmt_int (clamp (cfg_pitch c) (- 100) 100)] else []) @
     (case voice of None \<Rightarrow> [] | Some v \<Rightarrow> [''--synthesis-voice'', v])"

definition espeak_options :: "tts_engine_config \<Rightarrow> string option \<Rightarrow> string list" where
  "espeak_options c voice =
     (if \<not> fl_eq (cfg_speed c) (Fin 1) then [''-s'', fmt_int (clamp (espeak_speed (cfg_speed c)) 80 450)] else []) @
     (if cfg_volume c \<noteq> 80 then [''-a'', fmt_int (clamp (cfg_volume c * 2) 0 200)] else []) @
     (if cfg_pitch c \<noteq> 0 then [''-p'', fmt_int (clamp (50 + cfg_pitch c) 0 99)] else []) @
     (case voice of None \<Rightarrow> [] | Some v \<Rightarrow> [''-v'', v])"

text \<open>Voice and text as they are written; the other words are written as they are.\<close>

definition quoted_words :: "string option \<Rightarrow> string list \<Rightarrow> string \<Rightarrow> string list" where
  "quoted_words voice ws t =
     (case voice of None \<Rightarrow> ws | Some v \<Rightarrow> take (length ws - 1) ws @ [in_apostrophes v]) @ [in_apostrophes t]"

lemma old_commands_words:
  "old_spd_command c voice t = join_words (''spd-say'' # quoted_words voice (spd_options c voice) t)"
  "old_espeak_command c voice t = join_words (''espeak-ng'' # quoted_words voice (espeak_options c voice) t)"
  by (simp_all add: old_spd_command_def old_espeak_command_def quoted_words_def spd_options_def espeak_options_def
      split: option.split)

lemma plain_options [simp]:
  "shell_piece ''--rate'' ''--rate''" "shell_piece ''--volume'' ''--volume''" "shell_piece ''--pitch'' ''--pitch''"
  "shell_piece ''--synthesis-voice'' ''--synthesis-voice''" "shell_piece ''-a'' ''-a''" "shell_piece ''-p'' ''-p''"
  by (rule piece_plain; simp add: plain_char_def shell_chars)+

lemma clamp_range: "low \<le> high \<Longrightarrow> low \<le> clamp x low high \<and> clamp x low high \<le> high"
  by (simp add: clamp_def)


lemma old_engines_wait_witness:
  "\<exists>s w. engine_run (old_spd_functions None) [E_Speak sample_env ''hi'', E_Pause sample_env True] (sample_spd, sample_os) =
       Some (s, w) \<and>
     tts_engine_stop (old_spd_functions None) sample_env (Some s) w = None \<and>
     old_piper_engine_speak sample_env ''hi'' sample_piper sample_os \<noteq> None"
proof -
  have "g_shell_parse_argv (old_spd_command (engine_config sample_spd) None ''hi'') = Inr [''spd-say'', ''hi'']" by code_simp
  then have "spawn_command sample_env (old_spd_command (engine_config sample_spd) None ''hi'') sample_os =
      (Some 1, sample_os\<lparr>procs := [1 \<mapsto> Child_Running], next_pid := 2, spawned_argv := [[''spd-say'', ''hi'']]\<rparr>)"
    by (simp add: spawn_command_def sample_env_def sample_os_def)
  moreover have "engine_data sample_spd = Some \<lparr>current_process = 0, is_speaking = False, child_paused = False,
      spd_voice = None, spd_voices = None\<rparr>"
    by (simp add: sample_spd_def speech_dispatcher_engine_init_def put_data_def)
  ultimately obtain s w where x: "engine_run (old_spd_functions None) [E_Speak sample_env ''hi'', E_Pause sample_env True] (sample_spd, sample_os) =
      Some (s, w)" "child_stopped s w"
    by (simp add: keep_engine_def tts_engine_speak_def tts_engine_pause_def through_table_def old_spd_functions_def
        speech_dispatcher_functions_def old_spd_engine_speak_def old_end_speech_def speech_dispatcher_engine_pause_def with_data_def
        start_speech_def pause_child_def kill_child_def child_stopped_def put_data_def)
  have "\<not> child_stopped sample_piper sample_os" by (simp add: child_stopped_def sample_os_def split: option.split)
  moreover note old_engines_wait [where listing = None and others = "\<lambda>pid. None" and e = sample_piper and w = sample_os
      and env = sample_env and t = "''hi''"]
  ultimately show ?thesis
    using x sample_owners(1) waiting_contract_stop [OF _ sample_owners(2) x(1), of sample_env] by blast
qed


text \<open>Full volume becomes 24, not 25, since \<^verbatim>\<open>0.8f\<close> is above 0.8.\<close>

lemma full_volume_is_24: "spd_volume 100 = 24" "spd_volume 0 = - 100" "double_to_float (Fin (4 / 5)) = Fin point_eight"
  by code_simp+

subsection \<open>The lists of voices\<close>

text \<open>A word that \<^verbatim>\<open>strtok\<close> reads whole.\<close>

definition voice_word :: "string \<Rightarrow> bool" where
  "voice_word w \<longleftrightarrow> w \<noteq> [] \<and> set w \<inter> {CHR '' '', CHR 0x09, CHR 0x0A, CHR 0x00} = {}"

definition spd_line :: "string \<times> string \<times> string \<Rightarrow> string" where
  "spd_line v = (case v of (name, language, gender) \<Rightarrow> name @ '' '' @ language @ '' '' @ gender @ [CHR 0x0A])"

definition spd_line_ok :: "string \<times> string \<times> string \<Rightarrow> bool" where
  "spd_line_ok v \<longleftrightarrow> (case v of (name, language, gender) \<Rightarrow>
     voice_word name \<and> voice_word language \<and> voice_word gender \<and> length (spd_line v) \<le> 255)"

lemma read_line_in_room: "CHR 0x0A \<notin> set l \<Longrightarrow> length l < n \<Longrightarrow> read_line n (l @ CHR 0x0A # rest) = (l @ [CHR 0x0A], rest)"
proof (induction l arbitrary: n)
  case Nil
  then show ?case by (cases n) simp_all
next
  case (Cons c l)
  then show ?case by (cases n) auto
qed

lemma fgets_pieces_lines:
  "\<forall>l \<in> set ls. CHR 0x0A \<notin> set l \<and> length l \<le> n \<Longrightarrow> fgets_pieces n (concat (map (\<lambda>l. l @ [CHR 0x0A]) ls)) = map (\<lambda>l. l @ [CHR 0x0A]) ls"
  by (induction ls) (simp_all add: fgets_pieces.simps read_line_in_room)

lemma strtok_word:
  assumes "w \<noteq> []" "set w \<inter> set delims = {}" "d \<in> set delims"
  shows "strtok delims (w @ d # rest) = (Some w, rest)"
proof -
  have "dropWhile (\<lambda>c. c \<in> set delims) (w @ d # rest) = w @ d # rest" using assms(1,2) by (cases w) auto
  moreover have "takeWhile (\<lambda>c. c \<notin> set delims) (w @ d # rest) = w" "dropWhile (\<lambda>c. c \<notin> set delims) (w @ d # rest) = d # rest"
    using assms(2,3) by (subst takeWhile_append2 dropWhile_append2; auto)+
  ultimately show ?thesis by (simp add: strtok_def)
qed

lemma c_str_same: "CHR 0x00 \<notin> set s \<Longrightarrow> c_str s = s"
  unfolding c_str_def by (rule takeWhile_eq_all_conv [THEN iffD2]) auto

lemma old_spd_voice_line:
  assumes "spd_line_ok (name, language, gender)"
  shows "old_spd_voice (spd_line (name, language, gender)) =
    Some \<lparr>voice_name = name, voice_language = language, voice_gender = gender, voice_quality = 70\<rparr>"
proof -
  have w: "voice_word name" "voice_word language" "voice_word gender" using assms by (simp_all add: spd_line_ok_def)
  have "c_str (spd_line (name, language, gender)) = name @ CHR '' '' # language @ CHR '' '' # gender @ [CHR 0x0A]"
    using w by (subst c_str_same) (auto simp: spd_line_def voice_word_def)
  then show ?thesis
    using w by (auto simp: old_spd_voice_def voice_word_def strtok_word tts_voice_info_new_def)
qed

lemma spd_voices_read_back:
  assumes "vs \<noteq> []" "list_all spd_line_ok vs" "engine_data e = Some d" "spd_voices d = None"
  shows "fst (old_spd_engine_get_voices (Some (concat (map spd_line vs))) e) =
    Some (map (\<lambda>(name, language, gender). \<lparr>voice_name = name, voice_language = language, voice_gender = gender, voice_quality = 70\<rparr>) vs)"
proof -
  define body where "body v = (case v of (name, language, gender) \<Rightarrow> name @ '' '' @ language @ '' '' @ gender)"
    for v :: "string \<times> string \<times> string"
  have line: "spd_line v = body v @ [CHR 0x0A]" for v by (cases v) (simp add: spd_line_def body_def)
  have "\<forall>l \<in> set (map body vs). CHR 0x0A \<notin> set l \<and> length l \<le> 254"
    using assms(2) by (fastforce simp: list_all_iff spd_line_ok_def line body_def voice_word_def)
  moreover have "map spd_line vs = map (\<lambda>l. l @ [CHR 0x0A]) (map body vs)" by (simp add: line)
  ultimately have "fgets_pieces 254 (concat (map spd_line vs)) = map spd_line vs" using fgets_pieces_lines by metis
  moreover have "List.map_filter old_spd_voice (map spd_line vs) =
      map (\<lambda>(name, language, gender). \<lparr>voice_name = name, voice_language = language, voice_gender = gender, voice_quality = 70\<rparr>) vs"
    using assms(2) by (induction vs) (auto simp: List.map_filter_def old_spd_voice_line)
  ultimately show ?thesis using assms(1,3,4) by (simp add: old_spd_engine_get_voices_def Let_def)
qed

end
