(* ===== verification/Glib_Dirs.thy ===== *)
theory Glib_Dirs
  imports Config_File
begin

text \<open>
  The directory of the configuration file: \<^verbatim>\<open>g_path_get_dirname\<close> and \<^verbatim>\<open>g_mkdir_with_parents\<close> of \<^verbatim>\<open>gfileutils.c\<close> on
  a tree of directories and files, as the kernel's \<^verbatim>\<open>mkdir\<close>, \<^verbatim>\<open>access\<close> and \<^verbatim>\<open>stat\<close> see it, and saving the configuration with
  them. Paths are absolute and have no parts \<^verbatim>\<open>.\<close> and \<^verbatim>\<open>..\<close>; there are no links, every directory may be searched, and
  nobody else changes the tree meanwhile.
\<close>

subsection \<open>The tree\<close>

datatype node = Directory bool  \<comment> \<open>whether entries can be made in it\<close> | Plain_File

type_synonym tree = "string list \<Rightarrow> node option"

datatype errno = EINVAL | EEXIST | ENOENT | ENOTDIR | EACCES

lemma dropWhile_component_less:
  "dropWhile (\<lambda>c. c = d) s \<noteq> [] \<Longrightarrow> length (dropWhile (\<lambda>c. c \<noteq> d) (dropWhile (\<lambda>c. c = d) s)) < length s"
proof (induction s)
  case (Cons a s)
  then show ?case by (cases "a = d") (auto simp: less_Suc_eq_le length_dropWhile_le)
qed simp

function components :: "string \<Rightarrow> string list" where
  "components s =
     (let s1 = dropWhile (\<lambda>c. c = CHR ''/'') s
      in if s1 = [] then [] else takeWhile (\<lambda>c. c \<noteq> CHR ''/'') s1 # components (dropWhile (\<lambda>c. c \<noteq> CHR ''/'') s1))"
  by pat_completeness auto

termination
  by (relation "measure length") (auto simp: dropWhile_component_less)

declare components.simps [simp del]

text \<open>The kernel follows a path: every part but the last must be a directory.\<close>

fun follow :: "tree \<Rightarrow> string list \<Rightarrow> string list \<Rightarrow> errno option" where
  "follow t p [] = None"
| "follow t p (n # ns) =
     (case t p of
        None \<Rightarrow> Some ENOENT
      | Some Plain_File \<Rightarrow> Some ENOTDIR
      | Some (Directory w) \<Rightarrow> follow t (p @ [n]) ns)"

definition k_mkdir :: "tree \<Rightarrow> string \<Rightarrow> errno option \<times> tree" where
  "k_mkdir t path =
     (let ns = components path
      in case follow t [] ns of
           Some e \<Rightarrow> (Some e, t)
         | None \<Rightarrow>
             if t ns \<noteq> None then (Some EEXIST, t)
             else if t (butlast ns) \<noteq> Some (Directory True) then (Some EACCES, t)
             else (None, t(ns \<mapsto> Directory True)))"

text \<open>What a path leads to; a path that ends in a slash leads to a directory only.\<close>

definition k_stat :: "tree \<Rightarrow> string \<Rightarrow> node option" where
  "k_stat t path =
     (if follow t [] (components path) \<noteq> None then None
      else if path \<noteq> [] \<and> last path = CHR ''/'' \<and> t (components path) = Some Plain_File then None
      else t (components path))"

definition file_test_exists :: "tree \<Rightarrow> string \<Rightarrow> bool" where
  "file_test_exists t path \<longleftrightarrow> k_stat t path \<noteq> None"

definition file_test_is_dir :: "tree \<Rightarrow> string \<Rightarrow> bool" where
  "file_test_is_dir t path \<longleftrightarrow> (case k_stat t path of Some (Directory w) \<Rightarrow> True | _ \<Rightarrow> False)"

subsection \<open>The functions\<close>

text \<open>
  One round of the loop, on the path up to the next slash; \<open>final\<close> is whether there is no next one. The rounds: \<open>front\<close> is what is
  before the pointer.
\<close>

definition mkdir_round :: "tree \<Rightarrow> string \<Rightarrow> bool \<Rightarrow> errno option \<times> tree" where
  "mkdir_round t fn final =
     (if \<not> file_test_exists t fn then
        (case k_mkdir t fn of
           (None, t1) \<Rightarrow> (None, t1)
         | (Some e, t1) \<Rightarrow> if e \<noteq> EEXIST \<and> (e \<noteq> ENOENT \<or> final) then (Some e, t1) else (None, t1))
      else if \<not> file_test_is_dir t fn then (Some ENOTDIR, t)
      else (None, t))"

lemma behind_less:
  "dropWhile (\<lambda>c. c \<noteq> d) s \<noteq> [] \<Longrightarrow> length (dropWhile (\<lambda>c. c = d) (dropWhile (\<lambda>c. c \<noteq> d) s)) < length s"
proof (induction s)
  case (Cons a s)
  then show ?case by (cases "a = d") (auto simp: less_Suc_eq_le length_dropWhile_le)
qed simp

function mkdir_rounds :: "tree \<Rightarrow> string \<Rightarrow> string \<Rightarrow> errno option \<times> tree" where
  "mkdir_rounds t front rest =
     (let fn = front @ takeWhile (\<lambda>c. c \<noteq> CHR ''/'') rest;
          behind = dropWhile (\<lambda>c. c \<noteq> CHR ''/'') rest
      in case mkdir_round t fn (behind = []) of
           (Some e, t1) \<Rightarrow> (Some e, t1)
         | (None, t1) \<Rightarrow>
             if behind = [] then (None, t1)
             else mkdir_rounds t1 (fn @ takeWhile (\<lambda>c. c = CHR ''/'') behind) (dropWhile (\<lambda>c. c = CHR ''/'') behind))"
  by pat_completeness auto

termination
  by (relation "measure (\<lambda>(t, front, rest). length rest)") (auto simp: behind_less)

declare mkdir_rounds.simps [simp del]

definition g_mkdir_with_parents :: "tree \<Rightarrow> string option \<Rightarrow> errno option \<times> tree" where
  "g_mkdir_with_parents t pathname =
     (case pathname of
        None \<Rightarrow> (Some EINVAL, t)
      | Some path \<Rightarrow>
          if path = [] then (Some EINVAL, t)
          else (case k_mkdir t path of
                  (None, t1) \<Rightarrow> (None, t1)
                | (Some e, t1) \<Rightarrow>
                    if e = EEXIST then (if \<not> file_test_is_dir t1 path then (Some ENOTDIR, t1) else (None, t1))
                    else if hd path = CHR ''/''
                    then mkdir_rounds t1 (takeWhile (\<lambda>c. c = CHR ''/'') path) (dropWhile (\<lambda>c. c = CHR ''/'') path)
                    else mkdir_rounds t1 [] path))"

text \<open>\<open>up_to_slash\<close> is what \<^verbatim>\<open>strrchr\<close> finds, the slash included.\<close>

definition up_to_slash :: "string \<Rightarrow> string" where
  "up_to_slash s = rev (dropWhile (\<lambda>c. c \<noteq> CHR ''/'') (rev s))"

definition g_path_get_dirname :: "string \<Rightarrow> string" where
  "g_path_get_dirname file_name =
     (let base = up_to_slash file_name
      in if base = [] then ''.''
         else hd base # rev (dropWhile (\<lambda>c. c = CHR ''/'') (rev (tl base))))"

text \<open>Saving, with the directory made on the way.\<close>

definition save_config :: "char \<Rightarrow> tree \<Rightarrow> bool \<Rightarrow> files \<Rightarrow> tts_config option \<Rightarrow> string option \<Rightarrow> bool \<times> files \<times> tree" where
  "save_config point t fopen_ok fs config file_path =
     (case (config, file_path) of
        (Some c, Some path) \<Rightarrow>
          if \<not> fst (tts_config_validate point config) then (False, fs, t)
          else (case g_mkdir_with_parents t (Some (g_path_get_dirname path)) of
                  (err, t1) \<Rightarrow>
                    (case tts_config_save_to_file point (err = None) fopen_ok fs config file_path of (ok, fs1) \<Rightarrow> (ok, fs1, t1)))
      | _ \<Rightarrow> (False, fs, t))"

subsection \<open>What making a path comes to\<close>

definition is_dir :: "node option \<Rightarrow> bool" where
  "is_dir x \<longleftrightarrow> (case x of Some (Directory w) \<Rightarrow> True | _ \<Rightarrow> False)"

text \<open>Part after part: what is missing is made, what is no directory stops it.\<close>

fun ensure :: "tree \<Rightarrow> string list \<Rightarrow> string list \<Rightarrow> errno option \<times> tree" where
  "ensure t p [] = (None, t)"
| "ensure t p (n # ns) =
     (case t (p @ [n]) of
        Some Plain_File \<Rightarrow> (Some ENOTDIR, t)
      | Some (Directory w) \<Rightarrow> ensure t (p @ [n]) ns
      | None \<Rightarrow>
          if t p = Some (Directory True) then ensure (t(p @ [n] \<mapsto> Directory True)) (p @ [n]) ns
          else (Some EACCES, t))"

lemma is_dir_simps [simp]: "\<not> is_dir None" "is_dir (Some (Directory w))" "\<not> is_dir (Some Plain_File)"
  by (simp_all add: is_dir_def)

lemma is_dirE: "is_dir x \<Longrightarrow> (\<And>w. x = Some (Directory w) \<Longrightarrow> P) \<Longrightarrow> P"
  by (auto simp: is_dir_def split: option.splits node.splits)

lemma follow_iff: "follow t p ns = None \<longleftrightarrow> (\<forall>k < length ns. is_dir (t (p @ take k ns)))"
proof (induction ns arbitrary: p)
  case (Cons n ns)
  have "(\<forall>k < length (n # ns). is_dir (t (p @ take k (n # ns)))) \<longleftrightarrow>
      is_dir (t p) \<and> (\<forall>k < length ns. is_dir (t ((p @ [n]) @ take k ns)))"
    by (auto simp: less_Suc_eq_0_disj)
  then show ?case using Cons.IH [of "p @ [n]"] by (auto simp: is_dir_def split: option.split node.split)
qed simp

lemma components_drop: "components (dropWhile (\<lambda>c. c = CHR ''/'') s) = components s"
proof -
  have "dropWhile (\<lambda>c. c = CHR ''/'') (dropWhile (\<lambda>c. c = CHR ''/'') s) = dropWhile (\<lambda>c. c = CHR ''/'') s" by (induction s) auto
  then show ?thesis by (subst (1 2) components.simps) simp
qed

lemma components_slashes: "\<forall>c \<in> set s. c = CHR ''/'' \<Longrightarrow> components s = []"
  by (subst components.simps) (simp add: dropWhile_eq_Nil_conv)

lemma components_append: "components (u @ CHR ''/'' # v) = components u @ components v"
proof (induction u rule: components.induct)
  case (1 u)
  define s1 where "s1 = dropWhile (\<lambda>c. c = CHR ''/'') u"
  show ?case
  proof (cases "s1 = []")
    case True
    then have u: "\<forall>c \<in> set u. c = CHR ''/''" by (simp add: s1_def dropWhile_eq_Nil_conv)
    then have "dropWhile (\<lambda>c. c = CHR ''/'') (u @ CHR ''/'' # v) = dropWhile (\<lambda>c. c = CHR ''/'') v"
      by (simp add: dropWhile_append2)
    then show ?thesis by (metis components_drop components_slashes [OF u] append_Nil)
  next
    case False
    then obtain c where c: "c \<in> set u" "c \<noteq> CHR ''/''" by (auto simp: s1_def dropWhile_eq_Nil_conv)
    then have d: "dropWhile (\<lambda>c. c = CHR ''/'') (u @ CHR ''/'' # v) = s1 @ CHR ''/'' # v"
      by (simp add: s1_def dropWhile_append1 [OF c(1)])
    have t: "takeWhile (\<lambda>c. c \<noteq> CHR ''/'') (s1 @ CHR ''/'' # v) = takeWhile (\<lambda>c. c \<noteq> CHR ''/'') s1"
      "dropWhile (\<lambda>c. c \<noteq> CHR ''/'') (s1 @ CHR ''/'' # v) = dropWhile (\<lambda>c. c \<noteq> CHR ''/'') s1 @ CHR ''/'' # v"
      by (induction s1) simp_all
    show ?thesis
      using False 1 [OF s1_def False]
      by (subst (1 2) components.simps) (simp add: d t s1_def [symmetric] Let_def)
  qed
qed

lemma components_word:
  assumes "w \<noteq> []" "CHR ''/'' \<notin> set w"
  shows "components w = [w]"
proof -
  have d: "dropWhile (\<lambda>c. c \<noteq> CHR ''/'') w = []" unfolding dropWhile_eq_Nil_conv using assms(2) by auto
  have t: "takeWhile (\<lambda>c. c \<noteq> CHR ''/'') w = w" unfolding takeWhile_eq_all_conv using assms(2) by auto
  have "dropWhile (\<lambda>c. c = CHR ''/'') w = w" using assms by (cases w) auto
  then show ?thesis using assms(1) by (subst components.simps) (simp only: d t components_slashes Let_def if_False list.set ball_simps)
qed

text \<open>A front is empty or ends in a slash.\<close>

definition is_front :: "string \<Rightarrow> bool" where
  "is_front u \<longleftrightarrow> u = [] \<or> last u = CHR ''/''"

lemma components_front: "is_front u \<Longrightarrow> components (u @ v) = components u @ components v"
proof (cases u rule: rev_cases)
  case (snoc u' c)
  assume "is_front u"
  then have u: "u = u' @ [CHR ''/'']" using snoc by (simp add: is_front_def)
  have "components (u' @ [CHR ''/'']) = components u'" using components_append [of u' "[]"] by (simp add: components_slashes)
  then show ?thesis using components_append [of u' v] by (simp add: u)
qed (simp add: components_slashes)

definition all_dirs :: "tree \<Rightarrow> string list \<Rightarrow> bool" where
  "all_dirs t ns \<longleftrightarrow> (\<forall>k \<le> length ns. is_dir (t (take k ns)))"

lemma all_dirs_follow: "all_dirs t ns \<Longrightarrow> follow t [] ns = None \<and> follow t [] (ns @ [n]) = None"
  by (auto simp: follow_iff all_dirs_def)

lemma all_dirs_snoc: "all_dirs t (ns @ [n]) \<longleftrightarrow> all_dirs t ns \<and> is_dir (t (ns @ [n]))"
  by (auto simp: all_dirs_def le_Suc_eq)

lemma all_dirs_made: "all_dirs t ns \<Longrightarrow> all_dirs (t(ns @ [n] \<mapsto> Directory w)) (ns @ [n])"
proof -
  assume a: "all_dirs t ns"
  have "take k ns \<noteq> ns @ [n]" for k
    by (metis append_eq_conv_conj length_append_singleton length_take lessI min.cobounded2 not_less_iff_gr_or_eq
        order_less_le_trans min_def nle_le not_Cons_self2 append_self_conv same_append_eq take_all_iff)
  then show ?thesis using a by (simp add: all_dirs_snoc) (simp add: all_dirs_def)
qed

text \<open>One round on a front and a part behind it.\<close>

lemma round_part:
  assumes "is_front u" "all_dirs t (components u)" "w \<noteq> []" "CHR ''/'' \<notin> set w"
  shows "mkdir_round t (u @ w) final =
    (case t (components u @ [w]) of
       Some Plain_File \<Rightarrow> (Some ENOTDIR, t)
     | Some (Directory d) \<Rightarrow> (None, t)
     | None \<Rightarrow> if t (components u) = Some (Directory True) then (None, t(components u @ [w] \<mapsto> Directory True)) else (Some EACCES, t))"
proof -
  have c: "components (u @ w) = components u @ [w]" using components_front [OF assms(1)] components_word [OF assms(3,4)] by simp
  have l: "last (u @ w) \<noteq> CHR ''/''" using assms(3,4) by (metis last_appendR last_in_set)
  have f: "follow t [] (components u @ [w]) = None" using all_dirs_follow [OF assms(2)] by blast
  have "k_stat t (u @ w) = t (components u @ [w])" using l by (auto simp: k_stat_def c f)
  then show ?thesis
    by (auto simp: mkdir_round_def file_test_exists_def file_test_is_dir_def k_mkdir_def c f Let_def split: option.split node.split)
qed

lemma round_front:
  assumes "is_front u" "all_dirs t (components u)"
  shows "mkdir_round t u final = (None, t)"
proof -
  have "is_dir (t (components u))" using assms(2) by (auto simp: all_dirs_def)
  then obtain d where "t (components u) = Some (Directory d)" by (rule is_dirE)
  moreover have "follow t [] (components u) = None" using all_dirs_follow [OF assms(2)] by blast
  ultimately have "k_stat t u = Some (Directory d)" by (simp add: k_stat_def)
  then show ?thesis by (simp add: mkdir_round_def file_test_exists_def file_test_is_dir_def)
qed

lemma rounds_ensure:
  "is_front u \<Longrightarrow> all_dirs t (components u) \<Longrightarrow> rest = [] \<or> hd rest \<noteq> CHR ''/'' \<Longrightarrow>
   mkdir_rounds t u rest = ensure t (components u) (components rest)"
proof (induction t u rest rule: mkdir_rounds.induct)
  case (1 t u rest)
  define w behind where "w = takeWhile (\<lambda>c. c \<noteq> CHR ''/'') rest" and "behind = dropWhile (\<lambda>c. c \<noteq> CHR ''/'') rest"
  have rest: "rest = w @ behind" by (simp add: w_def behind_def)
  have w: "CHR ''/'' \<notin> set w" by (auto simp: w_def dest: set_takeWhileD)
  show ?case
  proof (cases "rest = []")
    case True
    then show ?thesis
      using round_front [OF 1(2,3)] by (subst mkdir_rounds.simps) (simp add: components_slashes)
  next
    case False
    then have "w \<noteq> []" using 1(4) by (cases rest) (auto simp: w_def)
    note part = round_part [OF 1(2,3) this w, of "behind = []"]
    define v where "v = dropWhile (\<lambda>c. c = CHR ''/'') behind"
    define u1 where "u1 = u @ w @ takeWhile (\<lambda>c. c = CHR ''/'') behind"
    have cw: "components rest = w # components v"
    proof (cases behind)
      case Nil
      then show ?thesis using components_word [OF \<open>w \<noteq> []\<close> w] by (simp add: rest v_def components_slashes)
    next
      case (Cons c b)
      then have c: "c = CHR ''/''"
        using hd_dropWhile [of "\<lambda>c. c \<noteq> CHR ''/''" rest] unfolding behind_def by (metis list.distinct(1) list.sel(1))
      have "components rest = components w @ components b" using components_append [of w b] by (simp add: rest Cons c)
      moreover have "components v = components b" using components_drop [of b] by (simp add: v_def Cons c)
      ultimately show ?thesis using components_word [OF \<open>w \<noteq> []\<close> w] by simp
    qed
    have next_round: "mkdir_rounds t1 u1 v = ensure t1 (components u @ [w]) (components v)"
      if ne: "behind \<noteq> []" and round: "mkdir_round t (u @ w) (behind = []) = (None, t1)" and here: "all_dirs t1 (components u @ [w])" for t1
    proof -
      have s: "\<forall>c \<in> set (takeWhile (\<lambda>c. c = CHR ''/'') behind). c = CHR ''/''" by (auto dest: set_takeWhileD)
      have "hd behind = CHR ''/''" using ne hd_dropWhile [of "\<lambda>c. c \<noteq> CHR ''/''" rest] unfolding behind_def by blast
      then obtain b where b: "behind = CHR ''/'' # b" using ne by (metis list.collapse)
      have z: "takeWhile (\<lambda>c. c = CHR ''/'') behind \<noteq> []" by (simp add: b)
      then have "last u1 = last (takeWhile (\<lambda>c. c = CHR ''/'') behind)" by (simp add: u1_def)
      then have f: "is_front u1" using s last_in_set [OF z] unfolding is_front_def by metis
      have "components u1 = components u @ components (w @ takeWhile (\<lambda>c. c = CHR ''/'') behind)"
        unfolding u1_def using components_front [OF 1(2)] .
      also have "components (w @ takeWhile (\<lambda>c. c = CHR ''/'') behind) = [w]"
      proof -
        have e: "components (takeWhile (\<lambda>c. c = CHR ''/'') b) = []" by (rule components_slashes) (auto dest: set_takeWhileD)
        have "takeWhile (\<lambda>c. c = CHR ''/'') behind = CHR ''/'' # takeWhile (\<lambda>c. c = CHR ''/'') b" by (simp add: b)
        then show ?thesis by (simp only: components_append components_word [OF \<open>w \<noteq> []\<close> w] e append_Nil2)
      qed
      finally have c: "components u1 = components u @ [w]" .
      have v: "v = [] \<or> hd v \<noteq> CHR ''/''"
        unfolding v_def using hd_dropWhile [of "\<lambda>c. c = CHR ''/''" behind] by blast
      from f c here v have "mkdir_rounds t1 ((u @ w) @ takeWhile (\<lambda>c. c = CHR ''/'') behind) v =
          ensure t1 (components ((u @ w) @ takeWhile (\<lambda>c. c = CHR ''/'') behind)) (components v)"
        unfolding u1_def v_def w_def behind_def append_assoc [symmetric]
        by (intro 1(1) [OF refl refl round [unfolded w_def behind_def, symmetric] refl ne [unfolded behind_def]]) simp_all
      then show ?thesis using c by (simp add: u1_def)
    qed
    have unfold: "mkdir_rounds t u rest =
        (case mkdir_round t (u @ w) (behind = []) of
           (Some e, t1) \<Rightarrow> (Some e, t1)
         | (None, t1) \<Rightarrow> if behind = [] then (None, t1) else mkdir_rounds t1 u1 v)"
      unfolding w_def behind_def u1_def v_def by (subst mkdir_rounds.simps) (simp only: Let_def append_assoc)
    have last: "components v = []" if "behind = []" using that by (simp add: v_def components_slashes)
    show ?thesis
    proof (cases "t (components u @ [w])")
      case None
      then show ?thesis
        using part next_round [of "t(components u @ [w] \<mapsto> Directory True)"] all_dirs_made [OF 1(3)] last
        by (cases "behind = []") (simp_all add: unfold cw split: if_splits)
    next
      case (Some nd)
      then show ?thesis
        using part next_round [of t] 1(3) last by (cases nd; cases "behind = []") (simp_all add: unfold cw all_dirs_snoc)
    qed
  qed
qed

lemma ensure_append:
  "(\<And>k. k \<le> length ns \<Longrightarrow> is_dir (t (p @ take k ns))) \<Longrightarrow> ensure t p (ns @ ms) = ensure t (p @ ns) ms"
proof (induction ns arbitrary: p)
  case (Cons n ns)
  have "is_dir (t (p @ [n]))" using Cons.prems [of 1] by simp
  moreover have "ensure t (p @ [n]) (ns @ ms) = ensure t ((p @ [n]) @ ns) ms"
    using Cons.prems [of "Suc k" for k] by (intro Cons.IH) simp
  ultimately show ?case by (auto elim: is_dirE)
qed simp

lemma ensure_behind_follow:
  assumes "follow t [] (ns @ [n]) = None"
  shows "ensure t [] (ns @ [n]) = ensure t ns [n]"
  using ensure_append [of ns t "[]" "[n]"] assms by (simp add: follow_iff less_Suc_eq_le)

lemma follow_not_EEXIST: "follow t p ns \<noteq> Some EEXIST"
  by (induction t p ns rule: follow.induct) (auto split: option.splits node.splits)

lemma k_mkdir_ensure:
  assumes "is_dir (t [])"
  shows "(case k_mkdir t s of
            (None, t1) \<Rightarrow> ensure t [] (components s) = (None, t1)
          | (Some e, t1) \<Rightarrow> t1 = t \<and>
              (e = EEXIST \<longrightarrow> ensure t [] (components s) = (if file_test_is_dir t s then None else Some ENOTDIR, t)))"
proof (cases "components s" rule: rev_cases)
  case Nil
  then show ?thesis using assms by (auto simp: k_mkdir_def file_test_is_dir_def k_stat_def elim!: is_dirE)
next
  case (snoc ns n)
  have "t1 = t" if "k_mkdir t s = (Some e, t1)" for e t1
    using that by (auto simp: k_mkdir_def Let_def split: option.splits if_splits)
  show ?thesis
  proof (cases "follow t [] (ns @ [n])")
    case None
    note e = ensure_behind_follow [OF None]
    show ?thesis
    proof (cases "t (ns @ [n])")
      case missing: None
      then show ?thesis by (simp add: k_mkdir_def snoc None e)
    next
      case (Some nd)
      then show ?thesis by (cases nd) (simp_all add: k_mkdir_def snoc None e file_test_is_dir_def k_stat_def)
    qed
  next
    case (Some e)
    then show ?thesis using follow_not_EEXIST [of t "[]" "ns @ [n]"] by (auto simp: k_mkdir_def snoc)
  qed
qed

lemma mkdir_with_parents_ensure:
  assumes "s \<noteq> []" "is_dir (t [])"
  shows "g_mkdir_with_parents t (Some s) = ensure t [] (components s)"
proof -
  let ?u = "takeWhile (\<lambda>c. c = CHR ''/'') s" and ?v = "dropWhile (\<lambda>c. c = CHR ''/'') s"
  have slashes: "\<forall>c \<in> set ?u. c = CHR ''/''" by (auto dest: set_takeWhileD)
  have d: "all_dirs t []" using assms(2) by (simp add: all_dirs_def)
  have "?u = [] \<or> last ?u = CHR ''/''" using slashes last_in_set by blast
  then have a: "mkdir_rounds t ?u ?v = ensure t [] (components s)"
    using rounds_ensure [of ?u t ?v] hd_dropWhile [of "\<lambda>c. c = CHR ''/''" s] d
    by (simp only: is_front_def components_slashes [OF slashes] components_drop) blast
  have b: "mkdir_rounds t [] s = ensure t [] (components s)" if "hd s \<noteq> CHR ''/''"
    using rounds_ensure [of "[]" t s] d that by (simp add: is_front_def components_slashes)
  obtain r t1 where m: "k_mkdir t s = (r, t1)" by fastforce
  show ?thesis
    using k_mkdir_ensure [of t s] assms a b
    by (cases r) (simp_all add: g_mkdir_with_parents_def m)
qed

text \<open>When it succeeds, and what it leaves.\<close>

definition can_make :: "tree \<Rightarrow> string list \<Rightarrow> string list \<Rightarrow> bool" where
  "can_make t p ns \<longleftrightarrow> (\<forall>k < length ns.
     (case t (p @ take (Suc k) ns) of
        Some Plain_File \<Rightarrow> False
      | Some (Directory w) \<Rightarrow> True
      | None \<Rightarrow> t (p @ take k ns) \<in> {None, Some (Directory True)}))"

lemma can_make_Cons:
  "can_make t p (n # ns) \<longleftrightarrow>
   (case t (p @ [n]) of Some Plain_File \<Rightarrow> False | Some (Directory w) \<Rightarrow> True | None \<Rightarrow> t p \<in> {None, Some (Directory True)}) \<and>
   can_make t (p @ [n]) ns"
proof -
  have "(\<forall>k < length (n # ns). P k) \<longleftrightarrow> P 0 \<and> (\<forall>k < length ns. P (Suc k))" for P
    by (auto simp: less_Suc_eq_0_disj)
  then show ?thesis
    unfolding can_make_def by (simp only: take_Suc_Cons take_0 append_Cons append_Nil append_Nil2 append_assoc)
qed

lemma not_behind [simp]: "p @ n # q \<noteq> p"
  by simp

lemma can_make_made:
  "t (p @ [n]) = None \<Longrightarrow> can_make (t(p @ [n] \<mapsto> Directory True)) (p @ [n]) ns = can_make t (p @ [n]) ns"
proof -
  assume missing: "t (p @ [n]) = None"
  have a: "(t(p @ [n] \<mapsto> Directory True)) ((p @ [n]) @ take (Suc k) ns) = t ((p @ [n]) @ take (Suc k) ns)" if "k < length ns" for k
    using that by (cases ns) auto
  have b: "(t(p @ [n] \<mapsto> Directory True)) ((p @ [n]) @ take k ns) \<in> {None, Some (Directory True)} \<longleftrightarrow>
      t ((p @ [n]) @ take k ns) \<in> {None, Some (Directory True)}" for k
    using missing by (cases "take k ns") auto
  show ?thesis by (simp only: can_make_def a b cong: imp_cong)
qed

lemma ensure_possible: "is_dir (t p) \<Longrightarrow> fst (ensure t p ns) = None \<longleftrightarrow> can_make t p ns"
proof (induction t p ns rule: ensure.induct)
  case (2 t p n ns)
  show ?case
  proof (cases "t (p @ [n])")
    case None
    then show ?thesis using 2 can_make_made [of t p n ns, OF None] by (auto simp: can_make_Cons fun_upd_def)
  next
    case (Some nd)
    then show ?thesis using 2 by (cases nd) (auto simp: can_make_Cons)
  qed
qed (simp add: can_make_def)

lemma ensure_keeps: "t q \<noteq> None \<Longrightarrow> snd (ensure t p ns) q = t q"
  by (induction t p ns rule: ensure.induct) (auto split: option.split node.split)

lemma ensure_only:
  "snd (ensure t p ns) q \<noteq> t q \<Longrightarrow> snd (ensure t p ns) q = Some (Directory True) \<and> (\<exists>k \<le> length ns. q = p @ take k ns)"
proof (induction t p ns rule: ensure.induct)
  case (2 t p n ns)
  have more: "\<exists>k \<le> length (n # ns). q = p @ take k (n # ns)" if kk: "\<exists>k \<le> length ns. q = (p @ [n]) @ take k ns"
  proof -
    obtain k where "k \<le> length ns" "q = (p @ [n]) @ take k ns" using kk by blast
    then show ?thesis by (intro exI [of _ "Suc k"]) simp
  qed
  show ?case
  proof (cases "t (p @ [n])")
    case None
    let ?t = "t(p @ [n] \<mapsto> Directory True)"
    have w: "t p = Some (Directory True)" and e: "snd (ensure t p (n # ns)) = snd (ensure ?t (p @ [n]) ns)"
      using 2(3) None by (simp_all split: if_splits)
    have IH: "snd (ensure ?t (p @ [n]) ns) q \<noteq> ?t q \<Longrightarrow>
        snd (ensure ?t (p @ [n]) ns) q = Some (Directory True) \<and> (\<exists>k \<le> length ns. q = (p @ [n]) @ take k ns)"
      using 2(1) [OF None w] unfolding fun_upd_def .
    show ?thesis
    proof (cases "snd (ensure ?t (p @ [n]) ns) q = ?t q")
      case True
      then have "q = p @ [n]" using 2(3) unfolding e by (simp split: if_splits)
      moreover have "\<exists>k \<le> length (n # ns). p @ [n] = p @ take k (n # ns)" by (rule exI [of _ 1]) simp
      ultimately show ?thesis unfolding e True by simp
    next
      case False
      then show ?thesis unfolding e using IH more by simp
    qed
  next
    case (Some nd)
    then show ?thesis using 2(2) [OF Some] 2(3) more by (cases nd) (auto simp only: ensure.simps option.case node.case snd_conv)
  qed
qed simp

lemma ensure_all_dirs:
  "fst (ensure t p ns) = None \<Longrightarrow> is_dir (t p) \<Longrightarrow> k \<le> length ns \<Longrightarrow> is_dir (snd (ensure t p ns) (p @ take k ns))"
proof (induction t p ns arbitrary: k rule: ensure.induct)
  case (1 t p)
  then show ?case by simp
next
  case (2 t p n ns)
  have root: "is_dir (snd (ensure t p (n # ns)) p)" using 2(4) ensure_keeps [of t p p "n # ns"] by (metis is_dir_simps(1))
  show ?case
  proof (cases k)
    case 0
    then show ?thesis using root by simp
  next
    case (Suc j)
    then show ?thesis using 2 by (auto simp: fun_upd_def split: option.splits node.splits if_splits)
  qed
qed

text \<open>The directory of a path.\<close>

lemma dirname_of:
  assumes "d \<noteq> []" "last d \<noteq> CHR ''/''" "CHR ''/'' \<notin> set b"
  shows "g_path_get_dirname (d @ CHR ''/'' # b) = d"
proof -
  have b: "dropWhile (\<lambda>c. c \<noteq> CHR ''/'') (rev b @ CHR ''/'' # x) = CHR ''/'' # x" for x
    using assms(3) by (subst dropWhile_append2) auto
  obtain c d' where d: "d = c # d'" using assms(1) by (cases d) auto
  have "dropWhile (\<lambda>c. c = CHR ''/'') (rev (d' @ [CHR ''/''])) = rev d'"
    using assms(2) by (cases d' rule: rev_cases) (auto simp: d)
  then show ?thesis using b [of "rev d"] by (simp add: g_path_get_dirname_def up_to_slash_def d)
qed

lemma save_config_ok:
  assumes "is_dir (t [])" "config_ok (Some c)" "d \<noteq> []" "last d \<noteq> CHR ''/''" "CHR ''/'' \<notin> set b"
  shows "save_config point t fopen_ok fs (Some c) (Some (d @ CHR ''/'' # b)) =
    (let (err, t1) = ensure t [] (components d); path = d @ CHR ''/'' # b
     in if err = None \<and> fopen_ok then (True, fs(path \<mapsto> concat (config_lines point c)), t1) else (False, fs, t1))"
  using mkdir_with_parents_ensure [of d t] assms(1,3)
  by (simp add: save_config_def dirname_of [OF assms(3-5)] config_ok_validate assms(2) tts_config_save_to_file_def split: prod.split)

text \<open>
  C36. Saving a valid configuration to a file in the directory \<open>d\<close> succeeds exactly when the file can be opened and \<open>d\<close> can be
  made: no part of \<open>d\<close> is a file, and the first missing part has a directory before it in which entries can be made. After a success
  every part of \<open>d\<close> is a directory and the file holds the configuration; after a failure no file has changed. Either way
  everything that was there is as it was, and all that is new are directories among the parts of \<open>d\<close>.
\<close>

theorem config_directory_made:
  assumes "is_dir (t [])" "config_ok (Some c)" "d \<noteq> []" "last d \<noteq> CHR ''/''" "CHR ''/'' \<notin> set b"
    and "save_config point t fopen_ok fs (Some c) (Some (d @ CHR ''/'' # b)) = (ok, fs1, t1)"
  shows "(ok \<longleftrightarrow> fopen_ok \<and> can_make t [] (components d)) \<and>
    (if ok then all_dirs t1 (components d) \<and> fs1 = fs(d @ CHR ''/'' # b \<mapsto> concat (config_lines point c)) else fs1 = fs) \<and>
    (\<forall>q. t q \<noteq> None \<longrightarrow> t1 q = t q) \<and>
    (\<forall>q. t1 q \<noteq> t q \<longrightarrow> t1 q = Some (Directory True) \<and> (\<exists>k \<le> length (components d). q = take k (components d)))"
proof -
  let ?e = "ensure t [] (components d)"
  have t1: "t1 = snd ?e" and ok: "ok \<longleftrightarrow> fst ?e = None \<and> fopen_ok"
    and fs1: "fs1 = (if ok then fs(d @ CHR ''/'' # b \<mapsto> concat (config_lines point c)) else fs)"
    using assms(6) unfolding save_config_ok [where t = t, OF assms(1-5)] by (auto simp: Let_def split: prod.splits if_splits)
  have "all_dirs t1 (components d)" if "fst ?e = None"
    using ensure_all_dirs [where t = t and p = "[]", OF that assms(1)] by (simp add: all_dirs_def t1)
  then show ?thesis
    using ensure_possible [where t = t and p = "[]", OF assms(1)] ensure_keeps [of t] ensure_only [of t "[]" "components d"] ok fs1 by (auto simp: t1)
qed

lemma config_directory_made_witness:
  "let t = [[] \<mapsto> Directory False, [''home''] \<mapsto> Directory False, [''home'', ''u''] \<mapsto> Directory True];
       d = ''/home/u/.config/zathura-tts'';
       (ok, fs1, t1) = save_config CHR ''.'' t True Map.empty (Some tts_config_new) (Some (d @ CHR ''/'' # ''config''))
   in components d = [''home'', ''u'', ''.config'', ''zathura-tts''] \<and> ok \<and>
      t1 [''home'', ''u'', ''.config'', ''zathura-tts''] = Some (Directory True) \<and> t1 [''home''] = Some (Directory False)"
proof -
  let ?t = "[[] \<mapsto> Directory False, [''home''] \<mapsto> Directory False, [''home'', ''u''] \<mapsto> Directory True]"
  let ?d = "''/home/u/.config/zathura-tts''"
  obtain ok fs1 t1 where s: "save_config CHR ''.'' ?t True Map.empty (Some tts_config_new) (Some (?d @ CHR ''/'' # ''config'')) = (ok, fs1, t1)"
    by (metis prod_cases3)
  have c: "components ?d = [''home'', ''u'', ''.config'', ''zathura-tts'']" by (simp add: components.simps)
  have k: "can_make ?t [] (components ?d)" unfolding c by (simp add: can_make_Cons) (simp add: can_make_def)
  have v: "config_ok (Some tts_config_new)" using defaults_ok [of config_zero] by (simp add: tts_config_new_def tts_config_set_defaults_def)
  have "ok \<and> all_dirs t1 (components ?d) \<and> (\<forall>q. ?t q \<noteq> None \<longrightarrow> t1 q = ?t q) \<and>
      (\<forall>q. t1 q \<noteq> ?t q \<longrightarrow> t1 q = Some (Directory True))"
    using config_directory_made [OF _ v _ _ _ s] k by simp
  moreover have "t1 (components ?d) \<noteq> None" if "all_dirs t1 (components ?d)"
    using that unfolding all_dirs_def by (metis is_dir_simps(1) order_refl take_all_iff)
  ultimately show ?thesis unfolding s Let_def by (simp add: c)
qed

end
