(* ===== verification/Standalone_Extractor.thy ===== *)
theory Standalone_Extractor
  imports Content_Process
begin

text \<open>
  \<^verbatim>\<open>tts-text-extractor-standalone.c\<close>, an older copy of the part of the extractor that needs no zathura. Most of
  its functions are those of \<^verbatim>\<open>tts-text-extractor.c\<close> word for word; here are the three that differ (creating a segment,
  recognising a table, processing a table), the two that call them, and how far they agree with the plugin's.
\<close>

subsection \<open>Segments\<close>

definition standalone_segment_new ::
  "string option \<Rightarrow> zathura_rectangle \<Rightarrow> int \<Rightarrow> int \<Rightarrow> tts_content_type \<Rightarrow> tts_text_segment option" where
  "standalone_segment_new text bounds page_number segment_id type =
     (case text of
        None \<Rightarrow> None
      | Some t \<Rightarrow> Some \<lparr>seg_text = Some t, seg_bounds = bounds, seg_page_number = page_number, seg_id = segment_id,
                        seg_type = type\<rparr>)"

subsection \<open>Recognising tables\<close>

record standalone_counts = table_counts +
  long_space_sequences :: nat
  consecutive_spaces :: nat

definition count_word :: "standalone_counts \<Rightarrow> standalone_counts" where
  "count_word k = (if \<not> in_word k then k\<lparr>word_count := word_count k + 1, in_word := True\<rparr> else k)"

definition standalone_table_step :: "standalone_counts \<Rightarrow> char \<Rightarrow> standalone_counts" where
  "standalone_table_step k c =
     (if c = CHR 0x09 then k\<lparr>tab_count := tab_count k + 1, in_word := False, consecutive_spaces := 0\<rparr>
      else if c = CHR ''|'' then k\<lparr>pipe_count := pipe_count k + 1, in_word := False, consecutive_spaces := 0\<rparr>
      else if c_isdigit c then (count_word (k\<lparr>number_count := number_count k + 1\<rparr>))\<lparr>consecutive_spaces := 0\<rparr>
      else if c_isalpha c then (count_word k)\<lparr>consecutive_spaces := 0\<rparr>
      else if c = CHR '' '' then
        (let k1 = k\<lparr>in_word := False, consecutive_spaces := consecutive_spaces k + 1\<rparr> in
         if consecutive_spaces k1 \<ge> 3
         then k1\<lparr>long_space_sequences := long_space_sequences k1 + 1, consecutive_spaces := 0\<rparr> else k1)
      else k\<lparr>in_word := False, consecutive_spaces := 0\<rparr>)"

definition standalone_is_table_content :: "string option \<Rightarrow> bool" where
  "standalone_is_table_content text =
     (case text of
        None \<Rightarrow> False
      | Some t \<Rightarrow>
          let k = foldl standalone_table_step
                    \<lparr>tab_count = 0, pipe_count = 0, number_count = 0, word_count = 0, in_word = False,
                     long_space_sequences = 0, consecutive_spaces = 0\<rparr> t
          in (tab_count k \<ge> 1 \<or> pipe_count k \<ge> 2 \<or> long_space_sequences k \<ge> 2) \<and> word_count k \<ge> 2)"

text \<open>Neither recogniser accepts all that the other does.\<close>

lemma recognisers_differ:
  "standalone_is_table_content (Some ''ab   cd   ef'') \<and> \<not> tts_text_is_table_content (Some ''ab   cd   ef'')"
  "tts_text_is_table_content (Some ''a1||'') \<and> \<not> standalone_is_table_content (Some ''a1||'')"
  by code_simp+

subsection \<open>Processing tables\<close>

text \<open>The first-column flag follows the text here, whether or not the announcement had room.\<close>

fun standalone_table_loop :: "bool \<Rightarrow> string \<Rightarrow> nat \<Rightarrow> string" where
  "standalone_table_loop first_column [] remaining = []"
| "standalone_table_loop first_column (c # cs) remaining =
     (if remaining = 0 then []
      else if is_column_separator c then
        (let sep = column_announcement first_column in
         if length sep < remaining then sep @ standalone_table_loop False cs (remaining - length sep)
         else standalone_table_loop False cs remaining)
      else if c = CHR 0x0A then
        (let row_sep = '', next row: '' in
         if length row_sep < remaining then row_sep @ standalone_table_loop True cs (remaining - length row_sep)
         else standalone_table_loop True cs remaining)
      else c # standalone_table_loop first_column cs (remaining - 1))"

definition standalone_process_table :: "string option \<Rightarrow> zathura_error \<times> string option" where
  "standalone_process_table text =
     (case text of
        None \<Rightarrow> (ZATHURA_ERROR_INVALID_ARGUMENTS, None)
      | Some t \<Rightarrow>
          let buffer_size = length t * 3; table_start = ''Table content: '' in
          if buffer_size = 0 then (ZATHURA_ERROR_OUT_OF_MEMORY, None)
          else (ZATHURA_ERROR_OK, Some
            (let remaining = buffer_size - 1 in
             if length table_start < remaining
             then table_start @ standalone_table_loop True t (remaining - length table_start)
             else standalone_table_loop True t remaining)))"

interpretation standalone: bounded_writer standalone_table_loop table_expand table_piece "\<lambda>s. tl" table_state
proof
  fix s :: bool and src :: string and r :: nat
  show "standalone_table_loop s [] r = []" by simp
  show "standalone_table_loop s src 0 = []" by (cases src) simp_all
  show "table_expand s [] = []" by simp
  assume "src \<noteq> []"
  then obtain c cs where src: "src = c # cs" by (cases src) auto
  show "table_expand s src = table_piece s src @ table_expand (table_state s src) (tl src)" by (simp add: src)
  show "length (tl src) < length src" by (simp add: src)
  show "standalone_table_loop s src r =
      table_piece s src @ standalone_table_loop (table_state s src) (tl src) (r - length (table_piece s src))"
    if "length (table_piece s src) < r"
    using that by (auto simp: src table_piece_def table_state_def Let_def)
  have "\<exists>out s'. standalone_table_loop s src r = out @ standalone_table_loop s' cs (r - length out) \<and> length out \<le> r" if r: "0 < r"
  proof (cases "length (table_piece s src) < r")
    case True
    then show ?thesis
      using r by (intro exI [of _ "table_piece s src"] exI [of _ "table_state s src"])
        (auto simp: src table_piece_def table_state_def Let_def)
  next
    case False
    define out where "out = (if is_column_separator c \<or> c = CHR 0x0A then [] else [c])"
    have "standalone_table_loop s src r = out @ standalone_table_loop (table_state s src) cs (r - length out)"
      using False r by (auto simp: src table_piece_def table_state_def out_def Let_def)
    moreover have "length out \<le> r" using r by (simp add: out_def)
    ultimately show ?thesis by blast
  qed
  then show "\<exists>out src' s'. standalone_table_loop s src r = out @ standalone_table_loop s' src' (r - length out) \<and>
      length out \<le> r \<and> length src' < length src" if "0 < r"
    using that by (metis src length_Cons lessI)
qed

lemma standalone_table_text:
  assumes "t \<noteq> []"
  obtains out where "standalone_process_table (Some t) = (ZATHURA_ERROR_OK, Some out)" "length out < 3 * length t"
    "length (''Table content: '' @ table_expand True t) + 1 < 3 * length t \<Longrightarrow> out = ''Table content: '' @ table_expand True t"
proof -
  define start r where "start = ''Table content: ''" and "r = length t * 3 - 1"
  have n: "r < 3 * length t" using assms by (cases t) (simp_all add: r_def)
  define out where
    "out = (if length start < r then start @ standalone_table_loop True t (r - length start) else standalone_table_loop True t r)"
  show thesis
  proof (rule that [of out])
    show "standalone_process_table (Some t) = (ZATHURA_ERROR_OK, Some out)"
      using assms by (simp only: standalone_process_table_def option.case Let_def start_def [symmetric]
          r_def [symmetric] out_def) simp
    have "length out \<le> r"
      using standalone.length_run [of True t r] standalone.length_run [of True t "r - length start"]
      unfolding out_def by (cases "length start < r") auto
    with n show "length out < 3 * length t" by linarith
    assume "length (''Table content: '' @ table_expand True t) + 1 < 3 * length t"
    then have fits: "length start + length (table_expand True t) < r"
      unfolding start_def [symmetric] length_append r_def by linarith
    then have "standalone_table_loop True t (r - length start) = table_expand True t"
      by (intro standalone.run_eq_expand) linarith
    with fits show "out = ''Table content: '' @ table_expand True t" by (simp add: out_def start_def [symmetric])
  qed
qed

text \<open>
  Where the older copy and the plugin's extractor do the same: they make the same segment of every text that a segment may hold, and
  only the copy makes one of other texts; and they process a table to the same announcements when these fit into the
  smaller buffer of the plugin, while each keeps to its own buffer always.
\<close>

theorem standalone_agrees:
  "(segment_text_ok t \<longrightarrow> standalone_segment_new (Some t) b p i ty = tts_text_segment_new (Some t) b p i ty) \<and>
   (\<not> segment_text_ok t \<longrightarrow> standalone_segment_new (Some t) b p i ty \<noteq> None \<and> tts_text_segment_new (Some t) b p i ty = None) \<and>
   (t \<noteq> [] \<longrightarrow> (\<exists>out out'. standalone_process_table (Some t) = (ZATHURA_ERROR_OK, Some out) \<and> length out < 3 * length t \<and>
      tts_process_table_content (Some t) = (ZATHURA_ERROR_OK, Some out') \<and> length out' < 2 * length t \<and>
      (length (''Table content: '' @ table_expand True t) + 1 < 2 * length t \<longrightarrow> out = out')))"
proof (intro conjI impI)
  assume "t \<noteq> []"
  obtain out where o: "standalone_process_table (Some t) = (ZATHURA_ERROR_OK, Some out)" "length out < 3 * length t"
    "length (''Table content: '' @ table_expand True t) + 1 < 3 * length t \<Longrightarrow> out = ''Table content: '' @ table_expand True t"
    using standalone_table_text [OF \<open>t \<noteq> []\<close>] by blast
  obtain out' where o': "tts_process_table_content (Some t) = (ZATHURA_ERROR_OK, Some out')" "length out' < 2 * length t"
    "length (''Table content: '' @ table_expand True t) + 1 < 2 * length t \<Longrightarrow> out' = ''Table content: '' @ table_expand True t"
    using table_text [OF \<open>t \<noteq> []\<close>] by blast
  have "out = out'" if a: "length (''Table content: '' @ table_expand True t) + 1 < 2 * length t"
  proof -
    have "length (''Table content: '' @ table_expand True t) + 1 < 3 * length t" using a by linarith
    then show ?thesis using o(3) o'(3) [OF a] by blast
  qed
  then show "\<exists>out out'. standalone_process_table (Some t) = (ZATHURA_ERROR_OK, Some out) \<and> length out < 3 * length t \<and>
      tts_process_table_content (Some t) = (ZATHURA_ERROR_OK, Some out') \<and> length out' < 2 * length t \<and>
      (length (''Table content: '' @ table_expand True t) + 1 < 2 * length t \<longrightarrow> out = out')"
    using o o' by blast
qed (auto simp: standalone_segment_new_def tts_text_segment_new_Some)

lemma standalone_agrees_witness:
  "standalone_segment_new (Some ''Go.'') b 0 0 TTS_CONTENT_NORMAL = tts_text_segment_new (Some ''Go.'') b 0 0 TTS_CONTENT_NORMAL"
proof -
  have "segment_text_ok ''Go.''" by code_simp
  then show ?thesis using standalone_agrees by blast
qed

subsection \<open>The functions that call them\<close>

definition standalone_detect_content_type :: "string option \<Rightarrow> tts_content_type" where
  "standalone_detect_content_type text =
     (case text of
        None \<Rightarrow> TTS_CONTENT_NORMAL
      | Some t \<Rightarrow>
          if tts_text_contains_math text then TTS_CONTENT_FORMULA
          else if standalone_is_table_content text then TTS_CONTENT_TABLE
          else if tts_text_contains_links text then TTS_CONTENT_LINK
          else let len = length t in
            if len < 100 \<and> len > 5 \<and> \<not> list_ex sentence_end t then TTS_CONTENT_HEADING
            else TTS_CONTENT_NORMAL)"

definition standalone_process_text_segment :: "tts_text_segment option \<Rightarrow> zathura_error \<times> string option" where
  "standalone_process_text_segment segment =
     (case segment of
        None \<Rightarrow> (ZATHURA_ERROR_INVALID_ARGUMENTS, None)
      | Some sg \<Rightarrow>
          (case seg_text sg of
             None \<Rightarrow> (ZATHURA_ERROR_INVALID_ARGUMENTS, None)
           | Some t \<Rightarrow>
               (case seg_type sg of
                  TTS_CONTENT_FORMULA \<Rightarrow> tts_process_math_content (Some t)
                | TTS_CONTENT_TABLE \<Rightarrow> standalone_process_table (Some t)
                | TTS_CONTENT_LINK \<Rightarrow> tts_process_link_content (Some t)
                | TTS_CONTENT_HEADING \<Rightarrow> (ZATHURA_ERROR_OK, Some (''Heading: '' @ t))
                | TTS_CONTENT_CAPTION \<Rightarrow> (ZATHURA_ERROR_OK, Some (''Image caption: '' @ t))
                | TTS_CONTENT_NORMAL \<Rightarrow> (ZATHURA_ERROR_OK, Some t))))"

text \<open>The copies part ways only where a table is involved.\<close>

lemma standalone_differs_on_tables:
  "standalone_detect_content_type text \<noteq> tts_detect_content_type text \<Longrightarrow>
     standalone_is_table_content text \<noteq> tts_text_is_table_content text \<and>
     TTS_CONTENT_TABLE \<in> {standalone_detect_content_type text, tts_detect_content_type text}"
  "seg_type sg \<noteq> TTS_CONTENT_TABLE \<Longrightarrow> standalone_process_text_segment (Some sg) = tts_process_text_segment (Some sg)"
proof -
  show "standalone_is_table_content text \<noteq> tts_text_is_table_content text \<and>
      TTS_CONTENT_TABLE \<in> {standalone_detect_content_type text, tts_detect_content_type text}"
    if "standalone_detect_content_type text \<noteq> tts_detect_content_type text"
    using that by (auto simp: standalone_detect_content_type_def tts_detect_content_type_def split: option.splits if_splits)
  show "standalone_process_text_segment (Some sg) = tts_process_text_segment (Some sg)" if "seg_type sg \<noteq> TTS_CONTENT_TABLE"
    using that by (simp add: standalone_process_text_segment_def tts_process_text_segment_def
        split: option.split tts_content_type.split)
qed

end
