(* ===== verification/Zathura_Stubs.thy ===== *)
theory Zathura_Stubs
  imports Ui_Machine
begin

text \<open>
  \<^verbatim>\<open>zathura-stubs.c\<close>: the functions that stand in for zathura and girara in the test programs, as an instance of
  the page and the document that the plugin's model takes as parameters, with what the plugin makes of
  them.
\<close>

definition stub_text :: string where
  "stub_text = ''Sample text for testing purposes. This is a mock implementation of page text extraction.''"

definition stub_page :: zathura_page where
  "stub_page =
     \<lparr>page_get_width = 595, page_get_height = 842, page_get_index = 0,
      page_get_text = (\<lambda>rectangle. (ZATHURA_ERROR_OK, Some stub_text)),
      page_links_get = (ZATHURA_ERROR_OK, Some [])\<rparr>"

definition stub_document :: zathura_document where
  "stub_document = \<lparr>doc_current_page = 0, doc_number_of_pages = 1, doc_get_page = (\<lambda>page_number. None)\<rparr>"

definition zathura_get_document :: "zathura_document option" where
  "zathura_get_document = None"

lemma stub_sentences:
  "sentences_of (cleaned stub_text) =
     [''Sample text for testing purposes.'', ''This is a mock implementation of page text extraction.'']"
  by code_simp

lemma stub_text_ok: "segment_text_ok ''Sample text for testing purposes.''"
    "segment_text_ok ''This is a mock implementation of page text extraction.''"
  by code_simp+

lemma stub_page_segments:
  "\<exists>segs. tts_extract_text_segments (Some stub_page) = (ZATHURA_ERROR_OK, Some segs) \<and>
     map seg_text segs = [Some ''Sample text for testing purposes.'',
                          Some ''This is a mock implementation of page text extraction.'']"
  using page_segments_correct [of stub_page stub_text] by (auto simp: stub_page_def stub_sentences stub_text_ok)

text \<open>No page can be had from the stub document, so the toggle reports that and starts nothing.\<close>

lemma stub_document_is_not_read:
  assumes "audio_state (ctl s) = TTS_AUDIO_STATE_STOPPED" "desk_audio d = Some s" "document d = Some stub_document"
  shows "toggle_body env s d = (False, status ''TTS: Cannot access current page'' 2000 d)"
  using assms by (simp add: toggle_body_def tts_audio_controller_get_state_def stub_document_def)

lemma no_document_is_not_read:
  assumes "audio_state (ctl s) = TTS_AUDIO_STATE_STOPPED" "desk_audio d = Some s" "document d = zathura_get_document"
  shows "toggle_body env s d = (False, status ''TTS: No document loaded'' 2000 d)"
  using assms by (simp add: toggle_body_def tts_audio_controller_get_state_def zathura_get_document_def)

end
