(* ===== verification/Spec2Isabelle.thy ===== *)
theory Spec2Isabelle
  imports Tts_Error Config_Types Page_Extract Content_Process Content_Detect Feeder_Linear Plugin Reader_Refinement Glib_Queue
    Utf8_Convert Feeder_Channel Audio_Locks Old_Engine Glib_Dirs Standalone_Extractor Zathura_Stubs
begin

text \<open>
  A verification library for the text-to-speech plugin of zathura (\<^verbatim>\<open>src/zathura-tts\<close>, file names below are in its
  \<^verbatim>\<open>src\<close> directory).

  \<^bold>\<open>The program.\<close> The plugin reads documents aloud. A toggle in the user interface extracts the text of the
  current page and the two after it, cuts it into sentences, and makes a session of them. The audio controller
  holds the session: the list of segments, the playback state and the position. It queues copies of the segments
  to the streaming engine, which owns a child process and a feeder thread that writes the queued texts to the
  child's input. Beside it stands the engine interface, a table of operations with three engines (Piper, Speech
  Dispatcher, eSpeak), each of which starts one child per utterance through a command line. Configuration and error
  reports serve them all, and the plugin entry creates and destroys the whole.

  \<^bold>\<open>Text\<close> (\<^verbatim>\<open>tts-text-extractor.c\<close>).
  \<^item> \<^verbatim>\<open>Segment_Store\<close>: rectangles, content types, segments, and the store of allocated segments and lists. Reading or
    freeing what is not allocated is recorded as a fault, so memory safety is a statement about the list of faults.
  \<^item> \<^verbatim>\<open>Sentence_Split\<close>: cleaning and sentence splitting. The loop is shown equal to a specification that cuts at the
    sentence ends; nothing but white space is lost.
  \<^item> \<^verbatim>\<open>Content_Detect\<close>: the recognisers of formulas, tables and links, each against a plain description of the words
    it looks for.
  \<^item> \<^verbatim>\<open>Page_Extract\<close>: text, segments and links of a page. The segments of a page carry its text in order.
  \<^item> \<^verbatim>\<open>Content_Process\<close>: the processors of formulas, tables and links. Their loops write into a buffer of fixed size;
    the locale \<^verbatim>\<open>bounded_writer\<close> describes such a loop beside the one with unlimited space, and its three interpretations
    give the bound and, where the space is enough, the equality.
  \<^item> \<^verbatim>\<open>Utf8_Validate\<close>: \<^verbatim>\<open>g_utf8_validate\<close> of the glib under \<^verbatim>\<open>src/glib-2.76.5\<close>, which guards every segment, shown to accept
    exactly the encodings of sequences of scalar values.
  \<^item> \<^verbatim>\<open>Utf8_Length\<close>, \<^verbatim>\<open>Utf8_Convert\<close>: the same validator with a length and with the end it reports, which is the longest
    valid prefix; reading, writing and counting characters, and the conversions to and from UCS-4, which are inverse to each
    other on valid texts.
  \<^item> \<^verbatim>\<open>Standalone_Extractor\<close>: the three functions of \<^verbatim>\<open>tts-text-extractor-standalone.c\<close>, an older copy, that differ from
    those of the plugin, with a fourth interpretation of \<^verbatim>\<open>bounded_writer\<close> and the texts for which both agree.
  \<^item> \<^verbatim>\<open>Zathura_Stubs\<close>: the page and the document of \<^verbatim>\<open>zathura-stubs.c\<close>, which the test programs link, as an instance of the
    parameters.

  \<^bold>\<open>Errors and configuration\<close> (\<^verbatim>\<open>tts-error.c\<close>, \<^verbatim>\<open>tts-config.c\<close>).
  \<^item> \<^verbatim>\<open>Tts_Error\<close>: codes, texts, contexts, reporting through the installed callback, degradation.
  \<^item> \<^verbatim>\<open>C_Float\<close>, \<^verbatim>\<open>C_Strings\<close>: rounding of floating-point numbers, the character classes and the conversions of the C
    library that the plugin relies on.
  \<^item> \<^verbatim>\<open>Engine_Types\<close>, \<^verbatim>\<open>Tts_Config\<close>: the enumeration of the engines in the order of its numbers, the configuration record,
    validation, setters and getters, zathura settings. The locale \<^verbatim>\<open>validated_setter\<close> holds for each checked setting.
  \<^item> \<^verbatim>\<open>Config_File\<close>: the lines that are saved, the parser that loads them, and the round trip.
  \<^item> \<^verbatim>\<open>Glib_Dirs\<close>: \<^verbatim>\<open>g_path_get_dirname\<close> and \<^verbatim>\<open>g_mkdir_with_parents\<close> of \<^verbatim>\<open>gfileutils.c\<close> on a tree of directories and files,
    the rounds over a path equal to making its parts one after the other, and when saving can make its directory.
  \<^item> \<^verbatim>\<open>Float_Format\<close>, \<^verbatim>\<open>Config_Types\<close>: which numbers single precision holds; setters, files and zathura settings as one machine
    whose invariant is that every field has a value of its C type and the settings are legal.

  \<^bold>\<open>Streaming and playback\<close> (\<^verbatim>\<open>tts-streaming-engine.c\<close>, \<^verbatim>\<open>tts-audio-controller.c\<close>).
  \<^item> \<^verbatim>\<open>Session_Machine\<close>: the locales \<^verbatim>\<open>guarded_machine\<close>, \<^verbatim>\<open>op_machine\<close> and \<^verbatim>\<open>restable_machine\<close>: operations that keep an invariant, and
    one that brings the component back to rest; \<^verbatim>\<open>refined_machine\<close> and \<^verbatim>\<open>simulated_machine\<close>: operations that follow those of a
    simpler machine, through an abstraction or a relation.
  \<^item> \<^verbatim>\<open>Streaming_Engine\<close>: life cycle, child and pipe, queue, and the rounds of the two threads as functions on the
    engine and its surroundings (the record \<^verbatim>\<open>stream_world\<close>).
  \<^item> \<^verbatim>\<open>Feeder_Threads\<close>: the feeder thread and the calling thread as a step relation with the mutex and the condition
    variable, for the properties that depend on interleaving: order, mutual exclusion, the deadlock by a lost
    wake-up and the read of a freed segment.
  \<^item> \<^verbatim>\<open>Feeder_Progress\<close>: a measure that every step decreases, so every run of the threads ends, and what has been taken when it
    ends without a stop: everything queued.
  \<^item> \<^verbatim>\<open>Feeder_Linear\<close>: the two views agree: each interleaving without a stop has the effect of a sequence of the whole operations of
    \<^verbatim>\<open>Streaming_Engine\<close>.
  \<^item> \<^verbatim>\<open>Glib_Queue\<close>: \<^verbatim>\<open>gqueue.c\<close> and \<^verbatim>\<open>glist.c\<close> of the glib on a heap of linked nodes, shown to simulate the plain list that the
    streaming engine's queue is in the model.
  \<^item> \<^verbatim>\<open>Io_Channel\<close>: the buffered channel of \<^verbatim>\<open>giochannel.c\<close> on a pipe that does not block (\<^verbatim>\<open>giounix.c\<close>, \<^verbatim>\<open>gstring.c\<close>): writing,
    flushing and closing, for any sequence of answers of the kernel. What a write reports is what it added, cut between two
    characters.
  \<^item> \<^verbatim>\<open>Feeder_Channel\<close>: the calls of the feeder on that channel, which give the answers (\<^verbatim>\<open>write_env\<close>) the model of the engine takes as
    given, and a text that is cut without notice.
  \<^item> \<^verbatim>\<open>Glib_Mutex\<close>: the mutex and the condition variable of \<^verbatim>\<open>gthread-posix.c\<close> on the futex of the kernel, for any number of threads.
    They implement a monitor, and so do, in their steps, the threads of \<^verbatim>\<open>Feeder_Threads\<close> (the locale \<^verbatim>\<open>monitor_user\<close>, interpreted
    for both); mutual exclusion, and under which use no wake-up is lost.
  \<^item> \<^verbatim>\<open>Audio_Controller\<close>: playback state, sessions, position, navigation, settings. Its state and that of the streaming
    engine stay in step.
  \<^item> \<^verbatim>\<open>Audio_Memory\<close>: who owns which segment; no call and no feeder round touches freed memory, for all texts but those
    of exactly 10000 bytes.
  \<^item> \<^verbatim>\<open>Audio_Locks\<close>: the functions of the controller with their mutex, as programs whose steps interleave with those of other
    threads. Alone each is the step of \<^verbatim>\<open>Audio_Controller\<close>; together they keep the rules of the playback state and never block each other.
    \<^verbatim>\<open>monitor_user\<close> is interpreted for them as well.

  \<^bold>\<open>Speech engines\<close> (\<^verbatim>\<open>tts-engine.c\<close>, \<^verbatim>\<open>tts-engine-piper.c\<close>, \<^verbatim>\<open>tts-engine-speechd.c\<close>, \<^verbatim>\<open>tts-engine-espeak.c\<close>).
  \<^item> \<^verbatim>\<open>Glib_Shell\<close>: \<^verbatim>\<open>gshell.c\<close> of the glib: quoting, unquoting and splitting of command lines; quoted words parse back.
  \<^item> \<^verbatim>\<open>Engine_Process\<close>: the operating system's table of children, signals, waiting, spawning.
  \<^item> \<^verbatim>\<open>Speech_Engines\<close>: the operations of the three engines. The fields they share are one record; what they have three
    times in C is one definition here, with the lines of one of them.
  \<^item> \<^verbatim>\<open>Tts_Engine\<close>: the calls through the table of operations, creation, detection, preference, voices, configurations.
  \<^item> \<^verbatim>\<open>Engine_Contract\<close>: the locale \<^verbatim>\<open>child_owner_engine\<close> states what a table promises about the children of its engine;
    \<^verbatim>\<open>speech_engine\<close> adds that a stop succeeds and is interpreted for all three; \<^verbatim>\<open>prompt_engine\<close> adds that speaking returns, which holds for two of them.
  \<^item> \<^verbatim>\<open>Engine_Commands\<close>: what the text becomes on a command line, and which engine is chosen.
  \<^item> \<^verbatim>\<open>Old_Engine\<close>: \<^verbatim>\<open>tts-engine-old.c\<close>, from which these files were made: the functions that were changed since, with the
    ranges of their command lines and the calls that wait for ever.

  \<^bold>\<open>User interface and plugin\<close> (\<^verbatim>\<open>tts-ui-controller.c\<close>, \<^verbatim>\<open>plugin.c\<close>).
  \<^item> \<^verbatim>\<open>Ui_Controller\<close>: the record \<^verbatim>\<open>desk\<close> is the controller with all it can reach: audio controller, document, status line,
    timeouts, registrations, error reports. Status line, notifications and callbacks act on it.
  \<^item> \<^verbatim>\<open>Ui_Handlers\<close>: the shortcut functions and the commands.
  \<^item> \<^verbatim>\<open>Ui_Machine\<close>: the invariant of the user interface and its preservation by every handler in any order.
  \<^item> \<^verbatim>\<open>Ui_Properties\<close>: which pages a toggle reads, what a failed start leaves, which speeds can be set.
  \<^item> \<^verbatim>\<open>Reader_Refinement\<close>: the specification of the whole: a reader that has a state and a list of texts still to be read. Every
    shortcut and command, every timeout, error report and round of the feeder does to it what the specification says, and
    a reading speaks exactly the sentences of its pages, in order.
  \<^item> \<^verbatim>\<open>Plugin\<close>: initialisation and clean-up over all components, with what outlives the plugin.

  \<^bold>\<open>State and effects.\<close> Every operation takes the state it changes and returns it. A NULL pointer is \<^verbatim>\<open>None\<close>. A boolean
  result with an error argument is a pair; reports to callbacks are lists of events in the state, in their order.
  Integers are unbounded, but for page numbers, which wrap at 32 bits where the toggle computes them, bytes, code points,
  the length of a glib queue and the words of the mutex and the condition variable, which are words of 32 bits.

  \<^bold>\<open>Termination.\<close> No fuel is used: all loops are structural or have a measure, but for those over the nodes of a glib list and the bytes of
  an unchecked string, which have no result when they do not end or leave the memory, and are shown to have one. A call that may wait for ever (a wait for a
  child that does not end) has no result, the value \<^verbatim>\<open>None\<close>; where it does return is proved as such. The threads are
  a step relation, where waiting for ever is a state without a step. The kernel's answers to a channel are a finite list, after
  which the pipe is full: a write that does not block then ends, one that blocks has no result.

  \<^bold>\<open>Parameters.\<close> What is outside the repository is an argument: the document and its pages (zathura), the settings and
  notifications of girara, the file system, the time, the exit status of shell commands, the answers of
  the operating system to spawning, writing and waiting, and whether a child obeys a termination signal.

  \<^bold>\<open>Not modelled.\<close> Allocations that fail; debug messages; overflow of page and segment numbers beyond 32 bits elsewhere than in the toggle; the loss of a
  text to a child that ends while it is written. The tests only call the rest. Of the glib only the parts named above are modelled: the shell words, the UTF-8 functions, the queue, the channel, the mutex and the condition
  variable, making directories, as far as the theories say; of the channel this is writing UTF-8 without conversion to a descriptor that is not seekable, and the model of the
  streaming engine itself sees only what the channel took. The directories of zathura and of its pdf plugin are empty.
\<close>

end
